(* ===== verification/WoOS_Prelude.thy ===== *)
theory WoOS_Prelude
  imports Main "HOL-Library.Word"
begin

text \<open>
  Shared vocabulary of the development: the C integer types as words, the collections of
  rewrite rules the component theories draw on, and the facts about words, alignment and
  ring buffers that more than one component needs.
\<close>

unbundle bit_operations_syntax

type_synonym u8 = "8 word"
type_synonym u16 = "16 word"
type_synonym u32 = "32 word"
type_synonym u64 = "64 word"

text \<open>The fixed-width signed types are read through \<open>sint\<close>.\<close>

type_synonym i8 = "8 word"
type_synonym i32 = "32 word"
type_synonym i64 = "64 word"

named_theorems kernel_defs "small definitions of a component that proofs unfold freely"
named_theorems ring_simps "rewriting of ring buffer windows"

text \<open>The I/O ports of a device in state \<^typ>\<open>'d\<close>: what \<^verbatim>\<open>inb\<close> returns and what \<^verbatim>\<open>outb\<close> does.\<close>

record 'd ports =
  port_in :: "u16 \<Rightarrow> 'd \<Rightarrow> u8 \<times> 'd"
  port_out :: "u16 \<Rightarrow> u8 \<Rightarrow> 'd \<Rightarrow> 'd"

text \<open>The bytes of a string literal, without its terminator.\<close>

definition lit :: "string \<Rightarrow> u8 list" where
  "lit s = map of_char s"

section \<open>Counting up\<close>

lemma all_ge_step: "(\<forall>k\<ge>i. P k) \<longleftrightarrow> P i \<and> (\<forall>k\<ge>Suc i. P k)" for i :: nat
  by (metis Suc_leD Suc_leI le_eq_less_or_eq)

section \<open>Words\<close>

lemma all_less_numeral:
  "(\<forall>n < numeral k. P n) \<longleftrightarrow> P (pred_numeral k) \<and> (\<forall>n < pred_numeral k. P n)"
  by (simp add: numeral_eq_Suc All_less_Suc)

lemma word_bits_eq: "a = b \<longleftrightarrow> (\<forall>n < LENGTH('a). bit a n = bit b n)" for a b :: "'a::len word"
  by (auto intro: bit_word_eqI)

lemma unat_of_nat_small: "n < 2 ^ LENGTH('a) \<Longrightarrow> unat (of_nat n :: 'a::len word) = n"
  by (simp add: unat_of_nat take_bit_nat_eq_self)

lemma unat_plus_one:
  fixes w :: "'a::len word"
  assumes "Suc (unat w) < 2 ^ LENGTH('a)"
  shows "unat (w + 1) = Suc (unat w)"
  using assms by (metis Suc_eq_plus1 unat_1 unat_add_lem)

lemma unat_minus_one_pos:
  fixes w :: "'a::len word"
  assumes "w \<noteq> 0"
  shows "unat (w - 1) = unat w - 1"
  using assms by (simp add: unat_minus_one)

lemma unat_sub_le:
  fixes a b :: "'a::len word"
  assumes "b \<le> a"
  shows "unat (a - b) = unat a - unat b"
  using assms by (rule unat_sub)

lemma unat_plus_no_wrap:
  fixes a b :: "'a::len word"
  assumes "unat a + unat b < 2 ^ LENGTH('a)"
  shows "unat (a + b) = unat a + unat b"
  using assms by (simp add: unat_add_lem)

lemma unat_mult_no_wrap:
  fixes a b :: "'a::len word"
  assumes "unat a * unat b < 2 ^ LENGTH('a)"
  shows "unat (a * b) = unat a * unat b"
  using assms by (simp add: unat_mult_lem)

lemma unat_ucast_up:
  fixes w :: "'a::len word"
  assumes "LENGTH('a) \<le> LENGTH('b)"
  shows "unat (ucast w :: 'b::len word) = unat w"
proof -
  have "unat w < 2 ^ LENGTH('b)"
    using unsigned_less [of w, where 'a = nat] assms
    by (meson less_le_trans one_le_numeral power_increasing)
  then show ?thesis
    by (simp only: unsigned_ucast_eq take_bit_nat_eq_self)
qed

lemma and_power_nonzero_iff_bit:
  fixes w :: "'a::len word"
  shows "w AND push_bit n 1 \<noteq> 0 \<longleftrightarrow> bit w n"
  by (simp add: and_exp_eq_0_iff_not_bit push_bit_of_1)

lemma and_not_mask_word:
  fixes w :: "'a::len word"
  shows "w AND NOT (mask k) = push_bit k (drop_bit k w)"
  by (rule bit_word_eqI) (auto simp: bit_simps)

lemma unat_and_not_mask:
  fixes w :: "'a::len word"
  shows "unat (w AND NOT (mask k)) = unat w div 2 ^ k * 2 ^ k"
proof -
  have "unat (push_bit k (drop_bit k w)) = take_bit LENGTH('a) (unat w div 2 ^ k * 2 ^ k)"
    by (simp only: unsigned_push_bit_eq unsigned_drop_bit_eq)
      (simp add: push_bit_eq_mult drop_bit_eq_div take_bit_nat_eq_self)
  also have "\<dots> = unat w div 2 ^ k * 2 ^ k"
  proof -
    have "unat w div 2 ^ k * 2 ^ k \<le> unat w"
      by simp
    also have "unat w < 2 ^ LENGTH('a)"
      by (rule unsigned_less)
    finally show ?thesis
      by (simp add: take_bit_nat_eq_self)
  qed
  finally show ?thesis
    by (simp add: and_not_mask_word)
qed

lemma unat_and_mask:
  fixes w :: "'a::len word"
  shows "unat (w AND mask k) = unat w mod 2 ^ k"
  by (simp only: take_bit_eq_mask [symmetric] unsigned_take_bit_eq) (simp add: take_bit_eq_mod)

lemma unat_mask_word:
  assumes "k < LENGTH('a::len)"
  shows "unat (mask k :: 'a word) = 2 ^ k - 1"
proof -
  have "(2 ^ k :: nat) < 2 ^ LENGTH('a)"
    using assms by simp
  then have "unat (of_nat (2 ^ k - 1) :: 'a word) = 2 ^ k - 1"
    by (simp only: unsigned_of_nat take_bit_nat_eq_self less_imp_diff_less of_nat_id)
  moreover have "(of_nat (2 ^ k - 1) :: 'a word) = mask k"
    by (simp add: mask_eq_exp_minus_1 of_nat_diff)
  ultimately show ?thesis
    by simp
qed

lemma word_align_eq:
  fixes a :: "'a::len word"
  assumes "a AND mask k = 0"
  shows "a AND NOT (mask k) = a"
proof (rule bit_word_eqI)
  fix n
  have "\<not> bit (a AND mask k) n"
    using assms by simp
  then show "bit (a AND NOT (mask k)) n = bit a n"
    if "n < LENGTH('a)" using that by (auto simp: bit_simps)
qed

text \<open>Aligning up to a power of two, when the addition does not wrap.\<close>

lemma unat_align_up:
  fixes v :: "'a::len word"
  assumes "unat v + 2 ^ k - 1 < 2 ^ LENGTH('a)" and "k < LENGTH('a)"
  shows "unat ((v + (mask k)) AND NOT (mask k)) = (unat v + 2 ^ k - 1) div 2 ^ k * 2 ^ k"
proof -
  have "unat (mask k :: 'a word) = 2 ^ k - 1"
    using assms(2) by (simp only: unat_mask_word) 
  then have "unat (v + mask k) = unat v + 2 ^ k - 1"
    using assms(1) unat_plus_no_wrap [of v "mask k"]
    by (simp add: add.commute le_add_diff_inverse)
  then show ?thesis
    by (simp only: unat_and_not_mask)
qed

end
