(* ===== verification/Pmm.thy ===== *)
theory Pmm
  imports WoOS_Prelude
begin

text \<open>
  The physical page allocator, \<^verbatim>\<open>pmm.c\<close>: a bitmap with one bit per 4 KiB frame of the first
  4 GiB (set = in use), a rotating search index and two counters.  The state record carries the
  statics \<^verbatim>\<open>g_pmm\<close> and \<^verbatim>\<open>g_pmm_bitmap\<close>; the addresses of the linker symbols
  \<^verbatim>\<open>__kernel_start\<close> and \<^verbatim>\<open>__kernel_end\<close> are a parameter.  Frame numbers, which the C code
  keeps in \<^verbatim>\<open>uint64_t\<close> below \<^verbatim>\<open>PMM_MAX_PAGES + 2^32\<close>, are naturals; addresses and
  counters keep their width.  The specification is the set of free frames.
\<close>

section \<open>Boot information\<close>

record boot_memory_region =
  region_base :: u64
  region_length :: u64
  region_type :: u32
  region_attributes :: u32

record video_info =
  vi_magic :: u32
  vi_version :: u16
  vi_size :: u16
  vi_framebuffer :: u64
  vi_pitch :: u16
  vi_width :: u16
  vi_height :: u16
  vi_bpp :: u8
  vi_reserved :: u8
  memory_region_count :: u16
  memory_region_capacity :: u16
  memory_regions :: "nat \<Rightarrow> boot_memory_region"

definition BOOT_INFO_VERSION_V2 :: u16 where "BOOT_INFO_VERSION_V2 = 2"
definition BOOT_INFO_E820_TYPE_USABLE :: u32 where "BOOT_INFO_E820_TYPE_USABLE = 1"

record kernel_image =
  kernel_start_sym :: u64
  kernel_end_sym :: u64

section \<open>State and operations\<close>

definition PMM_PAGE_SIZE :: u64 where "PMM_PAGE_SIZE = 4096"
definition PMM_LOW_MEMORY_CUTOFF :: u64 where "PMM_LOW_MEMORY_CUTOFF = 0x00100000"
definition PMM_MAX_PAGES :: nat where "PMM_MAX_PAGES = 1048576"

record pmm =
  last_search_idx :: nat
  total_pages :: u64
  free_pages :: u64
  ready :: bool
  bitmap :: "nat \<Rightarrow> u8"

definition bitmap_set :: "nat \<Rightarrow> (nat \<Rightarrow> u8) \<Rightarrow> nat \<Rightarrow> u8" where
  "bitmap_set page_idx bm =
     bm(page_idx div 8 := bm (page_idx div 8) OR push_bit (page_idx mod 8) 1)"

definition bitmap_clear :: "nat \<Rightarrow> (nat \<Rightarrow> u8) \<Rightarrow> nat \<Rightarrow> u8" where
  "bitmap_clear page_idx bm =
     bm(page_idx div 8 := bm (page_idx div 8) AND NOT (push_bit (page_idx mod 8) 1))"

definition bitmap_test :: "(nat \<Rightarrow> u8) \<Rightarrow> nat \<Rightarrow> bool" where
  "bitmap_test bm page_idx \<longleftrightarrow> bm (page_idx div 8) AND push_bit (page_idx mod 8) 1 \<noteq> 0"

definition align_up_u64 :: "u64 \<Rightarrow> u64 \<Rightarrow> u64" where
  "align_up_u64 value align = (value + (align - 1)) AND NOT (align - 1)"

definition align_down_u64 :: "u64 \<Rightarrow> u64 \<Rightarrow> u64" where
  "align_down_u64 value align = value AND NOT (align - 1)"

definition range_overlaps :: "u64 \<Rightarrow> u64 \<Rightarrow> u64 \<Rightarrow> u64 \<Rightarrow> bool" where
  "range_overlaps start_a end_a start_b end_b \<longleftrightarrow> \<not> (end_a \<le> start_b \<or> end_b \<le> start_a)"

definition page_is_reserved :: "kernel_image \<Rightarrow> u64 \<Rightarrow> bool" where
  "page_is_reserved ki page_addr =
     (let page_end = page_addr + PMM_PAGE_SIZE;
          kernel_start = align_down_u64 (kernel_start_sym ki) PMM_PAGE_SIZE;
          kernel_end = align_up_u64 (kernel_end_sym ki) PMM_PAGE_SIZE in
      if page_addr < PMM_LOW_MEMORY_CUTOFF then True
      else if range_overlaps page_addr page_end kernel_start kernel_end then True
      else if range_overlaps page_addr page_end 0x01000000 0x01800000 then True
      else if range_overlaps page_addr page_end 0x01800000 0x02000000 then True
      else if range_overlaps page_addr page_end 0x02000000 0x0A000000 then True
      else False)"

text \<open>The body of the page loop of \<^verbatim>\<open>pmm_init\<close>, and the loop.\<close>

definition pmm_init_page :: "kernel_image \<Rightarrow> u64 \<Rightarrow> pmm \<Rightarrow> pmm" where
  "pmm_init_page ki page st =
     (let st = st\<lparr>total_pages := total_pages st + 1\<rparr> in
      if \<not> page_is_reserved ki page
      then st\<lparr>bitmap := bitmap_clear (unat (page div PMM_PAGE_SIZE)) (bitmap st),
              free_pages := free_pages st + 1\<rparr>
      else st)"

function pmm_init_pages :: "kernel_image \<Rightarrow> u64 \<Rightarrow> u64 \<Rightarrow> pmm \<Rightarrow> pmm" where
  "pmm_init_pages ki page region_end st =
     (if page < region_end then
        (if unat (page div PMM_PAGE_SIZE) \<ge> PMM_MAX_PAGES then st
         else pmm_init_pages ki (page + PMM_PAGE_SIZE) region_end (pmm_init_page ki page st))
      else st)"
  by pat_completeness auto

lemma page_index_small:
  fixes page :: u64
  assumes "unat (page div PMM_PAGE_SIZE) < PMM_MAX_PAGES"
  shows "unat page < 4294967296"
    and "unat (page + PMM_PAGE_SIZE) = unat page + 4096"
proof -
  have "unat page div 4096 < 1048576"
    using assms by (simp add: PMM_PAGE_SIZE_def PMM_MAX_PAGES_def unat_div)
  then show *: "unat page < 4294967296"
    by (simp add: div_less_iff_less_mult)
  show "unat (page + PMM_PAGE_SIZE) = unat page + 4096"
    using * by (subst unat_plus_no_wrap) (simp_all add: PMM_PAGE_SIZE_def)
qed

termination pmm_init_pages
proof (relation "measure (\<lambda>(ki, page, region_end, st). 4294967296 - unat page)")
qed (auto simp: page_index_small not_le dest!: page_index_small(1))

declare pmm_init_pages.simps [simp del]

definition pmm_init_region :: "kernel_image \<Rightarrow> boot_memory_region \<Rightarrow> pmm \<Rightarrow> pmm" where
  "pmm_init_region ki region st =
     (if region_type region \<noteq> BOOT_INFO_E820_TYPE_USABLE \<or> region_length region < PMM_PAGE_SIZE
      then st
      else
        let region_start = align_up_u64 (region_base region) PMM_PAGE_SIZE;
            region_end = align_down_u64 (region_base region + region_length region) PMM_PAGE_SIZE in
        if region_end \<le> region_start then st
        else pmm_init_pages ki region_start region_end st)"

definition pmm_reset :: pmm where
  "pmm_reset = \<lparr>last_search_idx = 0, total_pages = 0, free_pages = 0, ready = False,
                bitmap = (\<lambda>_. 0xFF)\<rparr>"

definition pmm_init :: "kernel_image \<Rightarrow> video_info option \<Rightarrow> pmm" where
  "pmm_init ki info =
     (case info of
        None \<Rightarrow> pmm_reset
      | Some vi \<Rightarrow>
          if vi_version vi < BOOT_INFO_VERSION_V2 \<or> memory_region_count vi = 0 then pmm_reset
          else
            let count = (if memory_region_count vi > memory_region_capacity vi
                         then memory_region_capacity vi else memory_region_count vi);
                st = fold (\<lambda>i st. pmm_init_region ki (memory_regions vi i) st)
                       [0..<unat count] pmm_reset in
            st\<lparr>ready := (free_pages st \<noteq> 0)\<rparr>)"

text \<open>The scan both loops of \<^verbatim>\<open>pmm_alloc_page\<close> make: the first clear bit of \<open>[i, lim)\<close>.\<close>

function find_clear :: "(nat \<Rightarrow> u8) \<Rightarrow> nat \<Rightarrow> nat \<Rightarrow> nat option" where
  "find_clear bm i lim =
     (if i < lim then (if \<not> bitmap_test bm i then Some i else find_clear bm (Suc i) lim)
      else None)"
  by pat_completeness auto
termination by (relation "measure (\<lambda>(bm, i, lim). lim - i)") auto

declare find_clear.simps [simp del]

definition page_ptr :: "nat \<Rightarrow> u64" where
  "page_ptr i = of_nat i * PMM_PAGE_SIZE"

definition pmm_take :: "nat \<Rightarrow> pmm \<Rightarrow> u64 \<times> pmm" where
  "pmm_take i st =
     (page_ptr i, st\<lparr>bitmap := bitmap_set i (bitmap st), free_pages := free_pages st - 1,
                     last_search_idx := i\<rparr>)"

definition pmm_alloc_page :: "pmm \<Rightarrow> u64 \<times> pmm" where
  "pmm_alloc_page st =
     (if \<not> ready st \<or> free_pages st = 0 then (0, st)
      else
        case find_clear (bitmap st) (last_search_idx st) PMM_MAX_PAGES of
          Some i \<Rightarrow> pmm_take i st
        | None \<Rightarrow>
            (case find_clear (bitmap st) 0 (last_search_idx st) of
               Some i \<Rightarrow> pmm_take i st
             | None \<Rightarrow> (0, st)))"

definition pmm_free_page :: "kernel_image \<Rightarrow> u64 \<Rightarrow> pmm \<Rightarrow> pmm" where
  "pmm_free_page ki page_addr st =
     (if \<not> ready st \<or> page_addr = 0 then st
      else if page_addr AND (PMM_PAGE_SIZE - 1) \<noteq> 0 \<or> page_is_reserved ki page_addr then st
      else
        let page_idx = unat (page_addr div PMM_PAGE_SIZE) in
        if page_idx \<ge> PMM_MAX_PAGES then st
        else if bitmap_test (bitmap st) page_idx
        then st\<lparr>bitmap := bitmap_clear page_idx (bitmap st), free_pages := free_pages st + 1,
                last_search_idx :=
                  (if page_idx < last_search_idx st then page_idx else last_search_idx st)\<rparr>
        else st)"

function find_run :: "(nat \<Rightarrow> u8) \<Rightarrow> u32 \<Rightarrow> nat \<Rightarrow> u32 \<Rightarrow> nat \<Rightarrow> (nat \<times> nat) option" where
  "find_run bm count i found_count start_idx =
     (if i < PMM_MAX_PAGES then
        (if \<not> bitmap_test bm i then
           (let start_idx = (if found_count = 0 then i else start_idx);
                found_count = found_count + 1 in
            if found_count = count then Some (start_idx, i)
            else find_run bm count (Suc i) found_count start_idx)
         else find_run bm count (Suc i) 0 start_idx)
      else None)"
  by pat_completeness auto
termination by (relation "measure (\<lambda>(bm, count, i, found, start). PMM_MAX_PAGES - i)") auto

declare find_run.simps [simp del]

definition pmm_alloc_pages_multi :: "u32 \<Rightarrow> pmm \<Rightarrow> u64 \<times> pmm" where
  "pmm_alloc_pages_multi count st =
     (if \<not> ready st \<or> free_pages st < ucast count \<or> count = 0 then (0, st)
      else
        case find_run (bitmap st) count 0 0 0 of
          Some (start_idx, i) \<Rightarrow>
            (page_ptr start_idx,
             st\<lparr>bitmap := fold bitmap_set [start_idx..<Suc i] (bitmap st),
                free_pages := free_pages st - ucast count\<rparr>)
        | None \<Rightarrow> (0, st))"

definition pmm_free_step :: "nat \<Rightarrow> pmm \<Rightarrow> pmm" where
  "pmm_free_step cur_idx st =
     (if cur_idx < PMM_MAX_PAGES \<and> bitmap_test (bitmap st) cur_idx
      then st\<lparr>bitmap := bitmap_clear cur_idx (bitmap st), free_pages := free_pages st + 1\<rparr>
      else st)"

definition pmm_free_pages_multi :: "u64 \<Rightarrow> u32 \<Rightarrow> pmm \<Rightarrow> pmm" where
  "pmm_free_pages_multi pages count st =
     (if \<not> ready st \<or> pages = 0 \<or> count = 0 then st
      else
        let page_idx = unat (pages div PMM_PAGE_SIZE) in
        fold (\<lambda>i. pmm_free_step (page_idx + i)) [0..<unat count] st)"

definition pmm_is_ready :: "pmm \<Rightarrow> bool" where "pmm_is_ready st = ready st"
definition pmm_total_pages :: "pmm \<Rightarrow> u64" where "pmm_total_pages st = total_pages st"
definition pmm_free_pages :: "pmm \<Rightarrow> u64" where "pmm_free_pages st = free_pages st"

definition pmm_reserved_pages :: "pmm \<Rightarrow> u64" where
  "pmm_reserved_pages st = total_pages st - free_pages st"

section \<open>The bitmap as a set of frames\<close>

lemma bitmap_test_bit: "bitmap_test bm i \<longleftrightarrow> bit (bm (i div 8)) (i mod 8)"
  by (simp only: bitmap_test_def and_power_nonzero_iff_bit)

lemma div_mod_8_cancel: "i div 8 = j div 8 \<Longrightarrow> i mod 8 = j mod 8 \<Longrightarrow> i = (j::nat)"
  by (metis div_mult_mod_eq)

lemma bitmap_test_set [simp]: "bitmap_test (bitmap_set i bm) j \<longleftrightarrow> j = i \<or> bitmap_test bm j"
  by (auto simp: bitmap_test_bit bitmap_set_def bit_simps dest: div_mod_8_cancel)

lemma bitmap_test_clear [simp]: "bitmap_test (bitmap_clear i bm) j \<longleftrightarrow> j \<noteq> i \<and> bitmap_test bm j"
  by (auto simp: bitmap_test_bit bitmap_clear_def bit_simps dest: div_mod_8_cancel)

lemma bitmap_test_full [simp]: "bitmap_test (\<lambda>_. 0xFF) i"
proof -
  have "i mod 8 < 8" by simp
  then have "i mod 8 \<in> {0,1,2,3,4,5,6,7}" by auto
  then show ?thesis
    by (simp only: bitmap_test_bit) auto
qed

lemma bitmap_test_set_fold [simp]:
  "bitmap_test (fold bitmap_set is bm) j \<longleftrightarrow> j \<in> set is \<or> bitmap_test bm j"
  by (induction "is" arbitrary: bm) auto

definition free_frames :: "pmm \<Rightarrow> nat set" where
  "free_frames st = {i. i < PMM_MAX_PAGES \<and> \<not> bitmap_test (bitmap st) i}"

lemma finite_free_frames [simp]: "finite (free_frames st)"
  by (simp add: free_frames_def)

lemma free_frames_take:
  "free_frames (snd (pmm_take i st)) = free_frames st - {i}"
  by (auto simp: free_frames_def pmm_take_def)

lemma card_free_frames: "card (free_frames st) \<le> PMM_MAX_PAGES"
proof -
  have "card (free_frames st) \<le> card {..<PMM_MAX_PAGES}"
    by (rule card_mono) (auto simp: free_frames_def)
  then show ?thesis by simp
qed

text \<open>Addresses of frames.\<close>

lemma unat_page_ptr:
  assumes "i < PMM_MAX_PAGES"
  shows "unat (page_ptr i) = i * 4096"
proof -
  have "unat (of_nat i :: u64) = i"
    using assms by (simp add: PMM_MAX_PAGES_def unsigned_of_nat take_bit_nat_eq_self)
  then show ?thesis
    using assms unat_mult_no_wrap [of "of_nat i :: u64" PMM_PAGE_SIZE]
    by (simp add: page_ptr_def PMM_PAGE_SIZE_def PMM_MAX_PAGES_def)
qed

lemma page_ptr_index [simp]:
  assumes "i < PMM_MAX_PAGES"
  shows "unat (page_ptr i div PMM_PAGE_SIZE) = i"
  by (simp add: unat_div unat_page_ptr [OF assms] PMM_PAGE_SIZE_def)

lemma page_ptr_aligned [simp]:
  assumes "i < PMM_MAX_PAGES"
  shows "page_ptr i AND (PMM_PAGE_SIZE - 1) = 0"
proof -
  have "unat (page_ptr i AND mask 12) = 0"
    by (simp only: unat_and_mask) (simp add: unat_page_ptr [OF assms])
  then show ?thesis
    by (simp add: PMM_PAGE_SIZE_def mask_eq_exp_minus_1 unsigned_eq_0_iff)
qed

lemma page_ptr_inject: "i < PMM_MAX_PAGES \<Longrightarrow> j < PMM_MAX_PAGES \<Longrightarrow> page_ptr i = page_ptr j \<longleftrightarrow> i = j"
  by (metis page_ptr_index)

lemma page_ptr_eq_0: "i < PMM_MAX_PAGES \<Longrightarrow> page_ptr i = 0 \<longleftrightarrow> i = 0"
  by (metis unat_page_ptr mult_eq_0_iff unsigned_eq_0_iff zero_neq_numeral)

lemma aligned_page_ptr:
  assumes "a AND (PMM_PAGE_SIZE - 1) = 0"
  shows "page_ptr (unat (a div PMM_PAGE_SIZE)) = a"
proof -
  have mask: "PMM_PAGE_SIZE - 1 = mask 12"
    by (simp add: PMM_PAGE_SIZE_def mask_eq_exp_minus_1)
  have "unat a mod 4096 = 0"
    using assms unat_and_mask [of a 12] by (simp add: mask)
  then have "unat a div 4096 * 4096 = unat a"
    by auto
  then have "unat (a div 4096 * 4096) = unat a"
    using unsigned_less [of a] by (subst unat_mult_no_wrap) (simp_all add: unat_div)
  then show ?thesis
    by (simp add: page_ptr_def PMM_PAGE_SIZE_def word_unat_eq_iff)
qed

lemma reserved_low: "page_is_reserved ki (page_ptr 0)"
  by (simp add: page_is_reserved_def page_ptr_def PMM_LOW_MEMORY_CUTOFF_def Let_def)

section \<open>The invariant\<close>

text \<open>
  \<open>M\<close> is the set of frames the allocator was given: the usable, unreserved frames that
  \<^verbatim>\<open>pmm_init\<close> found.  Every free frame is one of them, the free counter counts them, and
  no frame of \<open>M\<close> is reserved (so none is frame 0, and \<open>NULL\<close> is never a frame's address).
\<close>

definition pmm_inv :: "kernel_image \<Rightarrow> nat set \<Rightarrow> pmm \<Rightarrow> bool" where
  "pmm_inv ki M st \<longleftrightarrow>
     ready st \<and> last_search_idx st < PMM_MAX_PAGES \<and>
     M \<subseteq> {i. i < PMM_MAX_PAGES \<and> \<not> page_is_reserved ki (page_ptr i)} \<and>
     free_frames st \<subseteq> M \<and>
     unat (free_pages st) = card (free_frames st) \<and>
     card M \<le> unat (total_pages st)"

lemma find_clear_Some:
  "find_clear bm i lim = Some j \<Longrightarrow>
   i \<le> j \<and> j < lim \<and> \<not> bitmap_test bm j \<and> (\<forall>k. i \<le> k \<longrightarrow> k < j \<longrightarrow> bitmap_test bm k)"
proof (induction bm i lim rule: find_clear.induct)
  case (1 bm i lim)
  then show ?case
    by (simp add: find_clear.simps [of bm i lim] all_ge_step [of i] Suc_le_eq split: if_splits)
qed

lemma find_clear_None:
  "find_clear bm i lim = None \<longleftrightarrow> (\<forall>k. i \<le> k \<longrightarrow> k < lim \<longrightarrow> bitmap_test bm k)"
proof (induction bm i lim rule: find_clear.induct)
  case (1 bm i lim)
  then show ?case
    by (simp add: find_clear.simps [of bm i lim] all_ge_step [of i] Suc_le_eq split: if_splits)
qed


lemma pmm_inv_D:
  assumes "pmm_inv ki M st"
  shows "i \<in> M \<Longrightarrow> i < PMM_MAX_PAGES" "i \<in> M \<Longrightarrow> \<not> page_is_reserved ki (page_ptr i)"
    "finite M" "i \<in> free_frames st \<Longrightarrow> i \<in> M" "0 \<notin> M" "ready st"
    "free_pages st = 0 \<longleftrightarrow> free_frames st = {}"
    "unat (free_pages st) = card (free_frames st)"
proof -
  have M: "M \<subseteq> {i. i < PMM_MAX_PAGES \<and> \<not> page_is_reserved ki (page_ptr i)}"
    using assms by (simp add: pmm_inv_def)
  then show "i \<in> M \<Longrightarrow> i < PMM_MAX_PAGES" "i \<in> M \<Longrightarrow> \<not> page_is_reserved ki (page_ptr i)"
    by auto
  show "finite M"
    by (rule finite_subset [of _ "{..<PMM_MAX_PAGES}"]) (use M in auto)
  show "0 \<notin> M"
    using M reserved_low by auto
  show "i \<in> free_frames st \<Longrightarrow> i \<in> M" "ready st"
    using assms by (auto simp: pmm_inv_def)
  show *: "unat (free_pages st) = card (free_frames st)"
    using assms by (simp add: pmm_inv_def)
  show "free_pages st = 0 \<longleftrightarrow> free_frames st = {}"
    by (metis "*" card_0_eq finite_free_frames unsigned_eq_0_iff)
qed

lemma pmm_inv_take:
  assumes inv: "pmm_inv ki M st" and i: "i \<in> free_frames st"
  shows "pmm_inv ki M (snd (pmm_take i st))"
proof -
  have "unat (free_pages st - 1) = card (free_frames st - {i})"
    using i pmm_inv_D(7,8) [OF inv] by (auto simp: unat_minus_one_pos)
  then show ?thesis
    using inv i free_frames_take [of i st]
    by (auto simp: pmm_inv_def pmm_take_def free_frames_def)
qed

lemma pmm_alloc_page_cases:
  assumes inv: "pmm_inv ki M st"
  obtains (none) "free_frames st = {}" "pmm_alloc_page st = (0, st)"
    | (page) i where "i \<in> free_frames st" "pmm_alloc_page st = pmm_take i st"
proof (cases "free_frames st = {}")
  case True
  then show ?thesis
    using none pmm_inv_D(7) [OF inv] by (simp add: pmm_alloc_page_def)
next
  case False
  have lim: "last_search_idx st < PMM_MAX_PAGES" and rd: "ready st" "free_pages st \<noteq> 0"
    using inv False pmm_inv_D(7) [OF inv] by (auto simp: pmm_inv_def)
  show ?thesis
  proof (cases "find_clear (bitmap st) (last_search_idx st) PMM_MAX_PAGES")
    case (Some i)
    then have "i \<in> free_frames st"
      by (auto simp: free_frames_def dest: find_clear_Some)
    with Some rd show ?thesis
      by (intro page) (simp_all add: pmm_alloc_page_def)
  next
    case upper: None
    from False obtain k where k: "k < PMM_MAX_PAGES" "\<not> bitmap_test (bitmap st) k"
      by (auto simp: free_frames_def)
    with upper have "k < last_search_idx st"
      by (meson find_clear_None not_le)
    with k obtain i where i: "find_clear (bitmap st) 0 (last_search_idx st) = Some i"
      using find_clear_None by (metis not_None_eq zero_le)
    then have "i \<in> free_frames st"
      using lim by (auto simp: free_frames_def dest!: find_clear_Some)
    with upper i rd show ?thesis
      by (intro page) (simp_all add: pmm_alloc_page_def)
  qed
qed

lemma pmm_free_page_frame:
  assumes inv: "pmm_inv ki M st" and i: "i \<in> M"
  shows "free_frames (pmm_free_page ki (page_ptr i) st) = insert i (free_frames st)"
    and "pmm_inv ki M (pmm_free_page ki (page_ptr i) st)"
proof -
  have i': "i < PMM_MAX_PAGES" "\<not> page_is_reserved ki (page_ptr i)" "i \<noteq> 0"
    using pmm_inv_D [OF inv] i by metis+
  then have eq: "pmm_free_page ki (page_ptr i) st =
      (if i \<in> free_frames st then st
       else st\<lparr>bitmap := bitmap_clear i (bitmap st), free_pages := free_pages st + 1,
               last_search_idx := (if i < last_search_idx st then i else last_search_idx st)\<rparr>)"
    using pmm_inv_D(6) [OF inv]
    by (simp add: pmm_free_page_def page_ptr_eq_0 Let_def not_le free_frames_def)
  show set: "free_frames (pmm_free_page ki (page_ptr i) st) = insert i (free_frames st)"
    by (auto simp: eq free_frames_def i')
  show "pmm_inv ki M (pmm_free_page ki (page_ptr i) st)"
  proof (cases "i \<in> free_frames st")
    case False
    have "card (insert i (free_frames st)) \<le> PMM_MAX_PAGES"
      using card_free_frames [of "pmm_free_page ki (page_ptr i) st"] by (simp only: set)
    then have "unat (free_pages st + 1) = card (insert i (free_frames st))"
      using False pmm_inv_D(8) [OF inv]
      by (subst unat_plus_one) (simp_all add: PMM_MAX_PAGES_def)
    with False set inv i i' show ?thesis
      by (auto simp: pmm_inv_def eq)
  qed (simp add: eq inv)
qed


section \<open>Runs of frames\<close>

definition run_free :: "(nat \<Rightarrow> u8) \<Rightarrow> nat \<Rightarrow> nat \<Rightarrow> bool" where
  "run_free bm s n \<longleftrightarrow> s + n \<le> PMM_MAX_PAGES \<and> (\<forall>k. s \<le> k \<longrightarrow> k < s + n \<longrightarrow> \<not> bitmap_test bm k)"

text \<open>
  What the scan knows at frame \<open>i\<close>: it stands at the end of a run of \<open>found\<close> clear bits that
  starts at \<open>start\<close>, shorter than the count asked for.
\<close>

definition at_run :: "(nat \<Rightarrow> u8) \<Rightarrow> u32 \<Rightarrow> nat \<Rightarrow> u32 \<Rightarrow> nat \<Rightarrow> bool" where
  "at_run bm count i found start \<longleftrightarrow>
     unat found < unat count \<and> unat found \<le> i \<and>
     (found \<noteq> 0 \<longrightarrow> start + unat found = i) \<and>
     (\<forall>k. i - unat found \<le> k \<longrightarrow> k < i \<longrightarrow> \<not> bitmap_test bm k)"

lemma at_run_step:
  assumes run: "at_run bm count i found start" and clear: "\<not> bitmap_test bm i"
  shows "unat (found + 1) = Suc (unat found)"
    and "found + 1 \<noteq> count \<Longrightarrow>
         at_run bm count (Suc i) (found + 1) (if found = 0 then i else start)"
    and "(if found = 0 then i else start) = i - unat found"
proof -
  have lt: "unat found < unat count" and le: "unat found \<le> i"
    using run by (auto simp: at_run_def)
  then have "Suc (unat found) < 2 ^ LENGTH(32)"
    using unsigned_less [of count, where 'a = nat] by linarith
  then show suc: "unat (found + 1) = Suc (unat found)"
    by (rule unat_plus_one)
  show start: "(if found = 0 then i else start) = i - unat found"
    using run by (auto simp: at_run_def)
  show "at_run bm count (Suc i) (found + 1) (if found = 0 then i else start)"
    if "found + 1 \<noteq> count"
  proof -
    have "Suc (unat found) \<noteq> unat count"
      using that suc by (metis word_unat_eq_iff)
    with lt have "Suc (unat found) < unat count"
      by simp
    with run clear suc le start show ?thesis
      by (auto simp: at_run_def less_Suc_eq)
  qed
qed

lemma find_run_Some:
  assumes "find_run bm count i found start = Some (s, e)" "at_run bm count i found start"
  shows "e = s + unat count - 1 \<and> run_free bm s (unat count)"
  using assms
proof (induction bm count i found start rule: find_run.induct)
  case (1 bm count i found start)
  show ?case
  proof (cases "i < PMM_MAX_PAGES \<and> \<not> bitmap_test bm i")
    case True
    note step = at_run_step [OF "1.prems"(2)]
    show ?thesis
    proof (cases "found + 1 = count")
      case found: True
      then have "s = i - unat found" "e = i" "unat count = Suc (unat found)"
        using "1.prems"(1) True step(1,3) by (auto simp: find_run.simps [of bm count i] split: if_splits)
      moreover have "unat found \<le> i"
        using "1.prems"(2) by (simp add: at_run_def)
      ultimately show ?thesis
        using "1.prems"(2) True by (auto simp: run_free_def at_run_def less_Suc_eq)
    next
      case False
      then show ?thesis
        using True "1.prems"(1) step(2)
        by (intro "1.IH"(1)) (simp_all add: find_run.simps [of bm count i] Let_def)
    qed
  next
    case False
    then show ?thesis
      using "1.prems" by (intro "1.IH"(2))
        (auto simp: find_run.simps [of bm count i] at_run_def split: if_splits)
  qed
qed

text \<open>First fit: the scan stops at or before every run that starts where it has not been yet.\<close>

lemma find_run_first:
  assumes "at_run bm count i found start" "run_free bm r (unat count)" "i - unat found \<le> r"
  shows "\<exists>s e. find_run bm count i found start = Some (s, e) \<and> s \<le> r"
  using assms
proof (induction bm count i found start rule: find_run.induct)
  case (1 bm count i found start)
  have lt: "unat found < unat count" "unat found \<le> i"
    using "1.prems"(1) by (auto simp: at_run_def)
  then have inside: "i < r + unat count"
    using "1.prems"(3) by linarith
  then have i: "i < PMM_MAX_PAGES"
    using "1.prems"(2) by (simp add: run_free_def)
  show ?case
  proof (cases "bitmap_test bm i")
    case True
    then have "\<not> r \<le> i"
      using "1.prems"(2) inside by (auto simp: run_free_def)
    moreover have "at_run bm count (Suc i) 0 start"
      using lt by (simp add: at_run_def)
    ultimately show ?thesis
      using True i "1.prems"(2) "1.IH"(2) by (simp add: find_run.simps [of bm count i])
  next
    case False
    note step = at_run_step [OF "1.prems"(1) False]
    show ?thesis
      using "1.IH"(1) [OF i False refl refl] step "1.prems"(2,3) i False
      by (auto simp: find_run.simps [of bm count i] Let_def)
  qed
qed

lemma at_run_start: "count \<noteq> 0 \<Longrightarrow> at_run bm count 0 0 0"
  by (simp add: at_run_def unat_gt_0)

lemma run_free_card:
  assumes "run_free (bitmap st) s n"
  shows "n \<le> card (free_frames st)"
proof -
  have "{s..<s+n} \<subseteq> free_frames st"
    using assms by (auto simp: run_free_def free_frames_def)
  then have "card {s..<s+n} \<le> card (free_frames st)"
    by (rule card_mono [OF finite_free_frames])
  then show ?thesis by simp
qed

lemma pmm_alloc_pages_multi_cases:
  assumes inv: "pmm_inv ki M st" and count: "count \<noteq> 0"
  obtains (none) "pmm_alloc_pages_multi count st = (0, st)" "\<nexists>s. run_free (bitmap st) s (unat count)"
    | (run) s st' where "pmm_alloc_pages_multi count st = (page_ptr s, st')"
        "run_free (bitmap st) s (unat count)"
        "\<And>r. run_free (bitmap st) r (unat count) \<Longrightarrow> s \<le> r"
        "free_frames st' = free_frames st - {s..<s + unat count}" "pmm_inv ki M st'"
proof (cases "find_run (bitmap st) count 0 0 0")
  case None
  then have "\<nexists>s. run_free (bitmap st) s (unat count)"
    using find_run_first [OF at_run_start [OF count]] by fastforce
  with None show ?thesis
    by (intro none) (simp_all add: pmm_alloc_pages_multi_def)
next
  case (Some se)
  obtain s e where se: "se = (s, e)" by force
  have run_s: "run_free (bitmap st) s (unat count)" and e: "e = s + unat count - 1"
    using find_run_Some [OF _ at_run_start [OF count]] Some se by auto
  have pos: "0 < unat count"
    using count by (simp add: unat_gt_0)
  have ucast: "unat (ucast count :: u64) = unat count"
    by (rule unat_ucast_up) simp
  have le: "(ucast count :: u64) \<le> free_pages st"
    using run_free_card [OF run_s] pmm_inv_D(8) [OF inv] ucast by (simp add: word_le_nat_alt)
  let ?st' = "st\<lparr>bitmap := fold bitmap_set [s..<Suc e] (bitmap st),
                free_pages := free_pages st - ucast count\<rparr>"
  have alloc: "pmm_alloc_pages_multi count st = (page_ptr s, ?st')"
    using Some se leD [OF le] count pmm_inv_D(6) [OF inv]
    by (simp add: pmm_alloc_pages_multi_def)
  have frames: "free_frames ?st' = free_frames st - {s..<s + unat count}"
    using e pos by (auto simp: free_frames_def)
  have sub: "{s..<s + unat count} \<subseteq> free_frames st"
    using run_s by (auto simp: run_free_def free_frames_def)
  have "unat (free_pages ?st') = card (free_frames ?st')"
    unfolding frames using sub pmm_inv_D(8) [OF inv]
    by (simp add: unat_sub_le [OF le] ucast card_Diff_subset)
  then have "pmm_inv ki M ?st'"
    using inv frames by (auto simp: pmm_inv_def)
  moreover have "s \<le> r" if "run_free (bitmap st) r (unat count)" for r
    using find_run_first [OF at_run_start [OF count] that] Some se by auto
  ultimately show ?thesis
    using alloc run_s frames by (intro run) auto
qed


lemma pmm_free_step_frame:
  assumes inv: "pmm_inv ki M st" and i: "i \<in> M"
  shows "free_frames (pmm_free_step i st) = insert i (free_frames st)"
    and "pmm_inv ki M (pmm_free_step i st)"
proof -
  have i': "i < PMM_MAX_PAGES"
    using pmm_inv_D [OF inv] i by metis
  have eq: "pmm_free_step i st =
      (if i \<in> free_frames st then st
       else st\<lparr>bitmap := bitmap_clear i (bitmap st), free_pages := free_pages st + 1\<rparr>)"
    by (simp add: pmm_free_step_def i' free_frames_def)
  show set: "free_frames (pmm_free_step i st) = insert i (free_frames st)"
    by (auto simp: eq free_frames_def i')
  show "pmm_inv ki M (pmm_free_step i st)"
  proof (cases "i \<in> free_frames st")
    case False
    have "card (insert i (free_frames st)) \<le> PMM_MAX_PAGES"
      using card_free_frames [of "pmm_free_step i st"] by (simp only: set)
    then have "unat (free_pages st + 1) = card (insert i (free_frames st))"
      using False pmm_inv_D(8) [OF inv]
      by (subst unat_plus_one) (simp_all add: PMM_MAX_PAGES_def)
    with False set inv i i' show ?thesis
      by (auto simp: pmm_inv_def eq)
  qed (simp add: eq inv)
qed

lemma pmm_free_steps:
  assumes "pmm_inv ki M st" "set is \<subseteq> M"
  shows "free_frames (fold pmm_free_step is st) = set is \<union> free_frames st \<and>
         pmm_inv ki M (fold pmm_free_step is st)"
  using assms by (induction "is" arbitrary: st) (auto simp: pmm_free_step_frame)

lemma pmm_free_pages_multi_frames:
  assumes inv: "pmm_inv ki M st" and sub: "{s..<s + unat count} \<subseteq> M" and count: "count \<noteq> 0"
  shows "free_frames (pmm_free_pages_multi (page_ptr s) count st) =
           {s..<s + unat count} \<union> free_frames st"
    and "pmm_inv ki M (pmm_free_pages_multi (page_ptr s) count st)"
proof -
  have "s \<in> M"
    using sub count by (auto simp: unat_gt_0)
  then have s: "s < PMM_MAX_PAGES" "page_ptr s \<noteq> 0"
    using pmm_inv_D [OF inv] page_ptr_eq_0 by metis+
  have "map ((+) s) [0..<unat count] = [s..<s + unat count]"
    by (rule nth_equalityI) auto
  moreover have "fold (\<lambda>i. pmm_free_step (s + i)) xs = fold pmm_free_step (map ((+) s) xs)" for xs
    by (simp add: fold_map comp_def)
  ultimately have eq: "pmm_free_pages_multi (page_ptr s) count st =
      fold pmm_free_step [s..<s + unat count] st"
    using s count pmm_inv_D(6) [OF inv] by (simp add: pmm_free_pages_multi_def)
  show "free_frames (pmm_free_pages_multi (page_ptr s) count st) =
           {s..<s + unat count} \<union> free_frames st"
    "pmm_inv ki M (pmm_free_pages_multi (page_ptr s) count st)"
    using pmm_free_steps [OF inv] sub by (simp_all add: eq)
qed


section \<open>Initialisation\<close>

definition frames_between :: "u64 \<Rightarrow> u64 \<Rightarrow> nat set" where
  "frames_between s e = {i. i < PMM_MAX_PAGES \<and> unat s \<le> i * 4096 \<and> i * 4096 < unat e}"

definition region_frames :: "boot_memory_region \<Rightarrow> nat set" where
  "region_frames r =
     (if region_type r = BOOT_INFO_E820_TYPE_USABLE \<and> PMM_PAGE_SIZE \<le> region_length r
      then frames_between (align_up_u64 (region_base r) PMM_PAGE_SIZE)
             (align_down_u64 (region_base r + region_length r) PMM_PAGE_SIZE)
      else {})"

definition unreserved :: "kernel_image \<Rightarrow> nat set" where
  "unreserved ki = {i. \<not> page_is_reserved ki (page_ptr i)}"

text \<open>\<open>counted ki T st\<close>: the state after \<^verbatim>\<open>pmm_init\<close> has gone over exactly the frames \<open>T\<close>.\<close>

definition counted :: "kernel_image \<Rightarrow> nat set \<Rightarrow> pmm \<Rightarrow> bool" where
  "counted ki T st \<longleftrightarrow>
     T \<subseteq> {..<PMM_MAX_PAGES} \<and> last_search_idx st = 0 \<and>
     unat (total_pages st) = card T \<and> free_frames st = T \<inter> unreserved ki \<and>
     unat (free_pages st) = card (T \<inter> unreserved ki)"

lemma counted_reset: "counted ki {} pmm_reset"
  by (simp add: counted_def pmm_reset_def free_frames_def)

lemma counted_page:
  assumes c: "counted ki T st" and i: "i < PMM_MAX_PAGES" "i \<notin> T"
  shows "counted ki (insert i T) (pmm_init_page ki (page_ptr i) st)"
proof -
  have T: "T \<subseteq> {..<PMM_MAX_PAGES}" "finite T"
    using c by (auto simp: counted_def dest: finite_subset)
  have "card (insert i T) \<le> card {..<PMM_MAX_PAGES}"
    using T i by (intro card_mono) auto
  then have bound: "Suc (card T) \<le> 1048576"
    using T i by (simp add: PMM_MAX_PAGES_def)
  have le: "card (T \<inter> unreserved ki) \<le> card T"
    using T by (intro card_mono) auto
  have total: "unat (total_pages st + 1) = Suc (card T)"
    using c bound by (subst unat_plus_one) (simp_all add: counted_def)
  have free: "unat (free_pages st + 1) = Suc (card (T \<inter> unreserved ki))"
    using c bound le by (subst unat_plus_one) (simp_all add: counted_def)
  have "free_frames (st\<lparr>total_pages := t, bitmap := bitmap_clear i (bitmap st), free_pages := f\<rparr>) =
      insert i (free_frames st)" for t f
    using i by (auto simp: free_frames_def)
  moreover have "free_frames (st\<lparr>total_pages := t\<rparr>) = free_frames st" for t
    by (simp add: free_frames_def)
  ultimately show ?thesis
    using c T i total free
    by (simp add: counted_def pmm_init_page_def Let_def unreserved_def Int_insert_left)
qed

lemma frames_between_step:
  assumes "s AND (PMM_PAGE_SIZE - 1) = 0" "s < e" "unat (s div PMM_PAGE_SIZE) < PMM_MAX_PAGES"
  shows "frames_between s e =
           insert (unat (s div PMM_PAGE_SIZE)) (frames_between (s + PMM_PAGE_SIZE) e)"
    and "unat (s div PMM_PAGE_SIZE) \<notin> frames_between (s + PMM_PAGE_SIZE) e"
proof -
  let ?i = "unat (s div PMM_PAGE_SIZE)"
  have i: "unat s = ?i * 4096"
    by (metis aligned_page_ptr unat_page_ptr assms(1,3))
  have next_page: "unat (s + PMM_PAGE_SIZE) = Suc ?i * 4096"
    using page_index_small(2) [OF assms(3)] i by simp
  have lt: "?i * 4096 < unat e"
    using assms(2) i by (simp add: word_less_nat_alt)
  show "?i \<notin> frames_between (s + PMM_PAGE_SIZE) e"
    by (simp add: frames_between_def next_page)
  show "frames_between s e = insert ?i (frames_between (s + PMM_PAGE_SIZE) e)"
    using assms(3) lt by (auto simp: frames_between_def next_page i)
qed

lemma aligned_next_page:
  assumes "s AND (PMM_PAGE_SIZE - 1) = 0"
  shows "(s + PMM_PAGE_SIZE) AND (PMM_PAGE_SIZE - 1) = 0"
proof -
  have mask: "PMM_PAGE_SIZE - 1 = mask 12"
    by (simp add: PMM_PAGE_SIZE_def mask_eq_exp_minus_1)
  obtain k where k: "s = page_ptr k"
    by (metis aligned_page_ptr assms)
  have "s + PMM_PAGE_SIZE = (of_nat k + 1) * 2 ^ 12"
    by (simp add: k page_ptr_def PMM_PAGE_SIZE_def algebra_simps)
  then have "s + PMM_PAGE_SIZE = push_bit 12 (of_nat k + 1)"
    by (simp only: push_bit_eq_mult)
  then show ?thesis
    by (simp only: mask) (rule bit_word_eqI, auto simp: bit_simps)
qed

lemma counted_pages:
  assumes "counted ki T st" "s AND (PMM_PAGE_SIZE - 1) = 0" "frames_between s e \<inter> T = {}"
  shows "counted ki (T \<union> frames_between s e) (pmm_init_pages ki s e st)"
  using assms
proof (induction ki s e st arbitrary: T rule: pmm_init_pages.induct)
  case (1 ki s e st)
  let ?i = "unat (s div PMM_PAGE_SIZE)"
  show ?case
  proof (cases "s < e \<and> ?i < PMM_MAX_PAGES")
    case True
    then have step: "frames_between s e = insert ?i (frames_between (s + PMM_PAGE_SIZE) e)"
      "?i \<notin> frames_between (s + PMM_PAGE_SIZE) e"
      using frames_between_step "1.prems"(2) by blast+
    have "counted ki (insert ?i T) (pmm_init_page ki s st)"
      using counted_page [OF "1.prems"(1), of ?i] aligned_page_ptr [OF "1.prems"(2)] True
        "1.prems"(3) step by auto
    then have "counted ki (insert ?i T \<union> frames_between (s + PMM_PAGE_SIZE) e)
        (pmm_init_pages ki (s + PMM_PAGE_SIZE) e (pmm_init_page ki s st))"
      using True "1.prems" step by (intro "1.IH") (auto intro: aligned_next_page)
    then show ?thesis
      using True step by (simp add: pmm_init_pages.simps [of ki s])
  next
    case False
    have "frames_between s e = {}"
    proof (cases "s < e")
      case True
      then have "PMM_MAX_PAGES * 4096 \<le> unat s"
        using False by (simp add: PMM_PAGE_SIZE_def unat_div PMM_MAX_PAGES_def)
      then show ?thesis
        by (auto simp: frames_between_def)
    qed (auto simp: frames_between_def word_less_nat_alt)
    then show ?thesis
      using False "1.prems"(1) by (auto simp: pmm_init_pages.simps [of ki s])
  qed
qed

lemma align_up_aligned: "align_up_u64 v PMM_PAGE_SIZE AND (PMM_PAGE_SIZE - 1) = 0"
  by (simp add: align_up_u64_def and.assoc)

lemma counted_region:
  assumes "counted ki T st" "region_frames r \<inter> T = {}"
  shows "counted ki (T \<union> region_frames r) (pmm_init_region ki r st)"
proof -
  have "frames_between s e = {}" if "e \<le> s" for s e
    using that by (auto simp: frames_between_def word_le_nat_alt)
  then show ?thesis
    using assms counted_pages [OF assms(1) align_up_aligned]
    by (auto simp: pmm_init_region_def region_frames_def Let_def not_less split: if_splits)
qed

lemma counted_fold:
  assumes "counted ki T st" "distinct is" "\<forall>i\<in>set is. region_frames (r i) \<inter> T = {}"
    "\<forall>i\<in>set is. \<forall>j\<in>set is. i \<noteq> j \<longrightarrow> region_frames (r i) \<inter> region_frames (r j) = {}"
  shows "counted ki (T \<union> (\<Union>i\<in>set is. region_frames (r i)))
           (fold (\<lambda>i. pmm_init_region ki (r i)) is st)"
  using assms
proof (induction "is" arbitrary: T st)
  case (Cons i "is")
  have "counted ki ((T \<union> region_frames (r i)) \<union> (\<Union>i\<in>set is. region_frames (r i)))
      (fold (\<lambda>i. pmm_init_region ki (r i)) is (pmm_init_region ki (r i) st))"
    using Cons.prems by (intro Cons.IH counted_region) (auto 4 3)
  then show ?case
    by (simp add: Un_assoc)
qed simp


text \<open>The frames of a region are those that lie wholly inside it.\<close>

lemma region_frames_iff:
  assumes "unat (region_base r) + unat (region_length r) + 4095 < 2 ^ 64"
  shows "i \<in> region_frames r \<longleftrightarrow>
           region_type r = BOOT_INFO_E820_TYPE_USABLE \<and> i < PMM_MAX_PAGES \<and>
           unat (region_base r) \<le> i * 4096 \<and>
           i * 4096 + 4096 \<le> unat (region_base r) + unat (region_length r)"
proof -
  let ?b = "unat (region_base r)" and ?l = "unat (region_length r)"
  have mask: "PMM_PAGE_SIZE - 1 = mask 12"
    by (simp add: PMM_PAGE_SIZE_def mask_eq_exp_minus_1)
  have up: "unat (align_up_u64 (region_base r) PMM_PAGE_SIZE) = (?b + 4095) div 4096 * 4096"
    unfolding align_up_u64_def mask using assms by (subst unat_align_up) simp_all
  have "unat (region_base r + region_length r) = ?b + ?l"
    using assms by (intro unat_plus_no_wrap) simp
  then have down: "unat (align_down_u64 (region_base r + region_length r) PMM_PAGE_SIZE) =
      (?b + ?l) div 4096 * 4096"
    unfolding align_down_u64_def mask by (simp add: unat_and_not_mask)
  have len: "PMM_PAGE_SIZE \<le> region_length r \<longleftrightarrow> 4096 \<le> ?l"
    by (simp add: PMM_PAGE_SIZE_def word_le_nat_alt)
  have s: "(?b + 4095) div 4096 * 4096 \<le> i * 4096 \<longleftrightarrow> ?b \<le> i * 4096"
    by auto
  have e: "i * 4096 < (?b + ?l) div 4096 * 4096 \<longleftrightarrow> i * 4096 + 4096 \<le> ?b + ?l"
    by auto
  show ?thesis
    unfolding region_frames_def frames_between_def up down len by (auto simp: s e)
qed

definition usable_frames :: "video_info \<Rightarrow> nat set" where
  "usable_frames vi =
     (\<Union>i < unat (min (memory_region_count vi) (memory_region_capacity vi)).
        region_frames (memory_regions vi i))"

definition regions_disjoint :: "video_info \<Rightarrow> bool" where
  "regions_disjoint vi \<longleftrightarrow>
     (let n = unat (min (memory_region_count vi) (memory_region_capacity vi)) in
      \<forall>i < n. \<forall>j < n. i \<noteq> j \<longrightarrow>
        region_frames (memory_regions vi i) \<inter> region_frames (memory_regions vi j) = {})"

lemma pmm_init_counted:
  assumes "BOOT_INFO_VERSION_V2 \<le> vi_version vi" "memory_region_count vi \<noteq> 0"
    "regions_disjoint vi"
  obtains st where "pmm_init ki (Some vi) = st\<lparr>ready := (free_pages st \<noteq> 0)\<rparr>"
    "counted ki (usable_frames vi) st"
proof -
  let ?n = "unat (min (memory_region_count vi) (memory_region_capacity vi))"
  let ?st = "fold (\<lambda>i. pmm_init_region ki (memory_regions vi i)) [0..<?n] pmm_reset"
  have count: "(if memory_region_count vi > memory_region_capacity vi
      then memory_region_capacity vi else memory_region_count vi) =
      min (memory_region_count vi) (memory_region_capacity vi)"
    by (auto simp: min_def)
  have "counted ki ({} \<union> (\<Union>i\<in>set [0..<?n]. region_frames (memory_regions vi i))) ?st"
    using assms(3) by (intro counted_fold counted_reset) (auto simp: regions_disjoint_def Let_def)
  moreover have "pmm_init ki (Some vi) = ?st\<lparr>ready := (free_pages ?st \<noteq> 0)\<rparr>"
    using assms(1,2) by (simp add: pmm_init_def count Let_def not_less)
  ultimately show ?thesis
    using that by (simp add: usable_frames_def atLeast0LessThan)
qed

section \<open>The interface\<close>

text \<open>
  What the page-table code and the process loader rely on: an allocator of pages named by their
  addresses.  \<open>managed\<close> are the pages it may hand out, \<open>avail\<close> those it still has.
\<close>

primrec alloc_many :: "('s \<Rightarrow> u64 \<times> 's) \<Rightarrow> nat \<Rightarrow> 's \<Rightarrow> u64 list \<times> 's" where
  "alloc_many alloc 0 s = ([], s)"
| "alloc_many alloc (Suc n) s =
     (let (p, s') = alloc s; (ps, s'') = alloc_many alloc n s' in (p # ps, s''))"

locale page_allocator =
  fixes alloc :: "'s \<Rightarrow> u64 \<times> 's"
    and release :: "u64 \<Rightarrow> 's \<Rightarrow> 's"
    and avail :: "'s \<Rightarrow> u64 set"
    and managed :: "u64 set"
    and inv :: "'s \<Rightarrow> bool"
  assumes alloc_none: "inv s \<Longrightarrow> avail s = {} \<Longrightarrow> alloc s = (0, s)"
    and alloc_in: "inv s \<Longrightarrow> avail s \<noteq> {} \<Longrightarrow> fst (alloc s) \<in> avail s"
    and alloc_avail: "inv s \<Longrightarrow> avail (snd (alloc s)) = avail s - {fst (alloc s)}"
    and alloc_inv: "inv s \<Longrightarrow> inv (snd (alloc s))"
    and release_avail: "inv s \<Longrightarrow> p \<in> managed \<Longrightarrow> avail (release p s) = insert p (avail s)"
    and release_inv: "inv s \<Longrightarrow> p \<in> managed \<Longrightarrow> inv (release p s)"
    and avail_managed: "inv s \<Longrightarrow> avail s \<subseteq> managed"
    and managed_finite: "inv s \<Longrightarrow> finite managed"
    and managed_nonnull: "inv s \<Longrightarrow> 0 \<notin> managed"
begin

lemma alloc_null: "inv s \<Longrightarrow> fst (alloc s) = 0 \<longleftrightarrow> avail s = {}"
  using alloc_none alloc_in avail_managed managed_nonnull by (metis fst_conv subsetD)

lemma alloc_release:
  assumes "inv s" "fst (alloc s) \<noteq> 0"
  shows "avail (release (fst (alloc s)) (snd (alloc s))) = avail s"
proof -
  have "fst (alloc s) \<in> avail s"
    using assms alloc_null alloc_in by blast
  then show ?thesis
    using assms(1) avail_managed [OF assms(1)] by (auto simp: release_avail alloc_avail alloc_inv)
qed

lemma alloc_many_distinct:
  assumes "inv s" "n \<le> card (avail s)" "alloc_many alloc n s = (ps, s')"
  shows "length ps = n \<and> distinct ps \<and> set ps \<subseteq> avail s \<and> avail s' = avail s - set ps \<and> inv s'"
  using assms
proof (induction n arbitrary: s ps)
  case (Suc n)
  have fin: "finite (avail s)"
    using Suc.prems(1) avail_managed managed_finite by (blast intro: finite_subset)
  have ne: "avail s \<noteq> {}"
    using Suc.prems(2) by auto
  obtain qs where qs: "alloc_many alloc n (snd (alloc s)) = (qs, s')" "ps = fst (alloc s) # qs"
    using Suc.prems(3) by (auto split: prod.splits)
  have "n \<le> card (avail (snd (alloc s)))"
    using Suc.prems alloc_in [OF _ ne] fin by (simp add: alloc_avail)
  then show ?case
    using Suc.IH [OF alloc_inv [OF Suc.prems(1)] _ qs(1)] alloc_in [OF Suc.prems(1) ne] qs(2)
    by (auto simp: alloc_avail [OF Suc.prems(1)])
qed simp

end

interpretation pmm_pages:
  page_allocator pmm_alloc_page "pmm_free_page ki" "\<lambda>st. page_ptr ` free_frames st"
    "page_ptr ` M" "pmm_inv ki M" for ki M
proof
  fix s :: pmm
  assume inv: "pmm_inv ki M s"
  note M = pmm_inv_D [OF inv]
  have inj: "inj_on page_ptr {..<PMM_MAX_PAGES}"
    by (auto simp: inj_on_def page_ptr_inject)
  have sub: "free_frames s \<subseteq> {..<PMM_MAX_PAGES}"
    by (auto simp: free_frames_def)
  show "page_ptr ` free_frames s = {} \<Longrightarrow> pmm_alloc_page s = (0, s)"
    using inv by (auto elim: pmm_alloc_page_cases)
  show "page_ptr ` free_frames s \<noteq> {} \<Longrightarrow> fst (pmm_alloc_page s) \<in> page_ptr ` free_frames s"
    by (rule pmm_alloc_page_cases [OF inv]) (auto simp: pmm_take_def)
  show "page_ptr ` free_frames (snd (pmm_alloc_page s)) =
      page_ptr ` free_frames s - {fst (pmm_alloc_page s)}"
  proof (rule pmm_alloc_page_cases [OF inv])
    fix i
    assume i: "i \<in> free_frames s" "pmm_alloc_page s = pmm_take i s"
    then have "page_ptr ` (free_frames s - {i}) = page_ptr ` free_frames s - page_ptr ` {i}"
      using sub by (intro inj_on_image_set_diff [OF inj]) auto
    then show ?thesis
      using i free_frames_take by (simp add: pmm_take_def)
  qed auto
  show "pmm_inv ki M (snd (pmm_alloc_page s))"
    by (rule pmm_alloc_page_cases [OF inv]) (auto simp: pmm_inv_take inv)
  show "page_ptr ` free_frames (pmm_free_page ki p s) = insert p (page_ptr ` free_frames s)"
    "pmm_inv ki M (pmm_free_page ki p s)" if "p \<in> page_ptr ` M" for p
    using that pmm_free_page_frame [OF inv] by auto
  show "page_ptr ` free_frames s \<subseteq> page_ptr ` M"
    using M(4) by blast
  show "finite (page_ptr ` M)"
    using M(3) by simp
  show "0 \<notin> page_ptr ` M"
    using M(1,5) page_ptr_eq_0 by (metis imageE)
qed


section \<open>A concrete allocator\<close>

text \<open>Two free frames just above the kernel heap, with the kernel image in the first 2 MiB.\<close>

definition example_image :: kernel_image where
  "example_image = \<lparr>kernel_start_sym = 0x8000, kernel_end_sym = 0x200000\<rparr>"

definition example_pmm :: pmm where
  "example_pmm =
     \<lparr>last_search_idx = 40960, total_pages = 2, free_pages = 2, ready = True,
      bitmap = bitmap_clear 40961 (bitmap_clear 40960 (\<lambda>_. 0xFF))\<rparr>"

lemma example_free_frames [simp]: "free_frames example_pmm = {40960, 40961}"
  by (auto simp: free_frames_def example_pmm_def PMM_MAX_PAGES_def)

lemma example_unreserved:
  "\<not> page_is_reserved example_image (page_ptr 40960)"
  "\<not> page_is_reserved example_image (page_ptr 40961)"
  by (simp_all add: page_is_reserved_def example_image_def page_ptr_def PMM_PAGE_SIZE_def
      PMM_LOW_MEMORY_CUTOFF_def align_up_u64_def align_down_u64_def range_overlaps_def)

lemma example_inv [simp]: "pmm_inv example_image {40960, 40961} example_pmm"
proof -
  have "free_pages example_pmm = 2" "ready example_pmm" "total_pages example_pmm = 2"
    "last_search_idx example_pmm = 40960"
    by (simp_all add: example_pmm_def)
  then show ?thesis
    using example_unreserved by (auto simp: pmm_inv_def PMM_MAX_PAGES_def)
qed

section \<open>Properties\<close>

text \<open>
  C5: Under the allocator's invariant \<^verbatim>\<open>pmm_alloc_page\<close> returns \<^verbatim>\<open>NULL\<close>, changing nothing, exactly
  when no frame is free; otherwise it returns the address of a frame that was free, takes exactly
  that frame out of the free set and keeps the invariant (so the counter still counts the bitmap).
\<close>

theorem pmm_alloc_page_spec:
  assumes "pmm_inv ki M st"
  shows "if free_frames st = {} then pmm_alloc_page st = (0, st)
         else \<exists>i st'. pmm_alloc_page st = (page_ptr i, st') \<and> page_ptr i \<noteq> 0 \<and>
                i \<in> free_frames st \<and> free_frames st' = free_frames st - {i} \<and> pmm_inv ki M st'"
proof (rule pmm_alloc_page_cases [OF assms])
  fix i
  assume i: "i \<in> free_frames st" "pmm_alloc_page st = pmm_take i st"
  then have "page_ptr i \<noteq> 0"
    using pmm_inv_D [OF assms] page_ptr_eq_0 by metis
  then show ?thesis
    using i free_frames_take [of i st] pmm_inv_take [OF assms i(1)]
    by (auto simp: pmm_take_def)
qed simp

theorem pmm_alloc_page_spec_witness:
  "\<exists>i st'. pmm_alloc_page example_pmm = (page_ptr i, st') \<and> i \<in> {40960, 40961} \<and>
     free_frames st' = {40960, 40961} - {i} \<and> pmm_inv example_image {40960, 40961} st'"
  using pmm_alloc_page_spec [OF example_inv] by auto

text \<open>
  C22: \<^verbatim>\<open>pmm_free_page\<close> returns a managed frame to the free set and keeps the invariant, whether the
  frame was in use or already free (a double free changes nothing); an address that is unaligned,
  reserved or beyond the bitmap is ignored.
\<close>

theorem pmm_free_page_spec:
  assumes "pmm_inv ki M st"
  shows "(\<forall>i\<in>M. free_frames (pmm_free_page ki (page_ptr i) st) = insert i (free_frames st) \<and>
            pmm_inv ki M (pmm_free_page ki (page_ptr i) st)) \<and>
         (\<forall>i\<in>free_frames st. pmm_free_page ki (page_ptr i) st = st) \<and>
         (\<forall>a. a AND (PMM_PAGE_SIZE - 1) \<noteq> 0 \<or> page_is_reserved ki a \<or>
            PMM_MAX_PAGES \<le> unat (a div PMM_PAGE_SIZE) \<longrightarrow> pmm_free_page ki a st = st)"
  using pmm_free_page_frame [OF assms]
  by (auto simp: pmm_free_page_def Let_def free_frames_def)

theorem pmm_free_page_spec_witness:
  "free_frames (pmm_free_page example_image (page_ptr 40960) example_pmm) = {40960, 40961}"
  using pmm_free_page_spec [OF example_inv] by simp

text \<open>
  \<^verbatim>\<open>pmm_alloc_pages_multi\<close> is a complete first-fit search: it fails only when no \<open>count\<close>
  consecutive frames are free, and otherwise returns the lowest such run, takes exactly its frames
  and keeps the invariant.
\<close>

theorem pmm_alloc_pages_multi_spec:
  assumes "pmm_inv ki M st" "count \<noteq> 0"
  shows "if \<exists>s. run_free (bitmap st) s (unat count)
         then \<exists>s st'. pmm_alloc_pages_multi count st = (page_ptr s, st') \<and>
                run_free (bitmap st) s (unat count) \<and>
                (\<forall>r. run_free (bitmap st) r (unat count) \<longrightarrow> s \<le> r) \<and>
                free_frames st' = free_frames st - {s..<s + unat count} \<and> pmm_inv ki M st'
         else pmm_alloc_pages_multi count st = (0, st)"
  by (rule pmm_alloc_pages_multi_cases [OF assms]) auto

theorem pmm_alloc_pages_multi_spec_witness:
  "\<exists>s st'. pmm_alloc_pages_multi 2 example_pmm = (page_ptr s, st') \<and>
     free_frames st' = {40960, 40961} - {s..<s + 2}"
proof -
  have "run_free (bitmap example_pmm) 40960 (unat (2 :: u32))"
    by (auto simp: run_free_def example_pmm_def PMM_MAX_PAGES_def)
  then have "\<exists>s. run_free (bitmap example_pmm) s (unat (2 :: u32))" ..
  then show ?thesis
    using pmm_alloc_pages_multi_spec [OF example_inv, of 2]
    by (simp only: if_True) (auto simp: example_free_frames)
qed

text \<open>
  C21: \<^verbatim>\<open>pmm_init\<close> on a version-2 memory map with disjoint usable regions makes free exactly the
  usable frames that are not reserved, counts them and the usable frames, reports readiness when
  there is one, and establishes the invariant.
\<close>

theorem pmm_init_spec:
  assumes "BOOT_INFO_VERSION_V2 \<le> vi_version vi" "memory_region_count vi \<noteq> 0"
    "regions_disjoint vi"
  shows "free_frames (pmm_init ki (Some vi)) = usable_frames vi \<inter> unreserved ki \<and>
         unat (pmm_free_pages (pmm_init ki (Some vi))) = card (usable_frames vi \<inter> unreserved ki) \<and>
         unat (pmm_total_pages (pmm_init ki (Some vi))) = card (usable_frames vi) \<and>
         pmm_is_ready (pmm_init ki (Some vi)) = (usable_frames vi \<inter> unreserved ki \<noteq> {}) \<and>
         (usable_frames vi \<inter> unreserved ki \<noteq> {} \<longrightarrow>
            pmm_inv ki (usable_frames vi \<inter> unreserved ki) (pmm_init ki (Some vi)))"
proof -
  let ?T = "usable_frames vi"
  obtain st where st: "pmm_init ki (Some vi) = st\<lparr>ready := (free_pages st \<noteq> 0)\<rparr>"
    and c: "counted ki ?T st"
    using pmm_init_counted [OF assms] .
  have T: "?T \<subseteq> {..<PMM_MAX_PAGES}" "finite ?T"
    using c by (auto simp: counted_def dest: finite_subset)
  then have "card (?T \<inter> unreserved ki) \<le> card ?T"
    by (intro card_mono) auto
  moreover have "free_pages st \<noteq> 0 \<longleftrightarrow> ?T \<inter> unreserved ki \<noteq> {}"
    using c T(2) by (metis (no_types, lifting) card_0_eq counted_def finite_Int unsigned_eq_0_iff)
  moreover have "free_frames (st\<lparr>ready := r\<rparr>) = free_frames st" for r
    by (simp add: free_frames_def)
  moreover have "0 < PMM_MAX_PAGES"
    by (simp add: PMM_MAX_PAGES_def)
  ultimately show ?thesis
    using c T(1)
    by (auto simp: st counted_def pmm_inv_def pmm_free_pages_def pmm_total_pages_def
        pmm_is_ready_def unreserved_def)
qed

definition example_map :: "boot_memory_region \<Rightarrow> u16 \<Rightarrow> video_info" where
  "example_map r n =
     \<lparr>vi_magic = 0x31424957, vi_version = 2, vi_size = 0, vi_framebuffer = 0, vi_pitch = 0,
      vi_width = 0, vi_height = 0, vi_bpp = 32, vi_reserved = 0, memory_region_count = n,
      memory_region_capacity = 32, memory_regions = (\<lambda>_. r)\<rparr>"

definition one_frame :: boot_memory_region where
  "one_frame = \<lparr>region_base = 0x0A000000, region_length = 4096, region_type = 1,
                region_attributes = 0\<rparr>"

theorem pmm_init_spec_witness:
  "free_frames (pmm_init example_image (Some (example_map one_frame 1))) =
     usable_frames (example_map one_frame 1) \<inter> unreserved example_image"
  using pmm_init_spec [of "example_map one_frame 1" example_image]
  by (simp add: example_map_def BOOT_INFO_VERSION_V2_def regions_disjoint_def)

text \<open>
  Any number of calls of \<^verbatim>\<open>pmm_alloc_page\<close> up to the number of free frames hands out that many
  distinct non-null page addresses, each of a frame that was free, and the frames left are the others.
\<close>

theorem pmm_alloc_sequence_distinct:
  assumes "pmm_inv ki M st" "n \<le> card (free_frames st)"
    "alloc_many pmm_alloc_page n st = (ps, st')"
  shows "length ps = n \<and> distinct ps \<and> 0 \<notin> set ps \<and> set ps \<subseteq> page_ptr ` free_frames st \<and>
         page_ptr ` free_frames st' = page_ptr ` free_frames st - set ps \<and> pmm_inv ki M st'"
proof -
  have "card (page_ptr ` free_frames st) = card (free_frames st)"
    by (rule card_image) (auto simp: inj_on_def free_frames_def page_ptr_inject)
  then show ?thesis
    using pmm_pages.alloc_many_distinct [OF assms(1) _ assms(3)] assms(2)
      pmm_pages.managed_nonnull [OF assms(1)] pmm_pages.avail_managed [OF assms(1)]
    by (metis subsetD)
qed

theorem pmm_alloc_sequence_distinct_witness:
  "distinct (fst (alloc_many pmm_alloc_page 2 example_pmm))"
  using pmm_alloc_sequence_distinct [OF example_inv, of 2 "fst (alloc_many pmm_alloc_page 2 example_pmm)"
      "snd (alloc_many pmm_alloc_page 2 example_pmm)"]
  by simp

text \<open>
  Overlapping usable regions are counted twice: a memory map that lists the same one-frame
  region two times leaves one frame free and a free counter of two, so the counter promises a
  frame that the search cannot find.
\<close>

theorem pmm_init_overlap_double_count:
  "free_pages (pmm_init example_image (Some (example_map one_frame 2))) = 2 \<and>
   free_frames (pmm_init example_image (Some (example_map one_frame 2))) = {40960}"
proof -
  have res: "\<not> page_is_reserved example_image 0x0A000000"
    using example_unreserved(1) by (simp add: page_ptr_def PMM_PAGE_SIZE_def)
  have region: "pmm_init_region example_image one_frame st =
      st\<lparr>total_pages := total_pages st + 1, bitmap := bitmap_clear 40960 (bitmap st),
         free_pages := free_pages st + 1\<rparr>" for st
    using res
    by (simp add: pmm_init_region_def one_frame_def BOOT_INFO_E820_TYPE_USABLE_def
        PMM_PAGE_SIZE_def align_up_u64_def align_down_u64_def pmm_init_page_def
        pmm_init_pages.simps PMM_MAX_PAGES_def)
  have "pmm_init example_image (Some (example_map one_frame 2)) =
      pmm_reset\<lparr>total_pages := 2, bitmap := bitmap_clear 40960 (bitmap_clear 40960 (bitmap pmm_reset)),
                free_pages := 2, ready := True\<rparr>"
    by (simp add: pmm_init_def example_map_def BOOT_INFO_VERSION_V2_def region pmm_reset_def
        upt_rec)
  then show ?thesis
    by (auto simp: free_frames_def pmm_reset_def PMM_MAX_PAGES_def)
qed

end
