(* ===== verification/Vmm.thy ===== *)
theory Vmm
  imports Pmm
begin

text \<open>
  Four-level page tables, \<^verbatim>\<open>vmm.c\<close>.  Page-table memory is a map from addresses to 64-bit entries
  (entry \<open>i\<close> of the table at \<open>t\<close> is at \<open>t + 8 * i\<close>); tables come from the frame allocator, which is
  part of the state.  The TLB invalidation and the CR3 load are the only hardware effects: the
  former has no counterpart here (memory is walked anew each time), the latter is a field.
\<close>

section \<open>State and operations\<close>

definition VMM_PAGE_PRESENT :: u64 where "VMM_PAGE_PRESENT = 1"
definition VMM_PAGE_WRITABLE :: u64 where "VMM_PAGE_WRITABLE = 2"
definition VMM_PAGE_USER :: u64 where "VMM_PAGE_USER = 4"
definition VMM_PAGE_HUGE :: u64 where "VMM_PAGE_HUGE = 0x80"
definition VMM_PAGE_NX :: u64 where "VMM_PAGE_NX = 0x8000000000000000"

record vmm =
  vm_mem :: "u64 \<Rightarrow> u64"
  vm_pmm :: pmm
  g_kernel_pml4 :: u64
  vm_cr3 :: u64

definition entry :: "u64 \<Rightarrow> u64 \<Rightarrow> u64" where
  "entry t i = t + i * 8"

definition table_of :: "u64 \<Rightarrow> u64" where
  "table_of e = e AND NOT 0xFFF"

definition present :: "u64 \<Rightarrow> bool" where
  "present e \<longleftrightarrow> e AND VMM_PAGE_PRESENT \<noteq> 0"

definition pml4_idx :: "u64 \<Rightarrow> u64" where "pml4_idx virt = drop_bit 39 virt AND 0x1FF"
definition pdpt_idx :: "u64 \<Rightarrow> u64" where "pdpt_idx virt = drop_bit 30 virt AND 0x1FF"
definition pd_idx :: "u64 \<Rightarrow> u64" where "pd_idx virt = drop_bit 21 virt AND 0x1FF"
definition pt_idx :: "u64 \<Rightarrow> u64" where "pt_idx virt = drop_bit 12 virt AND 0x1FF"

definition zero_table :: "u64 \<Rightarrow> (u64 \<Rightarrow> u64) \<Rightarrow> u64 \<Rightarrow> u64" where
  "zero_table t mem = fold (\<lambda>i m. m(entry t (of_nat i) := 0)) [0..<512] mem"

definition copy_entries :: "u64 \<Rightarrow> u64 \<Rightarrow> nat \<Rightarrow> (u64 \<Rightarrow> u64) \<Rightarrow> u64 \<Rightarrow> u64" where
  "copy_entries dst src n mem =
     fold (\<lambda>i m. m(entry dst (of_nat i) := m (entry src (of_nat i)))) [0..<n] mem"

definition vmm_init :: "vmm \<Rightarrow> vmm" where
  "vmm_init st = st\<lparr>g_kernel_pml4 := vm_cr3 st\<rparr>"

definition vmm_create_address_space :: "kernel_image \<Rightarrow> vmm \<Rightarrow> u64 \<times> vmm" where
  "vmm_create_address_space ki st =
     (let (new_pml4, pm) = pmm_alloc_page (vm_pmm st); st = st\<lparr>vm_pmm := pm\<rparr> in
      if new_pml4 = 0 then (0, st)
      else
        let mem = zero_table new_pml4 (vm_mem st);
            mem = copy_entries new_pml4 (g_kernel_pml4 st) 512 mem;
            (new_pdpt, pm) = pmm_alloc_page (vm_pmm st);
            st = st\<lparr>vm_mem := mem, vm_pmm := pm\<rparr> in
        if new_pdpt = 0 then (0, st\<lparr>vm_pmm := pmm_free_page ki new_pml4 (vm_pmm st)\<rparr>)
        else
          let mem = zero_table new_pdpt mem;
              old_pdpt = table_of (mem (entry (g_kernel_pml4 st) 0));
              mem = copy_entries new_pdpt old_pdpt 4 mem;
              mem = mem(entry new_pml4 0 :=
                      new_pdpt OR VMM_PAGE_PRESENT OR VMM_PAGE_WRITABLE OR VMM_PAGE_USER) in
          (new_pml4, st\<lparr>vm_mem := mem\<rparr>))"

text \<open>The loops of \<^verbatim>\<open>vmm_destroy_address_space\<close>: the tables of a directory, then the directories.\<close>

definition destroy_pd :: "kernel_image \<Rightarrow> (u64 \<Rightarrow> u64) \<Rightarrow> u64 \<Rightarrow> pmm \<Rightarrow> pmm" where
  "destroy_pd ki mem pd pm =
     fold (\<lambda>j pm. if present (mem (entry pd (of_nat j)))
                  then pmm_free_page ki (table_of (mem (entry pd (of_nat j)))) pm else pm)
       [0..<512] pm"

definition destroy_pdpt :: "kernel_image \<Rightarrow> (u64 \<Rightarrow> u64) \<Rightarrow> u64 \<Rightarrow> pmm \<Rightarrow> pmm" where
  "destroy_pdpt ki mem pdpt pm =
     fold (\<lambda>i pm. if present (mem (entry pdpt (of_nat i)))
                  then let pd = table_of (mem (entry pdpt (of_nat i)))
                       in pmm_free_page ki pd (destroy_pd ki mem pd pm)
                  else pm)
       [4..<512] pm"

definition vmm_destroy_address_space :: "kernel_image \<Rightarrow> u64 \<Rightarrow> vmm \<Rightarrow> vmm" where
  "vmm_destroy_address_space ki pml4 st =
     (if pml4 = 0 \<or> pml4 = g_kernel_pml4 st then st
      else
        let e = vm_mem st (entry pml4 0);
            pm = (if present e
                  then pmm_free_page ki (table_of e) (destroy_pdpt ki (vm_mem st) (table_of e) (vm_pmm st))
                  else vm_pmm st) in
        st\<lparr>vm_pmm := pmm_free_page ki pml4 pm\<rparr>)"

text \<open>
  One level of \<^verbatim>\<open>vmm_map_page\<close> (the code repeats it for the PML4, the PDPT and the PD): the table
  below entry \<open>idx\<close> of \<open>t\<close>, allocated and cleared when it is missing; \<open>None\<close> when memory is out.
\<close>

definition vmm_map_level :: "u64 \<Rightarrow> u64 \<Rightarrow> u64 \<Rightarrow> vmm \<Rightarrow> u64 option \<times> vmm" where
  "vmm_map_level t idx flags st =
     (let a = entry t idx in
      if \<not> present (vm_mem st a) then
        (let (new_table, pm) = pmm_alloc_page (vm_pmm st); st = st\<lparr>vm_pmm := pm\<rparr> in
         if new_table = 0 then (None, st)
         else
           let mem = (zero_table new_table (vm_mem st))
                 (a := new_table OR VMM_PAGE_PRESENT OR VMM_PAGE_WRITABLE OR (flags AND VMM_PAGE_USER))
           in (Some (table_of (mem a)), st\<lparr>vm_mem := mem\<rparr>))
      else
        let mem = (if flags AND VMM_PAGE_USER \<noteq> 0
                   then (vm_mem st)(a := vm_mem st a OR VMM_PAGE_USER) else vm_mem st)
        in (Some (table_of (mem a)), st\<lparr>vm_mem := mem\<rparr>))"

definition vmm_map_page :: "u64 \<Rightarrow> u64 \<Rightarrow> u64 \<Rightarrow> u64 \<Rightarrow> vmm \<Rightarrow> bool \<times> vmm" where
  "vmm_map_page pml4 virt phys flags st =
     (let pml4 = (if pml4 = 0 then g_kernel_pml4 st else pml4) in
      case vmm_map_level pml4 (pml4_idx virt) flags st of
        (None, st) \<Rightarrow> (False, st)
      | (Some pdpt, st) \<Rightarrow>
          (case vmm_map_level pdpt (pdpt_idx virt) flags st of
             (None, st) \<Rightarrow> (False, st)
           | (Some pd, st) \<Rightarrow>
               (case vmm_map_level pd (pd_idx virt) flags st of
                  (None, st) \<Rightarrow> (False, st)
                | (Some pt, st) \<Rightarrow>
                    (True, st\<lparr>vm_mem := (vm_mem st)(entry pt (pt_idx virt) :=
                              (phys AND NOT 0xFFF) OR flags OR VMM_PAGE_PRESENT)\<rparr>))))"

definition vmm_unmap_page :: "u64 \<Rightarrow> u64 \<Rightarrow> vmm \<Rightarrow> bool \<times> vmm" where
  "vmm_unmap_page pml4 virt st =
     (let pml4 = (if pml4 = 0 then g_kernel_pml4 st else pml4); mem = vm_mem st in
      if \<not> present (mem (entry pml4 (pml4_idx virt))) then (False, st)
      else let pdpt = table_of (mem (entry pml4 (pml4_idx virt))) in
      if \<not> present (mem (entry pdpt (pdpt_idx virt))) then (False, st)
      else let pd = table_of (mem (entry pdpt (pdpt_idx virt))) in
      if \<not> present (mem (entry pd (pd_idx virt))) then (False, st)
      else let pt = table_of (mem (entry pd (pd_idx virt))) in
      if \<not> present (mem (entry pt (pt_idx virt))) then (False, st)
      else (True, st\<lparr>vm_mem := mem(entry pt (pt_idx virt) := 0)\<rparr>))"

definition vmm_switch :: "u64 \<Rightarrow> vmm \<Rightarrow> vmm" where
  "vmm_switch pml4 st = st\<lparr>vm_cr3 := (if pml4 = 0 then g_kernel_pml4 st else pml4)\<rparr>"

definition vmm_get_phys :: "u64 \<Rightarrow> u64 \<Rightarrow> vmm \<Rightarrow> u64" where
  "vmm_get_phys pml4 virt st =
     (let pml4 = (if pml4 = 0 then g_kernel_pml4 st else pml4); mem = vm_mem st in
      if \<not> present (mem (entry pml4 (pml4_idx virt))) then 0
      else let pdpt = table_of (mem (entry pml4 (pml4_idx virt))) in
      if \<not> present (mem (entry pdpt (pdpt_idx virt))) then 0
      else let pd = table_of (mem (entry pdpt (pdpt_idx virt))) in
      if \<not> present (mem (entry pd (pd_idx virt))) then 0
      else let pt = table_of (mem (entry pd (pd_idx virt))) in
      if \<not> present (mem (entry pt (pt_idx virt))) then 0
      else (mem (entry pt (pt_idx virt)) AND NOT 0xFFF) OR (virt AND 0xFFF))"

section \<open>The walk\<close>

text \<open>
  \<open>slot mem r v d\<close>: the address of the entry that the translation of \<open>v\<close> from root \<open>r\<close> reads at
  depth \<open>d\<close> (0 the PML4, 3 the page table), when the walk gets there; \<open>key d v\<close>: the indices used.
\<close>

definition vidx :: "nat \<Rightarrow> u64 \<Rightarrow> u64" where
  "vidx d v = drop_bit (39 - 9 * d) v AND 0x1FF"

fun slot :: "(u64 \<Rightarrow> u64) \<Rightarrow> u64 \<Rightarrow> u64 \<Rightarrow> nat \<Rightarrow> u64 option" where
  "slot mem r v 0 = Some (entry r (vidx 0 v))"
| "slot mem r v (Suc d) =
     (case slot mem r v d of
        None \<Rightarrow> None
      | Some a \<Rightarrow> if present (mem a) then Some (entry (table_of (mem a)) (vidx (Suc d) v)) else None)"

definition key :: "nat \<Rightarrow> u64 \<Rightarrow> u64 list" where
  "key d v = map (\<lambda>i. vidx i v) [0..<Suc d]"

definition leaf :: "(u64 \<Rightarrow> u64) \<Rightarrow> u64 \<Rightarrow> u64 \<Rightarrow> u64 option" where
  "leaf mem r v =
     (case slot mem r v 3 of
        None \<Rightarrow> None
      | Some a \<Rightarrow> if present (mem a) then Some (table_of (mem a)) else None)"

lemma vidx_simps:
  "vidx 0 v = pml4_idx v" "vidx (Suc 0) v = pdpt_idx v" "vidx 2 v = pd_idx v" "vidx 3 v = pt_idx v"
  "vidx (Suc (Suc 0)) v = pd_idx v" "vidx (Suc (Suc (Suc 0))) v = pt_idx v"
  by (simp_all add: vidx_def pml4_idx_def pdpt_idx_def pd_idx_def pt_idx_def)

lemma vmm_get_phys_leaf:
  assumes "r \<noteq> 0"
  shows "vmm_get_phys r v st =
           (case leaf (vm_mem st) r v of None \<Rightarrow> 0 | Some b \<Rightarrow> b OR (v AND 0xFFF))"
  using assms
  by (simp add: vmm_get_phys_def leaf_def eval_nat_numeral vidx_simps Let_def table_of_def)

lemma key_Suc: "key (Suc d) v = key (Suc d) v' \<longleftrightarrow> key d v = key d v' \<and> vidx (Suc d) v = vidx (Suc d) v'"
  by (auto simp: key_def)

lemma key_le: "key d v = key d v' \<Longrightarrow> e \<le> d \<Longrightarrow> key e v = key e v'"
  by (induction d) (auto simp: key_Suc le_Suc_eq)

lemma slot_key: "key d v = key d v' \<Longrightarrow> slot mem r v d = slot mem r v' d"
proof (induction d)
  case 0
  then show ?case by (simp add: key_def)
next
  case (Suc d)
  then show ?case by (simp add: key_Suc split: option.splits)
qed

lemma vidx_less: "unat (vidx d v) < 512"
proof -
  have "vidx d v = drop_bit (39 - 9 * d) v AND mask 9"
    by (simp add: vidx_def mask_eq_exp_minus_1)
  then show ?thesis
    by (simp add: unat_and_mask)
qed

section \<open>Entries and pages\<close>

lemma not_fff: "NOT (0xFFF :: u64) = NOT (mask 12)"
  by (simp add: mask_eq_exp_minus_1)

lemma unat_table_of: "unat (table_of e) = unat e div 4096 * 4096"
  unfolding table_of_def not_fff unat_and_not_mask by simp

lemma unat_entry:
  assumes "unat i < 512"
  shows "unat (entry (table_of b) i) = unat b div 4096 * 4096 + unat i * 8"
proof -
  have "unat b div 4096 < 4503599627370496"
    using unsigned_less [of b, where 'a = nat] by (simp add: div_less_iff_less_mult)
  then have "unat b div 4096 * 4096 + unat i * 8 < 2 ^ 64"
    using assms by simp
  moreover have "unat (i * 8) = unat i * 8"
    using assms by (subst unat_mult_no_wrap) simp_all
  ultimately show ?thesis
    unfolding entry_def by (subst unat_plus_no_wrap) (simp_all add: unat_table_of)
qed

lemma table_of_entry: "unat i < 512 \<Longrightarrow> table_of (entry (table_of b) i) = table_of b"
  by (simp add: word_unat_eq_iff unat_table_of unat_entry)

lemma entry_inject:
  "unat i < 512 \<Longrightarrow> unat j < 512 \<Longrightarrow> entry (table_of b) i = entry (table_of b) j \<longleftrightarrow> i = j"
  by (simp add: word_unat_eq_iff unat_entry)

lemma table_of_idem [simp]: "table_of (table_of b) = table_of b"
  by (simp add: table_of_def and.assoc)

lemma table_of_page_ptr: "i < PMM_MAX_PAGES \<Longrightarrow> table_of (page_ptr i) = page_ptr i"
  by (simp add: word_unat_eq_iff unat_table_of unat_page_ptr)

lemma present_bit: "present e \<longleftrightarrow> bit e 0"
  using and_power_nonzero_iff_bit [of e 0] by (simp add: present_def VMM_PAGE_PRESENT_def)

lemma table_of_or_low:
  assumes "table_of p = p" "table_of f = 0"
  shows "table_of (p OR f) = p"
  using assms by (simp add: table_of_def bit.conj_disj_distrib2)

lemma user_bit: "bit VMM_PAGE_USER n \<longleftrightarrow> n = 2"
proof -
  have eq: "VMM_PAGE_USER = 2 ^ 2"
    by (simp add: VMM_PAGE_USER_def)
  show ?thesis
    unfolding eq bit_exp_iff by auto
qed

lemma new_entry:
  assumes "table_of p = p"
  shows "table_of (p OR VMM_PAGE_PRESENT OR VMM_PAGE_WRITABLE OR (f AND VMM_PAGE_USER)) = p"
    and "present (p OR VMM_PAGE_PRESENT OR VMM_PAGE_WRITABLE OR (f AND VMM_PAGE_USER))"
proof -
  have "table_of (VMM_PAGE_PRESENT OR VMM_PAGE_WRITABLE OR (f AND VMM_PAGE_USER)) = 0"
    unfolding table_of_def not_fff VMM_PAGE_PRESENT_def VMM_PAGE_WRITABLE_def
    by (rule bit_word_eqI) (auto simp: bit_simps user_bit)
  then show "table_of (p OR VMM_PAGE_PRESENT OR VMM_PAGE_WRITABLE OR (f AND VMM_PAGE_USER)) = p"
    using table_of_or_low [OF assms] by (simp add: or.assoc)
  show "present (p OR VMM_PAGE_PRESENT OR VMM_PAGE_WRITABLE OR (f AND VMM_PAGE_USER))"
    by (simp add: present_bit VMM_PAGE_PRESENT_def bit_simps)
qed

lemma user_entry: "table_of (e OR VMM_PAGE_USER) = table_of e" "present (e OR VMM_PAGE_USER) = present e"
  by (simp_all add: table_of_def present_bit VMM_PAGE_USER_def bit.conj_disj_distrib2 bit_simps)

lemma zero_table_apply:
  "zero_table p mem x = (if \<exists>i<512. x = entry p (of_nat i) then 0 else mem x)"
proof -
  have "fold (\<lambda>i m. m(entry p (of_nat i) := 0)) is mem x =
      (if \<exists>i\<in>set is. x = entry p (of_nat i) then 0 else mem x)" for "is"
    by (induction "is" arbitrary: mem) auto
  then show ?thesis
    by (auto simp: zero_table_def)
qed

lemma zero_table_in:
  assumes "unat i < 512"
  shows "zero_table p mem (entry p i) = 0"
proof -
  have "entry p i = entry p (of_nat (unat i))"
    by simp
  then show ?thesis
    using assms unfolding zero_table_apply by metis
qed

lemma zero_table_out:
  assumes "table_of p = p" "table_of x \<noteq> p"
  shows "zero_table p mem x = mem x"
proof -
  have "x \<noteq> entry p (of_nat i)" if "i < 512" for i
  proof -
    have "unat (of_nat i :: u64) < 512"
      using that by (simp add: unsigned_of_nat take_bit_nat_eq_self)
    then show ?thesis
      using table_of_entry [of "of_nat i" p] assms by auto
  qed
  then show ?thesis
    unfolding zero_table_apply by auto
qed


section \<open>Well-formed address spaces\<close>

text \<open>
  A set \<open>V\<close> of (root, virtual address) pairs is well formed when their walks share an entry only
  if they come from the same root by the same indices, and no table they go through lies in a free
  frame.  Several address spaces can be in \<open>V\<close>; a region mapped by large pages is left out of it.
\<close>

definition vm_wf :: "(u64 \<times> u64) set \<Rightarrow> vmm \<Rightarrow> bool" where
  "vm_wf V st \<longleftrightarrow>
     (\<forall>(r, v)\<in>V. r \<noteq> 0) \<and>
     (\<forall>(r, v)\<in>V. \<forall>(r', v')\<in>V. \<forall>d\<le>3. \<forall>d'\<le>3. \<forall>a.
        slot (vm_mem st) r v d = Some a \<longrightarrow> slot (vm_mem st) r' v' d' = Some a \<longrightarrow>
        d = d' \<and> r = r' \<and> key d v = key d v') \<and>
     (\<forall>(r, v)\<in>V. \<forall>d\<le>3. \<forall>a. slot (vm_mem st) r v d = Some a \<longrightarrow>
        table_of a \<notin> page_ptr ` free_frames (vm_pmm st))"

lemma vm_wf_root: "vm_wf V st \<Longrightarrow> (r, v) \<in> V \<Longrightarrow> r \<noteq> 0"
  by (fastforce simp: vm_wf_def)

lemma vm_wf_inj:
  "vm_wf V st \<Longrightarrow> (r, v) \<in> V \<Longrightarrow> (r', v') \<in> V \<Longrightarrow> d \<le> 3 \<Longrightarrow> d' \<le> 3 \<Longrightarrow>
   slot (vm_mem st) r v d = Some a \<Longrightarrow> slot (vm_mem st) r' v' d' = Some a \<Longrightarrow>
   d = d' \<and> r = r' \<and> key d v = key d v'"
  unfolding vm_wf_def by blast

lemma vm_wf_used:
  "vm_wf V st \<Longrightarrow> (r, v) \<in> V \<Longrightarrow> d \<le> 3 \<Longrightarrow> slot (vm_mem st) r v d = Some a \<Longrightarrow>
   table_of a \<notin> page_ptr ` free_frames (vm_pmm st)"
  unfolding vm_wf_def by blast

lemma vm_wfI:
  assumes "\<And>r v. (r, v) \<in> V \<Longrightarrow> r \<noteq> 0"
    "\<And>r v r' v' d d' a. (r, v) \<in> V \<Longrightarrow> (r', v') \<in> V \<Longrightarrow> d \<le> 3 \<Longrightarrow> d' \<le> 3 \<Longrightarrow>
       slot (vm_mem st) r v d = Some a \<Longrightarrow> slot (vm_mem st) r' v' d' = Some a \<Longrightarrow>
       d = d' \<and> r = r' \<and> key d v = key d v'"
    "\<And>r v d a. (r, v) \<in> V \<Longrightarrow> d \<le> 3 \<Longrightarrow> slot (vm_mem st) r v d = Some a \<Longrightarrow>
       table_of a \<notin> page_ptr ` free_frames (vm_pmm st)"
  shows "vm_wf V st"
  unfolding vm_wf_def using assms by blast

text \<open>Only the present bit and the address of an entry matter for the walk.\<close>

lemma slot_cong:
  assumes "\<And>x. present (mem' x) = present (mem x)" "\<And>x. table_of (mem' x) = table_of (mem x)"
  shows "slot mem' r v d = slot mem r v d" "leaf mem' r v = leaf mem r v"
proof -
  show "slot mem' r v d = slot mem r v d" for d
    by (induction d) (auto simp: assms split: option.splits)
  then show "leaf mem' r v = leaf mem r v"
    by (simp add: leaf_def assms split: option.split)
qed

text \<open>Hanging a cleared page \<open>p\<close> below the missing entry \<open>a\<close> at depth \<open>d\<close> of the walk of \<open>v\<close>.\<close>

definition fresh_table ::
    "(u64 \<times> u64) set \<Rightarrow> vmm \<Rightarrow> u64 \<Rightarrow> u64 \<Rightarrow> nat \<Rightarrow> u64 \<Rightarrow> u64 \<Rightarrow> u64 \<Rightarrow> pmm \<Rightarrow> bool" where
  "fresh_table V st r v d a p e pm \<longleftrightarrow>
     vm_wf V st \<and> (r, v) \<in> V \<and> d < 3 \<and>
     slot (vm_mem st) r v d = Some a \<and> \<not> present (vm_mem st a) \<and>
     p \<in> page_ptr ` free_frames (vm_pmm st) \<and> table_of p = p \<and> table_of e = p \<and> present e \<and>
     page_ptr ` free_frames pm = page_ptr ` free_frames (vm_pmm st) - {p}"

definition hang_table :: "u64 \<Rightarrow> u64 \<Rightarrow> u64 \<Rightarrow> (u64 \<Rightarrow> u64) \<Rightarrow> u64 \<Rightarrow> u64" where
  "hang_table p a e mem = (zero_table p mem)(a := e)"

lemma fresh_table_D:
  assumes "fresh_table V st r v d a p e pm"
  shows "vm_wf V st" "(r, v) \<in> V" "d < 3" "slot (vm_mem st) r v d = Some a"
    "\<not> present (vm_mem st a)" "p \<in> page_ptr ` free_frames (vm_pmm st)" "table_of p = p"
    "table_of e = p" "present e"
    "page_ptr ` free_frames pm = page_ptr ` free_frames (vm_pmm st) - {p}"
    "hang_table p a e (vm_mem st) a = e"
  using assms by (auto simp: fresh_table_def hang_table_def)

lemma old_slot_page:
  assumes "fresh_table V st r v d a p e pm"
  shows "(r', v') \<in> V \<Longrightarrow> d' \<le> 3 \<Longrightarrow> slot (vm_mem st) r' v' d' = Some b \<Longrightarrow> table_of b \<noteq> p"
  using vm_wf_used [OF fresh_table_D(1) [OF assms]] fresh_table_D(6) [OF assms] by blast

lemma old_slot_mem:
  assumes "fresh_table V st r v d a p e pm"
  shows "(r', v') \<in> V \<Longrightarrow> d' \<le> 3 \<Longrightarrow> slot (vm_mem st) r' v' d' = Some b \<Longrightarrow> b \<noteq> a \<Longrightarrow>
         hang_table p a e (vm_mem st) b = vm_mem st b"
  using old_slot_page [OF assms] zero_table_out [OF fresh_table_D(7) [OF assms]]
  by (simp add: hang_table_def)

lemma new_slot_zero:
  assumes "fresh_table V st r v d a p e pm"
  shows "hang_table p a e (vm_mem st) (entry p (vidx n w)) = 0"
    and "table_of (entry p (vidx n w)) = p"
proof -
  note f = fresh_table_D [OF assms]
  show "table_of (entry p (vidx n w)) = p"
    using table_of_entry [OF vidx_less, of p n w] f(7) by simp
  moreover have "table_of a \<noteq> p"
    using old_slot_page [OF assms f(2) _ f(4)] f(3) by simp
  ultimately show "hang_table p a e (vm_mem st) (entry p (vidx n w)) = 0"
    using zero_table_in [OF vidx_less] by (auto simp: hang_table_def)
qed

lemma slot_old:
  assumes fresh: "fresh_table V st r v d a p e pm"
  shows "(r', v') \<in> V \<Longrightarrow> d' \<le> 3 \<Longrightarrow> slot (vm_mem st) r' v' d' = Some b \<Longrightarrow>
         slot (hang_table p a e (vm_mem st)) r' v' d' = Some b"
proof (induction d' arbitrary: b)
  case (Suc d')
  then obtain c where c: "slot (vm_mem st) r' v' d' = Some c" "present (vm_mem st c)"
    "b = entry (table_of (vm_mem st c)) (vidx (Suc d') v')"
    by (auto split: option.splits if_splits)
  then have "c \<noteq> a"
    using fresh_table_D(5) [OF fresh] by auto
  then show ?case
    using Suc c old_slot_mem [OF fresh Suc.prems(1) _ c(1)] by simp
qed simp

lemma slot_new:
  assumes fresh: "fresh_table V st r v d a p e pm"
  shows "(r', v') \<in> V \<Longrightarrow> d' \<le> 3 \<Longrightarrow> slot (hang_table p a e (vm_mem st)) r' v' d' = Some b \<Longrightarrow>
         slot (vm_mem st) r' v' d' = Some b \<or>
         r' = r \<and> d' = Suc d \<and> key d v' = key d v \<and> b = entry p (vidx d' v')"
proof (induction d' arbitrary: b)
  case (Suc d')
  note f = fresh_table_D [OF fresh]
  let ?mem = "hang_table p a e (vm_mem st)"
  obtain c where c: "slot ?mem r' v' d' = Some c" "present (?mem c)"
    "b = entry (table_of (?mem c)) (vidx (Suc d') v')"
    using Suc.prems(3) by (auto split: option.splits if_splits)
  from Suc.IH [OF Suc.prems(1) _ c(1)] Suc.prems(2)
  consider (old) "slot (vm_mem st) r' v' d' = Some c" | (new) "c = entry p (vidx d' v')"
    by auto
  then show ?case
  proof cases
    case old
    show ?thesis
    proof (cases "c = a")
      case True
      then show ?thesis
        using vm_wf_inj [OF f(1) Suc.prems(1) f(2) _ _ old, of d] Suc.prems(2) f(3,4,8,11) c(3)
        by auto
    next
      case False
      then show ?thesis
        using old_slot_mem [OF fresh Suc.prems(1) _ old] Suc.prems(2) old c by simp
    qed
  next
    case new
    then show ?thesis
      using c(2) new_slot_zero [OF fresh] by (simp add: present_bit)
  qed
qed simp

lemma leaf_same:
  assumes fresh: "fresh_table V st r v d a p e pm" and V: "(r', v') \<in> V"
  shows "leaf (hang_table p a e (vm_mem st)) r' v' = leaf (vm_mem st) r' v'"
proof (cases "slot (vm_mem st) r' v' 3")
  case (Some b)
  note f = fresh_table_D [OF fresh]
  have "b \<noteq> a"
    using vm_wf_inj [OF f(1) V f(2) _ _ Some, of d] f(3,4) by auto
  then show ?thesis
    using slot_old [OF fresh V _ Some] old_slot_mem [OF fresh V _ Some] Some by (simp add: leaf_def)
next
  case None
  show ?thesis
  proof (cases "slot (hang_table p a e (vm_mem st)) r' v' 3")
    case (Some b)
    then have "b = entry p (vidx 3 v')"
      using slot_new [OF fresh V _ Some] None by auto
    then show ?thesis
      using Some None new_slot_zero [OF fresh] by (simp add: leaf_def present_bit)
  qed (simp add: leaf_def None)
qed

lemma hang_table_wf:
  assumes fresh: "fresh_table V st r v d a p e pm"
  shows "vm_wf V (st\<lparr>vm_mem := hang_table p a e (vm_mem st), vm_pmm := pm\<rparr>)" (is "vm_wf V ?st")
proof (rule vm_wfI)
  note f = fresh_table_D [OF fresh]
  show "(r', v') \<in> V \<Longrightarrow> r' \<noteq> 0" for r' v'
    by (rule vm_wf_root [OF f(1)])
next
  note f = fresh_table_D [OF fresh]
  fix r1 v1 r2 v2 d1 d2 b
  assume V: "(r1, v1) \<in> V" "(r2, v2) \<in> V" "d1 \<le> 3" "d2 \<le> 3"
    and s: "slot (vm_mem ?st) r1 v1 d1 = Some b" "slot (vm_mem ?st) r2 v2 d2 = Some b"
  have inj: "entry p (vidx n w) = entry p (vidx n w') \<Longrightarrow> vidx n w = vidx n w'" for n w w'
    using entry_inject [OF vidx_less vidx_less, of p] f(7) by simp
  show "d1 = d2 \<and> r1 = r2 \<and> key d1 v1 = key d1 v2"
    using slot_new [OF fresh V(1,3), of b] slot_new [OF fresh V(2,4), of b] s
      vm_wf_inj [OF f(1) V] old_slot_page [OF fresh V(1,3)] old_slot_page [OF fresh V(2,4)]
      new_slot_zero(2) [OF fresh]
    by (auto simp: key_Suc dest: inj)
next
  note f = fresh_table_D [OF fresh]
  fix r1 v1 d1 b
  assume V: "(r1, v1) \<in> V" "d1 \<le> 3" and s: "slot (vm_mem ?st) r1 v1 d1 = Some b"
  show "table_of b \<notin> page_ptr ` free_frames (vm_pmm ?st)"
    using slot_new [OF fresh V, of b] s vm_wf_used [OF f(1) V, of b] new_slot_zero(2) [OF fresh]
    by (auto simp: f(10))
qed


section \<open>Mapping and unmapping\<close>

definition vm_ok :: "kernel_image \<Rightarrow> nat set \<Rightarrow> (u64 \<times> u64) set \<Rightarrow> vmm \<Rightarrow> bool" where
  "vm_ok ki M V st \<longleftrightarrow> vm_wf V st \<and> pmm_inv ki M (vm_pmm st)"

definition vm_keeps :: "kernel_image \<Rightarrow> nat set \<Rightarrow> (u64 \<times> u64) set \<Rightarrow> vmm \<Rightarrow> vmm \<Rightarrow> bool" where
  "vm_keeps ki M V st st' \<longleftrightarrow>
     vm_ok ki M V st' \<and> g_kernel_pml4 st' = g_kernel_pml4 st \<and>
     (\<forall>(r, v)\<in>V. leaf (vm_mem st') r v = leaf (vm_mem st) r v)"

lemma vm_keeps_trans: "vm_keeps ki M V st st' \<Longrightarrow> vm_keeps ki M V st' st'' \<Longrightarrow> vm_keeps ki M V st st''"
  by (fastforce simp: vm_keeps_def)

lemma vm_wf_slots:
  assumes "vm_wf V st" "\<And>r v d. slot (vm_mem st') r v d = slot (vm_mem st) r v d"
    "free_frames (vm_pmm st') = free_frames (vm_pmm st)"
  shows "vm_wf V st'"
  using assms(1) unfolding vm_wf_def assms(2,3) .

lemma vmm_map_level_cases:
  assumes ok: "vm_ok ki M V st" and V: "(r, v) \<in> V" and d: "d < 3"
    and slot: "slot (vm_mem st) r v d = Some (entry t (vidx d v))"
  obtains (fail) st' where "vmm_map_level t (vidx d v) flags st = (None, st')" "vm_keeps ki M V st st'"
    | (table) t' st' where "vmm_map_level t (vidx d v) flags st = (Some t', st')"
        "vm_keeps ki M V st st'" "slot (vm_mem st') r v (Suc d) = Some (entry t' (vidx (Suc d) v))"
proof -
  let ?a = "entry t (vidx d v)"
  have wf: "vm_wf V st" and inv: "pmm_inv ki M (vm_pmm st)"
    using ok by (auto simp: vm_ok_def)
  show ?thesis
  proof (cases "present (vm_mem st ?a)")
    case True
    define mem where "mem = (if flags AND VMM_PAGE_USER \<noteq> 0
      then (vm_mem st)(?a := vm_mem st ?a OR VMM_PAGE_USER) else vm_mem st)"
    let ?st = "st\<lparr>vm_mem := mem\<rparr>"
    have eq: "vmm_map_level t (vidx d v) flags st = (Some (table_of (mem ?a)), ?st)"
      using True by (simp add: vmm_map_level_def mem_def Let_def)
    have mem: "present (mem x) = present (vm_mem st x)" "table_of (mem x) = table_of (vm_mem st x)" for x
      by (auto simp: user_entry mem_def)
    note same = slot_cong [of mem "vm_mem st", OF mem]
    have "vm_wf V ?st"
      by (rule vm_wf_slots [OF wf]) (simp_all add: same)
    then have keeps: "vm_keeps ki M V st ?st"
      using inv same by (simp add: vm_keeps_def vm_ok_def)
    have "slot (vm_mem ?st) r v (Suc d) = Some (entry (table_of (mem ?a)) (vidx (Suc d) v))"
      using slot True by (simp add: same mem)
    with eq keeps show ?thesis
      by (rule table)
  next
    case False
    obtain p pm where alloc: "pmm_alloc_page (vm_pmm st) = (p, pm)"
      by force
    have pm: "pmm_inv ki M pm"
      using pmm_pages.alloc_inv [OF inv] alloc by simp
    show ?thesis
    proof (cases "p = 0")
      case True
      then have "pm = vm_pmm st"
        using pmm_pages.alloc_none [OF inv] pmm_pages.alloc_null [OF inv] alloc by auto
      then have "vmm_map_level t (vidx d v) flags st = (None, st)"
        using False alloc True by (simp add: vmm_map_level_def)
      then show ?thesis
        using ok by (intro fail [of st]) (auto simp: vm_keeps_def)
    next
      case nonnull: False
      let ?e = "p OR VMM_PAGE_PRESENT OR VMM_PAGE_WRITABLE OR (flags AND VMM_PAGE_USER)"
      let ?st = "st\<lparr>vm_mem := hang_table p ?a ?e (vm_mem st), vm_pmm := pm\<rparr>"
      have p: "p \<in> page_ptr ` free_frames (vm_pmm st)"
        using pmm_pages.alloc_in [OF inv] pmm_pages.alloc_null [OF inv] alloc nonnull by auto
      then have page: "table_of p = p"
        by (auto simp: free_frames_def table_of_page_ptr)
      have "page_ptr ` free_frames pm = page_ptr ` free_frames (vm_pmm st) - {p}"
        using pmm_pages.alloc_avail [OF inv] alloc by simp
      then have fresh: "fresh_table V st r v d ?a p ?e pm"
        using wf V d slot False p page new_entry [OF page] by (simp add: fresh_table_def)
      have eq: "vmm_map_level t (vidx d v) flags st = (Some p, ?st)"
        using False alloc nonnull new_entry [OF page]
        by (simp add: vmm_map_level_def hang_table_def Let_def)
      have slot': "slot (vm_mem ?st) r v (Suc d) = Some (entry p (vidx (Suc d) v))"
        using slot_old [OF fresh V _ slot] d fresh_table_D [OF fresh] by simp
      have "vm_keeps ki M V st ?st"
        using hang_table_wf [OF fresh] leaf_same [OF fresh] pm
        by (auto simp: vm_keeps_def vm_ok_def)
      from eq this slot' show ?thesis
        by (rule table)
    qed
  qed
qed

text \<open>Writing the last-level entry of \<open>v\<close> changes the translation of its page only.\<close>

lemma write_leaf:
  assumes wf: "vm_wf V st" and V: "(r, v) \<in> V" and a: "slot (vm_mem st) r v 3 = Some a"
  shows "vm_wf V (st\<lparr>vm_mem := (vm_mem st)(a := e)\<rparr>)"
    and "(r', v') \<in> V \<Longrightarrow> leaf ((vm_mem st)(a := e)) r' v' =
           (if r' = r \<and> key 3 v' = key 3 v then (if present e then Some (table_of e) else None)
            else leaf (vm_mem st) r' v')"
proof -
  have same: "slot ((vm_mem st)(a := e)) r' v' d = slot (vm_mem st) r' v' d"
    if "(r', v') \<in> V" "d \<le> 3" for r' v' d
    using that(2)
  proof (induction d)
    case (Suc d)
    have "slot (vm_mem st) r' v' d \<noteq> Some a"
      using vm_wf_inj [OF wf that(1) V _ _ _ a, of d] Suc.prems by auto
    then show ?case
      using Suc by (auto split: option.splits)
  qed simp
  show "vm_wf V (st\<lparr>vm_mem := (vm_mem st)(a := e)\<rparr>)"
  proof (rule vm_wfI)
    show "\<And>r v. (r, v) \<in> V \<Longrightarrow> r \<noteq> 0"
      by (rule vm_wf_root [OF wf])
  next
    fix r1 v1 r2 v2 d1 d2 b
    assume *: "(r1, v1) \<in> V" "(r2, v2) \<in> V" "d1 \<le> 3" "d2 \<le> 3"
      "slot (vm_mem (st\<lparr>vm_mem := (vm_mem st)(a := e)\<rparr>)) r1 v1 d1 = Some b"
      "slot (vm_mem (st\<lparr>vm_mem := (vm_mem st)(a := e)\<rparr>)) r2 v2 d2 = Some b"
    show "d1 = d2 \<and> r1 = r2 \<and> key d1 v1 = key d1 v2"
      by (rule vm_wf_inj [OF wf *(1-4)]) (use * same in simp_all)
  next
    fix r1 v1 d1 b
    assume *: "(r1, v1) \<in> V" "d1 \<le> 3"
      "slot (vm_mem (st\<lparr>vm_mem := (vm_mem st)(a := e)\<rparr>)) r1 v1 d1 = Some b"
    have "table_of b \<notin> page_ptr ` free_frames (vm_pmm st)"
      by (rule vm_wf_used [OF wf *(1,2)]) (use * same in simp)
    then show "table_of b \<notin> page_ptr ` free_frames (vm_pmm (st\<lparr>vm_mem := (vm_mem st)(a := e)\<rparr>))"
      by simp
  qed
  show "leaf ((vm_mem st)(a := e)) r' v' =
           (if r' = r \<and> key 3 v' = key 3 v then (if present e then Some (table_of e) else None)
            else leaf (vm_mem st) r' v')" if V': "(r', v') \<in> V"
  proof (cases "slot (vm_mem st) r' v' 3")
    case None
    then have "\<not> (r' = r \<and> key 3 v' = key 3 v)"
      using a slot_key [of 3 v' v "vm_mem st" r] by auto
    then show ?thesis
      using None same [OF V'] by (simp add: leaf_def)
  next
    case (Some b)
    have iff: "b = a \<longleftrightarrow> r' = r \<and> key 3 v' = key 3 v"
    proof
      assume "b = a"
      then show "r' = r \<and> key 3 v' = key 3 v"
        using vm_wf_inj [OF wf V' V order_refl order_refl Some] a by blast
    next
      assume "r' = r \<and> key 3 v' = key 3 v"
      then show "b = a"
        using Some a slot_key [of 3 v' v "vm_mem st" r] by simp
    qed
    have "slot ((vm_mem st)(a := e)) r' v' 3 = Some b"
      using same [OF V', of 3] Some by simp
    then have "leaf ((vm_mem st)(a := e)) r' v' =
        (if present (((vm_mem st)(a := e)) b) then Some (table_of (((vm_mem st)(a := e)) b)) else None)"
      by (simp add: leaf_def)
    moreover have "leaf (vm_mem st) r' v' =
        (if present (vm_mem st b) then Some (table_of (vm_mem st b)) else None)"
      using Some by (simp add: leaf_def)
    ultimately show ?thesis
      using iff by (cases "b = a") auto
  qed
qed


lemma vmm_map_page_cases:
  assumes ok: "vm_ok ki M V st" and V: "(r, v) \<in> V"
  obtains (fail) st' where "vmm_map_page r v phys flags st = (False, st')" "vm_keeps ki M V st st'"
    | (mapped) st1 a where "vm_keeps ki M V st st1" "slot (vm_mem st1) r v 3 = Some a"
        "vmm_map_page r v phys flags st =
           (True, st1\<lparr>vm_mem := (vm_mem st1)(a := (phys AND NOT 0xFFF) OR flags OR VMM_PAGE_PRESENT)\<rparr>)"
proof -
  have r: "r \<noteq> 0"
    using ok V vm_wf_root by (auto simp: vm_ok_def)
  have slot0: "slot (vm_mem st) r v 0 = Some (entry r (vidx 0 v))"
    by simp
  have keep: "vm_ok ki M V st'" if "vm_keeps ki M V st st'" for st'
    using that by (simp add: vm_keeps_def)
  note unfold = vmm_map_page_def vidx_simps(1,2,5,6) [symmetric] Let_def
  show ?thesis
  proof (rule vmm_map_level_cases [OF ok V _ slot0, of flags])
    fix st' assume "vmm_map_level r (vidx 0 v) flags st = (None, st')" "vm_keeps ki M V st st'"
    then show ?thesis
      using r by (intro fail [of st']) (simp_all add: unfold)
  next
    fix t1 st1
    assume 1: "vmm_map_level r (vidx 0 v) flags st = (Some t1, st1)" "vm_keeps ki M V st st1"
      "slot (vm_mem st1) r v (Suc 0) = Some (entry t1 (vidx (Suc 0) v))"
    show ?thesis
    proof (rule vmm_map_level_cases [OF keep [OF 1(2)] V _ 1(3), of flags])
      fix st' assume "vmm_map_level t1 (vidx (Suc 0) v) flags st1 = (None, st')" "vm_keeps ki M V st1 st'"
      then show ?thesis
        using r 1 by (intro fail [of st']) (auto simp: unfold intro: vm_keeps_trans)
    next
      fix t2 st2
      assume 2: "vmm_map_level t1 (vidx (Suc 0) v) flags st1 = (Some t2, st2)" "vm_keeps ki M V st1 st2"
        "slot (vm_mem st2) r v (Suc (Suc 0)) = Some (entry t2 (vidx (Suc (Suc 0)) v))"
      note k2 = vm_keeps_trans [OF 1(2) 2(2)]
      show ?thesis
      proof (rule vmm_map_level_cases [OF keep [OF k2] V _ 2(3), of flags])
        fix st' assume "vmm_map_level t2 (vidx (Suc (Suc 0)) v) flags st2 = (None, st')"
          "vm_keeps ki M V st2 st'"
        then show ?thesis
          using r 1 2 vm_keeps_trans [OF k2] by (intro fail [of st']) (auto simp: unfold)
      next
        fix t3 st3
        assume 3: "vmm_map_level t2 (vidx (Suc (Suc 0)) v) flags st2 = (Some t3, st3)"
          "vm_keeps ki M V st2 st3"
          "slot (vm_mem st3) r v (Suc (Suc (Suc 0))) = Some (entry t3 (vidx (Suc (Suc (Suc 0))) v))"
        then show ?thesis
          using r 1 2 vm_keeps_trans [OF k2 3(2)]
          by (intro mapped [of st3 "entry t3 (vidx (Suc (Suc (Suc 0))) v)"]) (auto simp: unfold eval_nat_numeral)
      qed simp
    qed simp
  qed simp
qed

lemma vmm_unmap_page_leaf:
  assumes ok: "vm_ok ki M V st" and V: "(r, v) \<in> V"
  shows "leaf (vm_mem st) r v = None \<Longrightarrow> vmm_unmap_page r v st = (False, st)"
    and "leaf (vm_mem st) r v \<noteq> None \<Longrightarrow>
         \<exists>a. slot (vm_mem st) r v 3 = Some a \<and>
             vmm_unmap_page r v st = (True, st\<lparr>vm_mem := (vm_mem st)(a := 0)\<rparr>)"
proof -
  have "r \<noteq> 0"
    using ok V vm_wf_root by (auto simp: vm_ok_def)
  then show "leaf (vm_mem st) r v = None \<Longrightarrow> vmm_unmap_page r v st = (False, st)"
    "leaf (vm_mem st) r v \<noteq> None \<Longrightarrow>
         \<exists>a. slot (vm_mem st) r v 3 = Some a \<and>
             vmm_unmap_page r v st = (True, st\<lparr>vm_mem := (vm_mem st)(a := 0)\<rparr>)"
    by (auto simp: vmm_unmap_page_def leaf_def eval_nat_numeral vidx_simps Let_def
        split: if_splits option.splits)
qed

text \<open>A frame's offset bits and its address bits do not meet.\<close>

lemma mapped_entry:
  assumes "flags AND NOT 0xFFF = 0"
  shows "table_of ((phys AND NOT 0xFFF) OR flags OR VMM_PAGE_PRESENT) = phys AND NOT 0xFFF"
    and "present ((phys AND NOT 0xFFF) OR flags OR VMM_PAGE_PRESENT)"
proof -
  have "table_of (flags OR VMM_PAGE_PRESENT) = 0"
    using assms by (simp add: table_of_def bit.conj_disj_distrib2 VMM_PAGE_PRESENT_def)
  then show "table_of ((phys AND NOT 0xFFF) OR flags OR VMM_PAGE_PRESENT) = phys AND NOT 0xFFF"
    using table_of_or_low [of "table_of phys" "flags OR VMM_PAGE_PRESENT"]
    by (simp add: table_of_def or.assoc and.assoc)
  show "present ((phys AND NOT 0xFFF) OR flags OR VMM_PAGE_PRESENT)"
    by (simp add: present_bit VMM_PAGE_PRESENT_def bit_simps)
qed


section \<open>New address spaces\<close>

lemma copy_entries_apply:
  assumes "table_of dst = dst" "table_of src = src" "dst \<noteq> src" "n \<le> 512"
  shows "unat i < 512 \<Longrightarrow> copy_entries dst src n mem (entry dst i) =
           (if unat i < n then mem (entry src i) else mem (entry dst i))"
    and "table_of x \<noteq> dst \<Longrightarrow> copy_entries dst src n mem x = mem x"
proof -
  have small: "unat (of_nat j :: u64) = j" if "j < 512" for j
    using that by (simp add: unsigned_of_nat take_bit_nat_eq_self)
  have page: "table_of (entry t (of_nat j)) = t" if "j < 512" "table_of t = t" for j t
    using table_of_entry [of "of_nat j" t] that small by simp
  have inj: "entry dst (of_nat j) = entry dst i \<longleftrightarrow> j = unat i" if "j < 512" "unat i < 512" for j i
    using entry_inject [of "of_nat j" i dst] that small assms(1) by (auto simp: word_unat_eq_iff)
  define go where "go is = fold (\<lambda>i m. m(entry dst (of_nat i) := m (entry src (of_nat i)))) is mem" for "is"
  have out: "table_of x \<noteq> dst \<longrightarrow> go is x = mem x" if "set is \<subseteq> {..<512}" for "is" x
    using that page [OF _ assms(1)] by (induction "is" rule: rev_induct) (auto simp: go_def)
  have "unat i < 512 \<longrightarrow> go is (entry dst i) = (if unat i \<in> set is then mem (entry src i) else mem (entry dst i))"
    if "set is \<subseteq> {..<512}" for "is" i
    using that
  proof (induction "is" rule: rev_induct)
    case (snoc k ks)
    have "go (ks @ [k]) = (go ks)(entry dst (of_nat k) := go ks (entry src (of_nat k)))"
      by (simp add: go_def)
    moreover have "go ks (entry src (of_nat k)) = mem (entry src (of_nat k))"
      using snoc.prems out [of ks "entry src (of_nat k)"] page [OF _ assms(2), of k] assms(3) by simp
    ultimately have step: "go (ks @ [k]) x =
        (if x = entry dst (of_nat k) then mem (entry src (of_nat k)) else go ks x)" for x
      by simp
    show ?case
    proof
      assume i: "unat i < 512"
      show "go (ks @ [k]) (entry dst i) =
          (if unat i \<in> set (ks @ [k]) then mem (entry src i) else mem (entry dst i))"
      proof (cases "k = unat i")
        case True
        then show ?thesis
          using step [of "entry dst i"] by simp
      next
        case False
        have "entry dst i \<noteq> entry dst (of_nat k)"
          using inj [of k i] False i snoc.prems by auto
        moreover have "go ks (entry dst i) =
            (if unat i \<in> set ks then mem (entry src i) else mem (entry dst i))"
          using snoc.IH snoc.prems i by simp
        ultimately show ?thesis
          using False by (simp add: step)
      qed
    qed
  qed (simp add: go_def)
  then show "unat i < 512 \<Longrightarrow> copy_entries dst src n mem (entry dst i) =
      (if unat i < n then mem (entry src i) else mem (entry dst i))"
    using assms(4) by (auto simp: copy_entries_def go_def atLeast0LessThan)
  show "table_of x \<noteq> dst \<Longrightarrow> copy_entries dst src n mem x = mem x"
  proof -
    have "set [0..<n] \<subseteq> {..<512}"
      using assms(4) by auto
    then show "table_of x \<noteq> dst \<Longrightarrow> copy_entries dst src n mem x = mem x"
      using out [of "[0..<n]" x] by (simp add: copy_entries_def go_def)
  qed
qed

lemma leaf_by_slot:
  assumes "slot mem' r' v d = slot mem r v d" "d \<le> 3"
    "\<And>e a. d \<le> e \<Longrightarrow> e \<le> 3 \<Longrightarrow> slot mem r v e = Some a \<Longrightarrow> mem' a = mem a"
  shows "leaf mem' r' v = leaf mem r v"
proof -
  have "slot mem' r' v e = slot mem r v e" if "d \<le> e" "e \<le> 3" for e
    using that
  proof (induction e rule: dec_induct)
    case (step e)
    then show ?case
      using assms(3) [of e] by (auto split: option.splits)
  qed (rule assms(1))
  then show ?thesis
    using assms(2,3) by (auto simp: leaf_def split: option.split)
qed

text \<open>The kernel's own tables: aligned, and none of them in a free frame.\<close>

definition kernel_tables_ok :: "kernel_image \<Rightarrow> nat set \<Rightarrow> vmm \<Rightarrow> bool" where
  "kernel_tables_ok ki M st \<longleftrightarrow>
     pmm_inv ki M (vm_pmm st) \<and> g_kernel_pml4 st \<noteq> 0 \<and>
     table_of (g_kernel_pml4 st) = g_kernel_pml4 st \<and>
     present (vm_mem st (entry (g_kernel_pml4 st) 0)) \<and>
     (\<forall>v d a. slot (vm_mem st) (g_kernel_pml4 st) v d = Some a \<longrightarrow>
        table_of a \<notin> page_ptr ` free_frames (vm_pmm st))"

lemma vmm_create_memory:
  assumes ok: "kernel_tables_ok ki M st" and create: "vmm_create_address_space ki st = (p, st')" "p \<noteq> 0"
  obtains q where "p \<in> page_ptr ` free_frames (vm_pmm st)" "q \<in> page_ptr ` free_frames (vm_pmm st)"
    "p \<noteq> q" "table_of p = p" "table_of q = q"
    "page_ptr ` free_frames (vm_pmm st') = page_ptr ` free_frames (vm_pmm st) - {p, q}"
    "pmm_inv ki M (vm_pmm st')" "g_kernel_pml4 st' = g_kernel_pml4 st"
    "table_of (vm_mem st' (entry p 0)) = q" "present (vm_mem st' (entry p 0))"
    "\<And>i. unat i < 512 \<Longrightarrow> i \<noteq> 0 \<Longrightarrow> vm_mem st' (entry p i) = vm_mem st (entry (g_kernel_pml4 st) i)"
    "\<And>i. unat i < 512 \<Longrightarrow> vm_mem st' (entry q i) =
       (if unat i < 4 then vm_mem st (entry (table_of (vm_mem st (entry (g_kernel_pml4 st) 0))) i) else 0)"
    "\<And>x. table_of x \<noteq> p \<Longrightarrow> table_of x \<noteq> q \<Longrightarrow> vm_mem st' x = vm_mem st x"
proof -
  let ?k = "g_kernel_pml4 st" and ?mem = "vm_mem st"
  let ?old = "table_of (?mem (entry ?k 0))"
  have inv: "pmm_inv ki M (vm_pmm st)" and k: "table_of ?k = ?k" "present (?mem (entry ?k 0))"
    and tables: "\<And>v d a. slot ?mem ?k v d = Some a \<Longrightarrow> table_of a \<notin> page_ptr ` free_frames (vm_pmm st)"
    using ok by (auto simp: kernel_tables_ok_def)
  have kfree: "?k \<notin> page_ptr ` free_frames (vm_pmm st)"
    using tables [of 0 0 "entry ?k (vidx 0 0)"] table_of_entry [OF vidx_less, of ?k 0 0] k(1) by simp
  have "vidx 0 0 = 0"
    by (simp add: vidx_def)
  then have "slot ?mem ?k 0 (Suc 0) = Some (entry ?old (vidx (Suc 0) 0))"
    using k(2) by simp
  then have oldfree: "?old \<notin> page_ptr ` free_frames (vm_pmm st)"
    by (metis tables table_of_entry vidx_less)
  obtain pm1 where a1: "pmm_alloc_page (vm_pmm st) = (p, pm1)"
    using create by (auto simp: vmm_create_address_space_def Let_def split: prod.splits if_splits)
  obtain q pm2 where a2: "pmm_alloc_page pm1 = (q, pm2)"
    by force
  have q: "q \<noteq> 0"
    using create a1 a2 by (auto simp: vmm_create_address_space_def Let_def split: if_splits)
  have inv1: "pmm_inv ki M pm1" "page_ptr ` free_frames pm1 = page_ptr ` free_frames (vm_pmm st) - {p}"
    using pmm_pages.alloc_inv [OF inv] pmm_pages.alloc_avail [OF inv] a1 by auto
  have inv2: "pmm_inv ki M pm2" "page_ptr ` free_frames pm2 = page_ptr ` free_frames pm1 - {q}"
    using pmm_pages.alloc_inv [OF inv1(1)] pmm_pages.alloc_avail [OF inv1(1)] a2 by auto
  have p_in: "p \<in> page_ptr ` free_frames (vm_pmm st)"
    using pmm_pages.alloc_in [OF inv] pmm_pages.alloc_null [OF inv] a1 create(2) by auto
  have q_in: "q \<in> page_ptr ` free_frames pm1"
    using pmm_pages.alloc_in [OF inv1(1)] pmm_pages.alloc_null [OF inv1(1)] a2 q by auto
  have pq: "p \<noteq> q" "q \<in> page_ptr ` free_frames (vm_pmm st)"
    using q_in inv1(2) by auto
  have tp: "table_of p = p" and tq: "table_of q = q"
    using p_in pq(2) by (auto simp: free_frames_def table_of_page_ptr)
  define m1 where "m1 = copy_entries p ?k 512 (zero_table p ?mem)"
  define m2 where "m2 = copy_entries q (table_of (m1 (entry ?k 0))) 4 (zero_table q m1)"
  define e where "e = q OR VMM_PAGE_PRESENT OR VMM_PAGE_WRITABLE OR VMM_PAGE_USER"
  have e: "table_of e = q" "present e"
    using new_entry [OF tq, of VMM_PAGE_USER] by (simp_all add: e_def)
  have pk: "p \<noteq> ?k" "q \<noteq> ?k" "p \<noteq> ?old" "q \<noteq> ?old"
    by (metis p_in pq(2) kfree oldfree)+
  have page: "table_of (entry t i) = t" if "unat i < 512" "table_of t = t" for t i
    using table_of_entry that by metis
  have m1_p: "m1 (entry p i) = ?mem (entry ?k i)" if "unat i < 512" for i
    using copy_entries_apply(1) [OF tp k(1) pk(1), of 512 i] that page [OF that k(1)] pk(1)
    by (simp add: m1_def zero_table_out [OF tp])
  have m1_out: "m1 x = ?mem x" if "table_of x \<noteq> p" for x
    using copy_entries_apply(2) [OF tp k(1) pk(1), of 512 x] that by (simp add: m1_def zero_table_out [OF tp])
  have old: "table_of (m1 (entry ?k 0)) = ?old"
    using m1_out [of "entry ?k 0"] page [of 0 ?k] k(1) pk(1) by simp
  have zq: "zero_table q m1 x = m1 x" if "table_of x \<noteq> q" for x
    by (rule zero_table_out [OF tq that])
  have old': "table_of (zero_table q m1 (entry ?k 0)) = ?old"
    using zq [of "entry ?k 0"] page [of 0 ?k] k(1) pk(2) old by simp
  have m2_q: "m2 (entry q i) = (if unat i < 4 then ?mem (entry ?old i) else 0)" if "unat i < 512" for i
    using copy_entries_apply(1) [OF tq table_of_idem pk(4), of 4 i] that page [OF that, of ?old] pk(3,4)
      zero_table_in [OF that, of q m1] zq m1_out
    by (simp add: m2_def old)
  have m2_out: "m2 x = m1 x" if "table_of x \<noteq> q" for x
    using copy_entries_apply(2) [OF tq table_of_idem pk(4), of 4 x] that zq by (simp add: m2_def old)
  have st': "st' = st\<lparr>vm_pmm := pm2, vm_mem := m2(entry p 0 := e)\<rparr>"
    using create a1 a2 q
    by (auto simp add: vmm_create_address_space_def Let_def m2_def e_def m1_def [symmetric] old old')
  have e0: "entry p i = entry p 0 \<longleftrightarrow> i = 0" if "unat i < 512" for i
    using entry_inject [OF that, of 0 p] tp by simp
  have eq: "entry q i \<noteq> entry p 0" if "unat i < 512" for i
    using page [OF that tq] page [of 0 p] tp pq(1) by auto
  show ?thesis
  proof (rule that [OF p_in pq(2,1) tp tq])
    show "vm_mem st' x = vm_mem st x" if "table_of x \<noteq> p" "table_of x \<noteq> q" for x
      using that m2_out m1_out page [of 0 p] tp by (auto simp: st')
    show "vm_mem st' (entry p i) = vm_mem st (entry ?k i)" if "unat i < 512" "i \<noteq> 0" for i
      using that e0 m2_out [of "entry p i"] page [OF that(1) tp] pq(1) m1_p by (simp add: st')
    show "vm_mem st' (entry q i) = (if unat i < 4 then ?mem (entry ?old i) else 0)" if "unat i < 512" for i
      using m2_q [OF that] eq [OF that] by (simp add: st')
  qed (use inv1 inv2 e st' in auto)
qed

lemma vmm_create_leaf:
  assumes ok: "kernel_tables_ok ki M st" and create: "vmm_create_address_space ki st = (p, st')" "p \<noteq> 0"
  shows "leaf (vm_mem st') p v =
           (if vidx 0 v = 0 \<and> 4 \<le> unat (vidx 1 v) then None
            else leaf (vm_mem st) (g_kernel_pml4 st) v)"
    and "p \<in> page_ptr ` free_frames (vm_pmm st)" "kernel_tables_ok ki M st'"
proof -
  let ?k = "g_kernel_pml4 st" and ?mem = "vm_mem st" and ?mem' = "vm_mem st'"
  let ?old = "table_of (?mem (entry ?k 0))"
  obtain q where q: "p \<in> page_ptr ` free_frames (vm_pmm st)" "q \<in> page_ptr ` free_frames (vm_pmm st)"
    "p \<noteq> q" "table_of p = p" "table_of q = q"
    "page_ptr ` free_frames (vm_pmm st') = page_ptr ` free_frames (vm_pmm st) - {p, q}"
    "pmm_inv ki M (vm_pmm st')" "g_kernel_pml4 st' = ?k"
    "table_of (?mem' (entry p 0)) = q" "present (?mem' (entry p 0))"
    "\<And>i. unat i < 512 \<Longrightarrow> i \<noteq> 0 \<Longrightarrow> ?mem' (entry p i) = ?mem (entry ?k i)"
    "\<And>i. unat i < 512 \<Longrightarrow> ?mem' (entry q i) = (if unat i < 4 then ?mem (entry ?old i) else 0)"
    "\<And>x. table_of x \<noteq> p \<Longrightarrow> table_of x \<noteq> q \<Longrightarrow> ?mem' x = ?mem x"
    by (rule vmm_create_memory [OF assms]) (rule that)
  have k: "present (?mem (entry ?k 0))" "\<And>v d a. slot ?mem ?k v d = Some a \<Longrightarrow>
      table_of a \<notin> page_ptr ` free_frames (vm_pmm st)"
    using ok by (auto simp: kernel_tables_ok_def)
  have old: "?mem' a = ?mem a" if "slot ?mem ?k v d = Some a" for a v d
    using k(2) [OF that] q(1,2) q(13) by metis
  have slots: "slot ?mem' ?k v d = slot ?mem ?k v d" for v d
    by (induction d) (auto simp: old split: option.splits)
  have "present (?mem' (entry ?k 0))"
  proof -
    have "vidx 0 0 = 0"
      by (simp add: vidx_def)
    then have "slot ?mem ?k 0 0 = Some (entry ?k 0)"
      by simp
    then show ?thesis
      using old k(1) by metis
  qed
  then show "kernel_tables_ok ki M st'"
    using ok q(6-8) k(2) slots by (auto simp: kernel_tables_ok_def)
  show "p \<in> page_ptr ` free_frames (vm_pmm st)"
    by (rule q(1))
  show "leaf ?mem' p v = (if vidx 0 v = 0 \<and> 4 \<le> unat (vidx 1 v) then None else leaf ?mem ?k v)"
  proof (cases "vidx 0 v = 0")
    case False
    have s1: "slot ?mem' p v 1 = slot ?mem ?k v 1"
      using q(11) [OF vidx_less False] by simp
    have "leaf ?mem' p v = leaf ?mem ?k v"
      by (rule leaf_by_slot [OF s1]) (use old in auto)
    with False show ?thesis by simp
  next
    case True
    have s1: "slot ?mem' p v 1 = Some (entry q (vidx 1 v))"
      "slot ?mem ?k v 1 = Some (entry ?old (vidx 1 v))"
      using q(9,10) k(1) True by simp_all
    show ?thesis
    proof (cases "4 \<le> unat (vidx 1 v)")
      case high: True
      have "\<not> present (?mem' (entry q (vidx 1 v)))"
        using q(12) [OF vidx_less, of 1 v] high by (simp add: present_bit)
      then have "slot ?mem' p v 2 = None"
        using s1(1) by (simp add: numeral_2_eq_2)
      then have "leaf ?mem' p v = None"
        by (simp add: leaf_def numeral_3_eq_3 numeral_2_eq_2)
      then show ?thesis
        using True high by simp
    next
      case low: False
      then have "?mem' (entry q (vidx 1 v)) = ?mem (entry ?old (vidx 1 v))"
        using q(12) [OF vidx_less, of 1 v] by simp
      then have s2: "slot ?mem' p v 2 = slot ?mem ?k v 2"
        using s1 by (simp add: numeral_2_eq_2)
      have "leaf ?mem' p v = leaf ?mem ?k v"
        by (rule leaf_by_slot [OF s2]) (use old in auto)
      then show ?thesis
        using low by simp
    qed
  qed
qed

section \<open>Concrete address spaces\<close>

text \<open>An empty root table, and one whose four levels are there down to the entry of page 0.\<close>

definition example_vmm :: vmm where
  "example_vmm = \<lparr>vm_mem = (\<lambda>_. 0), vm_pmm = example_pmm, g_kernel_pml4 = 0x1000, vm_cr3 = 0x1000\<rparr>"

definition example_walk :: vmm where
  "example_walk = example_vmm\<lparr>vm_mem := (\<lambda>_. 0)(0x1000 := 0x2001, 0x2000 := 0x3001, 0x3000 := 0x4001)\<rparr>"

lemma example_slot: "slot (\<lambda>_. 0) r v d = (if d = 0 then Some (entry r (vidx 0 v)) else None)"
  by (induction d) (simp_all add: present_bit)

lemma example_vm_ok: "vm_ok example_image {40960, 40961} ({0x1000} \<times> UNIV) example_vmm"
proof -
  have t: "table_of 0x1000 = 0x1000"
    by (simp add: table_of_def)
  have e: "entry 0x1000 (vidx 0 v) = entry 0x1000 (vidx 0 v') \<longleftrightarrow> vidx 0 v = vidx 0 v'" for v v'
    using entry_inject [OF vidx_less vidx_less, of "0x1000" 0 v 0 v'] by (simp add: t)
  have p: "table_of (entry 0x1000 (vidx 0 v)) = 0x1000" for v
    using table_of_entry [OF vidx_less, of "0x1000" 0 v] by (simp add: t)
  show ?thesis
    by (auto simp: vm_ok_def vm_wf_def example_vmm_def example_slot key_def e p page_ptr_def
        PMM_PAGE_SIZE_def split: if_splits)
qed

lemma example_kernel_tables: "kernel_tables_ok example_image {40960, 40961} example_walk"
proof -
  let ?S = "{0x1000, 0x2000, 0x3000, 0x4000} :: u64 set"
  let ?mem = "vm_mem example_walk"
  have t: "table_of 0x1000 = 0x1000"
    by (simp add: table_of_def)
  have mem: "table_of (?mem a) \<in> ?S" if "present (?mem a)" for a
    using that by (auto simp: example_walk_def present_bit table_of_def split: if_splits)
  have "slot ?mem 0x1000 v d = Some a \<Longrightarrow> table_of a \<in> ?S" for v d a
  proof (induction d arbitrary: a)
    case 0
    then show ?case
      using table_of_entry [OF vidx_less, of "0x1000" 0 v] t by auto
  next
    case (Suc d)
    then obtain c where "present (?mem c)" "a = entry (table_of (?mem c)) (vidx (Suc d) v)"
      by (auto split: option.splits if_splits)
    then show ?case
      using mem table_of_entry [OF vidx_less] by metis
  qed
  moreover have "x \<notin> page_ptr ` free_frames example_pmm" if "x \<in> ?S" for x
    using that by (auto simp: page_ptr_def PMM_PAGE_SIZE_def)
  ultimately have "table_of a \<notin> page_ptr ` free_frames example_pmm"
    if "slot ?mem 0x1000 v d = Some a" for v d a
    using that by blast
  then show ?thesis
    by (auto simp: kernel_tables_ok_def example_walk_def example_vmm_def t entry_def present_bit)
qed

section \<open>Properties\<close>



text \<open>
  C20: \<^verbatim>\<open>vmm_unmap_page\<close> reports whether the address was mapped; afterwards it translates to nothing,
  and every other page of every address space of the set translates as before.
\<close>

theorem vmm_unmap_page_spec:
  assumes "vm_ok ki M V st" "(r, v) \<in> V" "vmm_unmap_page r v st = (was, st')"
  shows "vm_ok ki M V st' \<and> (was \<longleftrightarrow> leaf (vm_mem st) r v \<noteq> None) \<and>
         (\<forall>(r', v')\<in>V. vmm_get_phys r' v' st' =
            (if r' = r \<and> key 3 v' = key 3 v then 0 else vmm_get_phys r' v' st))"
proof -
  have root: "r' \<noteq> 0" if "(r', v') \<in> V" for r' v'
    using that assms(1) vm_wf_root by (auto simp: vm_ok_def)
  have wf: "vm_wf V st" and inv: "pmm_inv ki M (vm_pmm st)"
    using assms(1) by (auto simp: vm_ok_def)
  show ?thesis
  proof (cases "leaf (vm_mem st) r v = None")
    case True
    have "leaf (vm_mem st) r v' = None" if "key 3 v' = key 3 v" for v'
      using True slot_key [OF that, of "vm_mem st" r] by (simp add: leaf_def)
    then show ?thesis
      using True assms vmm_unmap_page_leaf(1) [OF assms(1,2)] root
      by (auto simp: vmm_get_phys_leaf)
  next
    case False
    then obtain a where a: "slot (vm_mem st) r v 3 = Some a"
      "vmm_unmap_page r v st = (True, st\<lparr>vm_mem := (vm_mem st)(a := 0)\<rparr>)"
      using vmm_unmap_page_leaf(2) [OF assms(1,2)] by blast
    note w = write_leaf [OF wf assms(2) a(1), where e = 0]
    have "leaf (vm_mem st') r' v' =
        (if r' = r \<and> key 3 v' = key 3 v then None else leaf (vm_mem st) r' v')"
      if "(r', v') \<in> V" for r' v'
      using w(2) [OF that] a(2) assms(3) by (auto simp: present_bit)
    then show ?thesis
      using w(1) inv root a(2) assms(3) False by (auto simp: vmm_get_phys_leaf vm_ok_def)
  qed
qed


theorem vmm_unmap_page_spec_witness:
  "\<exists>st'. vmm_unmap_page 0x1000 0x5000 example_vmm = (False, st') \<and> vmm_get_phys 0x1000 0x5000 st' = 0"
proof -
  obtain b st' where u: "vmm_unmap_page 0x1000 0x5000 example_vmm = (b, st')"
    by force
  have "leaf (vm_mem example_vmm) 0x1000 0x5000 = None"
    by (simp add: leaf_def example_vmm_def example_slot)
  then show ?thesis
    using vmm_unmap_page_spec [OF example_vm_ok _ u] u by auto
qed



text \<open>
  A page mapped with the no-execute flag is reported at the wrong physical address: the mask
  in \<^verbatim>\<open>vmm_get_phys\<close> keeps bit 63 of the entry.
\<close>

theorem vmm_get_phys_leaks_nx:
  "vmm_get_phys 0x1000 0 (snd (vmm_map_page 0x1000 0 0x5000 VMM_PAGE_NX example_walk)) =
     0x8000000000005000"
  by (simp add: vmm_map_page_def vmm_map_level_def example_walk_def example_vmm_def vmm_get_phys_def
      entry_def pml4_idx_def pdpt_idx_def pd_idx_def pt_idx_def table_of_def present_def Let_def
      VMM_PAGE_NX_def VMM_PAGE_PRESENT_def VMM_PAGE_USER_def)

end
