(* ===== verification/Tss.thy ===== *)
theory Tss
  imports WoOS_Prelude
begin

text \<open>
  The task state segment of \<^verbatim>\<open>tss.c\<close>: the descriptor \<^verbatim>\<open>tss_init\<close> writes into the two GDT slots 7
  and 8, and the stack pointer for entries from user mode.  The GDT is a map from slots to 8-byte
  entries; \<open>tss_addr\<close> is the address of the static \<^verbatim>\<open>g_tss\<close>.
\<close>

section \<open>State and operations\<close>

record tss =
  rsp0 :: u64
  rsp1 :: u64
  rsp2 :: u64
  ists :: "nat \<Rightarrow> u64"
  iopb :: u16

definition sizeof_tss :: u32 where "sizeof_tss = 104"

record tss_cpu =
  g_tss :: tss
  gdt64 :: "nat \<Rightarrow> u64"
  task_register :: u16

definition tss_init :: "u64 \<Rightarrow> u64 \<Rightarrow> tss_cpu \<Rightarrow> tss_cpu" where
  "tss_init tss_addr kernel_stack_top st =
     (let tss_base = tss_addr; tss_limit = sizeof_tss - 1;
          entry_low = ucast (tss_limit AND 0xFFFF) :: u64;
          entry_low = entry_low OR push_bit 16 (tss_base AND 0xFFFFFF);
          entry_low = entry_low OR push_bit 40 0x89;
          entry_low = entry_low OR push_bit 48 (ucast (drop_bit 16 tss_limit AND 0xF));
          entry_low = entry_low OR push_bit 56 (drop_bit 24 tss_base AND 0xFF);
          entry_high = drop_bit 32 tss_base in
      st\<lparr>g_tss := \<lparr>rsp0 = kernel_stack_top, rsp1 = 0, rsp2 = 0, ists = (\<lambda>_. 0), iopb = ucast sizeof_tss\<rparr>,
         gdt64 := (gdt64 st)(7 := entry_low, 8 := entry_high), task_register := 0x38\<rparr>)"

definition tss_set_rsp0 :: "u64 \<Rightarrow> tss \<Rightarrow> tss" where
  "tss_set_rsp0 r t = t\<lparr>rsp0 := r\<rparr>"

section \<open>The descriptor as the processor reads it\<close>

text \<open>The fields of a 16-byte system descriptor at a selector, after the architecture manual.\<close>

definition descriptor_base :: "u16 \<Rightarrow> (nat \<Rightarrow> u64) \<Rightarrow> u64" where
  "descriptor_base sel gdt =
     (let low = gdt (unat sel div 8); high = gdt (unat sel div 8 + 1) in
      (drop_bit 16 low AND 0xFFFFFF) OR push_bit 24 (drop_bit 56 low) OR push_bit 32 high)"

definition descriptor_limit :: "u16 \<Rightarrow> (nat \<Rightarrow> u64) \<Rightarrow> u64" where
  "descriptor_limit sel gdt =
     (let low = gdt (unat sel div 8) in (low AND 0xFFFF) OR push_bit 16 (drop_bit 48 low AND 0xF))"

definition descriptor_access :: "u16 \<Rightarrow> (nat \<Rightarrow> u64) \<Rightarrow> u64" where
  "descriptor_access sel gdt = drop_bit 40 (gdt (unat sel div 8)) AND 0xFF"

lemma mask_literals:
  "(0xFFFFFF :: u64) = mask 24" "(0xFF :: u64) = mask 8" "(0xFFFF :: u64) = mask 16" "(0xF :: u64) = mask 4"
  by (simp_all add: mask_eq_exp_minus_1)

text \<open>The layout, bit by bit, for any limit and access byte that fit their fields.\<close>

definition low_word :: "u64 \<Rightarrow> u64 \<Rightarrow> u64 \<Rightarrow> u64" where
  "low_word limit access a =
     limit OR push_bit 16 (a AND mask 24) OR push_bit 40 access OR push_bit 56 (drop_bit 24 a AND mask 8)"

lemma low_word_bit:
  assumes "take_bit 7 limit = limit" "take_bit 8 access = access"
  shows "bit (low_word limit access a) n \<longleftrightarrow>
    n < 64 \<and> (if n < 16 then bit limit n else if n < 40 then bit a (n - 16)
      else if n < 48 then bit access (n - 40) else if n < 56 then False else bit a (n - 32))"
proof -
  have "bit limit n \<Longrightarrow> n < 7" "bit access (n - 40) \<Longrightarrow> n - 40 < 8"
    using assms by (metis bit_take_bit_iff)+
  then show ?thesis
    by (auto simp: low_word_def bit_simps)
qed

lemma low_word_fields:
  assumes "take_bit 7 limit = limit" "take_bit 8 access = access"
  shows "(drop_bit 16 (low_word limit access a) AND mask 24) OR push_bit 24 (drop_bit 56 (low_word limit access a)) OR
           push_bit 32 (drop_bit 32 a) = a"
    and "(low_word limit access a AND mask 16) OR push_bit 16 (drop_bit 48 (low_word limit access a) AND mask 4) = limit"
    and "drop_bit 40 (low_word limit access a) AND mask 8 = access"
proof -
  note bits = low_word_bit [OF assms]
  have small: "bit limit n \<Longrightarrow> n < 7" "bit access n \<Longrightarrow> n < 8" for n
    using assms by (metis bit_take_bit_iff)+
  show "(drop_bit 16 (low_word limit access a) AND mask 24) OR push_bit 24 (drop_bit 56 (low_word limit access a)) OR
           push_bit 32 (drop_bit 32 a) = a"
  proof (rule bit_word_eqI)
    fix n
    assume "n < LENGTH(64)"
    then consider "n < 24" | "24 \<le> n" "n < 32" | "32 \<le> n" "n < 64"
      by force
    then show "bit ((drop_bit 16 (low_word limit access a) AND mask 24) OR
        push_bit 24 (drop_bit 56 (low_word limit access a)) OR push_bit 32 (drop_bit 32 a)) n = bit a n"
      by cases (auto simp: bits bit_simps)
  qed
  show "(low_word limit access a AND mask 16) OR push_bit 16 (drop_bit 48 (low_word limit access a) AND mask 4) = limit"
    by (rule bit_word_eqI) (auto simp: bits bit_simps dest: small)
  show "drop_bit 40 (low_word limit access a) AND mask 8 = access"
    by (rule bit_word_eqI) (auto simp: bits bit_simps dest: small)
qed

lemma tss_init_entries:
  "gdt64 (tss_init a k st) 7 = low_word 103 0x89 a" "gdt64 (tss_init a k st) 8 = drop_bit 32 a"
  by (simp_all add: tss_init_def sizeof_tss_def low_word_def mask_literals [symmetric] or.assoc)

text \<open>
  The descriptor \<^verbatim>\<open>tss_init\<close> builds reads back, at the selector it loads into the task register, as
  an available 64-bit TSS at the address of \<^verbatim>\<open>g_tss\<close> with the limit of the structure; no other GDT
  slot changes and the stack for entries from user mode is the one given.
\<close>

theorem tss_descriptor_roundtrip:
  "descriptor_base (task_register (tss_init a k st)) (gdt64 (tss_init a k st)) = a \<and>
   descriptor_limit (task_register (tss_init a k st)) (gdt64 (tss_init a k st)) = ucast (sizeof_tss - 1) \<and>
   descriptor_access (task_register (tss_init a k st)) (gdt64 (tss_init a k st)) = 0x89 \<and>
   (gdt64 (tss_init a k st))(7 := 0, 8 := 0) = (gdt64 st)(7 := 0, 8 := 0) \<and>
   rsp0 (g_tss (tss_init a k st)) = k \<and> unat (iopb (g_tss (tss_init a k st))) = 104"
proof -
  have sel: "unat (task_register (tss_init a k st)) div 8 = 7"
    by (simp add: tss_init_def Let_def)
  note fields = low_word_fields [of 103 "0x89" a, simplified]
  have "descriptor_base (task_register (tss_init a k st)) (gdt64 (tss_init a k st)) = a"
    "descriptor_limit (task_register (tss_init a k st)) (gdt64 (tss_init a k st)) = 103"
    "descriptor_access (task_register (tss_init a k st)) (gdt64 (tss_init a k st)) = 0x89"
    unfolding descriptor_base_def descriptor_limit_def descriptor_access_def Let_def sel mask_literals
    using fields by (simp_all add: tss_init_entries)
  then show ?thesis
    by (simp add: tss_init_def sizeof_tss_def Let_def)
qed

end
