(* ===== verification/Fifo.thy ===== *)
theory Fifo
  imports WoOS_Prelude
begin

text \<open>
  Bounded queues.  The input queue and the IPC mailbox are ring buffers over a fixed array; this
  theory has the window of a ring as a list, and the contract of a bounded first-in first-out
  queue that a client may rely on.
\<close>

section \<open>Windows of a ring\<close>

definition ring :: "(nat \<Rightarrow> 'a) \<Rightarrow> nat \<Rightarrow> nat \<Rightarrow> nat \<Rightarrow> 'a list" where
  "ring buf cap h n = map (\<lambda>i. buf ((h + i) mod cap)) [0..<n]"

lemma ring_length [simp]: "length (ring buf cap h n) = n"
  by (simp add: ring_def)

lemma ring_0 [simp]: "ring buf cap h 0 = []"
  by (simp add: ring_def)

lemma ring_nth: "i < n \<Longrightarrow> ring buf cap h n ! i = buf ((h + i) mod cap)"
  by (simp add: ring_def)

lemma mod_add_inject:
  fixes h i j cap :: nat
  assumes "i < cap" "j < cap" "(h + i) mod cap = (h + j) mod cap"
  shows "i = j"
proof -
  have le: "i = j" if "j \<le> i" "i < cap" "(h + i) mod cap = (h + j) mod cap" for i j
  proof -
    have "cap dvd (h + i) - (h + j)"
      using that mod_eq_dvd_iff_nat [of "h + j" "h + i" cap] by simp
    then show ?thesis
      using that(1,2) by (auto dest: dvd_imp_le)
  qed
  show ?thesis
  proof (cases "j \<le> i")
    case True
    then show ?thesis
      using le assms by blast
  next
    case False
    then show ?thesis
      using le [of i j] assms by simp
  qed
qed

lemma ring_snoc:
  assumes "n < cap"
  shows "ring (buf((h + n) mod cap := e)) cap h (Suc n) = ring buf cap h n @ [e]"
proof (rule nth_equalityI)
  fix i
  assume "i < length (ring (buf((h + n) mod cap := e)) cap h (Suc n))"
  then have "i = n \<or> i < n \<and> (h + i) mod cap \<noteq> (h + n) mod cap"
    using mod_add_inject [of i cap n h] assms by auto
  then show "ring (buf((h + n) mod cap := e)) cap h (Suc n) ! i = (ring buf cap h n @ [e]) ! i"
    by (auto simp: ring_nth nth_append)
qed simp

lemma ring_Suc: "ring buf cap h (Suc n) = buf (h mod cap) # ring buf cap ((h + 1) mod cap) n"
proof (rule nth_equalityI)
  fix i
  assume "i < length (ring buf cap h (Suc n))"
  then show "ring buf cap h (Suc n) ! i = (buf (h mod cap) # ring buf cap ((h + 1) mod cap) n) ! i"
    by (cases i) (auto simp: ring_nth mod_simps)
qed simp

section \<open>The queue contract\<close>

text \<open>
  A run of pushes and pops, with what each returned: a push its success, a pop the element.
\<close>

datatype 'e fifo_op = Push 'e | Pop

datatype 'e fifo_out = Pushed bool | Popped "'e option"

fun fifo_run :: "('e \<Rightarrow> 's \<Rightarrow> bool \<times> 's) \<Rightarrow> ('s \<Rightarrow> 'e option \<times> 's) \<Rightarrow> 'e fifo_op list \<Rightarrow> 's \<Rightarrow>
    'e fifo_out list \<times> 's" where
  "fifo_run push pop [] s = ([], s)"
| "fifo_run push pop (Push e # ops) s =
     (let (b, s) = push e s; (outs, s) = fifo_run push pop ops s in (Pushed b # outs, s))"
| "fifo_run push pop (Pop # ops) s =
     (let (e, s) = pop s; (outs, s) = fifo_run push pop ops s in (Popped e # outs, s))"

text \<open>The specification: a list of at most \<open>cap\<close> elements.\<close>

definition list_push :: "nat \<Rightarrow> 'e \<Rightarrow> 'e list \<Rightarrow> bool \<times> 'e list" where
  "list_push cap e xs = (if length xs < cap then (True, xs @ [e]) else (False, xs))"

definition list_pop :: "'e list \<Rightarrow> 'e option \<times> 'e list" where
  "list_pop xs = (case xs of [] \<Rightarrow> (None, []) | x # xs \<Rightarrow> (Some x, xs))"

text \<open>What was accepted and what was delivered in a run; the queue keeps the order.\<close>

fun accepted :: "'e fifo_op list \<Rightarrow> 'e fifo_out list \<Rightarrow> 'e list" where
  "accepted (Push e # ops) (Pushed b # outs) = (if b then e # accepted ops outs else accepted ops outs)"
| "accepted (_ # ops) (_ # outs) = accepted ops outs"
| "accepted _ _ = []"

fun delivered :: "'e fifo_out list \<Rightarrow> 'e list" where
  "delivered (Popped (Some e) # outs) = e # delivered outs"
| "delivered (_ # outs) = delivered outs"
| "delivered [] = []"

lemma list_run_order:
  "fifo_run (list_push cap) list_pop ops xs = (outs, ys) \<Longrightarrow>
   xs @ accepted ops outs = delivered outs @ ys"
proof (induction ops arbitrary: xs outs)
  case (Cons op ops)
  show ?case
  proof (cases op)
    case (Push e)
    obtain b zs where b: "list_push cap e xs = (b, zs)" by force
    obtain os where os: "fifo_run (list_push cap) list_pop ops zs = (os, ys)" "outs = Pushed b # os"
      using Cons.prems b Push by (auto split: prod.splits)
    then show ?thesis
      using Cons.IH [OF os(1)] b Push by (auto simp: list_push_def split: if_splits)
  next
    case Pop
    obtain e zs where e: "list_pop xs = (e, zs)" by force
    obtain os where os: "fifo_run (list_push cap) list_pop ops zs = (os, ys)" "outs = Popped e # os"
      using Cons.prems e Pop by (auto split: prod.splits)
    then show ?thesis
      using Cons.IH [OF os(1)] e Pop by (auto simp: list_pop_def split: list.splits)
  qed
qed simp

locale bounded_fifo =
  fixes push :: "'e \<Rightarrow> 's \<Rightarrow> bool \<times> 's"
    and pop :: "'s \<Rightarrow> 'e option \<times> 's"
    and contents :: "'s \<Rightarrow> 'e list"
    and inv :: "'s \<Rightarrow> bool"
    and cap :: nat
  assumes push_refines: "inv s \<Longrightarrow>
      (fst (push e s), contents (snd (push e s))) = list_push cap e (contents s)"
    and push_inv: "inv s \<Longrightarrow> inv (snd (push e s))"
    and pop_refines: "inv s \<Longrightarrow> (fst (pop s), contents (snd (pop s))) = list_pop (contents s)"
    and pop_inv: "inv s \<Longrightarrow> inv (snd (pop s))"
    and contents_bound: "inv s \<Longrightarrow> length (contents s) \<le> cap"
begin

lemma run_refines:
  "inv s \<Longrightarrow> fifo_run push pop ops s = (outs, s') \<Longrightarrow>
   fifo_run (list_push cap) list_pop ops (contents s) = (outs, contents s') \<and> inv s'"
proof (induction ops arbitrary: s outs)
  case (Cons op ops)
  show ?case
  proof (cases op)
    case (Push e)
    obtain b t where t: "push e s = (b, t)" by force
    obtain os where os: "fifo_run push pop ops t = (os, s')" "outs = Pushed b # os"
      using Cons.prems(2) t Push by (auto split: prod.splits)
    have "list_push cap e (contents s) = (b, contents t)" "inv t"
      using push_refines [OF Cons.prems(1), of e] push_inv [OF Cons.prems(1), of e] t by auto
    then show ?thesis
      using Cons.IH [of t os] os Push by simp
  next
    case Pop
    obtain e t where t: "pop s = (e, t)" by force
    obtain os where os: "fifo_run push pop ops t = (os, s')" "outs = Popped e # os"
      using Cons.prems(2) t Pop by (auto split: prod.splits)
    have "list_pop (contents s) = (e, contents t)" "inv t"
      using pop_refines [OF Cons.prems(1)] pop_inv [OF Cons.prems(1)] t by auto
    then show ?thesis
      using Cons.IH [of t os] os Pop by simp
  qed
qed simp

lemma run_order:
  assumes "inv s" "fifo_run push pop ops s = (outs, s')"
  shows "contents s @ accepted ops outs = delivered outs @ contents s'"
  using list_run_order run_refines [OF assms] by blast

end

end
