(* ===== verification/Lib_Mem.thy ===== *)
theory Lib_Mem
  imports WoOS_Prelude
begin

text \<open>
  The memory and string routines of \<^verbatim>\<open>lib.c\<close>.  Memory is a map from 64-bit addresses to bytes;
  a routine that stores returns the new memory.  A loop over \<^verbatim>\<open>n\<close> bytes is a fold over the indices
  in the order the loop visits them.  A loop that runs to a terminator is a
  \<^theory_text>\<open>partial_function (option)\<close>: that it returns is part of what is proved.  The specification
  reads a C string or a byte range of memory as a list.
\<close>

type_synonym memory = "u64 \<Rightarrow> u8"

section \<open>Block operations\<close>

definition copy_byte :: "u64 \<Rightarrow> u64 \<Rightarrow> nat \<Rightarrow> memory \<Rightarrow> memory" where
  "copy_byte d s i mem = mem(d + of_nat i := mem (s + of_nat i))"

lemma copy_byte_apply:
  "copy_byte d s i mem a = (if a = d + of_nat i then mem (s + of_nat i) else mem a)"
  by (simp add: copy_byte_def)

definition memcpy :: "u64 \<Rightarrow> u64 \<Rightarrow> u64 \<Rightarrow> memory \<Rightarrow> memory" where
  "memcpy dest src n mem = fold (copy_byte dest src) [0..<unat n] mem"

definition memset :: "u64 \<Rightarrow> u32 \<Rightarrow> u64 \<Rightarrow> memory \<Rightarrow> memory" where
  "memset s c n mem = fold (\<lambda>i m. m(s + of_nat i := ucast c)) [0..<unat n] mem"

definition memmove :: "u64 \<Rightarrow> u64 \<Rightarrow> u64 \<Rightarrow> memory \<Rightarrow> memory" where
  "memmove dest src n mem =
     (if dest < src then fold (copy_byte dest src) [0..<unat n] mem
      else if dest > src then fold (\<lambda>i. copy_byte dest src (i - 1)) (rev [1..<Suc (unat n)]) mem
      else mem)"

function memcmp_loop :: "memory \<Rightarrow> u64 \<Rightarrow> u64 \<Rightarrow> nat \<Rightarrow> nat \<Rightarrow> int" where
  "memcmp_loop mem s1 s2 n i =
     (if i < n then
        (if mem (s1 + of_nat i) \<noteq> mem (s2 + of_nat i)
         then uint (mem (s1 + of_nat i)) - uint (mem (s2 + of_nat i))
         else memcmp_loop mem s1 s2 n (Suc i))
      else 0)"
  by pat_completeness auto
termination by (relation "measure (\<lambda>(mem, s1, s2, n, i). n - i)") auto

declare memcmp_loop.simps [simp del]

definition memcmp :: "memory \<Rightarrow> u64 \<Rightarrow> u64 \<Rightarrow> u64 \<Rightarrow> int" where
  "memcmp mem s1 s2 n = memcmp_loop mem s1 s2 (unat n) 0"

section \<open>Strings\<close>

partial_function (option) strlen_loop :: "memory \<Rightarrow> u64 \<Rightarrow> u64 \<Rightarrow> u64 option" where
  "strlen_loop mem s len =
     (if mem (s + len) \<noteq> 0 then strlen_loop mem s (len + 1) else Some len)"

definition strlen :: "memory \<Rightarrow> u64 \<Rightarrow> u64 option" where
  "strlen mem s = strlen_loop mem s 0"

partial_function (option) strcmp :: "memory \<Rightarrow> u64 \<Rightarrow> u64 \<Rightarrow> int option" where
  "strcmp mem s1 s2 =
     (if mem s1 \<noteq> 0 \<and> mem s1 = mem s2 then strcmp mem (s1 + 1) (s2 + 1)
      else Some (uint (mem s1) - uint (mem s2)))"

function strncmp_loop :: "memory \<Rightarrow> u64 \<Rightarrow> u64 \<Rightarrow> nat \<Rightarrow> nat \<Rightarrow> int" where
  "strncmp_loop mem s1 s2 n i =
     (if i < n then
        (if mem (s1 + of_nat i) \<noteq> mem (s2 + of_nat i)
         then uint (mem (s1 + of_nat i)) - uint (mem (s2 + of_nat i))
         else if mem (s1 + of_nat i) = 0 then 0
         else strncmp_loop mem s1 s2 n (Suc i))
      else 0)"
  by pat_completeness auto
termination by (relation "measure (\<lambda>(mem, s1, s2, n, i). n - i)") auto

declare strncmp_loop.simps [simp del]

definition strncmp :: "memory \<Rightarrow> u64 \<Rightarrow> u64 \<Rightarrow> u64 \<Rightarrow> int" where
  "strncmp mem s1 s2 n = strncmp_loop mem s1 s2 (unat n) 0"

definition is_digit :: "u8 \<Rightarrow> bool" where
  "is_digit c \<longleftrightarrow> 48 \<le> c \<and> c \<le> 57"

partial_function (option) atoi_loop :: "memory \<Rightarrow> u64 \<Rightarrow> i32 \<Rightarrow> i32 option" where
  "atoi_loop mem s res =
     (if is_digit (mem s) then atoi_loop mem (s + 1) (res * 10 + (ucast (mem s) - 48))
      else Some res)"

definition atoi :: "memory \<Rightarrow> u64 \<Rightarrow> i32 option" where
  "atoi mem s = atoi_loop mem s 0"

partial_function (option) strtoul_loop :: "memory \<Rightarrow> u64 \<Rightarrow> u64 \<Rightarrow> (u64 \<times> u64) option" where
  "strtoul_loop mem nptr res =
     (if is_digit (mem nptr) then strtoul_loop mem (nptr + 1) (res * 10 + (ucast (mem nptr) - 48))
      else Some (res, nptr))"

text \<open>The second component is the final position, which the code stores through \<^verbatim>\<open>endptr\<close>.\<close>

definition strtoul :: "memory \<Rightarrow> u64 \<Rightarrow> (u64 \<times> u64) option" where
  "strtoul mem nptr = strtoul_loop mem nptr 0"

definition strtoull :: "memory \<Rightarrow> u64 \<Rightarrow> (u64 \<times> u64) option" where
  "strtoull mem nptr = strtoul_loop mem nptr 0"

partial_function (option) strchr_loop :: "memory \<Rightarrow> u64 \<Rightarrow> u8 \<Rightarrow> (u64 + u64) option" where
  "strchr_loop mem s c =
     (if mem s \<noteq> 0 then (if mem s = c then Some (Inl s) else strchr_loop mem (s + 1) c)
      else Some (Inr s))"

definition strchr :: "memory \<Rightarrow> u64 \<Rightarrow> i32 \<Rightarrow> u64 option" where
  "strchr mem s c =
     (case strchr_loop mem s (ucast c) of
        None \<Rightarrow> None
      | Some (Inl p) \<Rightarrow> Some p
      | Some (Inr e) \<Rightarrow> Some (if c = 0 then e else 0))"

partial_function (option) strrchr_loop :: "memory \<Rightarrow> u64 \<Rightarrow> u8 \<Rightarrow> u64 \<Rightarrow> (u64 \<times> u64) option" where
  "strrchr_loop mem s c lst =
     (if mem s \<noteq> 0 then strrchr_loop mem (s + 1) c (if mem s = c then s else lst)
      else Some (lst, s))"

definition strrchr :: "memory \<Rightarrow> u64 \<Rightarrow> i32 \<Rightarrow> u64 option" where
  "strrchr mem s c =
     (case strrchr_loop mem s (ucast c) 0 of
        None \<Rightarrow> None
      | Some (lst, e) \<Rightarrow> Some (if c = 0 then e else lst))"

definition tolower :: "i32 \<Rightarrow> i32" where
  "tolower c = (if 65 \<le> sint c \<and> sint c \<le> 90 then c + (97 - 65) else c)"

definition toupper :: "i32 \<Rightarrow> i32" where
  "toupper c = (if 97 \<le> sint c \<and> sint c \<le> 122 then c - (97 - 65) else c)"

function popcount_loop :: "u64 \<Rightarrow> nat \<Rightarrow> nat" where
  "popcount_loop val count =
     (if val \<noteq> 0 then popcount_loop (drop_bit 1 val) (count + unat (val AND 1)) else count)"
  by pat_completeness auto
termination
proof (relation "measure (\<lambda>(val, count). unat val)")
  fix val :: u64 and count :: nat
  assume "val \<noteq> 0"
  then have "0 < unat val"
    by (simp add: unat_gt_0)
  moreover have "unat (drop_bit 1 val) = unat val div 2"
    by (simp only: drop_bit_eq_div power_one_right unat_div) simp
  ultimately show "((drop_bit 1 val, count + unat (val AND 1)), val, count) \<in> measure (\<lambda>(val, count). unat val)"
    by simp
qed simp

declare popcount_loop.simps [simp del]

definition popcountdi2 :: "u64 \<Rightarrow> nat" where
  "popcountdi2 val = popcount_loop val 0"

section \<open>Reading memory as lists\<close>

definition mem_range :: "memory \<Rightarrow> u64 \<Rightarrow> nat \<Rightarrow> u8 list" where
  "mem_range mem p n = map (\<lambda>i. mem (p + of_nat i)) [0..<n]"

definition addr_range :: "u64 \<Rightarrow> nat \<Rightarrow> u64 set" where
  "addr_range p n = (\<lambda>i. p + of_nat i) ` {..<n}"

text \<open>A C string: the bytes before the terminator, as a list.\<close>

fun cstring :: "memory \<Rightarrow> u64 \<Rightarrow> u8 list \<Rightarrow> bool" where
  "cstring mem p [] \<longleftrightarrow> mem p = 0"
| "cstring mem p (c # cs) \<longleftrightarrow> mem p = c \<and> c \<noteq> 0 \<and> cstring mem (p + 1) cs"

lemma of_nat_u64_inject:
  "i < 2 ^ 64 \<Longrightarrow> j < 2 ^ 64 \<Longrightarrow> (of_nat i :: u64) = of_nat j \<longleftrightarrow> i = j"
  by (simp add: word_of_nat_eq_iff take_bit_nat_eq_self)

lemma addr_range_inject:
  "i < n \<Longrightarrow> j < n \<Longrightarrow> n \<le> 2 ^ 64 \<Longrightarrow> (p :: u64) + of_nat i = p + of_nat j \<longleftrightarrow> i = j"
  using of_nat_u64_inject [of i j] by simp

lemma addr_range_append: "addr_range p (m + n) = addr_range p m \<union> addr_range (p + of_nat m) n"
proof -
  have "{..<m + n} = {..<m} \<union> (+) m ` {..<n}"
    by (auto simp: lessThan_atLeast0)
  then show ?thesis
    by (simp add: addr_range_def image_Un image_image add.assoc)
qed

lemma addr_range_mono: "m \<le> n \<Longrightarrow> addr_range p m \<subseteq> addr_range p n"
  by (auto simp: addr_range_def)

lemma mem_range_append: "mem_range mem p (m + n) = mem_range mem p m @ mem_range mem (p + of_nat m) n"
  by (rule nth_equalityI) (auto simp: mem_range_def nth_append add.assoc simp flip: of_nat_add)

lemma mem_range_cong: "(\<And>a. a \<in> addr_range p n \<Longrightarrow> mem' a = mem a) \<Longrightarrow> mem_range mem' p n = mem_range mem p n"
  by (auto simp: mem_range_def addr_range_def)

text \<open>Consecutive parts of a range that does not wrap around have no address in common.\<close>

lemma addr_range_split_disjoint:
  assumes "m + n \<le> 2 ^ 64"
  shows "addr_range p m \<inter> addr_range (p + of_nat m) n = {}"
proof -
  have "p + of_nat i \<noteq> p + of_nat m + of_nat j" if "i < m" "j < n" for i j
    using addr_range_inject [of i "m + n" "m + j" p] that assms by (simp add: add.assoc)
  then show ?thesis
    by (auto simp: addr_range_def)
qed

lemma mem_range_eqI:
  "(\<And>i. i < n \<Longrightarrow> mem (p + of_nat i) = mem' (q + of_nat i)) \<Longrightarrow> mem_range mem p n = mem_range mem' q n"
  by (simp add: mem_range_def)

text \<open>
  A copy in any order of the indices is right as long as no source byte is written before it
  is read.
\<close>

lemma copy_fold:
  assumes "distinct is" "set is \<subseteq> {..<n}" "n \<le> 2 ^ 64"
    "\<And>xs i ys j. is = xs @ i # ys \<Longrightarrow> j \<in> set xs \<Longrightarrow> s + of_nat i \<noteq> d + of_nat j"
  shows "(\<forall>i\<in>set is. fold (copy_byte d s) is mem (d + of_nat i) = mem (s + of_nat i)) \<and>
         (\<forall>a. a \<notin> (\<lambda>i. d + of_nat i) ` set is \<longrightarrow> fold (copy_byte d s) is mem a = mem a)"
  using assms
proof (induction "is" rule: rev_induct)
  case (snoc k "is")
  let ?mem = "fold (copy_byte d s) is mem"
  have IH: "\<forall>i\<in>set is. ?mem (d + of_nat i) = mem (s + of_nat i)"
    "\<forall>a. a \<notin> (\<lambda>i. d + of_nat i) ` set is \<longrightarrow> ?mem a = mem a"
  proof -
    have "j \<in> set xs \<Longrightarrow> s + of_nat i \<noteq> d + of_nat j" if "is = xs @ i # ys" for xs i ys j
      using snoc.prems(4) [of xs i "ys @ [k]" j] that by simp
    then show "\<forall>i\<in>set is. ?mem (d + of_nat i) = mem (s + of_nat i)"
      "\<forall>a. a \<notin> (\<lambda>i. d + of_nat i) ` set is \<longrightarrow> ?mem a = mem a"
      using snoc.IH snoc.prems(1-3) by auto
  qed
  have src: "?mem (s + of_nat k) = mem (s + of_nat k)"
    using IH(2) snoc.prems(4) [of "is" k "[]"] by blast
  have fresh: "d + of_nat i \<noteq> d + of_nat k" if "i \<in> set is" for i
    using snoc.prems(1-3) that addr_range_inject [of i n k d] by auto
  have step: "fold (copy_byte d s) (is @ [k]) mem a =
      (if a = d + of_nat k then ?mem (s + of_nat k) else ?mem a)" for a
  proof -
    have "fold (copy_byte d s) (is @ [k]) mem = copy_byte d s k ?mem"
      by simp
    then show ?thesis
      by (metis copy_byte_apply)
  qed
  show ?case
    unfolding step using IH src fresh by auto
qed simp

lemma copy_fold_range:
  assumes "distinct is" "set is = {..<n}" "n \<le> 2 ^ 64"
    "\<And>xs i ys j. is = xs @ i # ys \<Longrightarrow> j \<in> set xs \<Longrightarrow> s + of_nat i \<noteq> d + of_nat j"
  shows "mem_range (fold (copy_byte d s) is mem) d n = mem_range mem s n"
    and "a \<notin> addr_range d n \<Longrightarrow> fold (copy_byte d s) is mem a = mem a"
  using copy_fold [of "is" n s d mem] assms
  by (auto simp: addr_range_def intro!: mem_range_eqI)

lemma upt_split: "[0..<n] = xs @ i # ys \<Longrightarrow> j \<in> set xs \<Longrightarrow> j < i"
  by (metis Un_iff append_Cons list.set_intros(1) set_append sorted_append sorted_upt
      sorted_wrt_append strict_sorted_iff distinct_upt strict_sorted_iff sorted_wrt_upt)


lemma rev_upt_split: "rev [0..<n] = xs @ i # ys \<Longrightarrow> j \<in> set xs \<Longrightarrow> i < j"
proof -
  assume eq: "rev [0..<n] = xs @ i # ys" and j: "j \<in> set xs"
  have "[0..<n] = rev ys @ i # rev xs"
    using arg_cong [OF eq, of rev] by simp
  then have "sorted_wrt (<) (rev ys @ i # rev xs)"
    by (metis sorted_wrt_upt)
  then show "i < j"
    using j by (simp add: sorted_wrt_append)
qed

lemma unat_offset:
  fixes p :: u64
  assumes "unat p + n \<le> 2 ^ 64" "i < n"
  shows "unat (p + of_nat i) = unat p + i"
proof -
  have "unat (of_nat i :: u64) = i"
    using assms by (simp add: unsigned_of_nat take_bit_nat_eq_self)
  then show ?thesis
    using assms by (subst unat_plus_no_wrap) simp_all
qed

lemma unat_le_pow64: "unat (n :: u64) \<le> 2 ^ 64"
  using unsigned_less [of n, where 'a = nat] by simp

lemma memcpy_range:
  assumes "addr_range dest (unat n) \<inter> addr_range src (unat n) = {}"
  shows "mem_range (memcpy dest src n mem) dest (unat n) = mem_range mem src (unat n)"
    and "a \<notin> addr_range dest (unat n) \<Longrightarrow> memcpy dest src n mem a = mem a"
proof -
  have "src + of_nat i \<noteq> dest + of_nat j"
    if "[0..<unat n] = xs @ i # ys" "j \<in> set xs" for xs i ys j
  proof -
    have "i < unat n" "j < unat n"
      using arg_cong [OF that(1), of set] that(2) by auto
    then show ?thesis
      using assms by (auto simp: addr_range_def)
  qed
  then show "mem_range (memcpy dest src n mem) dest (unat n) = mem_range mem src (unat n)"
    "a \<notin> addr_range dest (unat n) \<Longrightarrow> memcpy dest src n mem a = mem a"
    unfolding memcpy_def using copy_fold_range [of "[0..<unat n]" "unat n" src dest] unat_le_pow64
    by (auto simp: atLeast0LessThan)
qed

lemma memset_range:
  shows "mem_range (memset s c n mem) s (unat n) = replicate (unat n) (ucast c)"
    and "a \<notin> addr_range s (unat n) \<Longrightarrow> memset s c n mem a = mem a"
proof -
  have *: "fold (\<lambda>i m. m(s + of_nat i := ucast c)) is mem a =
      (if a \<in> (\<lambda>i. s + of_nat i) ` set is then ucast c else mem a)" for "is" a
    by (induction "is" arbitrary: mem) auto
  show "mem_range (memset s c n mem) s (unat n) = replicate (unat n) (ucast c)"
    by (rule nth_equalityI) (auto simp: mem_range_def memset_def *)
  show "a \<notin> addr_range s (unat n) \<Longrightarrow> memset s c n mem a = mem a"
    by (simp add: memset_def * addr_range_def atLeast0LessThan)
qed

lemma memmove_down_fold:
  "fold (\<lambda>i. copy_byte d s (i - 1)) (rev [1..<Suc n]) mem = fold (copy_byte d s) (rev [0..<n]) mem"
proof -
  have "[0..<n] = map (\<lambda>i. i - 1) [1..<Suc n]"
    by (rule nth_equalityI) (auto simp del: upt_Suc)
  then have "rev [0..<n] = map (\<lambda>i. i - 1) (rev [1..<Suc n])"
    by (metis rev_map)
  then show ?thesis
    by (simp add: fold_map comp_def)
qed

lemma memmove_range:
  assumes d: "unat dest + unat n \<le> 2 ^ 64" and s: "unat src + unat n \<le> 2 ^ 64"
  shows "mem_range (memmove dest src n mem) dest (unat n) = mem_range mem src (unat n)"
    and "a \<notin> addr_range dest (unat n) \<Longrightarrow> memmove dest src n mem a = mem a"
proof -
  note off = unat_offset [OF s] unat_offset [OF d]
  have up: "src + of_nat i \<noteq> dest + of_nat j"
    if "dest < src" "[0..<unat n] = xs @ i # ys" "j \<in> set xs" for xs i ys j
  proof -
    have "i < unat n" "j < unat n" "j < i"
      using arg_cong [OF that(2), of set] that(3) upt_split [OF that(2,3)] by auto
    then have "unat (dest + of_nat j) < unat (src + of_nat i)"
      using that(1) by (simp add: off word_less_nat_alt)
    then show ?thesis by auto
  qed
  have down: "src + of_nat i \<noteq> dest + of_nat j"
    if "src < dest" "rev [0..<unat n] = xs @ i # ys" "j \<in> set xs" for xs i ys j
  proof -
    have "i < unat n" "j < unat n" "i < j"
      using arg_cong [OF that(2), of set] that(3) rev_upt_split [OF that(2,3)] by auto
    then have "unat (src + of_nat i) < unat (dest + of_nat j)"
      using that(1) by (simp add: off word_less_nat_alt)
    then show ?thesis by auto
  qed
  consider "dest < src" | "src < dest" | "src = dest" by force
  then show "mem_range (memmove dest src n mem) dest (unat n) = mem_range mem src (unat n)"
    "a \<notin> addr_range dest (unat n) \<Longrightarrow> memmove dest src n mem a = mem a"
    unfolding memmove_def memmove_down_fold
    using copy_fold_range [of "[0..<unat n]" "unat n" src dest] unat_le_pow64 up
      copy_fold_range [of "rev [0..<unat n]" "unat n" src dest] down
    by (cases; auto simp: atLeast0LessThan)+
qed


section \<open>Strings\<close>

lemma cstring_step: "cstring mem p (c # cs) \<Longrightarrow> mem p \<noteq> 0"
  by simp

lemma strlen_loop_cstring:
  "cstring mem (s + len) xs \<Longrightarrow> strlen_loop mem s len = Some (len + of_nat (length xs))"
proof (induction xs arbitrary: len)
  case Nil
  then show ?case
    by (subst strlen_loop.simps) simp
next
  case (Cons c xs)
  then have "strlen_loop mem s (len + 1) = Some (len + 1 + of_nat (length xs))"
    by (intro Cons.IH) (simp add: add.assoc)
  with Cons.prems show ?case
    by (subst strlen_loop.simps) (simp add: add.assoc)
qed

text \<open>The first difference decides; a proper prefix is smaller.\<close>

fun bytes_cmp :: "u8 list \<Rightarrow> u8 list \<Rightarrow> int" where
  "bytes_cmp [] [] = 0"
| "bytes_cmp [] (y # ys) = - uint y"
| "bytes_cmp (x # xs) [] = uint x"
| "bytes_cmp (x # xs) (y # ys) = (if x = y then bytes_cmp xs ys else uint x - uint y)"

lemma bytes_cmp_eq_0:
  "0 \<notin> set xs \<Longrightarrow> 0 \<notin> set ys \<Longrightarrow> bytes_cmp xs ys = 0 \<longleftrightarrow> xs = ys"
  by (induction xs ys rule: bytes_cmp.induct) (auto simp: uint_0_iff dest: unsigned_word_eqI)

lemma cstring_nonzero: "cstring mem p xs \<Longrightarrow> 0 \<notin> set xs"
  by (induction mem p xs rule: cstring.induct) auto

lemma strcmp_cstring:
  "cstring mem p xs \<Longrightarrow> cstring mem q ys \<Longrightarrow> strcmp mem p q = Some (bytes_cmp xs ys)"
proof (induction xs ys arbitrary: p q rule: bytes_cmp.induct)
  case (4 x xs y ys)
  then show ?case
    by (subst strcmp.simps) auto
qed (subst strcmp.simps; simp)+

lemma strncmp_loop_cstring:
  "cstring mem (p + of_nat i) xs \<Longrightarrow> cstring mem (q + of_nat i) ys \<Longrightarrow> i \<le> n \<Longrightarrow>
   strncmp_loop mem p q n i = bytes_cmp (take (n - i) xs) (take (n - i) ys)"
proof (induction xs ys arbitrary: i rule: bytes_cmp.induct)
  case (4 x xs y ys)
  show ?case
  proof (cases "i < n \<and> x = y")
    case True
    then have "strncmp_loop mem p q n (Suc i) = bytes_cmp (take (n - Suc i) xs) (take (n - Suc i) ys)"
      using "4.prems" by (intro "4.IH") (auto simp: algebra_simps)
    moreover have "n - i = Suc (n - Suc i)"
      using True by (simp add: Suc_diff_Suc)
    ultimately show ?thesis
      using "4.prems" True by (subst strncmp_loop.simps) auto
  next
    case False
    then show ?thesis
      using "4.prems" by (subst strncmp_loop.simps) (auto simp: take_Cons split: nat.splits)
  qed
qed (subst strncmp_loop.simps; auto simp: take_Cons split: nat.splits)+

text \<open>Numbers: the value of a digit string, most significant digit first.\<close>

definition dec_value :: "nat \<Rightarrow> u8 list \<Rightarrow> nat" where
  "dec_value v ds = foldl (\<lambda>v d. v * 10 + (unat d - 48)) v ds"

fun digits_at :: "memory \<Rightarrow> u64 \<Rightarrow> u8 list \<Rightarrow> bool" where
  "digits_at mem p [] \<longleftrightarrow> \<not> is_digit (mem p)"
| "digits_at mem p (d # ds) \<longleftrightarrow> mem p = d \<and> is_digit d \<and> digits_at mem (p + 1) ds"

lemma is_digit_value:
  assumes "is_digit d"
  shows "(ucast d :: u64) - 48 = of_nat (unat d - 48)" "unat d - 48 < 10" "48 \<le> unat d"
proof -
  show *: "48 \<le> unat d" "unat d - 48 < 10"
    using assms by (auto simp: is_digit_def word_le_nat_alt)
  then show "(ucast d :: u64) - 48 = of_nat (unat d - 48)"
    by (simp add: of_nat_diff)
qed

lemma strtoul_loop_digits:
  "digits_at mem p ds \<Longrightarrow>
   strtoul_loop mem p (of_nat v) = Some (of_nat (dec_value v ds), p + of_nat (length ds))"
proof (induction ds arbitrary: p v)
  case Nil
  then show ?case
    by (subst strtoul_loop.simps) (simp add: dec_value_def)
next
  case (Cons d ds)
  have "(of_nat v :: u64) * 10 + (ucast d - 48) = of_nat (v * 10 + (unat d - 48))"
    using Cons.prems is_digit_value [of d] by simp
  moreover have "strtoul_loop mem (p + 1) (of_nat (v * 10 + (unat d - 48))) =
      Some (of_nat (dec_value v (d # ds)), p + of_nat (length (d # ds)))"
    using Cons.IH [of "p + 1" "v * 10 + (unat d - 48)"] Cons.prems
    by (simp add: dec_value_def add.assoc)
  ultimately show ?case
    using Cons.prems by (subst strtoul_loop.simps) simp
qed

lemma strchr_loop_cstring:
  "cstring mem p xs \<Longrightarrow>
   strchr_loop mem p c =
     Some (if c \<in> set xs then Inl (p + of_nat (length (takeWhile (\<lambda>x. x \<noteq> c) xs)))
           else Inr (p + of_nat (length xs)))"
proof (induction xs arbitrary: p)
  case (Cons x xs)
  then show ?case
    by (subst strchr_loop.simps) (auto simp: add.assoc)
qed (subst strchr_loop.simps, simp)


section \<open>Properties\<close>

text \<open>
  \<^verbatim>\<open>memmove\<close> copies correctly whatever the overlap of the two ranges (neither wrapping round
  the address space): the destination holds what the source held before the call, and no byte
  outside the destination changes.
\<close>

theorem memmove_spec:
  assumes "unat dest + unat n \<le> 2 ^ 64" "unat src + unat n \<le> 2 ^ 64"
  shows "mem_range (memmove dest src n mem) dest (unat n) = mem_range mem src (unat n) \<and>
         (\<forall>a. a \<notin> addr_range dest (unat n) \<longrightarrow> memmove dest src n mem a = mem a)"
  using memmove_range [OF assms] by blast

theorem memmove_spec_witness:
  "mem_range (memmove 1 0 3 (\<lambda>a. ucast a)) 1 3 = [0, 1, 2]"
proof -
  have "[0..<3] = [0, 1, 2]"
    by (simp add: upt_rec)
  then show ?thesis
    using memmove_spec [of 1 3 0 "\<lambda>a. ucast a"] by (simp add: mem_range_def)
qed

text \<open>
  On two C strings \<^verbatim>\<open>strcmp\<close> returns, and returns the lexicographic comparison of their bytes as
  unsigned characters: the difference at the first place they differ; it is zero exactly when the
  strings are equal, and \<^verbatim>\<open>strncmp\<close> is the same comparison of their first \<open>n\<close> bytes.
\<close>

theorem strcmp_spec:
  assumes "cstring mem p xs" "cstring mem q ys"
  shows "strcmp mem p q = Some (bytes_cmp xs ys) \<and> (bytes_cmp xs ys = 0 \<longleftrightarrow> xs = ys) \<and>
         strncmp mem p q n = bytes_cmp (take (unat n) xs) (take (unat n) ys)"
  using strcmp_cstring [OF assms] cstring_nonzero [OF assms(1)] cstring_nonzero [OF assms(2)]
    strncmp_loop_cstring [of mem p 0 xs q ys "unat n"] assms
  by (simp add: bytes_cmp_eq_0 strncmp_def)

definition example_memory :: memory where
  "example_memory = (\<lambda>a. if a = 100 then 52 else if a = 101 then 50 else if a = 200 then 52 else 0)"

theorem strcmp_spec_witness:
  "strcmp example_memory 100 200 = Some 50 \<and> strncmp example_memory 100 200 1 = 0"
  using strcmp_spec [of example_memory 100 "[52, 50]" 200 "[52]" 1]
  by (simp add: example_memory_def)

text \<open>
  \<^verbatim>\<open>strtoul\<close> and \<^verbatim>\<open>strtoull\<close> on a run of decimal digits return its value modulo \<open>2 ^ 64\<close> and set
  \<^verbatim>\<open>endptr\<close> to the first byte that is not a digit.
\<close>

theorem strtoul_spec:
  assumes "digits_at mem p ds"
  shows "strtoul mem p = Some (of_nat (dec_value 0 ds), p + of_nat (length ds)) \<and>
         strtoull mem p = strtoul mem p"
  using strtoul_loop_digits [OF assms, of 0] by (simp add: strtoul_def strtoull_def)

theorem strtoul_spec_witness: "strtoul example_memory 100 = Some (42, 102)"
  using strtoul_spec [of example_memory 100 "[52, 50]"]
  by (simp add: example_memory_def is_digit_def dec_value_def)

end
