(* ===== verification/Kheap.thy ===== *)
theory Kheap
  imports Lib_Mem
begin

text \<open>
  The kernel heap, \<^verbatim>\<open>kheap.c\<close>: a first-fit allocator over a 128 MiB arena that is tiled by blocks,
  each a 32-byte header and its payload, linked in address order.  The headers live in a typed
  store from addresses to \<^verbatim>\<open>kheap_block_t\<close>, the payload bytes in a byte memory beside it; the
  invariant keeps the two apart.  The loops follow \<^verbatim>\<open>next\<close> pointers and are
  \<^theory_text>\<open>partial_function (option)\<close>: on a well-formed heap they are proved to return.  The interrupt
  flag saved and restored around the operations makes each of them one atomic step.
\<close>

section \<open>State and operations\<close>

definition KHEAP_BASE :: u64 where "KHEAP_BASE = 0x02000000"
definition KHEAP_ARENA_SIZE :: u64 where "KHEAP_ARENA_SIZE = 128 * 1024 * 1024"
definition KHEAP_ALIGN :: u64 where "KHEAP_ALIGN = 16"

record kheap_block =
  blk_size :: u64
  blk_next :: u64
  blk_used :: bool

definition sizeof_kheap_block :: u64 where "sizeof_kheap_block = 32"

record kheap =
  kheap_hdr :: "u64 \<Rightarrow> kheap_block"
  kheap_mem :: memory
  g_kheap_head :: u64
  g_kheap_used :: u64

definition kalign_up :: "u64 \<Rightarrow> u64 \<Rightarrow> u64" where
  "kalign_up value align = (value + (align - 1)) AND NOT (align - 1)"

definition block_payload :: "u64 \<Rightarrow> u64" where
  "block_payload block = block + sizeof_kheap_block"

definition block_payload_size :: "kheap_block \<Rightarrow> u64" where
  "block_payload_size block =
     (if blk_size block \<le> sizeof_kheap_block then 0 else blk_size block - sizeof_kheap_block)"

definition kheap_init :: "kheap \<Rightarrow> kheap" where
  "kheap_init st =
     st\<lparr>kheap_hdr := (kheap_hdr st)(KHEAP_BASE :=
          \<lparr>blk_size = KHEAP_ARENA_SIZE, blk_next = 0, blk_used = False\<rparr>),
        g_kheap_head := KHEAP_BASE, g_kheap_used := 0\<rparr>"

text \<open>The search loop of \<^verbatim>\<open>kheap_alloc\<close>: the first free block with enough payload, or \<^verbatim>\<open>NULL\<close>.\<close>

partial_function (option) kheap_find :: "(u64 \<Rightarrow> kheap_block) \<Rightarrow> u64 \<Rightarrow> u64 \<Rightarrow> u64 option" where
  "kheap_find hdr need block =
     (if block = 0 then Some 0
      else if blk_used (hdr block) then kheap_find hdr need (blk_next (hdr block))
      else if block_payload_size (hdr block) < need then kheap_find hdr need (blk_next (hdr block))
      else Some block)"

definition min_split_size :: u64 where
  "min_split_size = sizeof_kheap_block + KHEAP_ALIGN"

text \<open>Cutting a free block down to \<open>need\<close> bytes when a block's worth remains, and taking it.\<close>

definition kheap_take :: "u64 \<Rightarrow> u64 \<Rightarrow> (u64 \<Rightarrow> kheap_block) \<Rightarrow> u64 \<Rightarrow> kheap_block" where
  "kheap_take need block hdr =
     (let payload = block_payload_size (hdr block);
          remain_payload = payload - need;
          hdr = (if remain_payload \<ge> min_split_size
                 then let split = block_payload block + need;
                          hdr = hdr(split := \<lparr>blk_size = remain_payload,
                                             blk_next = blk_next (hdr block), blk_used = False\<rparr>)
                      in hdr(block := (hdr block)\<lparr>blk_size := sizeof_kheap_block + need,
                                                blk_next := split\<rparr>)
                 else hdr)
      in hdr(block := (hdr block)\<lparr>blk_used := True\<rparr>))"

definition kheap_alloc :: "u64 \<Rightarrow> kheap \<Rightarrow> (u64 \<times> kheap) option" where
  "kheap_alloc sz st =
     (if sz = 0 \<or> g_kheap_head st = 0 then Some (0, st)
      else
        let need = kalign_up sz KHEAP_ALIGN in
        case kheap_find (kheap_hdr st) need (g_kheap_head st) of
          None \<Rightarrow> None
        | Some block \<Rightarrow>
            if block = 0 then Some (0, st)
            else
              let hdr = kheap_take need block (kheap_hdr st) in
              Some (block_payload block,
                    st\<lparr>kheap_hdr := hdr,
                       g_kheap_used := g_kheap_used st + block_payload_size (hdr block)\<rparr>))"

partial_function (option) coalesce_free_blocks ::
    "(u64 \<Rightarrow> kheap_block) \<Rightarrow> u64 \<Rightarrow> (u64 \<Rightarrow> kheap_block) option" where
  "coalesce_free_blocks hdr block =
     (if block = 0 \<or> blk_next (hdr block) = 0 then Some hdr
      else
        let nxt = blk_next (hdr block) in
        if \<not> blk_used (hdr block) \<and> \<not> blk_used (hdr nxt) \<and> nxt = block + blk_size (hdr block)
        then coalesce_free_blocks
               (hdr(block := (hdr block)\<lparr>blk_size := blk_size (hdr block) + blk_size (hdr nxt),
                                         blk_next := blk_next (hdr nxt)\<rparr>)) block
        else coalesce_free_blocks hdr nxt)"

partial_function (option) kheap_lookup :: "(u64 \<Rightarrow> kheap_block) \<Rightarrow> u64 \<Rightarrow> u64 \<Rightarrow> u64 option" where
  "kheap_lookup hdr ptr block =
     (if block = 0 then Some 0
      else if block_payload block \<noteq> ptr then kheap_lookup hdr ptr (blk_next (hdr block))
      else Some block)"

definition kheap_free :: "u64 \<Rightarrow> kheap \<Rightarrow> kheap option" where
  "kheap_free ptr st =
     (if ptr = 0 \<or> g_kheap_head st = 0 then Some st
      else
        case kheap_lookup (kheap_hdr st) ptr (g_kheap_head st) of
          None \<Rightarrow> None
        | Some block \<Rightarrow>
            if block = 0 then Some st
            else if \<not> blk_used (kheap_hdr st block) then Some st
            else
              let hdr = (kheap_hdr st)(block := (kheap_hdr st block)\<lparr>blk_used := False\<rparr>);
                  used = g_kheap_used st - block_payload_size (hdr block) in
              (case coalesce_free_blocks hdr (g_kheap_head st) of
                 None \<Rightarrow> None
               | Some hdr \<Rightarrow> Some (st\<lparr>kheap_hdr := hdr, g_kheap_used := used\<rparr>)))"

definition kheap_realloc :: "u64 \<Rightarrow> u64 \<Rightarrow> kheap \<Rightarrow> (u64 \<times> kheap) option" where
  "kheap_realloc ptr sz st =
     (if ptr = 0 then kheap_alloc sz st
      else if sz = 0 then map_option (\<lambda>st. (0, st)) (kheap_free ptr st)
      else
        let block = ptr - sizeof_kheap_block;
            current_payload = block_payload_size (kheap_hdr st block) in
        if current_payload \<ge> sz then Some (ptr, st)
        else
          case kheap_alloc sz st of
            None \<Rightarrow> None
          | Some (new_ptr, st) \<Rightarrow>
              if new_ptr = 0 then Some (0, st)
              else
                let st = st\<lparr>kheap_mem := memcpy new_ptr ptr current_payload (kheap_mem st)\<rparr> in
                map_option (\<lambda>st. (new_ptr, st)) (kheap_free ptr st))"

definition kheap_total_bytes :: u64 where
  "kheap_total_bytes = KHEAP_ARENA_SIZE - sizeof_kheap_block"

definition kheap_used_bytes :: "kheap \<Rightarrow> u64" where
  "kheap_used_bytes st = g_kheap_used st"

definition kheap_free_bytes :: "kheap \<Rightarrow> u64" where
  "kheap_free_bytes st = kheap_total_bytes - kheap_used_bytes st"

text \<open>The C library's names for them, in \<^verbatim>\<open>lib.c\<close>.\<close>

definition calloc :: "u64 \<Rightarrow> u64 \<Rightarrow> kheap \<Rightarrow> (u64 \<times> kheap) option" where
  "calloc nmemb sz st =
     (let total = nmemb * sz in
      case kheap_alloc total st of
        None \<Rightarrow> None
      | Some (ptr, st) \<Rightarrow>
          Some (ptr, if ptr \<noteq> 0 then st\<lparr>kheap_mem := memset ptr 0 total (kheap_mem st)\<rparr> else st))"

section \<open>The chain of blocks\<close>

text \<open>
  \<open>chain hdr a bs\<close>: starting at address \<open>a\<close> the blocks \<open>bs\<close> are linked in order and tile the arena up
  to its end, each at least a header long and a multiple of the alignment.
\<close>

definition arena_end :: nat where "arena_end = 0x0A000000"

fun seg :: "(u64 \<Rightarrow> kheap_block) \<Rightarrow> u64 \<Rightarrow> u64 list \<Rightarrow> u64 \<Rightarrow> bool" where
  "seg hdr p [] q \<longleftrightarrow> p = q"
| "seg hdr p (b # bs) q \<longleftrightarrow> p = b \<and> b \<noteq> 0 \<and> seg hdr (blk_next (hdr b)) bs q"

fun tiles :: "(u64 \<Rightarrow> kheap_block) \<Rightarrow> nat \<Rightarrow> u64 list \<Rightarrow> nat \<Rightarrow> bool" where
  "tiles hdr a [] e \<longleftrightarrow> a = e"
| "tiles hdr a (b # bs) e \<longleftrightarrow>
     unat b = a \<and> 32 \<le> unat (blk_size (hdr b)) \<and> 16 dvd unat (blk_size (hdr b)) \<and>
     tiles hdr (a + unat (blk_size (hdr b))) bs e"

definition used_of :: "(u64 \<Rightarrow> kheap_block) \<Rightarrow> u64 \<Rightarrow> nat" where
  "used_of hdr b = (if blk_used (hdr b) then unat (blk_size (hdr b)) - 32 else 0)"

definition used_sum :: "(u64 \<Rightarrow> kheap_block) \<Rightarrow> u64 list \<Rightarrow> nat" where
  "used_sum hdr bs = sum_list (map (used_of hdr) bs)"

text \<open>No two neighbours are both free.\<close>

fun coalesced :: "(u64 \<Rightarrow> kheap_block) \<Rightarrow> u64 list \<Rightarrow> bool" where
  "coalesced hdr (b # c # bs) \<longleftrightarrow>
     (blk_used (hdr b) \<or> blk_used (hdr c)) \<and> coalesced hdr (c # bs)"
| "coalesced hdr _ \<longleftrightarrow> True"

definition heap_ok :: "kheap \<Rightarrow> u64 list \<Rightarrow> bool" where
  "heap_ok st bs \<longleftrightarrow>
     bs \<noteq> [] \<and> g_kheap_head st = KHEAP_BASE \<and> seg (kheap_hdr st) KHEAP_BASE bs 0 \<and>
     tiles (kheap_hdr st) (unat KHEAP_BASE) bs arena_end \<and> coalesced (kheap_hdr st) bs \<and>
     unat (g_kheap_used st) = used_sum (kheap_hdr st) bs"

text \<open>What a client sees: the live allocations, as payload address and capacity.\<close>

definition allocs :: "kheap \<Rightarrow> u64 list \<Rightarrow> (nat \<times> nat) set" where
  "allocs st bs =
     (\<lambda>b. (unat b + 32, unat (blk_size (kheap_hdr st b)) - 32)) `
       {b \<in> set bs. blk_used (kheap_hdr st b)}"

lemma seg_append [simp]: "seg hdr p (xs @ ys) q \<longleftrightarrow> (\<exists>r. seg hdr p xs r \<and> seg hdr r ys q)"
  by (induction xs arbitrary: p) auto

lemma tiles_append [simp]: "tiles hdr a (xs @ ys) e \<longleftrightarrow> (\<exists>m. tiles hdr a xs m \<and> tiles hdr m ys e)"
  by (induction xs arbitrary: a) auto

lemma seg_cong: "(\<And>b. b \<in> set bs \<Longrightarrow> hdr b = hdr' b) \<Longrightarrow> seg hdr p bs q = seg hdr' p bs q"
  by (induction bs arbitrary: p) auto

lemma tiles_cong: "(\<And>b. b \<in> set bs \<Longrightarrow> hdr b = hdr' b) \<Longrightarrow> tiles hdr a bs e = tiles hdr' a bs e"
  by (induction bs arbitrary: a) auto

lemma used_sum_cong: "(\<And>b. b \<in> set bs \<Longrightarrow> hdr b = hdr' b) \<Longrightarrow> used_sum hdr bs = used_sum hdr' bs"
  unfolding used_sum_def
  by (rule arg_cong [where f = sum_list], rule map_cong) (auto simp: used_of_def)

lemma coalesced_cong: "(\<And>b. b \<in> set bs \<Longrightarrow> hdr b = hdr' b) \<Longrightarrow> coalesced hdr bs = coalesced hdr' bs"
  by (induction hdr bs rule: coalesced.induct) auto

text \<open>Writing a header that is not in the chain does not change it.\<close>

lemma seg_upd [simp]: "c \<notin> set bs \<Longrightarrow> seg (hdr(c := v)) p bs q = seg hdr p bs q"
  by (rule seg_cong) auto

lemma tiles_upd [simp]: "c \<notin> set bs \<Longrightarrow> tiles (hdr(c := v)) a bs e = tiles hdr a bs e"
  by (rule tiles_cong) auto

lemma used_sum_upd [simp]: "c \<notin> set bs \<Longrightarrow> used_sum (hdr(c := v)) bs = used_sum hdr bs"
  by (rule used_sum_cong) auto

lemma coalesced_upd [simp]: "c \<notin> set bs \<Longrightarrow> coalesced (hdr(c := v)) bs = coalesced hdr bs"
  by (rule coalesced_cong) auto

lemma tiles_le: "tiles hdr a bs e \<Longrightarrow> a \<le> e"
  by (induction bs arbitrary: a) fastforce+

lemma tiles_member:
  "tiles hdr a bs e \<Longrightarrow> b \<in> set bs \<Longrightarrow> a \<le> unat b \<and> unat b + unat (blk_size (hdr b)) \<le> e \<and>
     32 \<le> unat (blk_size (hdr b)) \<and> 16 dvd unat (blk_size (hdr b))"
  by (induction bs arbitrary: a) (fastforce dest: tiles_le)+

text \<open>Distinct blocks do not overlap.\<close>

lemma tiles_disjoint:
  "tiles hdr a bs e \<Longrightarrow> b \<in> set bs \<Longrightarrow> c \<in> set bs \<Longrightarrow> b \<noteq> c \<Longrightarrow>
   unat b + unat (blk_size (hdr b)) \<le> unat c \<or> unat c + unat (blk_size (hdr c)) \<le> unat b"
  by (induction bs arbitrary: a) (fastforce dest: tiles_member)+

lemma tiles_distinct: "tiles hdr a bs e \<Longrightarrow> distinct bs"
  by (induction bs arbitrary: a) (fastforce dest: tiles_member)+

lemma used_sum_bound: "tiles hdr a bs e \<Longrightarrow> a + used_sum hdr bs \<le> e"
  by (induction bs arbitrary: a) (fastforce simp: used_sum_def used_of_def)+

lemma used_sum_append [simp]: "used_sum hdr (xs @ ys) = used_sum hdr xs + used_sum hdr ys"
  by (simp add: used_sum_def)

lemma used_sum_Cons [simp]: "used_sum hdr (b # ys) = used_of hdr b + used_sum hdr ys"
  by (simp add: used_sum_def)


section \<open>Allocation\<close>

lemma kheap_find_spec:
  assumes "seg hdr p bs 0"
  obtains (none) "kheap_find hdr need p = Some 0"
      "\<And>b. b \<in> set bs \<Longrightarrow> \<not> blk_used (hdr b) \<Longrightarrow> block_payload_size (hdr b) < need"
    | (found) xs b ys where "bs = xs @ b # ys" "kheap_find hdr need p = Some b"
        "b \<noteq> 0" "\<not> blk_used (hdr b)" "need \<le> block_payload_size (hdr b)"
  using assms
proof (induction bs arbitrary: p thesis)
  case Nil
  then show ?case
    by (simp add: kheap_find.simps [of hdr need p])
next
  case (Cons b bs)
  let ?skip = "blk_used (hdr b) \<or> block_payload_size (hdr b) < need"
  note unfold = kheap_find.simps [of hdr need b]
  have p: "p = b" "b \<noteq> 0" "seg hdr (blk_next (hdr b)) bs 0"
    using Cons.prems(3) by auto
  show ?case
  proof (cases ?skip)
    case True
    then have eq: "kheap_find hdr need p = kheap_find hdr need (blk_next (hdr b))"
      using p by (auto simp: unfold)
    show ?thesis
    proof (rule Cons.IH [OF _ _ p(3)])
      assume "kheap_find hdr need (blk_next (hdr b)) = Some 0"
        "\<And>c. c \<in> set bs \<Longrightarrow> \<not> blk_used (hdr c) \<Longrightarrow> block_payload_size (hdr c) < need"
      then show ?thesis
        using True eq by (intro Cons.prems(1)) auto
    next
      fix xs c ys
      assume "bs = xs @ c # ys" "kheap_find hdr need (blk_next (hdr b)) = Some c"
        "c \<noteq> 0" "\<not> blk_used (hdr c)" "need \<le> block_payload_size (hdr c)"
      then show ?thesis
        using eq by (intro Cons.prems(2) [of "b # xs" c ys]) auto
    qed
  next
    case False
    then show ?thesis
      using p by (intro Cons.prems(2) [of "[]" b bs]) (auto simp: unfold)
  qed
qed

lemma unat_payload_size: "unat (block_payload_size h) = unat (blk_size h) - 32"
  by (auto simp: block_payload_size_def sizeof_kheap_block_def word_le_nat_alt unat_sub_le)

lemma coalesced_middle:
  "coalesced hdr (xs @ b # ys) \<longleftrightarrow> coalesced hdr (xs @ [b]) \<and> coalesced hdr (b # ys)"
proof (induction xs)
  case (Cons x xs)
  then show ?case
    by (cases xs) auto
qed (cases ys; simp)

lemma coalesced_mono:
  "coalesced hdr bs \<Longrightarrow> (\<And>b. b \<in> set bs \<Longrightarrow> blk_used (hdr b) \<Longrightarrow> blk_used (hdr' b)) \<Longrightarrow> coalesced hdr' bs"
  by (induction hdr bs rule: coalesced.induct) auto

lemma tiles_coalesced_unused: "coalesced hdr (b # ys) \<Longrightarrow> \<not> blk_used (hdr b) \<Longrightarrow> ys = [] \<or> blk_used (hdr (hd ys))"
  by (cases ys) auto

lemma kheap_take_spec:
  assumes bs: "bs = xs @ b # ys"
    and seg: "seg hdr p bs 0" and tiles: "tiles hdr a bs e" and e: "e < 2 ^ 64"
    and co: "coalesced hdr bs"
    and free: "\<not> blk_used (hdr b)" and fits: "need \<le> block_payload_size (hdr b)"
    and al: "16 dvd unat need"
  obtains bs' where "seg (kheap_take need b hdr) p bs' 0" "tiles (kheap_take need b hdr) a bs' e"
    "coalesced (kheap_take need b hdr) bs'"
    "\<And>c. c \<in> set bs \<Longrightarrow> c \<noteq> b \<Longrightarrow> kheap_take need b hdr c = hdr c"
    "{c \<in> set bs'. blk_used (kheap_take need b hdr c)} = insert b {c \<in> set bs. blk_used (hdr c)}"
    "used_sum (kheap_take need b hdr) bs' = used_sum hdr bs + used_of (kheap_take need b hdr) b"
    "unat need + 32 \<le> unat (blk_size (kheap_take need b hdr b))"
    "blk_used (kheap_take need b hdr b)"
proof -
  let ?hdr = "kheap_take need b hdr" and ?s = "unat (blk_size (hdr b))"
  let ?remain = "block_payload_size (hdr b) - need"
  have b: "32 \<le> ?s" "16 dvd ?s" "unat b + ?s \<le> e"
    using tiles_member [OF tiles, of b] bs by auto
  have need: "unat need + 32 \<le> ?s"
    using fits b by (simp add: word_le_nat_alt unat_payload_size)
  have remain: "unat ?remain = ?s - 32 - unat need"
    using fits by (simp add: unat_sub_le unat_payload_size)
  obtain m where m: "tiles hdr a xs m" "unat b = m" "tiles hdr (m + ?s) ys e"
    using tiles bs by auto
  obtain r where r: "seg hdr p xs b" "b \<noteq> 0" "seg hdr (blk_next (hdr b)) ys 0"
    using seg bs by auto
  have dist: "b \<notin> set xs" "b \<notin> set ys"
    using tiles_distinct [OF tiles] bs by auto
  show ?thesis
  proof (cases "min_split_size \<le> ?remain")
    case False
    then have eq: "?hdr = hdr(b := (hdr b)\<lparr>blk_used := True\<rparr>)"
      by (simp add: kheap_take_def Let_def)
    show ?thesis
    proof (rule that [of bs])
      show "seg ?hdr p bs 0"
        using r dist by (auto simp: bs eq)
      show "tiles ?hdr a bs e"
        using m dist b by (auto simp: bs eq)
      show "coalesced ?hdr bs"
        by (rule coalesced_mono [OF co]) (auto simp: eq)
      show "used_sum ?hdr bs = used_sum hdr bs + used_of ?hdr b"
        using dist free
        by (simp add: bs eq used_of_def)
    qed (use need bs in \<open>auto simp: eq\<close>)
  next
    case True
    let ?c = "b + 32 + need"
    have split: "48 \<le> ?s - 32 - unat need"
      using True remain by (simp add: word_le_nat_alt min_split_size_def sizeof_kheap_block_def KHEAP_ALIGN_def)
    have uc: "unat ?c = unat b + 32 + unat need"
    proof -
      have "unat (b + 32) = unat b + 32"
        using b e need by (subst unat_plus_no_wrap) simp_all
      then show ?thesis
        using b e need by (subst unat_plus_no_wrap) simp_all
    qed
    have sz: "unat (32 + need) = 32 + unat need"
      using b e need by (subst unat_plus_no_wrap) simp_all
    have eq: "?hdr = hdr(?c := \<lparr>blk_size = ?remain, blk_next = blk_next (hdr b), blk_used = False\<rparr>,
        b := \<lparr>blk_size = 32 + need, blk_next = ?c, blk_used = True\<rparr>)"
      using True uc by (auto simp: kheap_take_def Let_def block_payload_def sizeof_kheap_block_def
          fun_eq_iff)
    have outside: "?c \<notin> set bs"
    proof
      assume "?c \<in> set bs"
      moreover have "unat ?c \<noteq> unat b"
        using uc by linarith
      then have "?c \<noteq> b"
        by metis
      ultimately show False
        using tiles_disjoint [OF tiles, of ?c b] bs uc split tiles_member [OF tiles, of ?c] by auto
    qed
    then have c: "?c \<notin> set xs" "?c \<notin> set ys" "?c \<noteq> b"
      using bs by auto
    have same: "?hdr x = hdr x" if "x \<in> set xs \<union> set ys" for x
      using that c dist by (auto simp: eq)
    show ?thesis
    proof (rule that [of "xs @ b # ?c # ys"])
      have "unat ?c \<noteq> 0"
        using uc by linarith
      then have "?c \<noteq> 0"
        by (metis unsigned_0)
      then show "seg ?hdr p (xs @ b # ?c # ys) 0"
        using r c dist by (auto simp: eq)
      have "16 dvd 32 + unat need" "16 dvd ?s - 32 - unat need"
        using al b(2) by (auto intro!: dvd_diff_nat)
      moreover have "m + (32 + unat need) + (?s - 32 - unat need) = m + ?s"
        using need by simp
      ultimately show "tiles ?hdr a (xs @ b # ?c # ys) e"
        using m c dist split uc sz remain
        by (auto simp: eq)
      have parts: "coalesced hdr (xs @ [b])" "coalesced hdr (b # ys)"
        using co bs coalesced_middle [of hdr xs b ys] by auto
      have "coalesced ?hdr (xs @ [b])"
        by (rule coalesced_mono [OF parts(1)]) (use c in \<open>auto simp: eq\<close>)
      moreover have "coalesced hdr ys"
        using parts(2) by (cases ys) auto
      then have "coalesced ?hdr (?c # ys)"
        using parts(2) free c dist by (cases ys) (auto simp: eq)
      ultimately show "coalesced ?hdr (xs @ b # ?c # ys)"
        by (subst coalesced_middle) (simp add: eq)
      show "{x \<in> set (xs @ b # ?c # ys). blk_used (?hdr x)} = insert b {x \<in> set bs. blk_used (hdr x)}"
        using c dist free by (auto simp: eq bs)
      show "used_sum ?hdr (xs @ b # ?c # ys) = used_sum hdr bs + used_of ?hdr b"
        using dist free c
        by (simp add: bs eq used_of_def)
    qed (use outside sz same bs in \<open>auto simp: eq\<close>)
  qed
qed


text \<open>The rounded size, and the result of \<^verbatim>\<open>kheap_alloc\<close> on a well-formed heap.\<close>

lemma kalign_up_16:
  assumes "unat sz + 15 < 2 ^ 64"
  shows "unat (kalign_up sz KHEAP_ALIGN) = (unat sz + 15) div 16 * 16"
proof -
  have "KHEAP_ALIGN - 1 = mask 4"
    by (simp add: KHEAP_ALIGN_def mask_eq_exp_minus_1)
  then show ?thesis
    using unat_align_up [of sz 4] assms by (simp add: kalign_up_def)
qed

lemma heap_ok_D:
  assumes "heap_ok st bs"
  shows "seg (kheap_hdr st) KHEAP_BASE bs 0" "tiles (kheap_hdr st) (unat KHEAP_BASE) bs arena_end"
    "coalesced (kheap_hdr st) bs" "g_kheap_head st = KHEAP_BASE" "KHEAP_BASE \<noteq> 0" "bs \<noteq> []"
    "unat (g_kheap_used st) = used_sum (kheap_hdr st) bs" "distinct bs"
  using assms tiles_distinct by (auto simp: heap_ok_def KHEAP_BASE_def)

lemma arena_end_small: "arena_end < 2 ^ 64"
  by (simp add: arena_end_def)

lemma unat_block_payload:
  assumes "heap_ok st bs" "b \<in> set bs"
  shows "unat (block_payload b) = unat b + 32" "block_payload b \<noteq> 0"
proof -
  have "unat b + 32 \<le> arena_end"
    using tiles_member [OF heap_ok_D(2) [OF assms(1)] assms(2)] by linarith
  then show *: "unat (block_payload b) = unat b + 32"
    unfolding block_payload_def sizeof_kheap_block_def
    by (subst unat_plus_no_wrap) (simp_all add: arena_end_def)
  then have "unat (block_payload b) \<noteq> 0"
    by linarith
  then show "block_payload b \<noteq> 0"
    by (metis unsigned_0)
qed

lemma allocs_disjoint:
  assumes ok: "heap_ok st bs" and "(p, m) \<in> allocs st bs" "(q, n) \<in> allocs st bs" "p \<noteq> q"
  shows "p + m \<le> q \<or> q + n \<le> p"
proof -
  obtain b c where b: "b \<in> set bs" "p = unat b + 32" "m = unat (blk_size (kheap_hdr st b)) - 32"
    and c: "c \<in> set bs" "q = unat c + 32" "n = unat (blk_size (kheap_hdr st c)) - 32"
    using assms(2,3) by (auto simp: allocs_def)
  then have "b \<noteq> c"
    using assms(4) by auto
  with b c show ?thesis
    using tiles_disjoint [OF heap_ok_D(2) [OF ok], of b c]
      tiles_member [OF heap_ok_D(2) [OF ok], of b] tiles_member [OF heap_ok_D(2) [OF ok], of c]
    by auto
qed

lemma allocs_range:
  assumes ok: "heap_ok st bs" and "(p, m) \<in> allocs st bs"
  shows "unat KHEAP_BASE + 32 \<le> p \<and> p + m \<le> arena_end \<and> 16 dvd p"
proof -
  obtain b where b: "b \<in> set bs" "p = unat b + 32" "m = unat (blk_size (kheap_hdr st b)) - 32"
    using assms(2) by (auto simp: allocs_def)
  have "16 dvd unat b"
  proof -
    have "tiles hdr a bs e \<Longrightarrow> 16 dvd a \<Longrightarrow> b \<in> set bs \<Longrightarrow> 16 dvd unat b" for hdr a e
      by (induction bs arbitrary: a) auto
    then show ?thesis
      using heap_ok_D(2) [OF ok] b(1) by (fastforce simp: KHEAP_BASE_def)
  qed
  then show ?thesis
    using tiles_member [OF heap_ok_D(2) [OF ok] b(1)] b by auto
qed

lemma kheap_alloc_cases:
  assumes ok: "heap_ok st bs" and sz: "sz \<noteq> 0" "unat sz + 15 < 2 ^ 64"
  obtains (full) "kheap_alloc sz st = Some (0, st)"
      "\<forall>b\<in>set bs. blk_used (kheap_hdr st b) \<or> unat (blk_size (kheap_hdr st b)) - 32 < unat sz"
    | (fresh) p st' bs' n where "kheap_alloc sz st = Some (p, st')" "p \<noteq> 0" "heap_ok st' bs'"
        "unat sz \<le> n" "allocs st' bs' = insert (unat p, n) (allocs st bs)"
        "(unat p, n) \<notin> allocs st bs" "kheap_mem st' = kheap_mem st"
        "unat (g_kheap_used st') = unat (g_kheap_used st) + n"
proof -
  note D = heap_ok_D [OF ok]
  let ?need = "kalign_up sz KHEAP_ALIGN"
  have need: "unat ?need = (unat sz + 15) div 16 * 16"
    by (rule kalign_up_16 [OF sz(2)])
  then have al: "16 dvd unat ?need" and ge: "unat sz \<le> unat ?need"
    by simp_all
  show ?thesis
  proof (rule kheap_find_spec [OF D(1), of ?need])
    assume none: "kheap_find (kheap_hdr st) ?need KHEAP_BASE = Some 0"
      "\<And>b. b \<in> set bs \<Longrightarrow> \<not> blk_used (kheap_hdr st b) \<Longrightarrow>
         block_payload_size (kheap_hdr st b) < ?need"
    have "unat (blk_size (kheap_hdr st b)) - 32 < unat sz"
      if "b \<in> set bs" "\<not> blk_used (kheap_hdr st b)" for b
    proof -
      have "unat (blk_size (kheap_hdr st b)) - 32 < (unat sz + 15) div 16 * 16"
        using none(2) [OF that] by (simp add: word_less_nat_alt unat_payload_size need)
      moreover have "16 dvd unat (blk_size (kheap_hdr st b)) - 32"
        using tiles_member [OF D(2) that(1)] by (auto intro!: dvd_diff_nat)
      ultimately show ?thesis
        by (auto elim!: dvdE)
    qed
    then show ?thesis
      using none(1) D(4,5) sz by (intro full) (auto simp: kheap_alloc_def Let_def)
  next
    fix xs b ys
    assume b: "bs = xs @ b # ys" "kheap_find (kheap_hdr st) ?need KHEAP_BASE = Some b" "b \<noteq> 0"
      "\<not> blk_used (kheap_hdr st b)" "?need \<le> block_payload_size (kheap_hdr st b)"
    let ?hdr = "kheap_take ?need b (kheap_hdr st)"
    let ?n = "unat (blk_size (?hdr b)) - 32"
    obtain bs' where bs': "seg ?hdr KHEAP_BASE bs' 0" "tiles ?hdr (unat KHEAP_BASE) bs' arena_end"
      "coalesced ?hdr bs'" "\<And>c. c \<in> set bs \<Longrightarrow> c \<noteq> b \<Longrightarrow> ?hdr c = kheap_hdr st c"
      "{c \<in> set bs'. blk_used (?hdr c)} = insert b {c \<in> set bs. blk_used (kheap_hdr st c)}"
      "used_sum ?hdr bs' = used_sum (kheap_hdr st) bs + used_of ?hdr b"
      "unat ?need + 32 \<le> unat (blk_size (?hdr b))" "blk_used (?hdr b)"
      by (rule kheap_take_spec [OF b(1) D(1,2) arena_end_small D(3) b(4,5) al]) (rule that)
    let ?st = "st\<lparr>kheap_hdr := ?hdr,
        g_kheap_used := g_kheap_used st + block_payload_size (?hdr b)\<rparr>"
    have eq: "kheap_alloc sz st = Some (block_payload b, ?st)"
      using b(2,3) D(4,5) sz by (simp add: kheap_alloc_def Let_def)
    have used_b: "used_of ?hdr b = ?n"
      using bs'(8) by (simp add: used_of_def)
    have used: "unat (g_kheap_used ?st) = unat (g_kheap_used st) + ?n"
    proof -
      have "used_sum (kheap_hdr st) bs + ?n < 2 ^ 64"
        using used_sum_bound [OF bs'(2)] bs'(6) used_b arena_end_small by linarith
      then show ?thesis
        using D(7) by (simp add: unat_plus_no_wrap unat_payload_size)
    qed
    have "bs' \<noteq> []"
      using bs'(2) by (auto simp: KHEAP_BASE_def arena_end_def)
    then have ok': "heap_ok ?st bs'"
      using bs' used used_b D(4,7) by (simp add: heap_ok_def)
    have pay: "unat (block_payload b) = unat b + 32" "block_payload b \<noteq> 0"
      using unat_block_payload [OF ok] b(1) by auto
    have same: "?hdr c = kheap_hdr st c" if "c \<in> set bs" "blk_used (kheap_hdr st c)" for c
      using bs'(4) [of c] b(4) that by auto
    have "(\<lambda>c. (unat c + 32, unat (blk_size (?hdr c)) - 32)) ` {c \<in> set bs. blk_used (kheap_hdr st c)}
        = allocs st bs"
      unfolding allocs_def by (intro image_cong refl) (simp add: same)
    then have "allocs ?st bs' = insert (unat (block_payload b), ?n) (allocs st bs)"
      using bs'(5) by (simp add: allocs_def [of ?st] pay(1))
    moreover have "(unat (block_payload b), ?n) \<notin> allocs st bs"
      using b(4) by (auto simp: allocs_def pay(1) word_unat_eq_iff [symmetric])
    moreover have "unat sz \<le> ?n"
      using bs'(7) ge by linarith
    ultimately show ?thesis
      using eq pay(2) ok' used by (intro fresh [of "block_payload b" ?st bs' ?n]) simp_all
  qed
qed


section \<open>Release\<close>

text \<open>
  One pass of \<^verbatim>\<open>coalesce_free_blocks\<close> from any block on: it returns, keeps the tiling, leaves no two
  free neighbours, and touches no block in use.
\<close>

lemma coalesce_spec:
  assumes "seg hdr p bs 0" "tiles hdr (unat p) bs e" "e < 2 ^ 64" "bs \<noteq> []"
  shows "\<exists>hdr' bs'. coalesce_free_blocks hdr p = Some hdr' \<and> seg hdr' p bs' 0 \<and>
           tiles hdr' (unat p) bs' e \<and> coalesced hdr' bs' \<and>
           used_sum hdr' bs' = used_sum hdr bs \<and>
           {b \<in> set bs'. blk_used (hdr' b)} = {b \<in> set bs. blk_used (hdr b)} \<and>
           (\<forall>b. b \<notin> set bs \<or> blk_used (hdr b) \<longrightarrow> hdr' b = hdr b) \<and> set bs' \<subseteq> set bs \<and>
           bs' \<noteq> [] \<and> hd bs' = p \<and> blk_used (hdr' p) = blk_used (hdr p)"
  using assms
proof (induction "length bs" arbitrary: hdr p bs rule: less_induct)
  case less
  obtain b cs where bs: "bs = b # cs"
    using less.prems(4) by (cases bs) auto
  have p: "p = b" "b \<noteq> 0"
    using less.prems(1) bs by auto
  note unfold = coalesce_free_blocks.simps [of hdr b]
  show ?case
  proof (cases cs)
    case Nil
    then show ?thesis
      using less.prems bs p by (intro exI [of _ hdr] exI [of _ bs]) (simp add: unfold)
  next
    case (Cons c ds)
    have next_b: "blk_next (hdr b) = c" "c \<noteq> 0"
      and tb: "unat c = unat b + unat (blk_size (hdr b))" "32 \<le> unat (blk_size (hdr b))"
        "16 dvd unat (blk_size (hdr b))" "32 \<le> unat (blk_size (hdr c))"
        "16 dvd unat (blk_size (hdr c))"
      and tc: "tiles hdr (unat c) cs e" and td: "tiles hdr (unat c + unat (blk_size (hdr c))) ds e"
      and sc: "seg hdr c cs 0" and sd: "seg hdr (blk_next (hdr c)) ds 0"
      using less.prems(1,2) bs Cons p by auto
    have dist: "b \<noteq> c" "b \<notin> set ds" "c \<notin> set ds"
      using tiles_distinct [OF less.prems(2)] bs Cons by auto
    have ce: "unat c + unat (blk_size (hdr c)) \<le> e"
      using tiles_le [OF td] .
    have "unat (b + blk_size (hdr b)) = unat b + unat (blk_size (hdr b))"
      using tb ce less.prems(3) by (intro unat_plus_no_wrap) simp
    then have adj: "c = b + blk_size (hdr b)"
      using tb(1) by (simp add: word_unat_eq_iff)
    show ?thesis
    proof (cases "\<not> blk_used (hdr b) \<and> \<not> blk_used (hdr c)")
      case True
      let ?hdr = "hdr(b := (hdr b)\<lparr>blk_size := blk_size (hdr b) + blk_size (hdr c),
                                   blk_next := blk_next (hdr c)\<rparr>)"
      have sum: "unat (blk_size (hdr b) + blk_size (hdr c)) =
          unat (blk_size (hdr b)) + unat (blk_size (hdr c))"
        using tb ce less.prems(3) by (intro unat_plus_no_wrap) simp
      have eq: "coalesce_free_blocks hdr p = coalesce_free_blocks ?hdr b"
        using True next_b p adj by (simp add: unfold Let_def)
      have "tiles ?hdr (unat b) (b # ds) e"
        using td dist tb sum by (simp add: add.assoc)
      moreover have "seg ?hdr b (b # ds) 0"
        using sd dist p by simp
      ultimately obtain hdr' bs' where IH: "coalesce_free_blocks ?hdr b = Some hdr'"
        "seg hdr' b bs' 0" "tiles hdr' (unat b) bs' e" "coalesced hdr' bs'"
        "used_sum hdr' bs' = used_sum ?hdr (b # ds)"
        "{x \<in> set bs'. blk_used (hdr' x)} = {x \<in> set (b # ds). blk_used (?hdr x)}"
        "\<forall>x. x \<notin> set (b # ds) \<or> blk_used (?hdr x) \<longrightarrow> hdr' x = ?hdr x"
        "set bs' \<subseteq> set (b # ds)" "bs' \<noteq> []" "hd bs' = b" "blk_used (hdr' b) = blk_used (?hdr b)"
        using less.hyps [of "b # ds" ?hdr b] less.prems(3) by (auto simp: bs Cons)
      have "used_sum ?hdr (b # ds) = used_sum hdr bs"
        using True dist by (simp add: bs Cons used_of_def)
      moreover have "{x \<in> set (b # ds). blk_used (?hdr x)} = {x \<in> set bs. blk_used (hdr x)}"
        using True by (auto simp: bs Cons)
      moreover have "\<forall>x. x \<notin> set bs \<or> blk_used (hdr x) \<longrightarrow> hdr' x = hdr x"
      proof (intro allI impI)
        fix x
        assume x: "x \<notin> set bs \<or> blk_used (hdr x)"
        then have "x \<noteq> b"
          using True by (auto simp: bs)
        then show "hdr' x = hdr x"
          using IH(7) [rule_format, of x] x by (auto simp: bs Cons)
      qed
      ultimately show ?thesis
        using IH(1-6) IH(8-11) eq p True
        by (intro exI [of _ hdr'] exI [of _ bs']) (auto simp: bs Cons)
    next
      case False
      have eq: "coalesce_free_blocks hdr p = coalesce_free_blocks hdr c"
        using False next_b p by (auto simp: unfold Let_def)
      obtain hdr' bs' where IH: "coalesce_free_blocks hdr c = Some hdr'"
        "seg hdr' c bs' 0" "tiles hdr' (unat c) bs' e" "coalesced hdr' bs'"
        "used_sum hdr' bs' = used_sum hdr cs"
        "{x \<in> set bs'. blk_used (hdr' x)} = {x \<in> set cs. blk_used (hdr x)}"
        "\<forall>x. x \<notin> set cs \<or> blk_used (hdr x) \<longrightarrow> hdr' x = hdr x"
        "set bs' \<subseteq> set cs" "bs' \<noteq> []" "hd bs' = c" "blk_used (hdr' c) = blk_used (hdr c)"
        using less.hyps [of cs hdr c] sc tc less.prems(3) by (auto simp: bs Cons)
      have same: "hdr' b = hdr b"
        using IH(7) dist by (auto simp: Cons)
      obtain tl where tl: "bs' = c # tl"
        using IH(9,10) by (cases bs') auto
      have "{x \<in> set (b # bs'). blk_used (hdr' x)} = {x \<in> set bs. blk_used (hdr x)}"
      proof -
        have "{x \<in> set (b # bs'). blk_used (hdr' x)} =
            (if blk_used (hdr' b) then {b} else {}) \<union> {x \<in> set bs'. blk_used (hdr' x)}"
          by auto
        also have "\<dots> = {x \<in> set bs. blk_used (hdr x)}"
          by (simp only: IH(6) same bs) auto
        finally show ?thesis .
      qed
      moreover have "coalesced hdr' (b # bs')"
        using IH(4,11) False same by (auto simp: tl)
      ultimately show ?thesis
        using IH eq p next_b tb same
        by (intro exI [of _ hdr'] exI [of _ "b # bs'"]) (auto simp: bs used_of_def)
    qed
  qed
qed


lemma kheap_lookup_spec:
  assumes "seg hdr p bs 0"
  obtains (none) "kheap_lookup hdr ptr p = Some 0" "\<And>b. b \<in> set bs \<Longrightarrow> block_payload b \<noteq> ptr"
    | (found) b where "b \<in> set bs" "kheap_lookup hdr ptr p = Some b" "b \<noteq> 0" "block_payload b = ptr"
  using assms
proof (induction bs arbitrary: p thesis)
  case Nil
  then show ?case
    by (simp add: kheap_lookup.simps [of hdr ptr p])
next
  case (Cons b bs)
  note unfold = kheap_lookup.simps [of hdr ptr b]
  have p: "p = b" "b \<noteq> 0" "seg hdr (blk_next (hdr b)) bs 0"
    using Cons.prems(3) by auto
  show ?case
  proof (cases "block_payload b = ptr")
    case True
    then show ?thesis
      using p by (intro Cons.prems(2) [of b]) (auto simp: unfold)
  next
    case False
    then have eq: "kheap_lookup hdr ptr p = kheap_lookup hdr ptr (blk_next (hdr b))"
      using p by (simp add: unfold)
    show ?thesis
    proof (rule Cons.IH [OF _ _ p(3)])
      assume "kheap_lookup hdr ptr (blk_next (hdr b)) = Some 0"
        "\<And>c. c \<in> set bs \<Longrightarrow> block_payload c \<noteq> ptr"
      then show ?thesis
        using False eq by (intro Cons.prems(1)) auto
    next
      fix c
      assume "c \<in> set bs" "kheap_lookup hdr ptr (blk_next (hdr b)) = Some c" "c \<noteq> 0"
        "block_payload c = ptr"
      then show ?thesis
        using eq by (intro Cons.prems(2) [of c]) auto
    qed
  qed
qed

lemma block_payload_inject: "block_payload b = block_payload c \<longleftrightarrow> b = c"
  by (simp add: block_payload_def)

lemma allocs_payload:
  assumes ok: "heap_ok st bs" and "(unat ptr, n) \<in> allocs st bs"
  obtains b where "b \<in> set bs" "blk_used (kheap_hdr st b)" "ptr = block_payload b"
    "n = unat (blk_size (kheap_hdr st b)) - 32"
proof -
  obtain b where b: "b \<in> set bs" "blk_used (kheap_hdr st b)" "unat ptr = unat b + 32"
    "n = unat (blk_size (kheap_hdr st b)) - 32"
    using assms(2) by (auto simp: allocs_def)
  then have "unat ptr = unat (block_payload b)"
    using unat_block_payload [OF ok] by simp
  then show ?thesis
    using that b by (simp add: word_unat_eq_iff)
qed

lemma kheap_free_live:
  assumes ok: "heap_ok st bs" and live: "(unat ptr, n) \<in> allocs st bs"
  obtains st' bs' where "kheap_free ptr st = Some st'" "heap_ok st' bs'"
    "allocs st' bs' = allocs st bs - {(unat ptr, n)}" "kheap_mem st' = kheap_mem st"
    "unat (g_kheap_used st) = unat (g_kheap_used st') + n"
proof -
  note D = heap_ok_D [OF ok]
  obtain b where b: "b \<in> set bs" "blk_used (kheap_hdr st b)" "ptr = block_payload b"
    "n = unat (blk_size (kheap_hdr st b)) - 32"
    by (rule allocs_payload [OF ok live])
  have ptr: "ptr \<noteq> 0" "unat ptr = unat b + 32"
    using unat_block_payload [OF ok b(1)] b(3) by auto
  have look: "kheap_lookup (kheap_hdr st) ptr KHEAP_BASE = Some b" "b \<noteq> 0"
  proof -
    have "kheap_lookup (kheap_hdr st) ptr KHEAP_BASE = Some b \<and> b \<noteq> 0"
    proof (rule kheap_lookup_spec [OF D(1), of ptr])
      fix c
      assume "kheap_lookup (kheap_hdr st) ptr KHEAP_BASE = Some c" "c \<noteq> 0" "block_payload c = ptr"
      then show ?thesis
        using b(3) block_payload_inject [of c b] by simp
    next
      assume "\<And>c. c \<in> set bs \<Longrightarrow> block_payload c \<noteq> ptr"
      then show ?thesis
        using b(3) b(1) by metis
    qed
    then show "kheap_lookup (kheap_hdr st) ptr KHEAP_BASE = Some b" "b \<noteq> 0"
      by simp_all
  qed
  let ?hdr = "(kheap_hdr st)(b := (kheap_hdr st b)\<lparr>blk_used := False\<rparr>)"
  obtain xs ys where bs: "bs = xs @ b # ys"
    using split_list [OF b(1)] by blast
  have dist: "b \<notin> set xs" "b \<notin> set ys"
    using D(8) bs by auto
  have seg: "seg ?hdr KHEAP_BASE bs 0" and tiles: "tiles ?hdr (unat KHEAP_BASE) bs arena_end"
    using D(1,2) dist by (auto simp: bs)
  have sum: "used_sum (kheap_hdr st) bs = used_sum ?hdr bs + n"
    using b(2,4) dist by (simp add: bs used_of_def)
  obtain hdr' bs' where co: "coalesce_free_blocks ?hdr KHEAP_BASE = Some hdr'"
    "seg hdr' KHEAP_BASE bs' 0" "tiles hdr' (unat KHEAP_BASE) bs' arena_end" "coalesced hdr' bs'"
    "used_sum hdr' bs' = used_sum ?hdr bs"
    "{c \<in> set bs'. blk_used (hdr' c)} = {c \<in> set bs. blk_used (?hdr c)}"
    "\<forall>c. c \<notin> set bs \<or> blk_used (?hdr c) \<longrightarrow> hdr' c = ?hdr c" "bs' \<noteq> []"
    using coalesce_spec [OF seg tiles arena_end_small D(6)] by blast
  let ?used = "g_kheap_used st - block_payload_size (?hdr b)"
  let ?st = "st\<lparr>kheap_hdr := hdr', g_kheap_used := ?used\<rparr>"
  have payload: "unat (block_payload_size (?hdr b)) = n"
    using b(4) by (simp add: unat_payload_size)
  then have used: "unat ?used + n = unat (g_kheap_used st)" "unat ?used = used_sum ?hdr bs"
    using D(7) sum by (simp_all add: unat_sub_le word_le_nat_alt)
  have eq: "kheap_free ptr st = Some ?st"
    using ptr D(4,5) look b(2) co(1) by (simp add: kheap_free_def Let_def)
  have ok': "heap_ok ?st bs'"
    using co D(4) used by (simp add: heap_ok_def)
  have "hdr' c = kheap_hdr st c" if "c \<in> {c \<in> set bs. blk_used (?hdr c)}" for c
    using co(7) that by (auto split: if_splits)
  then have "allocs ?st bs' = (\<lambda>c. (unat c + 32, unat (blk_size (kheap_hdr st c)) - 32)) `
      {c \<in> set bs. blk_used (?hdr c)}"
    unfolding allocs_def by (simp add: co(6))
  also have "\<dots> = allocs st bs - {(unat ptr, n)}"
    using b(4) ptr(2) by (auto simp: allocs_def word_unat_eq_iff [symmetric] split: if_splits)
  finally show ?thesis
    using that [of ?st bs'] eq ok' used by simp
qed

lemma kheap_free_dead:
  assumes ok: "heap_ok st bs" and "\<And>n. (unat ptr, n) \<notin> allocs st bs"
  shows "kheap_free ptr st = Some st"
proof -
  note D = heap_ok_D [OF ok]
  show ?thesis
  proof (rule kheap_lookup_spec [OF D(1), of ptr])
    fix b
    assume b: "b \<in> set bs" "kheap_lookup (kheap_hdr st) ptr KHEAP_BASE = Some b"
      "block_payload b = ptr"
    then have "\<not> blk_used (kheap_hdr st b)"
      using assms(2) unat_block_payload [OF ok b(1)] by (auto simp: allocs_def)
    then show ?thesis
      using b D(4) by (simp add: kheap_free_def)
  qed (simp add: kheap_free_def D(4))
qed


section \<open>The heap as a client sees it\<close>

lemma seg_unique: "seg hdr p bs 0 \<Longrightarrow> seg hdr p cs 0 \<Longrightarrow> bs = cs"
proof (induction bs arbitrary: p cs)
  case Nil
  then show ?case
    by (cases cs) auto
next
  case (Cons b bs)
  then show ?case
    by (cases cs) auto
qed

definition heap_inv :: "kheap \<Rightarrow> bool" where
  "heap_inv st \<longleftrightarrow> (\<exists>bs. heap_ok st bs)"

definition live :: "kheap \<Rightarrow> (nat \<times> nat) set" where
  "live st = (\<Union>bs \<in> {bs. heap_ok st bs}. allocs st bs)"

lemma heap_ok_unique: "heap_ok st bs \<Longrightarrow> heap_ok st cs \<Longrightarrow> bs = cs"
  using seg_unique heap_ok_D(1) by blast

lemma live_eq: "heap_ok st bs \<Longrightarrow> live st = allocs st bs"
  using heap_ok_unique by (auto simp: live_def)

lemma live_fun: "(p, m) \<in> live st \<Longrightarrow> (p, n) \<in> live st \<Longrightarrow> m = n"
  by (auto simp: live_def allocs_def word_unat_eq_iff [symmetric])

lemma live_finite: "finite (live st)"
proof (cases "\<exists>bs. heap_ok st bs")
  case True
  then obtain bs where "heap_ok st bs" ..
  then show ?thesis
    by (simp add: live_eq allocs_def)
qed (simp add: live_def)

lemma used_is_live:
  assumes ok: "heap_ok st bs"
  shows "unat (g_kheap_used st) = (\<Sum>(p, n)\<in>live st. n)"
proof -
  note D = heap_ok_D [OF ok]
  let ?f = "\<lambda>b. (unat b + 32, unat (blk_size (kheap_hdr st b)) - 32)"
  have "used_sum (kheap_hdr st) bs = (\<Sum>b\<in>set bs. used_of (kheap_hdr st) b)"
    using D(8) by (simp add: used_sum_def sum_list_distinct_conv_sum_set)
  also have "\<dots> = (\<Sum>b\<in>{b \<in> set bs. blk_used (kheap_hdr st b)}. snd (?f b))"
    by (simp add: used_of_def sum.inter_filter)
  also have "\<dots> = (\<Sum>x\<in>live st. snd x)"
  proof -
    have "inj_on ?f {b \<in> set bs. blk_used (kheap_hdr st b)}"
      by (auto simp: inj_on_def word_unat_eq_iff)
    then show ?thesis
      by (simp add: live_eq [OF ok] allocs_def sum.reindex)
  qed
  finally show ?thesis
    using D(7) by (simp add: case_prod_beta)
qed

lemma kheap_init_ok: "heap_ok (kheap_init st) [KHEAP_BASE]"
  by (simp add: heap_ok_def kheap_init_def KHEAP_BASE_def KHEAP_ARENA_SIZE_def arena_end_def
      used_sum_def used_of_def)

lemma kheap_init_live: "live (kheap_init st) = {}"
  by (simp add: live_eq [OF kheap_init_ok] allocs_def) (simp add: kheap_init_def)

text \<open>
  The contract of a heap: what \<^verbatim>\<open>malloc\<close>'s callers rely on.  \<open>alive\<close> gives the live allocations
  by address and capacity.
\<close>

datatype heap_op = Alloc u64 | Free u64

fun heap_run :: "(u64 \<Rightarrow> 's \<Rightarrow> (u64 \<times> 's) option) \<Rightarrow> (u64 \<Rightarrow> 's \<Rightarrow> 's option) \<Rightarrow>
    heap_op list \<Rightarrow> 's \<Rightarrow> 's option" where
  "heap_run alloc release [] s = Some s"
| "heap_run alloc release (Alloc n # ops) s =
     (case alloc n s of None \<Rightarrow> None | Some (p, s') \<Rightarrow> heap_run alloc release ops s')"
| "heap_run alloc release (Free p # ops) s =
     (case release p s of None \<Rightarrow> None | Some s' \<Rightarrow> heap_run alloc release ops s')"

locale heap_allocator =
  fixes alloc :: "u64 \<Rightarrow> 's \<Rightarrow> (u64 \<times> 's) option"
    and release :: "u64 \<Rightarrow> 's \<Rightarrow> 's option"
    and alive :: "'s \<Rightarrow> (nat \<times> nat) set"
    and inv :: "'s \<Rightarrow> bool"
  assumes alloc_returns: "inv s \<Longrightarrow> unat n + 15 < 2 ^ 64 \<Longrightarrow>
      \<exists>p s'. alloc n s = Some (p, s') \<and> inv s' \<and> (p = 0 \<longrightarrow> s' = s) \<and>
        (p \<noteq> 0 \<longrightarrow> unat p \<notin> fst ` alive s \<and>
          (\<exists>m \<ge> unat n. alive s' = insert (unat p, m) (alive s)))"
    and release_live: "inv s \<Longrightarrow> (unat p, m) \<in> alive s \<Longrightarrow>
      \<exists>s'. release p s = Some s' \<and> inv s' \<and> alive s' = alive s - {(unat p, m)}"
    and release_dead: "inv s \<Longrightarrow> unat p \<notin> fst ` alive s \<Longrightarrow> release p s = Some s"
    and alive_disjoint: "inv s \<Longrightarrow> (x, j) \<in> alive s \<Longrightarrow> (y, k) \<in> alive s \<Longrightarrow> x \<noteq> y \<Longrightarrow>
      x + j \<le> y \<or> y + k \<le> x"
begin

lemma release_returns: "inv s \<Longrightarrow> \<exists>s'. release p s = Some s' \<and> inv s' \<and> alive s' \<subseteq> alive s"
proof -
  assume inv: "inv s"
  show ?thesis
  proof (cases "unat p \<in> fst ` alive s")
    case True
    then obtain m where "(unat p, m) \<in> alive s"
      by auto
    then show ?thesis
      using release_live [OF inv] by blast
  qed (use release_dead [OF inv] inv in auto)
qed

lemma alloc_release_live:
  assumes "inv s" "unat n + 15 < 2 ^ 64" "alloc n s = Some (p, s')" "p \<noteq> 0"
  shows "\<exists>s''. release p s' = Some s'' \<and> inv s'' \<and> alive s'' = alive s"
proof -
  obtain m where m: "inv s'" "unat p \<notin> fst ` alive s" "alive s' = insert (unat p, m) (alive s)"
    using alloc_returns [OF assms(1,2)] assms(3,4) by auto
  then have "insert (unat p, m) (alive s) - {(unat p, m)} = alive s"
    by force
  then show ?thesis
    using release_live [OF m(1), of p m] m(3) by auto
qed

lemma run_returns:
  assumes "inv s" "\<forall>n. Alloc n \<in> set ops \<longrightarrow> unat n + 15 < 2 ^ 64"
  shows "\<exists>s'. heap_run alloc release ops s = Some s' \<and> inv s'"
  using assms
proof (induction ops arbitrary: s)
  case (Cons op ops)
  show ?case
  proof (cases op)
    case (Alloc n)
    then obtain p s' where "alloc n s = Some (p, s')" "inv s'"
      using alloc_returns Cons.prems by (meson list.set_intros(1))
    then show ?thesis
      using Cons Alloc by simp
  next
    case (Free p)
    then obtain s' where "release p s = Some s'" "inv s'"
      using release_returns Cons.prems(1) by blast
    then show ?thesis
      using Cons Free by simp
  qed
qed simp

end

interpretation kernel_heap: heap_allocator kheap_alloc kheap_free live heap_inv
proof
  fix s :: kheap
  assume "heap_inv s"
  then obtain bs where ok: "heap_ok s bs"
    by (auto simp: heap_inv_def)
  show "\<exists>p s'. kheap_alloc n s = Some (p, s') \<and> heap_inv s' \<and> (p = 0 \<longrightarrow> s' = s) \<and>
      (p \<noteq> 0 \<longrightarrow> unat p \<notin> fst ` live s \<and>
        (\<exists>m \<ge> unat n. live s' = insert (unat p, m) (live s)))"
    if n: "unat n + 15 < 2 ^ 64" for n
  proof (cases "n = 0")
    case True
    then show ?thesis
      using ok by (auto simp: kheap_alloc_def heap_inv_def)
  next
    case False
    show ?thesis
    proof (rule kheap_alloc_cases [OF ok False n])
      assume "kheap_alloc n s = Some (0, s)"
      then show ?thesis
        using ok by (auto simp: heap_inv_def)
    next
      fix p s' cs m
      assume new: "kheap_alloc n s = Some (p, s')" "p \<noteq> 0" "heap_ok s' cs" "unat n \<le> m"
        "allocs s' cs = insert (unat p, m) (allocs s bs)" "(unat p, m) \<notin> allocs s bs"
      have "unat p \<notin> fst ` live s"
      proof
        assume "unat p \<in> fst ` live s"
        then obtain k where "(unat p, k) \<in> allocs s bs"
          by (auto simp: live_eq [OF ok])
        then show False
          using new(5,6) live_fun [of "unat p" k s' m] live_eq [OF new(3)] by auto
      qed
      then show ?thesis
        using new by (auto simp: heap_inv_def live_eq [OF ok] live_eq [OF new(3)])
    qed
  qed
  show "\<exists>s'. kheap_free p s = Some s' \<and> heap_inv s' \<and> live s' = live s - {(unat p, m)}"
    if "(unat p, m) \<in> live s" for p m
    using kheap_free_live [OF ok, of p m] that
    by (metis heap_inv_def live_eq [OF ok] live_eq)
  show "kheap_free p s = Some s" if "unat p \<notin> fst ` live s" for p
    using kheap_free_dead [OF ok, of p] that by (force simp: live_eq [OF ok])
  show "p + m \<le> q \<or> q + n \<le> p" if "(p, m) \<in> live s" "(q, n) \<in> live s" "p \<noteq> q" for p m q n
    using allocs_disjoint [OF ok] that by (simp add: live_eq [OF ok])
qed


section \<open>Reallocation\<close>

lemma addr_range_nat:
  assumes "unat p + n \<le> 2 ^ 64"
  shows "a \<in> addr_range p n \<longleftrightarrow> unat p \<le> unat a \<and> unat a < unat p + n"
proof
  assume "a \<in> addr_range p n"
  then show "unat p \<le> unat a \<and> unat a < unat p + n"
    using unat_offset [OF assms] by (auto simp: addr_range_def)
next
  assume a: "unat p \<le> unat a \<and> unat a < unat p + n"
  then have "unat (p + of_nat (unat a - unat p)) = unat a"
    using unat_offset [OF assms, of "unat a - unat p"] by simp
  then have "a = p + of_nat (unat a - unat p)"
    by (simp add: word_unat_eq_iff)
  then show "a \<in> addr_range p n"
    using a by (auto simp: addr_range_def intro!: image_eqI [of _ _ "unat a - unat p"])
qed

lemma live_addr_range:
  assumes "heap_inv st" "(unat p, n) \<in> live st" "k \<le> n"
  shows "a \<in> addr_range p k \<longleftrightarrow> unat p \<le> unat a \<and> unat a < unat p + k"
proof -
  obtain bs where "heap_ok st bs"
    using assms(1) by (auto simp: heap_inv_def)
  then have "unat p + n \<le> arena_end"
    using allocs_range assms(2) by (fastforce simp: live_eq)
  then show ?thesis
    using assms(3) arena_end_small by (intro addr_range_nat) simp
qed

lemma live_ranges_disjoint:
  assumes "heap_inv st" "(unat p, m) \<in> live st" "(unat q, n) \<in> live st" "p \<noteq> q" "j \<le> m" "k \<le> n"
  shows "addr_range p j \<inter> addr_range q k = {}"
  using kernel_heap.alive_disjoint [OF assms(1-3)] assms(4-6)
    live_addr_range [OF assms(1,2,5)] live_addr_range [OF assms(1,3,6)]
  by (auto simp: word_unat_eq_iff)

lemma live_payload_size:
  assumes "heap_inv st" "(unat ptr, n) \<in> live st"
  shows "unat (block_payload_size (kheap_hdr st (ptr - sizeof_kheap_block))) = n"
proof -
  obtain bs where ok: "heap_ok st bs"
    using assms(1) by (auto simp: heap_inv_def)
  show ?thesis
    by (rule allocs_payload [OF ok, of ptr n])
      (use assms(2) in \<open>auto simp: live_eq [OF ok] unat_payload_size block_payload_def\<close>)
qed

lemma mem_irrelevant [simp]:
  "live (st\<lparr>kheap_mem := m\<rparr>) = live st" "heap_inv (st\<lparr>kheap_mem := m\<rparr>) = heap_inv st"
  by (simp_all add: live_def heap_inv_def heap_ok_def allocs_def)

lemma alloc_mem: "kheap_alloc n st = Some (p, st') \<Longrightarrow> kheap_mem st' = kheap_mem st"
  by (auto simp: kheap_alloc_def Let_def split: if_splits option.splits)

lemma free_mem: "kheap_free p st = Some st' \<Longrightarrow> kheap_mem st' = kheap_mem st"
  by (auto simp: kheap_free_def Let_def split: if_splits option.splits)

lemma kheap_realloc_moves:
  assumes inv: "heap_inv st" and old: "(unat ptr, n) \<in> live st" and ptr: "ptr \<noteq> 0"
    and sz: "n < unat sz" "unat sz + 15 < 2 ^ 64"
    and new: "kheap_alloc sz st = Some (p, st1)" "p \<noteq> 0"
  shows "\<exists>st' m. kheap_realloc ptr sz st = Some (p, st') \<and> heap_inv st' \<and> unat sz \<le> m \<and>
           live st' = insert (unat p, m) (live st - {(unat ptr, n)}) \<and>
           mem_range (kheap_mem st') p n = mem_range (kheap_mem st) ptr n \<and>
           (\<forall>q k. (unat q, k) \<in> live st \<longrightarrow> mem_range (kheap_mem st') q k = mem_range (kheap_mem st) q k)"
proof -
  let ?cur = "block_payload_size (kheap_hdr st (ptr - sizeof_kheap_block))"
  have cur: "unat ?cur = n"
    by (rule live_payload_size [OF inv old])
  obtain m where st1: "heap_inv st1" "unat p \<notin> fst ` live st" "unat sz \<le> m"
    "live st1 = insert (unat p, m) (live st)"
    using kernel_heap.alloc_returns [OF inv sz(2)] new by auto
  have pp: "p \<noteq> ptr"
    using st1(2) old by force
  let ?mem = "memcpy p ptr ?cur (kheap_mem st1)"
  let ?st2 = "st1\<lparr>kheap_mem := ?mem\<rparr>"
  obtain st' where st': "kheap_free ptr ?st2 = Some st'" "heap_inv st'"
    "live st' = live ?st2 - {(unat ptr, n)}"
    using kernel_heap.release_live [of ?st2 ptr n] st1(1,4) old by auto
  have eq: "kheap_realloc ptr sz st = Some (p, st')"
  proof -
    have "\<not> sz \<le> ?cur" "sz \<noteq> 0"
      using sz(1) cur by (auto simp: word_le_nat_alt)
    then show ?thesis
      using ptr new st'(1) by (simp add: kheap_realloc_def Let_def)
  qed
  have mem: "kheap_mem st' = ?mem" "kheap_mem st1 = kheap_mem st"
    using free_mem [OF st'(1)] alloc_mem [OF new(1)] by simp_all
  have le: "n \<le> m"
    using sz(1) st1(3) by simp
  have range: "addr_range p n \<inter> addr_range q k = {}" if "(unat q, k) \<in> live st" for q k
    using live_ranges_disjoint [OF st1(1), of p m q k n k] st1(2,4) le that by force
  have copied: "mem_range ?mem p n = mem_range (kheap_mem st) ptr n"
    using memcpy_range(1) [of p ?cur ptr] range [OF old] by (simp add: cur mem)
  have kept: "mem_range ?mem q k = mem_range (kheap_mem st) q k" if "(unat q, k) \<in> live st" for q k
  proof (rule mem_range_eqI)
    fix i
    assume "i < k"
    then have "q + of_nat i \<in> addr_range q k"
      by (auto simp: addr_range_def)
    then have "q + of_nat i \<notin> addr_range p n"
      using range [OF that] by blast
    then show "?mem (q + of_nat i) = kheap_mem st (q + of_nat i)"
      using memcpy_range(2) [of p ?cur ptr] range [OF old] by (simp add: cur mem)
  qed
  have "live st' = insert (unat p, m) (live st - {(unat ptr, n)})"
    using st'(3) st1(4) pp by (auto simp: word_unat_eq_iff)
  then show ?thesis
    using eq st'(2) st1(3) copied kept mem(1) by (intro exI [of _ st'] exI [of _ m]) simp
qed

section \<open>Properties\<close>

definition blank_heap :: kheap where
  "blank_heap = \<lparr>kheap_hdr = (\<lambda>_. \<lparr>blk_size = 0, blk_next = 0, blk_used = False\<rparr>),
                 kheap_mem = (\<lambda>_. 0), g_kheap_head = 0, g_kheap_used = 0\<rparr>"

text \<open>
  C1: On a well-formed heap \<^verbatim>\<open>kheap_alloc\<close> of a size that does not wrap when rounded returns.  It
  returns \<^verbatim>\<open>NULL\<close>, changing nothing, only when no free block can hold the request; otherwise a
  16-aligned pointer to a capacity of at least the request, disjoint from every live allocation,
  all of which and the payload bytes are kept; the used counter grows by the capacity.
\<close>

theorem kheap_alloc_spec:
  assumes "heap_ok st bs" "sz \<noteq> 0" "unat sz + 15 < 2 ^ 64"
  shows "(kheap_alloc sz st = Some (0, st) \<and>
            (\<forall>b\<in>set bs. blk_used (kheap_hdr st b) \<or> unat (blk_size (kheap_hdr st b)) - 32 < unat sz)) \<or>
         (\<exists>p st' n. kheap_alloc sz st = Some (p, st') \<and> p \<noteq> 0 \<and> heap_inv st' \<and> unat sz \<le> n \<and>
            16 dvd unat p \<and> live st' = insert (unat p, n) (live st) \<and>
            (\<forall>(q, m)\<in>live st. q + m \<le> unat p \<or> unat p + n \<le> q) \<and> kheap_mem st' = kheap_mem st \<and>
            unat (kheap_used_bytes st') = unat (kheap_used_bytes st) + n)"
proof (rule kheap_alloc_cases [OF assms])
  fix p st' cs n
  assume new: "kheap_alloc sz st = Some (p, st')" "p \<noteq> 0" "heap_ok st' cs" "unat sz \<le> n"
    "allocs st' cs = insert (unat p, n) (allocs st bs)" "(unat p, n) \<notin> allocs st bs"
    "kheap_mem st' = kheap_mem st" "unat (g_kheap_used st') = unat (g_kheap_used st) + n"
  then have inv: "heap_inv st'" and live': "live st' = insert (unat p, n) (live st)"
    "(unat p, n) \<notin> live st"
    by (auto simp: heap_inv_def live_eq [OF new(3)] live_eq [OF assms(1)])
  then have "16 dvd unat p"
    using allocs_range [OF new(3), of "unat p" n] by (simp add: live_eq [OF new(3), symmetric])
  moreover have "q + m \<le> unat p \<or> unat p + n \<le> q" if "(q, m) \<in> live st" for q m
    using kernel_heap.alive_disjoint [OF inv, of q m "unat p" n] live' that live_fun [of q m st' n]
    by auto
  ultimately show ?thesis
    using new inv live' by (auto simp: kheap_used_bytes_def)
qed simp

theorem kheap_alloc_spec_witness:
  "\<exists>p st'. kheap_alloc 100 (kheap_init blank_heap) = Some (p, st') \<and> p \<noteq> 0"
  using kheap_alloc_spec [OF kheap_init_ok, of 100 blank_heap]
  by (auto simp: kheap_init_def KHEAP_ARENA_SIZE_def)

text \<open>
  C9: On a well-formed heap \<^verbatim>\<open>kheap_free\<close> of a live allocation returns, removes exactly that
  allocation, gives its capacity back to the counter and keeps the heap well formed, with no two
  neighbouring free blocks; any other pointer, such as one freed already, is ignored.
\<close>

theorem kheap_free_spec:
  assumes "heap_inv st"
  shows "(\<forall>n. (unat ptr, n) \<in> live st \<longrightarrow>
            (\<exists>st'. kheap_free ptr st = Some st' \<and> heap_inv st' \<and> live st' = live st - {(unat ptr, n)} \<and>
               kheap_mem st' = kheap_mem st \<and>
               unat (kheap_used_bytes st) = unat (kheap_used_bytes st') + n)) \<and>
         (unat ptr \<notin> fst ` live st \<longrightarrow> kheap_free ptr st = Some st)"
proof -
  obtain bs where ok: "heap_ok st bs"
    using assms by (auto simp: heap_inv_def)
  have "\<exists>st'. kheap_free ptr st = Some st' \<and> heap_inv st' \<and> live st' = live st - {(unat ptr, n)} \<and>
      kheap_mem st' = kheap_mem st \<and> unat (kheap_used_bytes st) = unat (kheap_used_bytes st') + n"
    if live: "(unat ptr, n) \<in> live st" for n
  proof (rule kheap_free_live [OF ok, of ptr n])
    show "(unat ptr, n) \<in> allocs st bs"
      using live by (simp add: live_eq [OF ok])
  qed (auto simp: heap_inv_def live_eq live_eq [OF ok] kheap_used_bytes_def)
  then show ?thesis
    using kernel_heap.release_dead [OF assms] by blast
qed

lemma example_heap_inv: "heap_inv (kheap_init st)"
  using kheap_init_ok by (auto simp: heap_inv_def)

theorem kheap_free_spec_witness:
  "kheap_free 0x02000020 (kheap_init blank_heap) = Some (kheap_init blank_heap)"
  using kheap_free_spec [OF example_heap_inv, of "0x02000020" blank_heap] by (simp add: kheap_init_live)




text \<open>
  C24: From \<^verbatim>\<open>kheap_init\<close> on, any sequence of \<^verbatim>\<open>kheap_alloc\<close> calls with sizes that do not wrap and of
  \<^verbatim>\<open>kheap_free\<close> calls with arbitrary pointers runs to its end; in the heap it leaves the live
  allocations lie inside the arena and pairwise apart, and the used counter is the sum of their
  capacities.
\<close>

theorem kheap_any_run:
  assumes "\<forall>n. Alloc n \<in> set ops \<longrightarrow> unat n + 15 < 2 ^ 64"
  shows "\<exists>st'. heap_run kheap_alloc kheap_free ops (kheap_init st) = Some st' \<and> heap_inv st' \<and>
           (\<forall>(p, m)\<in>live st'. unat KHEAP_BASE + 32 \<le> p \<and> p + m \<le> arena_end \<and>
              (\<forall>(q, n)\<in>live st'. p \<noteq> q \<longrightarrow> p + m \<le> q \<or> q + n \<le> p)) \<and>
           unat (kheap_used_bytes st') = (\<Sum>(p, n)\<in>live st'. n)"
proof -
  obtain st' where st': "heap_run kheap_alloc kheap_free ops (kheap_init st) = Some st'" "heap_inv st'"
    using kernel_heap.run_returns [OF example_heap_inv assms] by blast
  then obtain bs where ok: "heap_ok st' bs"
    by (auto simp: heap_inv_def)
  show ?thesis
    using st' used_is_live [OF ok] allocs_range [OF ok] kernel_heap.alive_disjoint [OF st'(2)]
    by (fastforce simp: kheap_used_bytes_def live_eq [OF ok])
qed

theorem kheap_any_run_witness:
  "\<exists>st'. heap_run kheap_alloc kheap_free [Alloc 24, Alloc 100, Free 0x02000020]
     (kheap_init blank_heap) = Some st' \<and> heap_inv st'"
  using kheap_any_run [of "[Alloc 24, Alloc 100, Free 0x02000020]" blank_heap] by auto

text \<open>
  Rounding wraps for the largest sizes: asked for \<open>2 ^ 64 - 1\<close> bytes, a fresh heap does not fail
  but hands out a block with no payload at all; and \<^verbatim>\<open>calloc\<close> multiplies without a check, so a
  request for \<open>2 ^ 60 + 1\<close> elements of 16 bytes is served by a block of 16 bytes.
\<close>

theorem kheap_size_wrap:
  "(\<exists>st. kheap_alloc (2 ^ 64 - 1) (kheap_init blank_heap) = Some (0x02000020, st) \<and>
      block_payload_size (kheap_hdr st KHEAP_BASE) = 0) \<and>
   (\<exists>st. calloc (2 ^ 60 + 1) 16 (kheap_init blank_heap) = Some (0x02000020, st) \<and>
      block_payload_size (kheap_hdr st KHEAP_BASE) = 16)"
  by (simp add: kheap_alloc_def calloc_def kheap_init_def blank_heap_def kalign_up_def KHEAP_ALIGN_def
      KHEAP_BASE_def KHEAP_ARENA_SIZE_def sizeof_kheap_block_def kheap_find.simps block_payload_def
      block_payload_size_def kheap_take_def min_split_size_def Let_def)

end
