(* ===== verification/Sched_Base.thy ===== *)
theory Sched_Base
  imports WoOS_Prelude
begin

text \<open>
  The thread table of \<^verbatim>\<open>sched.c\<close> and the few operations other drivers call on it:
  \<^verbatim>\<open>sched_unblock_all\<close>, which the input queue runs on every event, and
  \<^verbatim>\<open>sched_current_thread_id\<close>.  The 16-slot array is a map from indices; the FXSAVE area of a
  thread is an opaque list of bytes.
\<close>

definition MAX_THREADS :: nat where "MAX_THREADS = 16"
definition THREAD_STACK_PAGES :: u32 where "THREAD_STACK_PAGES = 128"

datatype thread_state = THREAD_READY | THREAD_RUNNING | THREAD_BLOCKED | THREAD_TERMINATED

record thread =
  t_rsp :: u64
  t_id :: u64
  t_state :: thread_state
  t_stack_limit :: u64
  t_stack_pages_count :: u32
  t_cr3 :: u64
  t_kernel_stack_top :: u64
  t_app_path :: "nat \<Rightarrow> u8"
  t_fpu_state :: "u8 list"

record sched =
  g_threads :: "nat \<Rightarrow> thread"
  g_num_threads :: nat
  g_current_thread_idx :: nat
  g_sched_ready :: bool

abbreviation thread_st :: "sched \<Rightarrow> nat \<Rightarrow> thread_state" where
  "thread_st s i \<equiv> t_state (g_threads s i)"

definition set_state :: "nat \<Rightarrow> thread_state \<Rightarrow> sched \<Rightarrow> sched" where
  "set_state i ts s = s\<lparr>g_threads := (g_threads s)(i := (g_threads s i)\<lparr>t_state := ts\<rparr>)\<rparr>"

definition sched_unblock_all :: "sched \<Rightarrow> sched" where
  "sched_unblock_all s =
     fold (\<lambda>i s. if thread_st s i = THREAD_BLOCKED then set_state i THREAD_READY s else s)
       [0..<g_num_threads s] s"

definition sched_current_thread_id :: "sched \<Rightarrow> u32" where
  "sched_current_thread_id s = ucast (t_id (g_threads s (g_current_thread_idx s)))"

section \<open>What unblocking does\<close>

lemma set_state_simps [simp]:
  "thread_st (set_state i ts s) j = (if j = i then ts else thread_st s j)"
  "g_num_threads (set_state i ts s) = g_num_threads s"
  "g_current_thread_idx (set_state i ts s) = g_current_thread_idx s"
  "g_sched_ready (set_state i ts s) = g_sched_ready s"
  "t_id (g_threads (set_state i ts s) j) = t_id (g_threads s j)"
  by (simp_all add: set_state_def)

lemma unblock_fold:
  "(let s' = fold (\<lambda>i s. if thread_st s i = THREAD_BLOCKED then set_state i THREAD_READY s else s) is s in
    (\<forall>j. thread_st s' j = (if j \<in> set is \<and> thread_st s j = THREAD_BLOCKED then THREAD_READY else thread_st s j)) \<and>
    g_num_threads s' = g_num_threads s \<and> g_current_thread_idx s' = g_current_thread_idx s \<and>
    g_sched_ready s' = g_sched_ready s \<and> (\<forall>j. t_id (g_threads s' j) = t_id (g_threads s j)))"
proof (induction "is" arbitrary: s)
  case (Cons i "is")
  show ?case
    using Cons.IH [of "if thread_st s i = THREAD_BLOCKED then set_state i THREAD_READY s else s"]
    by (auto simp: Let_def)
qed simp

lemma unblock_all_simps [simp]:
  "thread_st (sched_unblock_all s) j =
     (if j < g_num_threads s \<and> thread_st s j = THREAD_BLOCKED then THREAD_READY else thread_st s j)"
  "g_num_threads (sched_unblock_all s) = g_num_threads s"
  "g_current_thread_idx (sched_unblock_all s) = g_current_thread_idx s"
  "g_sched_ready (sched_unblock_all s) = g_sched_ready s"
  "t_id (g_threads (sched_unblock_all s) j) = t_id (g_threads s j)"
  using unblock_fold [of "[0..<g_num_threads s]" s]
  by (auto simp: sched_unblock_all_def Let_def)

end
