(* ===== verification/Input.thy ===== *)
theory Input
  imports Fifo Kheap Sched_Base
begin

text \<open>
  The input event queue, \<^verbatim>\<open>input.c\<close>: a ring of 256 events, in a heap buffer or, when the heap
  cannot give one, in a static one.  A push wakes every blocked thread, so the operations act on
  the queue and the thread table.  The queue implements the bounded FIFO contract.
\<close>

datatype input_event_type =
  INPUT_EVENT_MOUSE_MOVE | INPUT_EVENT_MOUSE_BUTTON | INPUT_EVENT_MOUSE_RELEASE
| INPUT_EVENT_TIMER_TICK | INPUT_EVENT_KEY_DOWN | INPUT_EVENT_KEY_UP
| INPUT_EVENT_WINDOW_CHANGE | INPUT_EVENT_MOUSE_WHEEL

record input_event =
  ev_type :: input_event_type
  ev_x :: u16
  ev_y :: u16
  ev_buttons :: u8

definition INPUT_QUEUE_CAPACITY :: u16 where "INPUT_QUEUE_CAPACITY = 256"

text \<open>\<open>iq_events\<close> is the array \<open>iq_buffer\<close> points to.\<close>

record input_queue =
  iq_buffer :: u64
  iq_events :: "nat \<Rightarrow> input_event"
  iq_capacity :: u16
  iq_head :: u16
  iq_tail :: u16
  iq_size :: u16
  iq_dropped :: u16
  iq_uses_heap :: bool

definition sizeof_static_buffer :: u64 where "sizeof_static_buffer = 256 * 12"

definition input_init :: "u64 \<Rightarrow> input_queue \<Rightarrow> kheap \<Rightarrow> (input_queue \<times> kheap) option" where
  "input_init static_buffer q heap =
     (case kheap_alloc sizeof_static_buffer heap of
        None \<Rightarrow> None
      | Some (buf, heap) \<Rightarrow>
          let q = q\<lparr>iq_buffer := buf, iq_capacity := INPUT_QUEUE_CAPACITY, iq_head := 0, iq_tail := 0,
                    iq_size := 0, iq_dropped := 0, iq_uses_heap := True\<rparr> in
          Some (if buf = 0 then q\<lparr>iq_buffer := static_buffer, iq_uses_heap := False\<rparr> else q, heap))"

definition next_slot :: "u16 \<Rightarrow> u16 \<Rightarrow> u16" where
  "next_slot i capacity = ucast ((ucast i + 1 :: u32) mod ucast capacity)"

definition input_push :: "input_event \<Rightarrow> input_queue \<times> sched \<Rightarrow> bool \<times> (input_queue \<times> sched)" where
  "input_push event st =
     (let (q, s) = st in
      if iq_size q \<ge> iq_capacity q then (False, (q\<lparr>iq_dropped := iq_dropped q + 1\<rparr>, s))
      else
        (True, (q\<lparr>iq_events := (iq_events q)(unat (iq_tail q) := event),
                  iq_tail := next_slot (iq_tail q) (iq_capacity q),
                  iq_size := iq_size q + 1\<rparr>,
                sched_unblock_all s)))"

definition input_pop :: "input_queue \<times> sched \<Rightarrow> input_event option \<times> (input_queue \<times> sched)" where
  "input_pop st =
     (let (q, s) = st in
      if iq_size q = 0 then (None, (q, s))
      else
        (Some (iq_events q (unat (iq_head q))),
         (q\<lparr>iq_head := next_slot (iq_head q) (iq_capacity q), iq_size := iq_size q - 1\<rparr>, s)))"

definition input_dropped_events :: "input_queue \<Rightarrow> u16" where
  "input_dropped_events q = iq_dropped q"

definition input_uses_heap_queue :: "input_queue \<Rightarrow> bool" where
  "input_uses_heap_queue q = iq_uses_heap q"

definition input_queue_size :: "input_queue \<Rightarrow> u32" where
  "input_queue_size q = ucast (iq_size q)"

section \<open>The queue as a list\<close>

definition iq_ok :: "input_queue \<Rightarrow> bool" where
  "iq_ok q \<longleftrightarrow>
     iq_capacity q = 256 \<and> unat (iq_head q) < 256 \<and> unat (iq_size q) \<le> 256 \<and>
     unat (iq_tail q) = (unat (iq_head q) + unat (iq_size q)) mod 256"

definition iq_list :: "input_queue \<Rightarrow> input_event list" where
  "iq_list q = ring (iq_events q) 256 (unat (iq_head q)) (unat (iq_size q))"

lemma unat_next_slot:
  assumes "unat i < 256"
  shows "unat (next_slot i 256) = (unat i + 1) mod 256"
proof -
  have "unat (ucast i + 1 :: u32) = unat i + 1"
    using assms by (subst unat_plus_one) (simp_all add: unat_ucast_up)
  then have "unat ((ucast i + 1 :: u32) mod 256) = (unat i + 1) mod 256"
    by (simp add: unat_mod)
  moreover have "(unat i + 1) mod 256 < 65536"
    by (rule less_trans [of _ 256]) simp_all
  ultimately show ?thesis
    unfolding next_slot_def by (simp add: unsigned_ucast_eq take_bit_nat_eq_self)
qed

lemma iq_push_list:
  assumes ok: "iq_ok q"
  shows "iq_ok (fst (snd (input_push e (q, s))))"
    and "fst (input_push e (q, s)) = (length (iq_list q) < 256)"
    and "iq_list (fst (snd (input_push e (q, s)))) =
           (if length (iq_list q) < 256 then iq_list q @ [e] else iq_list q)"
proof -
  have full: "iq_capacity q \<le> iq_size q \<longleftrightarrow> \<not> unat (iq_size q) < 256"
    using ok by (simp add: iq_ok_def word_le_nat_alt not_less)
  have succ: "unat (iq_size q + 1) = Suc (unat (iq_size q))" if "unat (iq_size q) < 256"
    using that by (intro unat_plus_one) simp
  have tail: "unat (iq_tail q) < 256"
    using ok by (simp add: iq_ok_def)
  show "iq_ok (fst (snd (input_push e (q, s))))"
    using ok full succ unat_next_slot [OF tail] by (simp add: input_push_def iq_ok_def mod_simps)
  show "fst (input_push e (q, s)) = (length (iq_list q) < 256)"
    by (simp add: input_push_def full iq_list_def)
  show "iq_list (fst (snd (input_push e (q, s)))) =
      (if length (iq_list q) < 256 then iq_list q @ [e] else iq_list q)"
  proof (cases "unat (iq_size q) < 256")
    case True
    then show ?thesis
      using ok ring_snoc [of "unat (iq_size q)" 256 "iq_events q" "unat (iq_head q)" e] succ full
      by (simp add: input_push_def iq_list_def iq_ok_def)
  qed (use full in \<open>simp add: input_push_def iq_list_def\<close>)
qed

lemma iq_pop_list:
  assumes ok: "iq_ok q"
  shows "iq_ok (fst (snd (input_pop (q, s))))"
    and "(fst (input_pop (q, s)), iq_list (fst (snd (input_pop (q, s))))) = list_pop (iq_list q)"
proof -
  have head: "unat (iq_head q) < 256"
    using ok by (simp add: iq_ok_def)
  show "iq_ok (fst (snd (input_pop (q, s))))"
  proof (cases "iq_size q = 0")
    case False
    then obtain n where n: "unat (iq_size q) = Suc n"
      by (metis not0_implies_Suc unsigned_eq_0_iff)
    moreover have "unat (iq_size q - 1) = n"
      using False n by (simp add: unat_minus_one_pos)
    ultimately show ?thesis
      using ok False unat_next_slot [OF head] by (simp add: input_pop_def iq_ok_def mod_simps)
  qed (simp add: input_pop_def ok)
  show "(fst (input_pop (q, s)), iq_list (fst (snd (input_pop (q, s))))) = list_pop (iq_list q)"
  proof (cases "iq_size q = 0")
    case True
    then show ?thesis
      by (simp add: input_pop_def iq_list_def list_pop_def)
  next
    case False
    then obtain n where n: "unat (iq_size q) = Suc n"
      by (metis not0_implies_Suc unsigned_eq_0_iff)
    moreover have "unat (iq_size q - 1) = n"
      using False n by (simp add: unat_minus_one_pos)
    ultimately show ?thesis
      using ok False head unat_next_slot [OF head]
        ring_Suc [of "iq_events q" 256 "unat (iq_head q)" n]
      by (simp add: input_pop_def iq_list_def list_pop_def iq_ok_def)
  qed
qed

interpretation input_fifo:
  bounded_fifo input_push input_pop "\<lambda>(q, s). iq_list q" "\<lambda>(q, s). iq_ok q" 256
proof
  fix st :: "input_queue \<times> sched" and e
  assume "case st of (q, s) \<Rightarrow> iq_ok q"
  then obtain q s where st: "st = (q, s)" "iq_ok q"
    by (cases st) auto
  note push = iq_push_list [OF st(2), of e s] and pop = iq_pop_list [OF st(2), of s]
  show "(fst (input_push e st), case snd (input_push e st) of (q, s) \<Rightarrow> iq_list q) =
      list_push 256 e (case st of (q, s) \<Rightarrow> iq_list q)"
    using push by (simp add: st(1) list_push_def case_prod_beta)
  show "case snd (input_push e st) of (q, s) \<Rightarrow> iq_ok q"
    using push by (simp add: st(1) case_prod_beta)
  show "(fst (input_pop st), case snd (input_pop st) of (q, s) \<Rightarrow> iq_list q) =
      list_pop (case st of (q, s) \<Rightarrow> iq_list q)"
    using pop by (simp add: st(1) case_prod_beta)
  show "case snd (input_pop st) of (q, s) \<Rightarrow> iq_ok q"
    using pop by (simp add: st(1) case_prod_beta)
  show "length (case st of (q, s) \<Rightarrow> iq_list q) \<le> 256"
    using st by (simp add: iq_list_def iq_ok_def)
qed


definition refused :: "'e fifo_out list \<Rightarrow> nat" where
  "refused outs = length (filter (\<lambda>out. out = Pushed False) outs)"

lemma dropped_counts:
  "fifo_run input_push input_pop ops (q, s) = (outs, (q', s')) \<Longrightarrow>
   iq_dropped q' = iq_dropped q + of_nat (refused outs)"
proof (induction ops arbitrary: q s outs)
  case (Cons op ops)
  show ?case
  proof (cases op)
    case (Push e)
    obtain b r t where r: "input_push e (q, s) = (b, (r, t))"
      by (metis prod.exhaust)
    obtain os where os: "fifo_run input_push input_pop ops (r, t) = (os, (q', s'))" "outs = Pushed b # os"
      using Cons.prems r Push by (auto split: prod.splits)
    have "iq_dropped r = iq_dropped q + (if b then 0 else 1)"
      using r by (auto simp: input_push_def split: if_splits)
    then show ?thesis
      using Cons.IH [OF os(1)] os(2) by (simp add: refused_def)
  next
    case Pop
    obtain e r t where r: "input_pop (q, s) = (e, (r, t))"
      by (metis prod.exhaust)
    obtain os where os: "fifo_run input_push input_pop ops (r, t) = (os, (q', s'))" "outs = Popped e # os"
      using Cons.prems r Pop by (auto split: prod.splits)
    have "iq_dropped r = iq_dropped q"
      using r by (auto simp: input_pop_def split: if_splits)
    then show ?thesis
      using Cons.IH [OF os(1)] os(2) by (simp add: refused_def)
  qed
qed (simp add: refused_def)

lemma input_init_ok:
  assumes "input_init static_buffer q heap = Some (q', heap')"
  shows "iq_ok q' \<and> iq_list q' = [] \<and> iq_dropped q' = 0"
  using assms by (auto simp: input_init_def iq_ok_def iq_list_def INPUT_QUEUE_CAPACITY_def Let_def
      split: option.splits)

section \<open>Properties\<close>

text \<open>
  C17: Any sequence of \<^verbatim>\<open>input_push\<close> and \<^verbatim>\<open>input_pop\<close> calls behaves as on a list of at most 256
  events: the events delivered are the events accepted, in order, and the queue holds the rest;
  \<^verbatim>\<open>dropped\<close> counts the refused events modulo \<open>2 ^ 16\<close>.
\<close>

theorem input_queue_fifo:
  assumes "iq_ok q" "fifo_run input_push input_pop ops (q, s) = (outs, (q', s'))"
  shows "fifo_run (list_push 256) list_pop ops (iq_list q) = (outs, iq_list q') \<and> iq_ok q' \<and>
         iq_list q @ accepted ops outs = delivered outs @ iq_list q' \<and>
         input_dropped_events q' = input_dropped_events q + of_nat (refused outs)"
  using input_fifo.run_refines [of "(q, s)" ops outs "(q', s')"]
    input_fifo.run_order [of "(q, s)" ops outs "(q', s')"] dropped_counts [OF assms(2)] assms
  by (simp add: input_dropped_events_def)

definition example_event :: input_event where
  "example_event = \<lparr>ev_type = INPUT_EVENT_KEY_DOWN, ev_x = 28, ev_y = 0, ev_buttons = 0\<rparr>"

definition example_queue :: input_queue where
  "example_queue = \<lparr>iq_buffer = 0, iq_events = (\<lambda>_. example_event), iq_capacity = 256, iq_head = 255,
     iq_tail = 255, iq_size = 0, iq_dropped = 0, iq_uses_heap = False\<rparr>"

definition example_sched :: sched where
  "example_sched = \<lparr>g_threads = (\<lambda>i. \<lparr>t_rsp = 0, t_id = of_nat i, t_state = THREAD_READY,
     t_stack_limit = 0, t_stack_pages_count = 0, t_cr3 = 0, t_kernel_stack_top = 0,
     t_app_path = (\<lambda>_. 0), t_fpu_state = []\<rparr>), g_num_threads = 3, g_current_thread_idx = 0,
     g_sched_ready = True\<rparr>"

theorem input_queue_fifo_witness:
  "let (outs, q, s) = fifo_run input_push input_pop [Push example_event, Push example_event, Pop]
       (example_queue, example_sched)
   in iq_list example_queue @ accepted [Push example_event, Push example_event, Pop] outs =
      delivered outs @ iq_list q"
proof -
  have "iq_ok example_queue"
    by (simp add: iq_ok_def example_queue_def)
  then show ?thesis
    using input_queue_fifo by (auto simp: Let_def split: prod.splits)
qed

end
