(* ===== verification/Timer.thy ===== *)
theory Timer
  imports Input
begin

text \<open>
  The PIT driver, \<^verbatim>\<open>timer.c\<close>.  Port reads are inputs of the operations (the two latched bytes of
  the counter), port writes are returned as a list of (port, byte) pairs.
\<close>

definition PIT_CHANNEL0_DATA :: u16 where "PIT_CHANNEL0_DATA = 0x40"
definition PIT_COMMAND :: u16 where "PIT_COMMAND = 0x43"
definition PIT_BASE_FREQUENCY_HZ :: u32 where "PIT_BASE_FREQUENCY_HZ = 1193182"
definition PIT_MODE_RATE_GENERATOR :: u8 where "PIT_MODE_RATE_GENERATOR = 0x34"
definition PIT_LATCH_CHANNEL0 :: u8 where "PIT_LATCH_CHANNEL0 = 0"
definition PIT_MAX_RELOAD :: u32 where "PIT_MAX_RELOAD = 0x10000"

record timer =
  g_tick_hz :: u32
  g_pit_reload :: u16
  g_last_counter :: u16
  g_subtick_accumulator :: u32
  g_ticks :: u32
  g_pit_ready :: bool

text \<open>The two bytes the port returns after the latch command.\<close>

definition timer_read_counter0 :: "u8 \<times> u8 \<Rightarrow> u32" where
  "timer_read_counter0 io =
     (let (low, high) = io; counter = push_bit 8 (ucast high) OR ucast low :: u16 in
      if counter = 0 then PIT_MAX_RELOAD else ucast counter)"

definition timer_init :: "u32 \<Rightarrow> u8 \<times> u8 \<Rightarrow> timer \<Rightarrow> (u16 \<times> u8) list \<times> timer" where
  "timer_init tick_hz io st =
     (let tick_hz = (if tick_hz = 0 then 20 else tick_hz);
          reload = PIT_BASE_FREQUENCY_HZ div tick_hz;
          reload = (if reload = 0 then 1 else reload);
          reload = (if reload > PIT_MAX_RELOAD then PIT_MAX_RELOAD else reload);
          pit_reload = (if reload = PIT_MAX_RELOAD then 0 else ucast reload) :: u16 in
      ([(PIT_COMMAND, PIT_MODE_RATE_GENERATOR),
        (PIT_CHANNEL0_DATA, ucast (pit_reload AND 0xFF)),
        (PIT_CHANNEL0_DATA, ucast (drop_bit 8 pit_reload AND 0xFF)),
        (PIT_COMMAND, PIT_LATCH_CHANNEL0)],
       st\<lparr>g_tick_hz := tick_hz, g_pit_reload := pit_reload, g_subtick_accumulator := 0,
          g_ticks := 0, g_last_counter := ucast (timer_read_counter0 io), g_pit_ready := True\<rparr>))"

definition timer_poll_tick :: "u8 \<times> u8 \<Rightarrow> timer \<Rightarrow> bool \<times> timer" where
  "timer_poll_tick io st =
     (if \<not> g_pit_ready st then (False, st)
      else
        let current_counter = timer_read_counter0 io;
            previous_counter = (if g_last_counter st = 0 then PIT_MAX_RELOAD
                                else ucast (g_last_counter st));
            reload_value = (if g_pit_reload st = 0 then PIT_MAX_RELOAD else ucast (g_pit_reload st));
            elapsed_counts = (if previous_counter \<ge> current_counter
                              then previous_counter - current_counter
                              else previous_counter + (reload_value - current_counter));
            st = st\<lparr>g_last_counter :=
                      (if current_counter = PIT_MAX_RELOAD then 0 else ucast current_counter),
                    g_subtick_accumulator := g_subtick_accumulator st + elapsed_counts\<rparr> in
        if g_subtick_accumulator st < reload_value then (False, st)
        else (True, st\<lparr>g_subtick_accumulator := g_subtick_accumulator st - reload_value,
                      g_ticks := g_ticks st + 1\<rparr>))"

definition timer_ticks :: "timer \<Rightarrow> u32" where "timer_ticks st = g_ticks st"
definition timer_frequency_hz :: "timer \<Rightarrow> u32" where "timer_frequency_hz st = g_tick_hz st"

definition timer_handler :: "timer \<times> input_queue \<times> sched \<Rightarrow> timer \<times> input_queue \<times> sched" where
  "timer_handler st =
     (let (tm, q, s) = st;
          tm = tm\<lparr>g_ticks := g_ticks tm + 1\<rparr>;
          divisor = g_tick_hz tm div 2;
          divisor = (if divisor = 0 then 1 else divisor) in
      if g_ticks tm mod divisor = 0
      then (tm, snd (input_push \<lparr>ev_type = INPUT_EVENT_TIMER_TICK, ev_x = 0, ev_y = 0,
                                 ev_buttons = 0\<rparr> (q, s)))
      else (tm, q, s))"

section \<open>Counting\<close>

definition reload_count :: "timer \<Rightarrow> nat" where
  "reload_count st = (if g_pit_reload st = 0 then 65536 else unat (g_pit_reload st))"

definition last_count :: "timer \<Rightarrow> nat" where
  "last_count st = (if g_last_counter st = 0 then 65536 else unat (g_last_counter st))"

definition timer_ok :: "timer \<Rightarrow> bool" where
  "timer_ok st \<longleftrightarrow> g_pit_ready st \<and> last_count st \<le> reload_count st \<and>
     unat (g_subtick_accumulator st) < reload_count st"

text \<open>The PIT counts down from the reload value to 1: the counts between two readings.\<close>

definition counts_between :: "nat \<Rightarrow> nat \<Rightarrow> nat \<Rightarrow> nat" where
  "counts_between reload prev cur = (if cur \<le> prev then prev - cur else prev + reload - cur)"

lemma read_counter_range: "1 \<le> unat (timer_read_counter0 io) \<and> unat (timer_read_counter0 io) \<le> 65536"
proof -
  obtain l h where io: "io = (l, h)" by force
  let ?c = "push_bit 8 (ucast h) OR ucast l :: u16"
  have "unat (ucast ?c :: u32) = unat ?c"
    by (rule unat_ucast_up) simp
  moreover have "unat ?c < 65536"
    using unsigned_less [of ?c, where 'a = nat] by simp
  moreover have "?c \<noteq> 0 \<Longrightarrow> 0 < unat ?c"
    by (simp add: unat_gt_0)
  ultimately show ?thesis
    by (auto simp: io timer_read_counter0_def PIT_MAX_RELOAD_def Let_def)
qed

lemma unat_u16_of_count:
  assumes "1 \<le> unat c" "unat c \<le> 65536"
  shows "(if (if c = 0x10000 then 0 else ucast c :: u16) = 0 then 65536
          else unat (if c = 0x10000 then 0 else ucast c :: u16)) = unat (c :: u32)"
proof (cases "c = 0x10000")
  case False
  then have "unat c \<noteq> unat (0x10000 :: u32)"
    by (simp only: word_unat_eq_iff [symmetric] not_False_eq_True)
  then have "unat c < 65536"
    using assms(2) by simp
  then have "unat (ucast c :: u16) = unat c"
    by (simp add: unsigned_ucast_eq take_bit_nat_eq_self)
  moreover from this have "(ucast c :: u16) \<noteq> 0"
    using assms(1) by auto
  ultimately show ?thesis
    using False by simp
qed simp


text \<open>One poll: the counts elapsed since the last reading are added, and a full period is a tick.\<close>

lemma timer_poll_counts:
  assumes ok: "timer_ok st" and cur: "unat (timer_read_counter0 io) \<le> reload_count st"
    and poll: "timer_poll_tick io st = (tick, st')"
  shows "timer_ok st' \<and> reload_count st' = reload_count st \<and>
         last_count st' = unat (timer_read_counter0 io) \<and>
         unat (g_subtick_accumulator st') + (if tick then reload_count st else 0) =
           unat (g_subtick_accumulator st) +
           counts_between (reload_count st) (last_count st) (unat (timer_read_counter0 io)) \<and>
         g_ticks st' = g_ticks st + (if tick then 1 else 0)"
proof -
  define c where "c = timer_read_counter0 io"
  define prev :: u32 where "prev = (if g_last_counter st = 0 then PIT_MAX_RELOAD else ucast (g_last_counter st))"
  define rel :: u32 where "rel = (if g_pit_reload st = 0 then PIT_MAX_RELOAD else ucast (g_pit_reload st))"
  define el where "el = (if prev \<ge> c then prev - c else prev + (rel - c))"
  let ?acc = "g_subtick_accumulator st"
  have up: "unat (ucast w :: u32) = unat w" for w :: u16
    by (rule unat_ucast_up) simp
  have prev: "unat prev = last_count st"
    by (simp add: prev_def last_count_def PIT_MAX_RELOAD_def up)
  have rel: "unat rel = reload_count st"
    by (simp add: rel_def reload_count_def PIT_MAX_RELOAD_def up)
  have range: "1 \<le> unat c" "unat c \<le> 65536" "unat c \<le> unat rel"
    using read_counter_range [of io] cur by (auto simp: c_def rel)
  have bounds: "unat prev \<le> unat rel" "unat ?acc < unat rel" "unat rel \<le> 65536" "g_pit_ready st"
    using ok unsigned_less [of "g_pit_reload st", where 'a = nat]
    by (auto simp: timer_ok_def prev rel reload_count_def)
  have el: "unat el = counts_between (unat rel) (unat prev) (unat c)" "unat el \<le> unat rel"
  proof -
    have "unat (rel - c) = unat rel - unat c"
      using range by (intro unat_sub_le) (simp add: word_le_nat_alt)
    moreover have "unat (prev + (rel - c)) = unat prev + unat (rel - c)"
      using bounds range calculation by (intro unat_plus_no_wrap) simp
    ultimately show "unat el = counts_between (unat rel) (unat prev) (unat c)" "unat el \<le> unat rel"
      using bounds range by (auto simp: el_def counts_between_def unat_sub_le word_le_nat_alt)
  qed
  have acc: "unat (?acc + el) = unat ?acc + unat el"
    using bounds el(2) by (intro unat_plus_no_wrap) simp
  define lst :: u16 where "lst = (if c = 0x10000 then 0 else ucast c)"
  have lst: "(if lst = 0 then 65536 else unat lst) = unat c"
    unfolding lst_def by (rule unat_u16_of_count [OF range(1,2)])
  have eq: "timer_poll_tick io st =
      (if ?acc + el < rel then (False, st\<lparr>g_last_counter := lst, g_subtick_accumulator := ?acc + el\<rparr>)
       else (True, st\<lparr>g_last_counter := lst, g_subtick_accumulator := ?acc + el - rel,
                     g_ticks := g_ticks st + 1\<rparr>))"
    using bounds(4)
    by (simp add: timer_poll_tick_def Let_def c_def prev_def rel_def el_def lst_def PIT_MAX_RELOAD_def)
  have st': "tick = (\<not> ?acc + el < rel)" "g_pit_ready st'" "g_last_counter st' = lst"
    "g_pit_reload st' = g_pit_reload st"
    "g_subtick_accumulator st' = (if ?acc + el < rel then ?acc + el else ?acc + el - rel)"
    "g_ticks st' = g_ticks st + (if ?acc + el < rel then 0 else 1)"
    using poll bounds(4) by (auto simp: eq split: if_splits)
  have counts: "last_count st' = unat c" "reload_count st' = unat rel"
  proof -
    show "last_count st' = unat c"
      unfolding last_count_def st'(3) by (rule lst)
    have "reload_count st' = reload_count st"
      by (simp add: reload_count_def st'(4))
    then show "reload_count st' = unat rel"
      by (simp add: rel)
  qed
  have lt: "?acc + el < rel \<longleftrightarrow> unat ?acc + unat el < unat rel"
    by (simp add: word_less_nat_alt acc)
  have sub: "unat (?acc + el - rel) = unat ?acc + unat el - unat rel" if "\<not> ?acc + el < rel"
    using that acc by (simp add: unat_sub_le not_less)
  show ?thesis
    using st' counts lt sub acc el bounds range(3) prev rel
    by (auto simp: timer_ok_def c_def)
qed


section \<open>Properties\<close>

text \<open>A run of polls with the given counter readings, counting the ticks reported.\<close>

fun timer_polls :: "(u8 \<times> u8) list \<Rightarrow> timer \<Rightarrow> nat \<times> timer" where
  "timer_polls [] st = (0, st)"
| "timer_polls (io # ios) st =
     (let (tick, st) = timer_poll_tick io st; (n, st) = timer_polls ios st in
      (n + (if tick then 1 else 0), st))"

fun counts_elapsed :: "nat \<Rightarrow> nat \<Rightarrow> (u8 \<times> u8) list \<Rightarrow> nat" where
  "counts_elapsed reload prev [] = 0"
| "counts_elapsed reload prev (io # ios) =
     counts_between reload prev (unat (timer_read_counter0 io)) +
     counts_elapsed reload (unat (timer_read_counter0 io)) ios"

text \<open>
  Over any sequence of polls of a running timer, \<^verbatim>\<open>timer_poll_tick\<close> neither loses nor invents
  time: the ticks reported, times the reload value, plus the remainder kept in the accumulator,
  are the counts that have passed; the remainder stays below one period.
\<close>

theorem timer_polls_conserve:
  assumes "timer_ok st" "\<forall>io\<in>set ios. unat (timer_read_counter0 io) \<le> reload_count st"
    "timer_polls ios st = (n, st')"
  shows "n * reload_count st + unat (g_subtick_accumulator st') =
           unat (g_subtick_accumulator st) + counts_elapsed (reload_count st) (last_count st) ios \<and>
         unat (g_subtick_accumulator st') < reload_count st \<and>
         timer_ticks st' = timer_ticks st + of_nat n"
  using assms
proof (induction ios arbitrary: st n)
  case Nil
  then show ?case
    by (auto simp: timer_ok_def)
next
  case (Cons io ios)
  obtain tick t where t: "timer_poll_tick io st = (tick, t)" by force
  obtain m where m: "timer_polls ios t = (m, st')" "n = m + (if tick then 1 else 0)"
    using Cons.prems(3) t by (auto split: prod.splits)
  have step: "timer_ok t" "reload_count t = reload_count st" "last_count t = unat (timer_read_counter0 io)"
    "unat (g_subtick_accumulator t) + (if tick then reload_count st else 0) =
       unat (g_subtick_accumulator st) +
       counts_between (reload_count st) (last_count st) (unat (timer_read_counter0 io))"
    "g_ticks t = g_ticks st + (if tick then 1 else 0)"
    using timer_poll_counts [OF Cons.prems(1) _ t] Cons.prems(2) by auto
  have "m * reload_count st + unat (g_subtick_accumulator st') =
      unat (g_subtick_accumulator t) + counts_elapsed (reload_count st) (last_count t) ios \<and>
      unat (g_subtick_accumulator st') < reload_count st \<and> timer_ticks st' = timer_ticks t + of_nat m"
    using Cons.IH [OF step(1) _ m(1)] Cons.prems(2) step(2) by auto
  then show ?case
    using step(3-5) m(2) by (auto simp: timer_ticks_def split: if_splits)
qed

definition example_timer :: timer where
  "example_timer = \<lparr>g_tick_hz = 100, g_pit_reload = 11931, g_last_counter = 11931,
     g_subtick_accumulator = 0, g_ticks = 0, g_pit_ready = True\<rparr>"

theorem timer_polls_conserve_witness:
  "let (n, st) = timer_polls [(0, 4), (0, 40)] example_timer in
     n * 11931 + unat (g_subtick_accumulator st) = (11931 - 1024) + (1024 + 11931 - 10240)"
proof -
  obtain n st where r: "timer_polls [(0, 4), (0, 40)] example_timer = (n, st)" by force
  have "timer_ok example_timer" "reload_count example_timer = 11931" "last_count example_timer = 11931"
    "g_subtick_accumulator example_timer = 0"
    by (simp_all add: timer_ok_def example_timer_def last_count_def reload_count_def)
  moreover have "timer_read_counter0 (0, 4) = 1024" "timer_read_counter0 (0, 40) = 10240"
    by (simp_all add: timer_read_counter0_def)
  ultimately show ?thesis
    using timer_polls_conserve [OF _ _ r] r by (simp add: counts_between_def)
qed

end
