(* ===== verification/Mouse.thy ===== *)
theory Mouse
  imports Input
begin

text \<open>
  The PS/2 mouse driver, \<^verbatim>\<open>mouse.c\<close>: packet assembly, decoding and the events it publishes, and
  the initialisation dialogue with the device.  The interrupt and polling paths take the sequence
  of (status, data) pairs the controller ports would return, ended by a status without the output
  bit.  The initialisation talks to a device given by its port functions.
\<close>

section \<open>State\<close>

record woos_perf =
  present_count :: u32
  present_cycles :: u64
  blit_count :: u32
  blit_cycles :: u64
  draw_win_count :: u32
  draw_win_cycles :: u64
  mouse_recv :: u32
  mouse_drop_align :: u32
  mouse_drop_overflow :: u32
  mouse_push :: u32

record mouse_state =
  m_x :: u16
  m_y :: u16
  m_buttons :: u8
  m_ready :: bool
  m_packet_index :: u8
  m_packet :: "nat \<Rightarrow> u8"
  m_packet_size :: u8

text \<open>What the driver touches: its own state, the counters, the input queue and the threads.\<close>

record mouse_env =
  me_mouse :: mouse_state
  me_perf :: woos_perf
  me_queue :: input_queue
  me_sched :: sched

definition MOUSE_POLL_MAX_BYTES :: nat where "MOUSE_POLL_MAX_BYTES = 64"

definition PS2_STATUS_OUTPUT_FULL :: u8 where "PS2_STATUS_OUTPUT_FULL = 0x01"
definition PS2_STATUS_INPUT_FULL :: u8 where "PS2_STATUS_INPUT_FULL = 0x02"
definition PS2_STATUS_AUX_DATA :: u8 where "PS2_STATUS_AUX_DATA = 0x20"

section \<open>Packets\<close>

definition publish :: "input_event_type \<Rightarrow> u8 \<Rightarrow> mouse_env \<Rightarrow> mouse_env" where
  "publish ty b env =
     (let ev = \<lparr>ev_type = ty, ev_x = m_x (me_mouse env), ev_y = m_y (me_mouse env), ev_buttons = b\<rparr>;
          (q, s) = snd (input_push ev (me_queue env, me_sched env)) in
      env\<lparr>me_queue := q, me_sched := s,
          me_perf := (me_perf env)\<lparr>mouse_push := mouse_push (me_perf env) + 1\<rparr>\<rparr>)"

definition clamp :: "int \<Rightarrow> u16 \<Rightarrow> int" where
  "clamp next screen =
     (if next < 0 then 0 else if next \<ge> uint screen then uint screen - 1 else next)"

definition mouse_move :: "u16 \<Rightarrow> u16 \<Rightarrow> (nat \<Rightarrow> u8) \<Rightarrow> mouse_env \<Rightarrow> mouse_env" where
  "mouse_move screen_w screen_h packet env =
     (let dx = sint (packet 1) * 3; dy = sint (packet 2) * 3; m = me_mouse env in
      if dx \<noteq> 0 \<or> dy \<noteq> 0 then
        let next_x = clamp (uint (m_x m) + dx) screen_w;
            next_y = clamp (uint (m_y m) - dy) screen_h;
            env = env\<lparr>me_mouse := m\<lparr>m_x := of_int next_x, m_y := of_int next_y\<rparr>\<rparr> in
        publish INPUT_EVENT_MOUSE_MOVE (m_buttons m) env
      else env)"

definition mouse_buttons :: "(nat \<Rightarrow> u8) \<Rightarrow> mouse_env \<Rightarrow> mouse_env" where
  "mouse_buttons packet env =
     (let next_buttons = packet 0 AND 0x07; old_buttons = m_buttons (me_mouse env) in
      if next_buttons \<noteq> old_buttons then
        let env = env\<lparr>me_mouse := (me_mouse env)\<lparr>m_buttons := next_buttons\<rparr>\<rparr>;
            env = (if next_buttons AND NOT old_buttons \<noteq> 0
                   then publish INPUT_EVENT_MOUSE_BUTTON next_buttons env else env) in
        if old_buttons AND NOT next_buttons \<noteq> 0
        then publish INPUT_EVENT_MOUSE_RELEASE next_buttons env else env
      else env)"

definition mouse_wheel :: "(nat \<Rightarrow> u8) \<Rightarrow> u8 \<Rightarrow> mouse_env \<Rightarrow> mouse_env" where
  "mouse_wheel packet packet_size env =
     (if packet_size \<ge> 4 then
        let low_z = packet 3 AND 0x0F;
            dz = (if low_z AND 0x08 \<noteq> 0 then low_z OR 0xF0 else low_z) in
        if dz \<noteq> 0 then publish INPUT_EVENT_MOUSE_WHEEL dz env else env
      else env)"

text \<open>\<open>video\<close> is the screen size from \<^verbatim>\<open>get_video_info\<close>, which may be \<^verbatim>\<open>NULL\<close>.\<close>

definition handle_mouse_packet ::
    "(u16 \<times> u16) option \<Rightarrow> (nat \<Rightarrow> u8) \<Rightarrow> u8 \<Rightarrow> mouse_env \<Rightarrow> mouse_env" where
  "handle_mouse_packet video packet packet_size env =
     (let perf = (me_perf env)\<lparr>mouse_recv := mouse_recv (me_perf env) + 1\<rparr> in
      if packet 0 AND 0x08 = 0
      then env\<lparr>me_perf := perf\<lparr>mouse_drop_align := mouse_drop_align perf + 1\<rparr>\<rparr>
      else if packet 0 AND 0xC0 \<noteq> 0
      then env\<lparr>me_perf := perf\<lparr>mouse_drop_overflow := mouse_drop_overflow perf + 1\<rparr>\<rparr>
      else
        let env = env\<lparr>me_perf := perf\<rparr>;
            (screen_w, screen_h) = (case video of Some wh \<Rightarrow> wh | None \<Rightarrow> (1280, 1024)) in
        mouse_wheel packet packet_size (mouse_buttons packet (mouse_move screen_w screen_h packet env)))"

text \<open>
  One auxiliary byte: a packet may only start with a byte whose bit 3 is set; \<open>True\<close> when the byte
  completed a packet.
\<close>

definition mouse_byte :: "(u16 \<times> u16) option \<Rightarrow> u8 \<Rightarrow> mouse_env \<Rightarrow> bool \<times> mouse_env" where
  "mouse_byte video data env =
     (let m = me_mouse env in
      if m_packet_index m = 0 \<and> data AND 0x08 = 0 then (False, env)
      else
        let m = m\<lparr>m_packet := (m_packet m)(unat (m_packet_index m) := data),
                  m_packet_index := m_packet_index m + 1\<rparr>;
            env = env\<lparr>me_mouse := m\<rparr> in
        if m_packet_index m \<ge> m_packet_size m
        then let env = handle_mouse_packet video (m_packet m) (m_packet_size m) env in
             (True, env\<lparr>me_mouse := (me_mouse env)\<lparr>m_packet_index := 0\<rparr>\<rparr>)
        else (False, env))"

fun mouse_poll_loop :: "(u16 \<times> u16) option \<Rightarrow> nat \<Rightarrow> (u8 \<times> u8) list \<Rightarrow> mouse_env \<Rightarrow> mouse_env" where
  "mouse_poll_loop video left [] env = env"
| "mouse_poll_loop video left ((status, data) # io) env =
     (if left = 0 then env
      else if status AND PS2_STATUS_OUTPUT_FULL = 0 then env
      else if status AND PS2_STATUS_AUX_DATA = 0 then mouse_poll_loop video (left - 1) io env
      else
        let (full, env) = mouse_byte video data env in
        if full then env else mouse_poll_loop video (left - 1) io env)"

definition mouse_poll :: "(u16 \<times> u16) option \<Rightarrow> (u8 \<times> u8) list \<Rightarrow> mouse_env \<Rightarrow> mouse_env" where
  "mouse_poll video io env =
     (if \<not> m_ready (me_mouse env) then env else mouse_poll_loop video MOUSE_POLL_MAX_BYTES io env)"

fun mouse_handler_loop :: "(u16 \<times> u16) option \<Rightarrow> (u8 \<times> u8) list \<Rightarrow> mouse_env \<Rightarrow> mouse_env" where
  "mouse_handler_loop video [] env = env"
| "mouse_handler_loop video ((status, data) # io) env =
     (if status AND PS2_STATUS_OUTPUT_FULL = 0 then env
      else if status AND PS2_STATUS_AUX_DATA = 0 then mouse_handler_loop video io env
      else mouse_handler_loop video io (snd (mouse_byte video data env)))"

definition mouse_handler :: "(u16 \<times> u16) option \<Rightarrow> (u8 \<times> u8) list \<Rightarrow> mouse_env \<Rightarrow> mouse_env" where
  "mouse_handler video io env =
     (if \<not> m_ready (me_mouse env) then env else mouse_handler_loop video io env)"

definition mouse_is_ready :: "mouse_state \<Rightarrow> bool" where "mouse_is_ready m = m_ready m"
definition mouse_get_x :: "mouse_state \<Rightarrow> u16" where "mouse_get_x m = m_x m"
definition mouse_get_y :: "mouse_state \<Rightarrow> u16" where "mouse_get_y m = m_y m"

section \<open>The device dialogue\<close>

text \<open>The port functions of the machine the driver talks to.\<close>

fun ps2_wait :: "'d ports \<Rightarrow> (u8 \<Rightarrow> bool) \<Rightarrow> nat \<Rightarrow> 'd \<Rightarrow> bool \<times> 'd" where
  "ps2_wait io ok 0 d = (False, d)"
| "ps2_wait io ok (Suc n) d =
     (let (status, d) = port_in io 0x64 d in if ok status then (True, d) else ps2_wait io ok n d)"

definition ps2_wait_input_clear :: "'d ports \<Rightarrow> 'd \<Rightarrow> bool \<times> 'd" where
  "ps2_wait_input_clear io d = ps2_wait io (\<lambda>s. s AND PS2_STATUS_INPUT_FULL = 0) 100000 d"

definition ps2_wait_output_full :: "'d ports \<Rightarrow> 'd \<Rightarrow> bool \<times> 'd" where
  "ps2_wait_output_full io d = ps2_wait io (\<lambda>s. s AND PS2_STATUS_OUTPUT_FULL \<noteq> 0) 100000 d"

fun ps2_flush :: "'d ports \<Rightarrow> nat \<Rightarrow> 'd \<Rightarrow> 'd" where
  "ps2_flush io 0 d = d"
| "ps2_flush io (Suc n) d =
     (let (status, d) = port_in io 0x64 d in
      if status AND PS2_STATUS_OUTPUT_FULL = 0 then d else ps2_flush io n (snd (port_in io 0x60 d)))"

definition ps2_flush_output :: "'d ports \<Rightarrow> 'd \<Rightarrow> 'd" where
  "ps2_flush_output io d = ps2_flush io 32 d"

definition ps2_write_command :: "'d ports \<Rightarrow> u8 \<Rightarrow> 'd \<Rightarrow> bool \<times> 'd" where
  "ps2_write_command io command d =
     (let (ok, d) = ps2_wait_input_clear io d in
      if \<not> ok then (False, d) else (True, port_out io 0x64 command d))"

definition ps2_write_data :: "'d ports \<Rightarrow> u8 \<Rightarrow> 'd \<Rightarrow> bool \<times> 'd" where
  "ps2_write_data io val d =
     (let (ok, d) = ps2_wait_input_clear io d in
      if \<not> ok then (False, d) else (True, port_out io 0x60 val d))"

definition ps2_read_data :: "'d ports \<Rightarrow> 'd \<Rightarrow> u8 option \<times> 'd" where
  "ps2_read_data io d =
     (let (ok, d) = ps2_wait_output_full io d in
      if \<not> ok then (None, d) else let (v, d) = port_in io 0x60 d in (Some v, d))"

definition mouse_write :: "'d ports \<Rightarrow> u8 \<Rightarrow> 'd \<Rightarrow> bool \<times> 'd" where
  "mouse_write io val d =
     (let (ok, d) = ps2_write_command io 0xD4 d in
      if \<not> ok then (False, d) else
      let (ok, d) = ps2_write_data io val d in
      if \<not> ok then (False, d) else
      let (ack, d) = ps2_read_data io d in
      (ack = Some 0xFA, d))"

text \<open>Writes whose result the code ignores, and writes where the first failure ends the dialogue.\<close>

definition mouse_writes :: "'d ports \<Rightarrow> u8 list \<Rightarrow> 'd \<Rightarrow> 'd" where
  "mouse_writes io vs d = fold (\<lambda>v d. snd (mouse_write io v d)) vs d"

fun mouse_write_all :: "'d ports \<Rightarrow> u8 list \<Rightarrow> 'd \<Rightarrow> bool \<times> 'd" where
  "mouse_write_all io [] d = (True, d)"
| "mouse_write_all io (v # vs) d =
     (let (ok, d) = mouse_write io v d in if \<not> ok then (False, d) else mouse_write_all io vs d)"

definition mouse_read_id :: "'d ports \<Rightarrow> 'd \<Rightarrow> u8 \<times> 'd" where
  "mouse_read_id io d =
     (let (ok, d) = mouse_write io 0xF2 d in
      if \<not> ok then (3, d) else
      let (mouse_id, d) = ps2_read_data io d in
      (case mouse_id of
         None \<Rightarrow> (3, d)
       | Some i \<Rightarrow> (if i = 3 \<or> i = 4 then 4 else 3, d)))"

definition mouse_init :: "'d ports \<Rightarrow> u16 \<Rightarrow> u16 \<Rightarrow> 'd \<Rightarrow> mouse_state \<Rightarrow> mouse_state \<times> 'd" where
  "mouse_init io start_x start_y d m =
     (let m = m\<lparr>m_x := start_x, m_y := start_y, m_buttons := 0, m_packet_index := 0, m_ready := False\<rparr>;
          d = ps2_flush_output io d;
          (ok, d) = ps2_write_command io 0xA8 d in
      if \<not> ok then (m, d) else
      let (ok, d) = ps2_write_command io 0x20 d in
      if \<not> ok then (m, d) else
      let (config, d) = ps2_read_data io d in
      (case config of None \<Rightarrow> (m, d) | Some config \<Rightarrow>
      let config = (config OR 0x02) AND NOT 0x20;
          (ok, d) = ps2_write_command io 0x60 d in
      if \<not> ok then (m, d) else
      let (ok, d) = ps2_write_data io config d in
      if \<not> ok then (m, d) else
      let (ok, d) = mouse_write io 0xF6 d in
      if \<not> ok then (m, d) else
      let d = mouse_writes io [0xF3, 200, 0xF3, 100, 0xF3, 80] d;
          (packet_size, d) = mouse_read_id io d;
          m = m\<lparr>m_packet_size := packet_size\<rparr>;
          (ok, d) = mouse_write_all io [0xF3, 200, 0xE8, 3, 0xF4] d in
      if \<not> ok then (m, d) else (m\<lparr>m_ready := True\<rparr>, d)))"


section \<open>Packet assembly\<close>

text \<open>The assembly buffer is not part of what a packet does.\<close>

definition with_buffer :: "(nat \<Rightarrow> u8) \<Rightarrow> u8 \<Rightarrow> mouse_env \<Rightarrow> mouse_env" where
  "with_buffer f i env = env\<lparr>me_mouse := (me_mouse env)\<lparr>m_packet := f, m_packet_index := i\<rparr>\<rparr>"

lemma with_buffer_simps [simp]:
  "with_buffer f i (with_buffer g j env) = with_buffer f i env"
  "me_perf (with_buffer f i env) = me_perf env" "me_queue (with_buffer f i env) = me_queue env"
  "me_sched (with_buffer f i env) = me_sched env"
  "m_x (me_mouse (with_buffer f i env)) = m_x (me_mouse env)"
  "m_y (me_mouse (with_buffer f i env)) = m_y (me_mouse env)"
  "m_buttons (me_mouse (with_buffer f i env)) = m_buttons (me_mouse env)"
  "m_packet_size (me_mouse (with_buffer f i env)) = m_packet_size (me_mouse env)"
  "m_packet_index (me_mouse (with_buffer f i env)) = i"
  "m_packet (me_mouse (with_buffer f i env)) = f"
  by (simp_all add: with_buffer_def)

lemma publish_simps [simp]:
  "me_mouse (publish ty b env) = me_mouse env"
  "publish ty b (with_buffer f i env) = with_buffer f i (publish ty b env)"
  by (simp_all add: publish_def with_buffer_def Let_def split: prod.split)

lemma move_buffer [simp]:
  "mouse_move w h pk (with_buffer f i env) = with_buffer f i (mouse_move w h pk env)"
proof -
  have "(with_buffer f i env)\<lparr>me_mouse := (me_mouse (with_buffer f i env))\<lparr>m_x := a, m_y := b\<rparr>\<rparr> =
      with_buffer f i (env\<lparr>me_mouse := (me_mouse env)\<lparr>m_x := a, m_y := b\<rparr>\<rparr>)" for a b
    by (simp add: with_buffer_def)
  then show ?thesis
    by (simp add: mouse_move_def Let_def)
qed

lemma buttons_buffer [simp]:
  "mouse_buttons pk (with_buffer f i env) = with_buffer f i (mouse_buttons pk env)"
proof -
  have "(with_buffer f i env)\<lparr>me_mouse := (me_mouse (with_buffer f i env))\<lparr>m_buttons := b\<rparr>\<rparr> =
      with_buffer f i (env\<lparr>me_mouse := (me_mouse env)\<lparr>m_buttons := b\<rparr>\<rparr>)" for b
    by (simp add: with_buffer_def)
  then show ?thesis
    by (simp add: mouse_buttons_def Let_def)
qed

lemma wheel_buffer [simp]:
  "mouse_wheel pk n (with_buffer f i env) = with_buffer f i (mouse_wheel pk n env)"
  by (simp add: mouse_wheel_def Let_def)

lemma packet_buffer [simp]:
  "handle_mouse_packet video pk n (with_buffer f i env) = with_buffer f i (handle_mouse_packet video pk n env)"
proof -
  have "(with_buffer f i env)\<lparr>me_perf := p\<rparr> = with_buffer f i (env\<lparr>me_perf := p\<rparr>)" for p
    by (simp add: with_buffer_def)
  then show ?thesis
    by (simp add: handle_mouse_packet_def Let_def split: prod.split option.split)
qed

lemma move_size [simp]:
  "m_packet_size (me_mouse (mouse_move w h pk env)) = m_packet_size (me_mouse env)"
  "m_packet_index (me_mouse (mouse_move w h pk env)) = m_packet_index (me_mouse env)"
  "m_packet (me_mouse (mouse_move w h pk env)) = m_packet (me_mouse env)"
  "m_ready (me_mouse (mouse_move w h pk env)) = m_ready (me_mouse env)"
  by (simp_all add: mouse_move_def Let_def)

lemma buttons_size [simp]:
  "m_packet_size (me_mouse (mouse_buttons pk env)) = m_packet_size (me_mouse env)"
  "m_packet_index (me_mouse (mouse_buttons pk env)) = m_packet_index (me_mouse env)"
  "m_packet (me_mouse (mouse_buttons pk env)) = m_packet (me_mouse env)"
  "m_ready (me_mouse (mouse_buttons pk env)) = m_ready (me_mouse env)"
  "m_x (me_mouse (mouse_buttons pk env)) = m_x (me_mouse env)"
  "m_y (me_mouse (mouse_buttons pk env)) = m_y (me_mouse env)"
  by (simp_all add: mouse_buttons_def Let_def)

lemma wheel_mouse [simp]: "me_mouse (mouse_wheel pk n env) = me_mouse env"
  by (simp add: mouse_wheel_def Let_def)

lemma packet_size [simp]:
  "m_packet_size (me_mouse (handle_mouse_packet video pk n env)) = m_packet_size (me_mouse env)"
  "m_packet_index (me_mouse (handle_mouse_packet video pk n env)) = m_packet_index (me_mouse env)"
  "m_packet (me_mouse (handle_mouse_packet video pk n env)) = m_packet (me_mouse env)"
  by (simp_all add: handle_mouse_packet_def Let_def split: prod.split option.split)

text \<open>Only the first \<open>n\<close> bytes of the buffer matter, and at least three do.\<close>

lemma packet_cong:
  assumes "\<And>i. i < unat n \<Longrightarrow> pk i = pk' i" "3 \<le> n"
  shows "handle_mouse_packet video pk n env = handle_mouse_packet video pk' n env"
proof -
  have "3 \<le> unat n"
    using assms(2) by (simp add: word_le_nat_alt)
  then have eq: "pk 0 = pk' 0" "pk 1 = pk' 1" "pk 2 = pk' 2"
    using assms(1) by auto
  have "pk 3 = pk' 3" if "4 \<le> n"
    using assms(1) [of 3] that by (simp add: word_le_nat_alt)
  then have wheel: "mouse_wheel pk n e = mouse_wheel pk' n e" for e
    by (simp add: mouse_wheel_def)
  show ?thesis
    unfolding handle_mouse_packet_def mouse_move_def mouse_buttons_def eq wheel ..
qed

section \<open>The invariant\<close>

definition mouse_inv :: "u16 \<Rightarrow> u16 \<Rightarrow> mouse_env \<Rightarrow> bool" where
  "mouse_inv w h env \<longleftrightarrow>
     (m_packet_size (me_mouse env) = 3 \<or> m_packet_size (me_mouse env) = 4) \<and>
     m_packet_index (me_mouse env) < m_packet_size (me_mouse env) \<and>
     m_x (me_mouse env) < w \<and> m_y (me_mouse env) < h \<and> iq_ok (me_queue env)"

lemma publish_queue: "iq_ok (me_queue env) \<Longrightarrow> iq_ok (me_queue (publish ty b env))"
  using iq_push_list(1) by (simp add: publish_def Let_def case_prod_beta)

lemma clamp_range:
  assumes "0 < w"
  shows "of_int (clamp n w) < (w :: u16)"
proof -
  have w: "0 < uint w" "uint w < 65536"
    using assms unsigned_less [of w, where 'a = int] by (simp_all add: word_less_def)
  then have c: "0 \<le> clamp n w" "clamp n w < uint w"
    by (auto simp: clamp_def)
  then have "uint (of_int (clamp n w) :: u16) = clamp n w"
    using w by (simp add: unsigned_of_int take_bit_int_eq_self)
  then show ?thesis
    using c by (simp add: word_less_def)
qed

lemma mouse_inv_packet:
  assumes inv: "mouse_inv w h env" and w: "0 < w" "0 < h"
  shows "mouse_inv w h (handle_mouse_packet (Some (w, h)) pk n env)"
proof -
  have q: "iq_ok (me_queue (mouse_move w h pk env))" if "iq_ok (me_queue env)" for env
    using that by (simp add: mouse_move_def Let_def publish_queue)
  have qb: "iq_ok (me_queue (mouse_buttons pk env))" if "iq_ok (me_queue env)" for env
    using that by (simp add: mouse_buttons_def Let_def publish_queue)
  have qw: "iq_ok (me_queue (mouse_wheel pk n env))" if "iq_ok (me_queue env)" for env
    using that by (simp add: mouse_wheel_def Let_def publish_queue)
  have pos: "m_x (me_mouse (mouse_move w h pk env)) < w \<and> m_y (me_mouse (mouse_move w h pk env)) < h"
    if "m_x (me_mouse env) < w" "m_y (me_mouse env) < h" for env
    using that clamp_range [OF w(1)] clamp_range [OF w(2)] by (simp add: mouse_move_def Let_def)
  show ?thesis
    using inv by (auto simp: mouse_inv_def handle_mouse_packet_def Let_def q qb qw pos)
qed

lemma mouse_inv_byte:
  assumes inv: "mouse_inv w h env" and w: "0 < w" "0 < h"
  shows "mouse_inv w h (snd (mouse_byte (Some (w, h)) data env))"
proof (cases "m_packet_index (me_mouse env) = 0 \<and> data AND 0x08 = 0")
  case True
  then show ?thesis
    using inv by (simp add: mouse_byte_def)
next
  case False
  define f where "f = (m_packet (me_mouse env))(unat (m_packet_index (me_mouse env)) := data)"
  let ?i = "m_packet_index (me_mouse env) + 1" and ?n = "m_packet_size (me_mouse env)"
  have eq: "snd (mouse_byte (Some (w, h)) data env) =
      (if ?i \<ge> ?n then with_buffer f 0 (handle_mouse_packet (Some (w, h)) f ?n env)
       else with_buffer f ?i env)"
  proof -
    have "env\<lparr>me_mouse := (me_mouse env)\<lparr>m_packet := f, m_packet_index := ?i\<rparr>\<rparr> = with_buffer f ?i env"
      by (simp add: with_buffer_def)
    moreover have "e\<lparr>me_mouse := (me_mouse e)\<lparr>m_packet_index := 0\<rparr>\<rparr> = with_buffer (m_packet (me_mouse e)) 0 e" for e
      by (simp add: with_buffer_def)
    ultimately show ?thesis
      using False by (auto simp: mouse_byte_def Let_def f_def [symmetric])
  qed
  have "mouse_inv w h (with_buffer f 0 e)" if "mouse_inv w h e" for e
    using that by (auto simp: mouse_inv_def)
  moreover have "mouse_inv w h (with_buffer f ?i env)" if "\<not> ?n \<le> ?i"
    using inv that by (auto simp: mouse_inv_def)
  ultimately show ?thesis
    using mouse_inv_packet [OF assms] by (simp add: eq)
qed


lemma mouse_inv_streams:
  assumes "mouse_inv w h env" "0 < w" "0 < h"
  shows "mouse_inv w h (mouse_handler (Some (w, h)) io env) \<and>
         mouse_inv w h (mouse_poll (Some (w, h)) io env)"
proof
  have "mouse_inv w h env \<Longrightarrow> mouse_inv w h (mouse_handler_loop (Some (w, h)) io env)" for env
    using mouse_inv_byte [OF _ assms(2,3)]
    by (induction "Some (w, h)" io env rule: mouse_handler_loop.induct) auto
  then show "mouse_inv w h (mouse_handler (Some (w, h)) io env)"
    using assms(1) by (simp add: mouse_handler_def)
  have "mouse_inv w h env \<Longrightarrow> mouse_inv w h (mouse_poll_loop (Some (w, h)) n io env)" for n env
  proof (induction "Some (w, h)" n io env rule: mouse_poll_loop.induct)
    case (2 left status data io env)
    obtain full e where e: "mouse_byte (Some (w, h)) data env = (full, e)" by force
    then have "mouse_inv w h e"
      using mouse_inv_byte [OF "2.prems" assms(2,3), of data] by simp
    then show ?case
      using 2 e by auto
  qed simp
  then show "mouse_inv w h (mouse_poll (Some (w, h)) io env)"
    using assms(1) by (simp add: mouse_poll_def)
qed

section \<open>Framing\<close>

lemma byte_step:
  "mouse_byte video data (with_buffer f i env) =
     (let n = m_packet_size (me_mouse env); g = f(unat i := data) in
      if i = 0 \<and> data AND 0x08 = 0 then (False, with_buffer f i env)
      else if i + 1 \<ge> n then (True, with_buffer g 0 (handle_mouse_packet video g n env))
      else (False, with_buffer g (i + 1) env))"
proof -
  have "(with_buffer f i env)\<lparr>me_mouse := (me_mouse (with_buffer f i env))
      \<lparr>m_packet := g, m_packet_index := j\<rparr>\<rparr> = with_buffer g j env" for g j
    by (simp add: with_buffer_def)
  moreover have "e\<lparr>me_mouse := (me_mouse e)\<lparr>m_packet_index := 0\<rparr>\<rparr> =
      with_buffer (m_packet (me_mouse e)) 0 e" for e
    by (simp add: with_buffer_def)
  ultimately show ?thesis
    by (simp add: mouse_byte_def Let_def)
qed

lemma with_buffer_self: "with_buffer (m_packet (me_mouse env)) (m_packet_index (me_mouse env)) env = env"
  by (simp add: with_buffer_def)

lemma one_packet:
  assumes n: "m_packet_size (me_mouse env) = 3 \<or> m_packet_size (me_mouse env) = 4"
    and p: "length p = unat (m_packet_size (me_mouse env))" "p ! 0 AND 0x08 \<noteq> 0"
    and st: "st AND PS2_STATUS_OUTPUT_FULL \<noteq> 0" "st AND PS2_STATUS_AUX_DATA \<noteq> 0"
  shows "\<exists>g. mouse_handler_loop video (map (Pair st) p @ io) (with_buffer f 0 env) =
           mouse_handler_loop video io (with_buffer g 0
             (handle_mouse_packet video ((!) p) (m_packet_size (me_mouse env)) env))"
  using n
proof
  assume n: "m_packet_size (me_mouse env) = 3"
  then have "length p = Suc (Suc (Suc 0))"
    using p(1) by simp
  then obtain a b c where abc: "p = [a, b, c]"
    by (auto simp: length_Suc_conv)
  let ?g = "f(0 := a, 1 := b, 2 := c)"
  have "handle_mouse_packet video ?g 3 env = handle_mouse_packet video ((!) p) 3 env"
  proof (rule packet_cong)
    fix i
    assume "i < unat (3 :: u8)"
    then have "i = 0 \<or> i = 1 \<or> i = 2"
      by (simp, arith)
    then show "?g i = p ! i"
      by (auto simp: abc)
  qed simp
  then show ?thesis
    using p(2) st n by (intro exI [of _ ?g]) (simp add: abc byte_step Let_def word_le_nat_alt)
next
  assume n: "m_packet_size (me_mouse env) = 4"
  then have "length p = Suc (Suc (Suc (Suc 0)))"
    using p(1) by simp
  then obtain a b c d where abcd: "p = [a, b, c, d]"
    by (auto simp: length_Suc_conv)
  let ?g = "f(0 := a, 1 := b, 2 := c, 3 := d)"
  have "handle_mouse_packet video ?g 4 env = handle_mouse_packet video ((!) p) 4 env"
  proof (rule packet_cong)
    fix i
    assume "i < unat (4 :: u8)"
    then have "i = 0 \<or> i = 1 \<or> i = 2 \<or> i = 3"
      by (simp, arith)
    then show "?g i = p ! i"
      by (auto simp: abcd)
  qed simp
  then show ?thesis
    using p(2) st n by (intro exI [of _ ?g]) (simp add: abcd byte_step Let_def word_le_nat_alt)
qed

section \<open>Properties\<close>

text \<open>
  C25: Whatever bytes the controller delivers, \<^verbatim>\<open>mouse_handler\<close> and \<^verbatim>\<open>mouse_poll\<close> keep the packet index
  below the packet size (so the four-byte buffer is never overrun), the pointer on the screen and
  the event queue well formed.
\<close>

theorem mouse_handler_inv:
  assumes "mouse_inv w h env" "0 < w" "0 < h"
  shows "mouse_inv w h (mouse_handler (Some (w, h)) io env) \<and>
         mouse_inv w h (mouse_poll (Some (w, h)) io env)"
  by (rule mouse_inv_streams [OF assms])

definition example_mouse :: mouse_env where
  "example_mouse =
     \<lparr>me_mouse = \<lparr>m_x = 640, m_y = 512, m_buttons = 0, m_ready = True, m_packet_index = 0,
        m_packet = (\<lambda>_. 0), m_packet_size = 3\<rparr>,
      me_perf = \<lparr>present_count = 0, present_cycles = 0, blit_count = 0, blit_cycles = 0,
        draw_win_count = 0, draw_win_cycles = 0, mouse_recv = 0, mouse_drop_align = 0,
        mouse_drop_overflow = 0, mouse_push = 0\<rparr>,
      me_queue = example_queue, me_sched = example_sched\<rparr>"

lemma example_mouse_inv: "mouse_inv 1280 1024 example_mouse"
  by (simp add: mouse_inv_def example_mouse_def example_queue_def iq_ok_def)

theorem mouse_handler_inv_witness:
  "mouse_inv 1280 1024 (mouse_handler (Some (1280, 1024)) [(0x21, 0x38), (0x21, 255), (0x21, 7)] example_mouse)"
  using mouse_handler_inv [OF example_mouse_inv, of "[(0x21, 0x38), (0x21, 255), (0x21, 7)]"] by simp

text \<open>
  From a packet boundary, a stream of whole packets, each starting with a byte whose
  synchronisation bit is set, is decoded packet by packet: the interrupt handler does to pointer,
  buttons, counters and events what \<^verbatim>\<open>handle_mouse_packet\<close> does for each in turn, and ends at a
  packet boundary.
\<close>

theorem mouse_stream_framing:
  assumes "m_ready (me_mouse env)" "m_packet_index (me_mouse env) = 0"
    "m_packet_size (me_mouse env) = 3 \<or> m_packet_size (me_mouse env) = 4"
    "\<forall>p\<in>set pkts. length p = unat (m_packet_size (me_mouse env)) \<and> p ! 0 AND 0x08 \<noteq> 0"
    "st AND PS2_STATUS_OUTPUT_FULL \<noteq> 0" "st AND PS2_STATUS_AUX_DATA \<noteq> 0"
  shows "\<exists>f. mouse_handler video (map (Pair st) (concat pkts)) env =
           with_buffer f 0
             (fold (\<lambda>p e. handle_mouse_packet video ((!) p) (m_packet_size (me_mouse env)) e) pkts env)"
proof -
  have "\<exists>g. mouse_handler_loop video (map (Pair st) (concat pkts)) (with_buffer f 0 e) =
      with_buffer g 0 (fold (\<lambda>p e. handle_mouse_packet video ((!) p) n e) pkts e)"
    if "m_packet_size (me_mouse e) = n" "n = 3 \<or> n = 4"
      "\<forall>p\<in>set pkts. length p = unat n \<and> p ! 0 AND 0x08 \<noteq> 0" for f e n
    using that
  proof (induction pkts arbitrary: f e)
    case (Cons p pkts)
    obtain g where g: "mouse_handler_loop video (map (Pair st) p @ map (Pair st) (concat pkts)) (with_buffer f 0 e) =
        mouse_handler_loop video (map (Pair st) (concat pkts)) (with_buffer g 0
          (handle_mouse_packet video ((!) p) n e))"
      using one_packet [of e p st video "map (Pair st) (concat pkts)" f] Cons.prems assms(5,6) by auto
    then show ?case
      using Cons.IH [of "handle_mouse_packet video ((!) p) n e" g] Cons.prems by simp
  qed auto
  from this [of env "m_packet_size (me_mouse env)" "m_packet (me_mouse env)"] show ?thesis
    using assms with_buffer_self [of env] by (simp add: mouse_handler_def)
qed

theorem mouse_stream_framing_witness:
  "\<exists>f. mouse_handler None [(0x21, 8), (0x21, 1), (0x21, 2)] example_mouse =
     with_buffer f 0 (handle_mouse_packet None ((!) [8, 1, 2]) 3 example_mouse)"
  using mouse_stream_framing [of example_mouse "[[8, 1, 2]]" "0x21" None]
  by (simp add: example_mouse_def PS2_STATUS_OUTPUT_FULL_def PS2_STATUS_AUX_DATA_def)

end
