(* ===== verification/Lib_Format.thy ===== *)
theory Lib_Format
  imports Lib_Mem
begin

text \<open>
  The formatted output of \<^verbatim>\<open>lib.c\<close>: \<^verbatim>\<open>vsnprintf\<close>, which writes into a bounded buffer of memory.  A
  format is the list of bytes before its terminator.  The arguments behind \<^verbatim>\<open>va_list\<close> are the
  registers they were passed in, or strings; a directive that finds no argument of its kind, or
  a format that ends inside a directive (where the code reads past the terminator), is \<open>None\<close>.
\<close>

datatype va = VInt u64 | VStr "u8 list option"

definition PUT :: "u64 \<Rightarrow> u64 \<Rightarrow> u8 \<Rightarrow> memory \<times> u64 \<Rightarrow> memory \<times> u64" where
  "PUT str sz c st =
     (let (mem, written) = st in
      (if str \<noteq> 0 \<and> written + 1 < sz then mem(str + written := c) else mem, written + 1))"

section \<open>Directives\<close>

record fmt_spec =
  fs_width :: nat
  fs_zero_pad :: bool
  fs_is_long :: nat

fun parse_width :: "nat \<Rightarrow> u8 list \<Rightarrow> nat \<times> u8 list" where
  "parse_width width [] = (width, [])"
| "parse_width width (c # format) =
     (if is_digit c then parse_width (width * 10 + (unat c - 48)) format else (width, c # format))"

definition parse_long :: "u8 list \<Rightarrow> nat \<times> u8 list" where
  "parse_long format =
     (case format of
        c # cs \<Rightarrow>
          if c = 108 then (case cs of d # ds \<Rightarrow> if d = 108 then (2, ds) else (1, cs) | [] \<Rightarrow> (1, cs))
          else if c = 122 then (2, cs) else (0, format)
      | [] \<Rightarrow> (0, format))"

text \<open>Flags, width, an ignored precision, and the length modifier, in that order.\<close>

definition parse_spec :: "u8 list \<Rightarrow> fmt_spec \<times> u8 list" where
  "parse_spec format =
     (let (zero_pad, format) = (case format of c # cs \<Rightarrow> if c = 48 then (True, cs) else (False, format)
                                | [] \<Rightarrow> (False, format));
          (width, format) = parse_width 0 format;
          format = (case format of c # cs \<Rightarrow> if c = 46 then dropWhile is_digit cs else format
                    | [] \<Rightarrow> format);
          (is_long, format) = parse_long format in
      (\<lparr>fs_width = width, fs_zero_pad = zero_pad, fs_is_long = is_long\<rparr>, format))"

text \<open>Digits, least significant first, as the loops store them in \<^verbatim>\<open>buf\<close>.\<close>

function dec_digits :: "u64 \<Rightarrow> u8 list" where
  "dec_digits val = (if val = 0 then [] else (48 + ucast (val mod 10)) # dec_digits (val div 10))"
  by pat_completeness auto
termination by (relation "measure unat") (auto simp: unat_div unat_gt_0)

definition hex_digit :: "bool \<Rightarrow> u64 \<Rightarrow> u8" where
  "hex_digit upper d = (if d < 10 then 48 + ucast d else (if upper then 65 else 97) + ucast (d - 10))"

function hex_digits :: "bool \<Rightarrow> u64 \<Rightarrow> u8 list" where
  "hex_digits upper val =
     (if val = 0 then [] else hex_digit upper (val mod 16) # hex_digits upper (val div 16))"
  by pat_completeness auto
termination by (relation "measure (\<lambda>(upper, val). unat val)") (auto simp: unat_div unat_gt_0)

declare dec_digits.simps [simp del] hex_digits.simps [simp del]

definition pad_digits :: "fmt_spec \<Rightarrow> u8 list \<Rightarrow> u8 list" where
  "pad_digits sp buf =
     replicate (fs_width sp - length buf) (if fs_zero_pad sp then 48 else 32) @ rev buf"

definition signed_arg :: "fmt_spec \<Rightarrow> u64 \<Rightarrow> i64" where
  "signed_arg sp v = (if fs_is_long sp \<ge> 1 then v else scast (ucast v :: i32))"

definition unsigned_arg :: "fmt_spec \<Rightarrow> u64 \<Rightarrow> u64" where
  "unsigned_arg sp v = (if fs_is_long sp \<ge> 1 then v else ucast (ucast v :: u32))"

text \<open>
  The bytes one conversion puts, and the arguments left.  Negating the least \<^verbatim>\<open>int64_t\<close> wraps to
  itself, so its digit loop does not run.
\<close>

definition emit :: "fmt_spec \<Rightarrow> u8 \<Rightarrow> va list \<Rightarrow> (u8 list \<times> va list) option" where
  "emit sp c args =
     (if c = 115 then
        (case args of VStr s # args \<Rightarrow>
           Some (case s of Some s \<Rightarrow> s | None \<Rightarrow> [40, 110, 117, 108, 108, 41], args) | _ \<Rightarrow> None)
      else if c = 99 then
        (case args of VInt v # args \<Rightarrow> Some ([ucast v], args) | _ \<Rightarrow> None)
      else if c = 100 \<or> c = 105 then
        (case args of VInt v # args \<Rightarrow>
           (let val = signed_arg sp v; neg = sint val < 0; val = (if neg then - val else val);
                buf = (if val = 0 then [48] else if sint val > 0 then dec_digits val else []) in
            Some ((if neg then [45] else []) @ pad_digits sp buf, args)) | _ \<Rightarrow> None)
      else if c = 117 then
        (case args of VInt v # args \<Rightarrow>
           (let val = unsigned_arg sp v; buf = (if val = 0 then [48] else dec_digits val) in
            Some (pad_digits sp buf, args)) | _ \<Rightarrow> None)
      else if c = 120 \<or> c = 88 then
        (case args of VInt v # args \<Rightarrow>
           (let val = unsigned_arg sp v; buf = (if val = 0 then [48] else hex_digits (c = 88) val) in
            Some (pad_digits sp buf, args)) | _ \<Rightarrow> None)
      else if c = 112 then
        (case args of VInt v # args \<Rightarrow>
           Some ([48, 120] @ rev (if v = 0 then [48] else hex_digits False v), args) | _ \<Rightarrow> None)
      else if c = 37 then Some ([37], args)
      else Some ([37, c], args))"

section \<open>The formatter\<close>

lemma parse_width_length: "length (snd (parse_width w f)) \<le> length f"
  by (induction w f rule: parse_width.induct) auto

lemma parse_long_length: "length (snd (parse_long f)) \<le> length f"
  by (auto simp: parse_long_def split: list.splits)

lemma parse_spec_length: "length (snd (parse_spec f)) \<le> length f"
proof -
  have *: "length (snd (parse_long (case g of c # cs \<Rightarrow> if c = 46 then dropWhile is_digit cs else g | [] \<Rightarrow> g)))
      \<le> length g" for g
  proof -
    have "length (case g of c # cs \<Rightarrow> if c = 46 then dropWhile is_digit cs else g | [] \<Rightarrow> g) \<le> length g"
      using length_dropWhile_le [of is_digit "tl g"] by (cases g) auto
    then show ?thesis
      by (rule order.trans [OF parse_long_length])
  qed
  define h where "h = (case f of c # cs \<Rightarrow> if c = 48 then (True, cs) else (False, f) | [] \<Rightarrow> (False, f))"
  have "length (snd h) \<le> length f"
    by (auto simp: h_def split: list.split)
  moreover have "length (snd (parse_spec f)) \<le> length (snd (parse_width 0 (snd h)))"
    using * [of "snd (parse_width 0 (snd h))"]
    by (simp only: parse_spec_def h_def [symmetric] Let_def case_prod_beta snd_conv)
  ultimately show ?thesis
    using parse_width_length [of 0 "snd h"] by linarith
qed

lemma parse_spec_rest:
  "parse_spec f = (sp, d # ds) \<Longrightarrow> length ds < Suc (length f)"
  "(sp, d # ds) = parse_spec f \<Longrightarrow> length ds < Suc (length f)"
  using parse_spec_length [of f] by (metis snd_conv length_Cons le_imp_less_Suc Suc_le_lessD less_SucI)+

function vsnprintf_loop :: "u64 \<Rightarrow> u64 \<Rightarrow> u8 list \<Rightarrow> va list \<Rightarrow> memory \<times> u64 \<Rightarrow> (memory \<times> u64) option" where
  "vsnprintf_loop str sz [] args st = Some st"
| "vsnprintf_loop str sz (c # format) args st =
     (if c \<noteq> 37 then vsnprintf_loop str sz format args (PUT str sz c st)
      else if format = [] then Some st
      else
        let (sp, format) = parse_spec format in
        (case format of
           [] \<Rightarrow> None
         | d # format \<Rightarrow>
             (case emit sp d args of
                None \<Rightarrow> None
              | Some (bytes, args) \<Rightarrow>
                  vsnprintf_loop str sz format args (fold (PUT str sz) bytes st))))"
  by pat_completeness auto
termination
  by (relation "measure (\<lambda>(str, sz, format, args, st). length format)") (auto dest: parse_spec_rest)

definition vsnprintf ::
    "u64 \<Rightarrow> u64 \<Rightarrow> u8 list option \<Rightarrow> va list \<Rightarrow> memory \<Rightarrow> (i32 \<times> memory) option" where
  "vsnprintf str sz format ap mem =
     (case format of
        None \<Rightarrow> Some (0, if str \<noteq> 0 \<and> sz > 0 then mem(str := 0) else mem)
      | Some format \<Rightarrow>
          (case vsnprintf_loop str sz format ap (mem, 0) of
             None \<Rightarrow> None
           | Some (mem, written) \<Rightarrow>
               Some (ucast written,
                 if str \<noteq> 0 \<and> sz > 0 then
                   (if written < sz then mem(str + written := 0) else mem(str + (sz - 1) := 0))
                 else mem)))"

definition snprintf ::
    "u64 \<Rightarrow> u64 \<Rightarrow> u8 list option \<Rightarrow> va list \<Rightarrow> memory \<Rightarrow> (i32 \<times> memory) option" where
  "snprintf str sz format args mem = vsnprintf str sz format args mem"

section \<open>What a format denotes\<close>

text \<open>The text of a format and its arguments, independent of any buffer.\<close>

function vformat :: "u8 list \<Rightarrow> va list \<Rightarrow> u8 list option" where
  "vformat [] args = Some []"
| "vformat (c # format) args =
     (if c \<noteq> 37 then map_option ((#) c) (vformat format args)
      else if format = [] then Some []
      else
        case parse_spec format of (sp, format) \<Rightarrow>
        (case format of
           [] \<Rightarrow> None
         | d # format \<Rightarrow>
             (case emit sp d args of
                None \<Rightarrow> None
              | Some (bytes, args) \<Rightarrow> map_option ((@) bytes) (vformat format args))))"
  by pat_completeness auto
termination
  by (relation "measure (\<lambda>(format, args). length format)") (auto dest: parse_spec_rest)

declare vsnprintf_loop.simps [simp del] vformat.simps [simp del]

section \<open>The buffer\<close>

definition put_room :: "u64 \<Rightarrow> u64 \<Rightarrow> nat" where
  "put_room str sz = (if str = 0 then 0 else unat sz - 1)"

text \<open>After the bytes \<open>out\<close> were put into a buffer of memory \<open>m0\<close>.\<close>

definition put_ok :: "u64 \<Rightarrow> u64 \<Rightarrow> memory \<Rightarrow> u8 list \<Rightarrow> memory \<times> u64 \<Rightarrow> bool" where
  "put_ok str sz m0 out st \<longleftrightarrow>
     snd st = of_nat (length out) \<and>
     (\<forall>i < min (length out) (put_room str sz). fst st (str + of_nat i) = out ! i) \<and>
     (\<forall>a. a \<notin> addr_range str (min (length out) (put_room str sz)) \<longrightarrow> fst st a = m0 a)"

lemma put_room_bound: "put_room str sz < 2 ^ 64"
  using unsigned_less [of sz, where 'a = nat] by (auto simp: put_room_def intro: less_imp_diff_less)

lemma put_step:
  assumes ok: "put_ok str sz m0 out st" and len: "Suc (length out) < 2 ^ 64"
  shows "put_ok str sz m0 (out @ [c]) (PUT str sz c st)"
proof -
  obtain mem w where st: "st = (mem, w)" by force
  have w: "w = of_nat (length out)" "unat w = length out"
    using ok len by (simp_all add: put_ok_def st take_bit_nat_eq_self unsigned_of_nat)
  then have w1: "unat (w + 1) = Suc (length out)"
    using len by (subst unat_plus_one) simp_all
  have room: "str \<noteq> 0 \<and> w + 1 < sz \<longleftrightarrow> length out < put_room str sz"
    using w1 by (auto simp: put_room_def word_less_nat_alt)
  show ?thesis
  proof (cases "length out < put_room str sz")
    case True
    have neq: "str + of_nat i \<noteq> str + of_nat (length out)" if "i < length out" for i
      using that len addr_range_inject [of i "2 ^ 64" "length out" str] by simp
    have *: "i < length out \<or> i = length out" if "i < Suc (length out)" for i
      using that by linarith
    have "addr_range str (Suc (length out)) = insert (str + of_nat (length out)) (addr_range str (length out))"
      by (auto simp: addr_range_def lessThan_Suc)
    then show ?thesis
      using ok True room w neq
      by (auto simp: PUT_def put_ok_def st nth_append min_def less_Suc_eq)
  next
    case False
    then show ?thesis
      using ok room w by (auto simp: PUT_def put_ok_def st nth_append min_def)
  qed
qed

lemma put_fold:
  "put_ok str sz m0 out st \<Longrightarrow> length out + length bs < 2 ^ 64 \<Longrightarrow>
   put_ok str sz m0 (out @ bs) (fold (PUT str sz) bs st)"
proof (induction bs arbitrary: out st)
  case (Cons b bs)
  then show ?case
    using put_step [of str sz m0 out st b] Cons.IH [of "out @ [b]" "PUT str sz b st"] by simp
qed simp

lemma vsnprintf_loop_ok:
  "vformat format args = Some bs \<Longrightarrow> put_ok str sz m0 out st \<Longrightarrow> length out + length bs < 2 ^ 64 \<Longrightarrow>
   \<exists>st'. vsnprintf_loop str sz format args st = Some st' \<and> put_ok str sz m0 (out @ bs) st'"
proof (induction format args arbitrary: bs out st rule: vformat.induct)
  case (1 args)
  then show ?case
    by (simp add: vformat.simps vsnprintf_loop.simps)
next
  case (2 c format args)
  show ?case
  proof (cases "c \<noteq> 37")
    case True
    then obtain bs' where bs': "vformat format args = Some bs'" "bs = c # bs'"
      using "2.prems"(1) by (auto simp: vformat.simps)
    then show ?thesis
      using "2.IH"(1) [OF True bs'(1), of "out @ [c]" "PUT str sz c st"] "2.prems"(2,3) True
        put_step [of str sz m0 out st c]
      by (simp add: vsnprintf_loop.simps)
  next
    case False
    show ?thesis
    proof (cases "format = []")
      case True
      then show ?thesis
        using "2.prems" False by (simp add: vformat.simps vsnprintf_loop.simps)
    next
      case ne: False
      obtain sp rest where p: "parse_spec format = (sp, rest)" by force
      obtain d ds where r: "rest = d # ds"
        using "2.prems"(1) False ne p by (cases rest) (auto simp: vformat.simps)
      obtain es args' where e: "emit sp d args = Some (es, args')"
        using "2.prems"(1) False ne p r by (auto simp: vformat.simps split: option.splits)
      obtain bs' where bs': "vformat ds args' = Some bs'" "bs = es @ bs'"
        using "2.prems"(1) False ne p r e by (auto simp: vformat.simps)
      then show ?thesis
        using "2.IH"(2) [OF False ne p [symmetric] r e refl, of bs' "out @ es" "fold (PUT str sz) es st"]
          "2.prems"(2,3) False ne p r e put_fold [of str sz m0 out st es]
        by (auto simp: vsnprintf_loop.simps)
    qed
  qed
qed

lemma vsnprintf_loop_None:
  "vformat format args = None \<Longrightarrow> vsnprintf_loop str sz format args st = None"
proof (induction format args arbitrary: st rule: vformat.induct)
  case (2 c format args)
  then show ?case
    by (auto simp: vformat.simps(2) [of c format] vsnprintf_loop.simps split: prod.splits list.splits
        option.splits if_splits)
qed (simp add: vformat.simps)

section \<open>Decimal text\<close>

lemma dec_digits_value:
  "dec_value 0 (rev (dec_digits v)) = unat v \<and> list_all is_digit (dec_digits v)"
proof (induction v rule: dec_digits.induct)
  case (1 v)
  show ?case
  proof (cases "v = 0")
    case False
    let ?d = "48 + ucast (v mod 10) :: u8"
    have m: "unat (v mod 10) = unat v mod 10"
      by (simp add: unat_mod)
    then have u: "unat (ucast (v mod 10) :: u8) = unat v mod 10"
      by (simp add: unsigned_ucast_eq take_bit_nat_eq_self)
    have d: "unat ?d = 48 + unat v mod 10"
      using u by (subst unat_plus_no_wrap) simp_all
    have "dec_value 0 (rev (dec_digits v)) = dec_value 0 (rev (dec_digits (v div 10))) * 10 + (unat ?d - 48)"
      using False by (subst dec_digits.simps) (simp add: dec_value_def)
    also have "\<dots> = unat v div 10 * 10 + unat v mod 10"
      using 1 False d by (simp add: unat_div)
    finally have "dec_value 0 (rev (dec_digits v)) = unat v"
      by simp
    moreover have "is_digit ?d"
      using d by (simp add: is_digit_def word_le_nat_alt)
    ultimately show ?thesis
      using 1 False by (subst (2) dec_digits.simps) simp
  qed (simp add: dec_digits.simps dec_value_def)
qed

lemma dec_digits_length: "v \<noteq> 0 \<Longrightarrow> 10 ^ (length (dec_digits v) - 1) \<le> unat v"
proof (induction v rule: dec_digits.induct)
  case (1 v)
  show ?case
  proof (cases "v div 10 = 0")
    case True
    then show ?thesis
      using 1 by (subst dec_digits.simps) (simp add: dec_digits.simps unat_gt_0 Suc_leI)
  next
    case False
    then have "10 ^ (length (dec_digits (v div 10)) - 1) \<le> unat v div 10"
      using 1 by (simp add: unat_div)
    then have "10 * 10 ^ (length (dec_digits (v div 10)) - 1) \<le> unat v"
      by linarith
    moreover have "0 < length (dec_digits (v div 10))"
      using False by (subst dec_digits.simps) simp
    ultimately show ?thesis
      using "1.prems"
      by (subst dec_digits.simps) (simp add: power_Suc [symmetric] del: power_Suc)
  qed
qed

lemma dec_digits_at_most_20: "length (dec_digits v) \<le> 20"
proof (cases "v = 0")
  case False
  have "10 ^ (length (dec_digits v) - 1) \<le> unat v"
    by (rule dec_digits_length [OF False])
  also have "unat v < 10 ^ 20"
    using unsigned_less [of v, where 'a = nat] by simp
  finally have "(10 :: nat) ^ (length (dec_digits v) - 1) < 10 ^ 20" .
  then have "length (dec_digits v) - 1 < 20"
    by (rule power_less_imp_less_exp [rotated]) simp
  then show ?thesis
    by simp
qed (simp add: dec_digits.simps)

text \<open>The text \<^verbatim>\<open>%lu\<close> denotes.\<close>

definition unsigned_text :: "u64 \<Rightarrow> u8 list" where
  "unsigned_text v = rev (if v = 0 then [48] else dec_digits v)"

lemma unsigned_text:
  "list_all is_digit (unsigned_text v)" "dec_value 0 (unsigned_text v) = unat v"
  "length (unsigned_text v) \<le> 20" "vformat [37, 108, 117] [VInt v] = Some (unsigned_text v)"
proof -
  show "list_all is_digit (unsigned_text v)" "dec_value 0 (unsigned_text v) = unat v"
    using dec_digits_value [of v]
    by (auto simp: unsigned_text_def list_all_iff dec_value_def is_digit_def)
  show "length (unsigned_text v) \<le> 20"
    using dec_digits_at_most_20 [of v] by (simp add: unsigned_text_def)
  show "vformat [37, 108, 117] [VInt v] = Some (unsigned_text v)"
    by (simp add: vformat.simps parse_spec_def parse_long_def is_digit_def emit_def pad_digits_def
        unsigned_arg_def unsigned_text_def Let_def)
qed

lemma digits_at_range:
  "list_all is_digit ds \<Longrightarrow> \<forall>i < length ds. mem (p + of_nat i) = ds ! i \<Longrightarrow>
   mem (p + of_nat (length ds)) = 0 \<Longrightarrow> digits_at mem p ds"
proof (induction ds arbitrary: p)
  case (Cons d ds)
  have "digits_at mem (p + 1) ds"
  proof (rule Cons.IH)
    show "\<forall>i<length ds. mem (p + 1 + of_nat i) = ds ! i"
      using Cons.prems(2) by (auto dest: spec [of _ "Suc _"] simp: add.assoc)
    show "mem (p + 1 + of_nat (length ds)) = 0"
      using Cons.prems(3) by (simp add: add.assoc)
  qed (use Cons.prems(1) in simp)
  then show ?case
    using Cons.prems(1,2) by (auto dest: spec [of _ 0])
qed (simp add: is_digit_def)

section \<open>Properties\<close>



text \<open>
  Printing a 64-bit number with \<^verbatim>\<open>%lu\<close> into a buffer of at least 21 bytes and reading it back
  with \<^verbatim>\<open>strtoul\<close> gives the number, and \<^verbatim>\<open>strtoul\<close> stops at the end of the text printed.
\<close>

theorem print_strtoul_roundtrip:
  assumes "str \<noteq> 0" "21 \<le> unat sz"
  shows "\<exists>n mem'. snprintf str sz (Some [37, 108, 117]) [VInt v] mem = Some (n, mem') \<and>
           strtoul mem' str = Some (v, str + ucast n)"
proof -
  let ?ds = "unsigned_text v"
  have len: "length ?ds \<le> 20"
    by (rule unsigned_text)
  obtain m w where loop: "vsnprintf_loop str sz [37, 108, 117] [VInt v] (mem, 0) = Some (m, w)"
    and ok: "put_ok str sz mem ?ds (m, w)"
    using vsnprintf_loop_ok [OF unsigned_text(4) [of v], of str sz mem "[]" "(mem, 0)"] len
    by (auto simp: put_ok_def)
  have room: "min (length ?ds) (put_room str sz) = length ?ds"
    using assms len by (simp add: put_room_def)
  have w: "w = of_nat (length ?ds)" "unat w = length ?ds"
    using ok len by (simp_all add: put_ok_def take_bit_nat_eq_self unsigned_of_nat)
  then have "w < sz"
    using len assms(2) by (simp add: word_less_nat_alt)
  define m' where "m' = m(str + w := 0)"
  have "snprintf str sz (Some [37, 108, 117]) [VInt v] mem = Some (ucast w, m')"
    using loop assms \<open>w < sz\<close> by (auto simp: snprintf_def vsnprintf_def m'_def word_gt_0)
  moreover have "ucast (ucast w :: i32) = w"
  proof -
    have "unat (ucast w :: i32) = length ?ds"
      using len by (simp only: unsigned_ucast_eq w(2)) (simp add: take_bit_nat_eq_self)
    then have "unat (ucast (ucast w :: i32) :: u64) = unat w"
      using w(2) by (simp add: unat_ucast_up)
    then show ?thesis
      by (simp only: word_unat_eq_iff)
  qed
  moreover have "digits_at m' str ?ds"
  proof (rule digits_at_range)
    show "\<forall>i<length ?ds. m' (str + of_nat i) = ?ds ! i"
    proof (intro allI impI)
      fix i
      assume i: "i < length ?ds"
      then have "str + of_nat i \<noteq> str + w"
        using len w addr_range_inject [of i "2 ^ 64" "length ?ds" str] by simp
      then show "m' (str + of_nat i) = ?ds ! i"
        using i ok room by (simp add: m'_def put_ok_def)
    qed
  qed (simp_all add: unsigned_text m'_def w)
  ultimately show ?thesis
    using strtoul_loop_digits [of m' str ?ds 0] w(1)
    by (auto simp: strtoul_def unsigned_text(2))
qed

theorem print_strtoul_roundtrip_witness:
  "\<exists>n mem'. snprintf 100 64 (Some [37, 108, 117]) [VInt 1234567] (\<lambda>_. 7) = Some (n, mem') \<and>
     strtoul mem' 100 = Some (1234567, 100 + ucast n)"
  using print_strtoul_roundtrip [of 100 64 1234567 "\<lambda>_. 7"] by simp

end
