(* ===== verification/Serial.thy ===== *)
theory Serial
  imports Lib_Format
begin

text \<open>
  The serial log, \<^verbatim>\<open>serial.c\<close>: every line is prefixed with the time of the CMOS clock and ends in
  carriage return and newline.  The CMOS is a device behind its two ports.  Bytes handed to the
  transmitter are collected in the order they are sent; the wait for the transmitter to empty,
  which only delays, is not part of the model.
\<close>

definition PORT_COM1 :: u16 where "PORT_COM1 = 0x3F8"

record 'd serial =
  sl_cmos :: 'd
  sl_sent :: "u8 list"
  s_at_line_start :: bool
  last_h :: u8
  last_m :: u8
  last_s :: u8

definition serial_init :: "'d ports \<Rightarrow> 'd \<Rightarrow> 'd" where
  "serial_init io d =
     fold (\<lambda>(r, v). port_out io (PORT_COM1 + r) v)
       [(1, 0x00), (3, 0x80), (0, 0x03), (1, 0x00), (3, 0x03), (2, 0xC7), (4, 0x0B)] d"

definition serial_has_char :: "'d ports \<Rightarrow> 'd \<Rightarrow> bool \<times> 'd" where
  "serial_has_char io d = (let (v, d) = port_in io (PORT_COM1 + 5) d in (v AND 0x01 \<noteq> 0, d))"

partial_function (option) serial_read_char :: "'d ports \<Rightarrow> 'd \<Rightarrow> (u8 \<times> 'd) option" where
  "serial_read_char io d =
     (let (ready, d) = serial_has_char io d in
      if \<not> ready then serial_read_char io d else Some (port_in io PORT_COM1 d))"

section \<open>The clock\<close>

definition cmos_read :: "'d ports \<Rightarrow> u8 \<Rightarrow> 'd \<Rightarrow> u8 \<times> 'd" where
  "cmos_read io reg d = port_in io 0x71 (port_out io 0x70 (reg AND 0x7F) d)"

definition bcd_to_bin :: "u8 \<Rightarrow> u8" where
  "bcd_to_bin val = (val AND 0x0F) + drop_bit 4 val * 10"

fun rtc_wait :: "'d ports \<Rightarrow> nat \<Rightarrow> 'd \<Rightarrow> 'd" where
  "rtc_wait io timeout d =
     (let (v, d) = cmos_read io 0x0A d in
      if v AND 0x80 \<noteq> 0 \<and> timeout - 1 > 0 then rtc_wait io (timeout - 1) d else d)"

declare rtc_wait.simps [simp del]

definition rtc_get_time :: "'d ports \<Rightarrow> 'd serial \<Rightarrow> (u8 \<times> u8 \<times> u8) \<times> 'd serial" where
  "rtc_get_time io st =
     (let d = rtc_wait io 2000 (sl_cmos st);
          (sec, d) = cmos_read io 0x00 d;
          (min, d) = cmos_read io 0x02 d;
          (hour, d) = cmos_read io 0x04 d;
          (reg_b, d) = cmos_read io 0x0B d;
          (sec, min, hour) =
            (if reg_b AND 0x04 = 0
             then (bcd_to_bin sec, bcd_to_bin min, bcd_to_bin (hour AND 0x7F) OR (hour AND 0x80))
             else (sec, min, hour));
          hour = (if reg_b AND 0x02 = 0 \<and> hour AND 0x80 \<noteq> 0
                  then ucast (((ucast hour AND 0x7F) + 12 :: u32) mod 24) else hour);
          st = st\<lparr>sl_cmos := d\<rparr>;
          st = (if sec < 60 \<and> min < 60 \<and> hour < 24
                then st\<lparr>last_h := hour, last_m := min, last_s := sec\<rparr> else st) in
      ((last_h st, last_m st, last_s st), st))"

section \<open>Writing\<close>

definition serial_putc_raw :: "u8 \<Rightarrow> 'd serial \<Rightarrow> 'd serial" where
  "serial_putc_raw c st = st\<lparr>sl_sent := sl_sent st @ [c]\<rparr>"

definition serial_write_char :: "u8 \<Rightarrow> 'd serial \<Rightarrow> 'd serial" where
  "serial_write_char c st = serial_putc_raw c st"

definition serial_print_prefix_time :: "'d ports \<Rightarrow> 'd serial \<Rightarrow> 'd serial" where
  "serial_print_prefix_time io st =
     (let ((h, m, s), st) = rtc_get_time io st in
      fold serial_putc_raw
        [91, 48 + (h div 10) mod 10, 48 + h mod 10, 58, 48 + (m div 10) mod 10, 48 + m mod 10,
         58, 48 + (s div 10) mod 10, 48 + s mod 10, 93, 32] st)"

definition check_line_start :: "'d ports \<Rightarrow> 'd serial \<Rightarrow> 'd serial" where
  "check_line_start io st =
     (if s_at_line_start st then serial_print_prefix_time io (st\<lparr>s_at_line_start := False\<rparr>) else st)"

definition log_char :: "'d ports \<Rightarrow> u8 \<Rightarrow> 'd serial \<Rightarrow> 'd serial" where
  "log_char io c st =
     (if c = 10 then (serial_putc_raw 10 (serial_putc_raw 13 st))\<lparr>s_at_line_start := True\<rparr>
      else serial_putc_raw c (check_line_start io st))"

definition serial_write_string_logged :: "'d ports \<Rightarrow> u8 list option \<Rightarrow> 'd serial \<Rightarrow> 'd serial" where
  "serial_write_string_logged io str st =
     (case str of None \<Rightarrow> st | Some str \<Rightarrow> fold (log_char io) str st)"

definition serial_write_string :: "'d ports \<Rightarrow> u8 list option \<Rightarrow> 'd serial \<Rightarrow> 'd serial" where
  "serial_write_string io str st = serial_write_string_logged io str st"

text \<open>Only the bases 10 and 16 are used; a base below two would not end.\<close>

function base_digits :: "u64 \<Rightarrow> u64 \<Rightarrow> u8 list" where
  "base_digits base val =
     (if val = 0 \<or> base \<le> 1 then []
      else (let rem = val mod base in
            (if rem < 10 then 48 + ucast rem else 97 + ucast rem - 10)) # base_digits base (val div base))"
  by pat_completeness auto
termination
proof (relation "measure (\<lambda>(base, val). unat val)")
  fix base val :: u64
  assume a: "\<not> (val = 0 \<or> base \<le> 1)"
  then have "0 < unat val" "1 < unat base"
    by (simp_all add: unat_gt_0 word_le_nat_alt)
  then show "((base, val div base), base, val) \<in> measure (\<lambda>(base, val). unat val)"
    by (simp add: unat_div)
qed simp

declare base_digits.simps [simp del]

definition write_uint :: "'d ports \<Rightarrow> u64 \<Rightarrow> u64 \<Rightarrow> 'd serial \<Rightarrow> 'd serial" where
  "write_uint io val base st =
     (let st = check_line_start io st in
      if val = 0 then serial_putc_raw 48 st
      else fold serial_putc_raw (rev (base_digits base val)) st)"

definition write_int :: "'d ports \<Rightarrow> i64 \<Rightarrow> 'd serial \<Rightarrow> 'd serial" where
  "write_int io val st =
     (let st = check_line_start io st in
      if sint val < 0 then write_uint io (- val) 10 (serial_putc_raw 45 st)
      else write_uint io val 10 st)"

definition serial_directive ::
    "'d ports \<Rightarrow> u8 \<Rightarrow> va list \<Rightarrow> 'd serial \<Rightarrow> (va list \<times> 'd serial) option" where
  "serial_directive io c args st =
     (if c = 99 then
        (case args of VInt v # args \<Rightarrow> Some (args, log_char io (ucast v) st) | _ \<Rightarrow> None)
      else if c = 115 then
        (case args of VStr s # args \<Rightarrow>
           Some (args, serial_write_string_logged io
             (Some (case s of Some s \<Rightarrow> s | None \<Rightarrow> [40, 110, 117, 108, 108, 41])) st) | _ \<Rightarrow> None)
      else if c = 100 then
        (case args of VInt v # args \<Rightarrow> Some (args, write_int io (scast (ucast v :: i32)) st) | _ \<Rightarrow> None)
      else if c = 117 then
        (case args of VInt v # args \<Rightarrow> Some (args, write_uint io (ucast (ucast v :: u32)) 10 st) | _ \<Rightarrow> None)
      else if c = 120 then
        (case args of VInt v # args \<Rightarrow> Some (args, write_uint io (ucast (ucast v :: u32)) 16 st) | _ \<Rightarrow> None)
      else if c = 112 then
        (case args of VInt v # args \<Rightarrow>
           Some (args, write_uint io v 16 (fold serial_putc_raw [48, 120] (check_line_start io st)))
         | _ \<Rightarrow> None)
      else if c = 37 then Some (args, serial_putc_raw 37 (check_line_start io st))
      else Some (args, fold serial_putc_raw [37, c] (check_line_start io st)))"

fun serial_printf_loop ::
    "'d ports \<Rightarrow> u8 list \<Rightarrow> va list \<Rightarrow> 'd serial \<Rightarrow> 'd serial option" where
  "serial_printf_loop io [] args st = Some st"
| "serial_printf_loop io [c] args st = Some (log_char io c st)"
| "serial_printf_loop io (c # d # format) args st =
     (if c = 37 then
        (case serial_directive io d args st of
           None \<Rightarrow> None | Some (args, st) \<Rightarrow> serial_printf_loop io format args st)
      else serial_printf_loop io (d # format) args (log_char io c st))"

definition serial_printf :: "'d ports \<Rightarrow> u8 list option \<Rightarrow> va list \<Rightarrow> 'd serial \<Rightarrow> 'd serial option" where
  "serial_printf io format args st =
     (case format of None \<Rightarrow> Some st | Some format \<Rightarrow> serial_printf_loop io format args st)"

section \<open>The time is valid\<close>

definition time_ok :: "'d serial \<Rightarrow> bool" where
  "time_ok st \<longleftrightarrow> last_h st < 24 \<and> last_m st < 60 \<and> last_s st < 60"

lemma rtc_time_ok:
  assumes "time_ok st" "rtc_get_time io st = ((h, m, s), st')"
  shows "time_ok st' \<and> h < 24 \<and> m < 60 \<and> s < 60 \<and> sl_sent st' = sl_sent st \<and>
         s_at_line_start st' = s_at_line_start st"
  using assms by (auto simp: rtc_get_time_def time_ok_def Let_def split: prod.splits if_splits)

lemma putc_simps [simp]:
  "sl_sent (serial_putc_raw c st) = sl_sent st @ [c]"
  "s_at_line_start (serial_putc_raw c st) = s_at_line_start st"
  "time_ok (serial_putc_raw c st) = time_ok st"
  by (simp_all add: serial_putc_raw_def time_ok_def)

lemma fold_putc [simp]:
  "sl_sent (fold serial_putc_raw cs st) = sl_sent st @ cs"
  "s_at_line_start (fold serial_putc_raw cs st) = s_at_line_start st"
  "time_ok (fold serial_putc_raw cs st) = time_ok st"
  by (induction cs arbitrary: st) simp_all

text \<open>A stamp \<^verbatim>\<open>[HH:MM:SS] \<close> of a time of day.\<close>

definition two_digits :: "nat \<Rightarrow> u8 list" where
  "two_digits n = [of_nat (48 + n div 10), of_nat (48 + n mod 10)]"

definition is_stamp :: "u8 list \<Rightarrow> bool" where
  "is_stamp p \<longleftrightarrow> (\<exists>h<24. \<exists>m<60. \<exists>s<60.
     p = [91] @ two_digits h @ [58] @ two_digits m @ [58] @ two_digits s @ [93, 32])"

lemma two_digits_word:
  fixes w :: u8
  assumes "w < 100"
  shows "[48 + (w div 10) mod 10, 48 + w mod 10] = two_digits (unat w)"
proof -
  have "unat w < 100"
    using assms by (simp add: word_less_nat_alt)
  then have "(w div 10) mod 10 = w div 10"
    by (intro word_unat_eq_iff [THEN iffD2]) (simp add: unat_mod unat_div)
  moreover have "w div 10 = of_nat (unat w div 10)" "w mod 10 = of_nat (unat w mod 10)"
    using \<open>unat w < 100\<close>
    by (simp_all add: word_unat_eq_iff unat_mod unat_div unsigned_of_nat take_bit_nat_eq_self)
  ultimately show ?thesis
    by (simp add: two_digits_def)
qed

lemma check_line_start_stamp:
  assumes "time_ok st"
  shows "time_ok (check_line_start io st) \<and> \<not> s_at_line_start (check_line_start io st) \<and>
    (\<exists>p. sl_sent (check_line_start io st) = sl_sent st @ p \<and>
         (if s_at_line_start st then is_stamp p else p = []))"
proof (cases "s_at_line_start st")
  case True
  let ?st = "st\<lparr>s_at_line_start := False\<rparr>"
  obtain h m s st' where g: "rtc_get_time io ?st = ((h, m, s), st')" by (metis surj_pair)
  have ok: "time_ok st'" "h < 24" "m < 60" "s < 60" "sl_sent st' = sl_sent st" "\<not> s_at_line_start st'"
    using rtc_time_ok [OF _ g] assms by (auto simp: time_ok_def)
  then have "[48 + (h div 10) mod 10, 48 + h mod 10] = two_digits (unat h)"
    "[48 + (m div 10) mod 10, 48 + m mod 10] = two_digits (unat m)"
    "[48 + (s div 10) mod 10, 48 + s mod 10] = two_digits (unat s)"
    by (intro two_digits_word; simp add: word_less_nat_alt)+
  then have "is_stamp [91, 48 + (h div 10) mod 10, 48 + h mod 10, 58, 48 + (m div 10) mod 10, 48 + m mod 10,
         58, 48 + (s div 10) mod 10, 48 + s mod 10, 93, 32]"
    using ok(2-4) unfolding is_stamp_def
    by (intro exI [of _ "unat h"] exI [of _ "unat m"] exI [of _ "unat s"] conjI)
      (simp_all add: word_less_nat_alt two_digits_def)
  then show ?thesis
    using True g ok by (simp add: check_line_start_def serial_print_prefix_time_def)
qed (use assms in \<open>simp add: check_line_start_def\<close>)

section \<open>Lines\<close>

text \<open>
  How a text appears on the wire, from a state at a line start or not: each newline becomes two
  bytes, and the first byte of a line is preceded by a stamp.
\<close>

inductive logged :: "bool \<Rightarrow> u8 list \<Rightarrow> u8 list \<Rightarrow> bool \<Rightarrow> bool" where
  logged_end: "logged b [] [] b"
| logged_newline: "logged True cs out b' \<Longrightarrow> logged b (10 # cs) (13 # 10 # out) b'"
| logged_first: "c \<noteq> 10 \<Longrightarrow> is_stamp p \<Longrightarrow> logged False cs out b' \<Longrightarrow> logged True (c # cs) (p @ c # out) b'"
| logged_rest: "c \<noteq> 10 \<Longrightarrow> logged False cs out b' \<Longrightarrow> logged False (c # cs) (c # out) b'"

lemma log_char_step:
  assumes "time_ok st"
  shows "time_ok (log_char io c st) \<and> s_at_line_start (log_char io c st) = (c = 10) \<and>
    (\<exists>p. sl_sent (log_char io c st) = sl_sent st @ p @ (if c = 10 then [13, 10] else [c]) \<and>
      (if c \<noteq> 10 \<and> s_at_line_start st then is_stamp p else p = []))"
proof (cases "c = 10")
  case True
  then show ?thesis
    using assms by (simp add: log_char_def serial_putc_raw_def time_ok_def)
next
  case False
  then show ?thesis
    using check_line_start_stamp [OF assms, of io] by (auto simp: log_char_def)
qed

text \<open>
  Whatever the clock device returns, \<^verbatim>\<open>serial_write_string\<close> sends exactly the text, with each
  newline as carriage return and newline, and in front of the first byte of every line the stamp
  of a valid time of day; the remembered time stays valid.
\<close>

theorem serial_write_string_lines:
  assumes "time_ok st"
  shows "\<exists>out. sl_sent (serial_write_string io (Some str) st) = sl_sent st @ out \<and>
           logged (s_at_line_start st) str out (s_at_line_start (serial_write_string io (Some str) st)) \<and>
           time_ok (serial_write_string io (Some str) st)"
  using assms
proof (induction str arbitrary: st)
  case Nil
  then show ?case
    by (auto simp: serial_write_string_def serial_write_string_logged_def intro: logged_end)
next
  case (Cons c str)
  let ?st = "log_char io c st"
  obtain p where p: "sl_sent ?st = sl_sent st @ p @ (if c = 10 then [13, 10] else [c])"
    "if c \<noteq> 10 \<and> s_at_line_start st then is_stamp p else p = []"
    and ok: "time_ok ?st" "s_at_line_start ?st = (c = 10)"
    using log_char_step [OF Cons.prems, of io c] by blast
  have eq: "serial_write_string io (Some (c # str)) st = serial_write_string io (Some str) ?st"
    by (simp add: serial_write_string_def serial_write_string_logged_def)
  obtain out where out: "sl_sent (serial_write_string io (Some str) ?st) = sl_sent ?st @ out"
    "logged (c = 10) str out (s_at_line_start (serial_write_string io (Some str) ?st))"
    "time_ok (serial_write_string io (Some str) ?st)"
    using Cons.IH [OF ok(1)] ok(2) by auto
  have "logged (s_at_line_start st) (c # str) (p @ (if c = 10 then [13, 10] else [c]) @ out)
      (s_at_line_start (serial_write_string io (Some str) ?st))"
  proof (cases "c = 10")
    case True
    then show ?thesis
      using out(2) p(2) by (simp add: logged_newline)
  next
    case False
    then show ?thesis
      using out(2) p(2) by (cases "s_at_line_start st") (simp_all add: logged_first logged_rest)
  qed
  then show ?case
    using out p(1) by (auto simp: eq)
qed

definition example_cmos :: "nat ports" where
  "example_cmos = \<lparr>port_in = (\<lambda>p n. (if n = 11 then 2 else if n = 10 then 0 else of_nat (n + 18), n)),
     port_out = (\<lambda>p v n. unat v)\<rparr>"

theorem serial_write_string_lines_witness:
  "\<exists>out. logged True [72, 105, 10] out
     (s_at_line_start (serial_write_string example_cmos (Some [72, 105, 10])
        \<lparr>sl_cmos = 0, sl_sent = [], s_at_line_start = True, last_h = 0, last_m = 0, last_s = 0\<rparr>))"
  using serial_write_string_lines [of "\<lparr>sl_cmos = 0, sl_sent = [], s_at_line_start = True,
      last_h = 0, last_m = 0, last_s = 0\<rparr>" example_cmos "[72, 105, 10]"]
  by (auto simp: time_ok_def)

end
