(* ===== verification/Idt.thy ===== *)
theory Idt
  imports Mouse Serial
begin

text \<open>
  Interrupts, \<^verbatim>\<open>idt.c\<close>: the descriptor table and the interrupt controllers, the keyboard decoder,
  the dispatcher of hardware interrupts, and the report of a CPU exception.  The stubs of
  \<^verbatim>\<open>idt_asm.asm\<close> are addresses the table is given.  A handler takes what the ports return and gives
  the commands it writes.
\<close>

section \<open>Gates\<close>

definition PIC1_COMMAND :: u16 where "PIC1_COMMAND = 0x20"
definition PIC1_DATA :: u16 where "PIC1_DATA = 0x21"
definition PIC2_COMMAND :: u16 where "PIC2_COMMAND = 0xA0"
definition PIC2_DATA :: u16 where "PIC2_DATA = 0xA1"
definition PIC_EOI :: u8 where "PIC_EOI = 0x20"
definition IRQ_VECTOR_BASE_MASTER :: u32 where "IRQ_VECTOR_BASE_MASTER = 32"
definition IRQ_VECTOR_BASE_SLAVE :: u32 where "IRQ_VECTOR_BASE_SLAVE = 40"
definition IRQ_KEYBOARD_VECTOR :: u32 where "IRQ_KEYBOARD_VECTOR = IRQ_VECTOR_BASE_MASTER + 1"
definition IRQ_MOUSE_VECTOR :: u32 where "IRQ_MOUSE_VECTOR = IRQ_VECTOR_BASE_SLAVE + 4"

lemmas irq_vectors = IRQ_VECTOR_BASE_MASTER_def IRQ_VECTOR_BASE_SLAVE_def IRQ_KEYBOARD_VECTOR_def
  IRQ_MOUSE_VECTOR_def

record idt_entry =
  offset_low :: u16
  selector :: u16
  ist :: u8
  type_attr :: u8
  offset_mid :: u16
  offset_high :: u32
  idt_zero :: u32

type_synonym idt = "nat \<Rightarrow> idt_entry"

definition idt_set_gate_dpl :: "u8 \<Rightarrow> u64 \<Rightarrow> u8 \<Rightarrow> idt \<Rightarrow> idt" where
  "idt_set_gate_dpl vector handler dpl g_idt =
     g_idt(unat vector :=
       \<lparr>offset_low = ucast (handler AND 0xFFFF), selector = 0x18, ist = 0,
        type_attr = 0x8E OR push_bit 5 (dpl AND 3),
        offset_mid = ucast (drop_bit 16 handler AND 0xFFFF),
        offset_high = ucast (drop_bit 32 handler AND 0xFFFFFFFF), idt_zero = 0\<rparr>)"

definition idt_set_gate :: "u8 \<Rightarrow> u64 \<Rightarrow> idt \<Rightarrow> idt" where
  "idt_set_gate vector handler g_idt = idt_set_gate_dpl vector handler 0 g_idt"

definition io_wait :: "'d ports \<Rightarrow> 'd \<Rightarrow> 'd" where
  "io_wait io d = port_out io 0x80 0 d"

definition pic_remap :: "'d ports \<Rightarrow> 'd \<Rightarrow> 'd" where
  "pic_remap io d =
     (let (mask_master, d) = port_in io PIC1_DATA d;
          (mask_slave, d) = port_in io PIC2_DATA d;
          d = fold (\<lambda>(port, v) d. io_wait io (port_out io port v d))
                [(PIC1_COMMAND, 0x11), (PIC2_COMMAND, 0x11), (PIC1_DATA, 32), (PIC2_DATA, 40),
                 (PIC1_DATA, 4), (PIC2_DATA, 2), (PIC1_DATA, 1), (PIC2_DATA, 1)] d in
      port_out io PIC2_DATA mask_slave (port_out io PIC1_DATA mask_master d))"

definition pic_send_eoi :: "u8 \<Rightarrow> (u16 \<times> u8) list" where
  "pic_send_eoi vector =
     (if IRQ_VECTOR_BASE_SLAVE \<le> ucast vector \<and> ucast vector < IRQ_VECTOR_BASE_SLAVE + 8
      then [(PIC2_COMMAND, PIC_EOI)] else []) @ [(PIC1_COMMAND, PIC_EOI)]"

text \<open>The entry points of \<^verbatim>\<open>idt_asm.asm\<close>.\<close>

record idt_stubs =
  stub_ignore :: u64
  exception_stubs :: "nat \<Rightarrow> u64"
  irq_stubs :: "nat \<Rightarrow> u64"
  stub_syscall :: u64

text \<open>The table, the limit and base handed to \<^verbatim>\<open>lidt\<close>, and the device.\<close>

definition idt_init :: "idt_stubs \<Rightarrow> u64 \<Rightarrow> 'd ports \<Rightarrow> idt \<Rightarrow> 'd \<Rightarrow> idt \<times> (u16 \<times> u64) \<times> 'd" where
  "idt_init stubs table_addr io g_idt d =
     (let g_idt = fold (\<lambda>i. idt_set_gate (of_nat i) (stub_ignore stubs)) [0..<256] g_idt;
          g_idt = fold (\<lambda>i. idt_set_gate (of_nat i) (exception_stubs stubs i)) [0..<32] g_idt;
          g_idt = fold (\<lambda>irq. idt_set_gate (ucast (IRQ_VECTOR_BASE_MASTER + of_nat irq))
                                (irq_stubs stubs irq)) [0..<16] g_idt;
          g_idt = idt_set_gate_dpl 0x80 (stub_syscall stubs) 3 g_idt;
          d = pic_remap io d;
          d = port_out io PIC2_DATA 0xEF (port_out io PIC1_DATA 0xF8 d) in
      (g_idt, (256 * 16 - 1, table_addr), d))"

section \<open>The keyboard\<close>

definition kbd_us_lower_keys :: "u16 list" where
  "kbd_us_lower_keys = [
    0, 27, 49, 50, 51, 52, 53, 54, 55, 56, 57, 48, 45, 61, 8, 9,
    113, 119, 101, 114, 116, 121, 117, 105, 111, 112, 91, 93, 10, 0, 97, 115,
    100, 102, 103, 104, 106, 107, 108, 59, 39, 96, 0, 92, 122, 120, 99, 118,
    98, 110, 109, 44, 46, 47, 0, 42, 0, 32, 0, 0, 0, 0, 0, 0,
    0, 0, 0, 0]"

definition kbd_us_upper_keys :: "u16 list" where
  "kbd_us_upper_keys = [
    0, 27, 33, 64, 35, 36, 37, 94, 38, 42, 40, 41, 95, 43, 8, 9,
    81, 87, 69, 82, 84, 89, 85, 73, 79, 80, 123, 125, 10, 0, 65, 83,
    68, 70, 71, 72, 74, 75, 76, 58, 34, 126, 0, 124, 90, 88, 67, 86,
    66, 78, 77, 60, 62, 63, 0, 42, 0, 32, 0, 0, 0, 0, 0, 0,
    0, 0, 0, 0]"

definition kbd_ru_lower_keys :: "u16 list" where
  "kbd_ru_lower_keys = [
    0, 27, 49, 50, 51, 52, 53, 54, 55, 56, 57, 48, 45, 61, 8, 9,
    0x0439, 0x0446, 0x0443, 0x043A, 0x0435, 0x043D, 0x0433, 0x0448, 0x0449, 0x0437, 0x0445, 0x044A, 10, 0, 0x0444, 0x044B,
    0x0432, 0x0430, 0x043F, 0x0440, 0x043E, 0x043B, 0x0434, 0x0436, 0x044D, 0x0451, 0, 92, 0x044F, 0x0447, 0x0441, 0x043C,
    0x0438, 0x0442, 0x044C, 0x0431, 0x044E, 46, 0, 42, 0, 32, 0, 0, 0, 0, 0, 0]"

definition kbd_ru_upper_keys :: "u16 list" where
  "kbd_ru_upper_keys = [
    0, 27, 33, 34, 0x2116, 59, 37, 58, 63, 42, 40, 41, 95, 43, 8, 9,
    0x0419, 0x0426, 0x0423, 0x041A, 0x0415, 0x041D, 0x0413, 0x0428, 0x0429, 0x0417, 0x0425, 0x042A, 10, 0, 0x0424, 0x042B,
    0x0412, 0x0410, 0x041F, 0x0420, 0x041E, 0x041B, 0x0414, 0x0416, 0x042D, 0x0401, 0, 47, 0x042F, 0x0427, 0x0421, 0x041C,
    0x0418, 0x0422, 0x042C, 0x0411, 0x042E, 44, 0, 42, 0, 32, 0, 0, 0, 0, 0, 0]"

definition key_at :: "u16 list \<Rightarrow> u8 \<Rightarrow> u16" where
  "key_at keys sc = (if unat sc < length keys then keys ! unat sc else 0)"

record keyboard =
  kbd_shift :: u8
  kbd_alt :: u8
  kbd_ctrl :: u8
  kbd_caps_lock :: u8
  kbd_extended :: u8
  kbd_layout :: u8

definition idt_get_keyboard_layout :: "keyboard \<Rightarrow> u8" where
  "idt_get_keyboard_layout k = kbd_layout k"

definition kbd_modifiers :: "keyboard \<Rightarrow> u8" where
  "kbd_modifiers k =
     kbd_shift k OR push_bit 1 (kbd_ctrl k) OR push_bit 2 (kbd_caps_lock k) OR push_bit 3 (kbd_alt k) OR
     push_bit 4 (kbd_layout k)"

definition key_event :: "u16 \<Rightarrow> u8 \<Rightarrow> keyboard \<Rightarrow> input_event" where
  "key_event codepoint sc k =
     \<lparr>ev_type = INPUT_EVENT_KEY_DOWN, ev_x = codepoint, ev_y = ucast sc, ev_buttons = kbd_modifiers k\<rparr>"

definition kbd_codepoint :: "u8 \<Rightarrow> keyboard \<Rightarrow> u16" where
  "kbd_codepoint sc k =
     (if kbd_extended k = 0 \<and> sc < 128 then
        if kbd_ctrl k \<noteq> 0 then
          let us_low = key_at kbd_us_lower_keys sc in
          if 97 \<le> us_low \<and> us_low \<le> 122 then us_low - 97 + 1
          else if 65 \<le> us_low \<and> us_low \<le> 90 then us_low - 65 + 1 else 0
        else if kbd_layout k = 1 then
          let lower = key_at kbd_ru_lower_keys sc; upper = key_at kbd_ru_upper_keys sc;
              is_letter = (0x0430 \<le> lower \<and> lower \<le> 0x044F) \<or> lower = 0x0451;
              use_upper = (if is_letter then kbd_shift k XOR kbd_caps_lock k else kbd_shift k) in
          if use_upper \<noteq> 0 then upper else lower
        else
          let lower = key_at kbd_us_lower_keys sc; upper = key_at kbd_us_upper_keys sc;
              is_letter = 97 \<le> lower \<and> lower \<le> 122;
              use_upper = (if is_letter then kbd_shift k XOR kbd_caps_lock k else kbd_shift k) in
          if use_upper \<noteq> 0 then upper else lower
      else 0)"

text \<open>Scan codes of the navigation keys, which are reported without a character.\<close>

definition nav_key :: "u8 \<Rightarrow> bool" where
  "nav_key sc \<longleftrightarrow> sc = 0x48 \<or> sc = 0x50 \<or> sc = 0x4B \<or> sc = 0x4D \<or> sc = 0x47 \<or> sc = 0x4F \<or>
     sc = 0x49 \<or> sc = 0x51 \<or> sc = 0x53 \<or> sc = 0x52"

text \<open>One scan code: the new state of the decoder and the event to push, if any.\<close>

definition kbd_scancode :: "u8 \<Rightarrow> keyboard \<Rightarrow> input_event option \<times> keyboard" where
  "kbd_scancode sc k =
     (if sc = 0xE0 then (None, k\<lparr>kbd_extended := 1\<rparr>)
      else if sc = 0x2A \<or> sc = 0x36 then
        let k = (if kbd_alt k \<noteq> 0 then k\<lparr>kbd_layout := kbd_layout k XOR 1\<rparr> else k);
            k = k\<lparr>kbd_shift := 1, kbd_extended := 0\<rparr> in
        (Some (key_event 0 sc k), k)
      else if sc = 0xAA \<or> sc = 0xB6 then (None, k\<lparr>kbd_shift := 0, kbd_extended := 0\<rparr>)
      else if sc = 0x38 then
        let k = (if kbd_shift k \<noteq> 0 then k\<lparr>kbd_layout := kbd_layout k XOR 1\<rparr> else k);
            k = k\<lparr>kbd_alt := 1, kbd_extended := 0\<rparr> in
        (Some (key_event 0 sc k), k)
      else if sc = 0xB8 then (None, k\<lparr>kbd_alt := 0, kbd_extended := 0\<rparr>)
      else if sc = 0x1D then (None, k\<lparr>kbd_ctrl := 1, kbd_extended := 0\<rparr>)
      else if sc = 0x9D then (None, k\<lparr>kbd_ctrl := 0, kbd_extended := 0\<rparr>)
      else if sc = 0x3A then (None, k\<lparr>kbd_caps_lock := kbd_caps_lock k XOR 1, kbd_extended := 0\<rparr>)
      else if sc AND 0x80 = 0 then
        let codepoint = kbd_codepoint sc k in
        (if codepoint \<noteq> 0 \<or> nav_key sc then Some (key_event codepoint sc k) else None,
         k\<lparr>kbd_extended := 0\<rparr>)
      else (None, k\<lparr>kbd_extended := 0\<rparr>))"

section \<open>Hardware interrupts\<close>

record irq_env =
  ie_kbd :: keyboard
  keyboard_irq_count :: u32
  mouse_irq_count :: u32
  ie_env :: mouse_env

definition push_key_event :: "input_event option \<Rightarrow> irq_env \<Rightarrow> irq_env" where
  "push_key_event ev env =
     (case ev of
        None \<Rightarrow> env
      | Some ev \<Rightarrow>
          let m = ie_env env; (q, s) = snd (input_push ev (me_queue m, me_sched m)) in
          env\<lparr>ie_env := m\<lparr>me_queue := q, me_sched := s\<rparr>\<rparr>)"

text \<open>
  \<open>kbd\<close> is the status and data the keyboard branch reads, \<open>aux\<close> the readings of the mouse branch.
\<close>

definition idt_handle_irq ::
    "(u16 \<times> u16) option \<Rightarrow> u8 \<times> u8 \<Rightarrow> (u8 \<times> u8) list \<Rightarrow> u32 \<Rightarrow> irq_env \<Rightarrow>
     (u16 \<times> u8) list \<times> irq_env" where
  "idt_handle_irq video kbd aux vector env =
     (let env =
        (if vector = IRQ_VECTOR_BASE_MASTER + 0 then env
         else if vector = IRQ_KEYBOARD_VECTOR then
           let (status, sc) = kbd;
               env = (if status AND 0x01 \<noteq> 0
                      then let (ev, k) = kbd_scancode sc (ie_kbd env) in
                           push_key_event ev (env\<lparr>ie_kbd := k\<rparr>)
                      else env) in
           env\<lparr>keyboard_irq_count := keyboard_irq_count env + 1\<rparr>
         else if vector = IRQ_MOUSE_VECTOR then
           let env = env\<lparr>ie_env := mouse_handler video aux (ie_env env)\<rparr> in
           env\<lparr>mouse_irq_count := mouse_irq_count env + 1\<rparr>
         else env) in
      (pic_send_eoi (ucast vector), env))"

definition idt_keyboard_irq_count :: "irq_env \<Rightarrow> u32" where
  "idt_keyboard_irq_count env = keyboard_irq_count env"

definition idt_mouse_irq_count :: "irq_env \<Rightarrow> u32" where
  "idt_mouse_irq_count env = mouse_irq_count env"

section \<open>The exception report\<close>

record registers =
  r_r15 :: u64
  r_r14 :: u64
  r_r13 :: u64
  r_r12 :: u64
  r_r11 :: u64
  r_r10 :: u64
  r_r9 :: u64
  r_r8 :: u64
  r_rdi :: u64
  r_rsi :: u64
  r_rbp :: u64
  r_rbx :: u64
  r_rdx :: u64
  r_rcx :: u64
  r_rax :: u64
  r_vector :: u64
  r_error_code :: u64
  r_rip :: u64
  r_cs :: u64
  r_rflags :: u64
  r_rsp :: u64
  r_ss :: u64

definition exception_names :: "string list" where
  "exception_names =
    [''Divide-by-zero'', ''Debug'', ''Non-maskable Interrupt'', ''Breakpoint'', ''Overflow'',
     ''Bound Range Exceeded'', ''Invalid Opcode'', ''Device Not Available'', ''Double Fault'',
     ''Coprocessor Segment Overrun'', ''Invalid TSS'', ''Segment Not Present'', ''Stack-Segment Fault'',
     ''General Protection Fault'', ''Page Fault'', ''Reserved'', ''x87 Floating-Point Exception'',
     ''Alignment Check'', ''Machine Check'', ''SIMD Floating-Point Exception'',
     ''Virtualization Exception'', ''Control Protection Exception'', ''Reserved'', ''Reserved'',
     ''Reserved'', ''Reserved'', ''Reserved'', ''Reserved'', ''Reserved'',
     ''VMM Communication Exception'', ''Security Exception'', ''Reserved'']"

definition say :: "'d ports \<Rightarrow> string \<Rightarrow> 'd serial \<Rightarrow> 'd serial" where
  "say io s st = serial_write_string io (Some (lit s)) st"

definition newline :: "'d ports \<Rightarrow> 'd serial \<Rightarrow> 'd serial" where
  "newline io st = serial_write_string io (Some [10]) st"

definition print_hex64 :: "'d ports \<Rightarrow> u64 \<Rightarrow> 'd serial \<Rightarrow> 'd serial" where
  "print_hex64 io val st =
     fold (\<lambda>i. serial_write_char (hex_digit True (drop_bit i val AND 0xF)))
       [60, 56, 52, 48, 44, 40, 36, 32, 28, 24, 20, 16, 12, 8, 4, 0] (say io ''0x'' st)"

text \<open>A label and a value; several on a line.\<close>

definition print_regs :: "'d ports \<Rightarrow> (string \<times> u64) list \<Rightarrow> 'd serial \<Rightarrow> 'd serial" where
  "print_regs io rs st = newline io (fold (\<lambda>(label, v) st. print_hex64 io v (say io label st)) rs st)"

text \<open>\<open>mem\<close> reads eight bytes of memory.  The stack dump stops at the first address outside the range.\<close>

fun stack_words :: "(u64 \<Rightarrow> u64) \<Rightarrow> u64 \<Rightarrow> nat \<Rightarrow> (u64 \<times> u64) list" where
  "stack_words mem stk 0 = []"
| "stack_words mem stk (Suc n) =
     (if stk < 0x1000 \<or> stk > 0x00007FFFFFFFFFFF then []
      else (stk, mem stk) # stack_words mem (stk + 8) n)"

text \<open>The frames of the call trace: frame pointer and return address.\<close>

fun rbp_frames :: "(u64 \<Rightarrow> u64) \<Rightarrow> u64 \<Rightarrow> nat \<Rightarrow> (u64 \<times> u64) list" where
  "rbp_frames mem rbp 0 = []"
| "rbp_frames mem rbp (Suc n) =
     (if rbp = 0 \<or> rbp < 0x1000 \<or> rbp > 0x00007FFFFFFFFFFF \<or> rbp AND 7 \<noteq> 0 then []
      else (rbp, mem (rbp + 8)) # (if mem rbp \<le> rbp then [] else rbp_frames mem (mem rbp) n))"

fun print_frames :: "'d ports \<Rightarrow> nat \<Rightarrow> (u64 \<times> u64) list \<Rightarrow> 'd serial \<Rightarrow> 'd serial" where
  "print_frames io frame [] st = st"
| "print_frames io frame ((rbp, rip) # fs) st =
     (let st = write_int io (of_nat frame) (say io ''  frame #'' st);
          st = print_hex64 io rbp (say io '' [RBP: '' st);
          st = newline io (print_hex64 io rip (say io ''] -> RIP: '' st)) in
      print_frames io (Suc frame) fs st)"

text \<open>The report, after which the processor is halted for good.\<close>

definition idt_handle_exception ::
    "'d ports \<Rightarrow> (u64 \<Rightarrow> u64) \<Rightarrow> u64 \<Rightarrow> registers \<Rightarrow> 'd serial \<Rightarrow> 'd serial option" where
  "idt_handle_exception io mem cr2 regs st =
     (let name = (if r_vector regs < 32 then exception_names ! unat (r_vector regs)
                  else ''Unknown Exception'');
          st = newline io (say io ''=================================================='' (newline io st));
          st = say io ''!!! WoOS KERNEL PANIC: CPU EXCEPTION: '' st in
      case serial_printf io (Some (lit ''%d (%s) !!!'' @ [10])) [VInt (r_vector regs), VStr (Some (lit name))] st of
        None \<Rightarrow> None
      | Some st \<Rightarrow>
      let st = newline io (say io ''=================================================='' st);
          st = print_regs io [(''RIP:    '', r_rip regs), (''   CS:     '', r_cs regs)] st;
          st = print_regs io [(''RFLAGS: '', r_rflags regs), (''   RSP:    '', r_rsp regs)] st;
          st = print_regs io [(''SS:     '', r_ss regs), (''   ERRCOD: '', r_error_code regs)] st;
          st = (if r_vector regs = 14 then print_regs io [(''Page Fault Address (CR2): '', cr2)] st else st);
          st = newline io (say io ''General Purpose Registers:'' (newline io st));
          st = print_regs io [(''RAX: '', r_rax regs), (''   RBX: '', r_rbx regs), (''   RCX: '', r_rcx regs)] st;
          st = print_regs io [(''RDX: '', r_rdx regs), (''   RSI: '', r_rsi regs), (''   RDI: '', r_rdi regs)] st;
          st = print_regs io [(''RBP: '', r_rbp regs), (''   R8:  '', r_r8 regs), (''   R9:  '', r_r9 regs)] st;
          st = print_regs io [(''R10: '', r_r10 regs), (''   R11: '', r_r11 regs), (''   R12: '', r_r12 regs)] st;
          st = print_regs io [(''R13: '', r_r13 regs), (''   R14: '', r_r14 regs), (''   R15: '', r_r15 regs)] st;
          st = newline io (say io ''Stack words at RSP:'' (newline io st));
          st = fold (\<lambda>(a, v) st. newline io (print_hex64 io v (say io ''] = ''
                 (print_hex64 io a (say io ''  ['' st))))) (stack_words mem (r_rsp regs) 16) st;
          st = newline io (say io ''Call trace (RBP walk):'' (newline io st));
          st = print_frames io 0 (rbp_frames mem (r_rbp regs) 12) st;
          st = newline io (say io ''=================================================='' st);
          st = newline io (say io ''System halted. Please reboot the virtual machine.'' st) in
      Some (newline io (say io ''=================================================='' st)))"

section \<open>What a gate says\<close>

definition gate_handler :: "idt_entry \<Rightarrow> u64" where
  "gate_handler e =
     ucast (offset_low e) OR push_bit 16 (ucast (offset_mid e)) OR push_bit 32 (ucast (offset_high e))"

definition gate_dpl :: "idt_entry \<Rightarrow> u8" where
  "gate_dpl e = drop_bit 5 (type_attr e) AND 3"

lemma gate_roundtrip: "gate_handler (idt_set_gate_dpl v h dpl g (unat v)) = h"
proof -
  have "gate_handler (idt_set_gate_dpl v h dpl g (unat v)) =
      ucast (ucast (take_bit 16 h) :: u16) OR
      push_bit 16 (ucast (ucast (take_bit 16 (drop_bit 16 h)) :: u16)) OR
      push_bit 32 (ucast (ucast (take_bit 32 (drop_bit 32 h)) :: u32))"
    by (simp add: gate_handler_def idt_set_gate_dpl_def take_bit_eq_mask mask_eq_exp_minus_1)
  also have "\<dots> = h"
  proof (rule bit_word_eqI)
    fix n
    assume "n < LENGTH(64)"
    then show "bit (ucast (ucast (take_bit 16 h) :: u16) OR
        push_bit 16 (ucast (ucast (take_bit 16 (drop_bit 16 h)) :: u16)) OR
        push_bit 32 (ucast (ucast (take_bit 32 (drop_bit 32 h)) :: u32)) :: u64) n = bit h n"
      by (cases "32 \<le> n") (auto simp: bit_simps)
  qed
  finally show ?thesis .
qed

lemma gate_fields:
  "selector (idt_set_gate_dpl v h dpl g (unat v)) = 0x18"
  "gate_dpl (idt_set_gate_dpl v h 0 g (unat v)) = 0"
  "gate_dpl (idt_set_gate_dpl v h 3 g (unat v)) = 3"
  by (simp_all add: idt_set_gate_dpl_def gate_dpl_def)

lemma gate_other: "n \<noteq> unat v \<Longrightarrow> idt_set_gate_dpl v h dpl g n = g n"
  by (simp add: idt_set_gate_dpl_def)

definition is_gate :: "u64 \<Rightarrow> u8 \<Rightarrow> idt_entry \<Rightarrow> bool" where
  "is_gate h dpl e \<longleftrightarrow> gate_handler e = h \<and> gate_dpl e = dpl \<and> selector e = 0x18"

lemma is_gate_set [simp]:
  "is_gate h 0 (idt_set_gate v h g (unat v))" "is_gate h 3 (idt_set_gate_dpl v h 3 g (unat v))"
  by (simp_all add: is_gate_def idt_set_gate_def gate_roundtrip gate_fields)

lemma gate_fold:
  assumes "\<And>i. i < n \<Longrightarrow> unat (f i) = b + i"
  shows "(b \<le> v \<and> v < b + n \<longrightarrow> is_gate (h (v - b)) 0 (fold (\<lambda>i. idt_set_gate (f i) (h i)) [0..<n] g v)) \<and>
         (\<not> (b \<le> v \<and> v < b + n) \<longrightarrow> fold (\<lambda>i. idt_set_gate (f i) (h i)) [0..<n] g v = g v)"
  using assms
proof (induction n)
  case (Suc n)
  have f: "unat (f n) = b + n"
    using Suc.prems by simp
  show ?case
  proof (cases "v = b + n")
    case True
    then show ?thesis
      using is_gate_set(1) [of "h n" "f n"] f by simp
  next
    case False
    then show ?thesis
      using Suc f gate_other [of v "f n" "h n" 0] by (auto simp: idt_set_gate_def)
  qed
qed auto

section \<open>The keyboard\<close>

definition kbd_ok :: "keyboard \<Rightarrow> bool" where
  "kbd_ok k \<longleftrightarrow> {kbd_shift k, kbd_alt k, kbd_ctrl k, kbd_caps_lock k, kbd_extended k, kbd_layout k} \<subseteq> {0, 1}"

lemma kbd_ok_scancode: "kbd_ok k \<Longrightarrow> kbd_ok (snd (kbd_scancode sc k))"
  by (auto simp: kbd_scancode_def kbd_ok_def Let_def)

definition letter_key :: "u8 \<Rightarrow> bool" where
  "letter_key sc \<longleftrightarrow> 0x10 \<le> sc \<and> sc \<le> 0x19 \<or> 0x1E \<le> sc \<and> sc \<le> 0x26 \<or> 0x2C \<le> sc \<and> sc \<le> 0x32"

text \<open>The table entries of the letter keys, by evaluation.\<close>

lemma letter_tables:
  "list_all (\<lambda>n. let sc = of_nat n :: u8 in
     letter_key sc \<longrightarrow>
       sc < 128 \<and> sc AND 0x80 = 0 \<and> 97 \<le> key_at kbd_us_lower_keys sc \<and> key_at kbd_us_lower_keys sc \<le> 122 \<and>
       key_at kbd_us_upper_keys sc = key_at kbd_us_lower_keys sc - 32 \<and>
       0x430 \<le> key_at kbd_ru_lower_keys sc \<and> key_at kbd_ru_lower_keys sc \<le> 0x44F \<and>
       key_at kbd_ru_upper_keys sc = key_at kbd_ru_lower_keys sc - 32) [0..<256]"
  by code_simp

lemma letter_entries:
  assumes "letter_key sc"
  shows "sc < 128" "sc AND 0x80 = 0" "97 \<le> key_at kbd_us_lower_keys sc" "key_at kbd_us_lower_keys sc \<le> 122"
    "key_at kbd_us_upper_keys sc = key_at kbd_us_lower_keys sc - 32"
    "0x430 \<le> key_at kbd_ru_lower_keys sc" "key_at kbd_ru_lower_keys sc \<le> 0x44F"
    "key_at kbd_ru_upper_keys sc = key_at kbd_ru_lower_keys sc - 32"
proof -
  have "unat sc \<in> set [0..<256]"
    using unsigned_less [of sc, where 'a = nat] by simp
  then show "sc < 128" "sc AND 0x80 = 0" "97 \<le> key_at kbd_us_lower_keys sc" "key_at kbd_us_lower_keys sc \<le> 122"
    "key_at kbd_us_upper_keys sc = key_at kbd_us_lower_keys sc - 32"
    "0x430 \<le> key_at kbd_ru_lower_keys sc" "key_at kbd_ru_lower_keys sc \<le> 0x44F"
    "key_at kbd_ru_upper_keys sc = key_at kbd_ru_lower_keys sc - 32"
    using letter_tables assms unfolding list_all_iff by (fastforce simp: Let_def)+
qed

lemma letter_key_codes:
  assumes "letter_key sc"
  shows "sc \<notin> {0xE0, 0x2A, 0x36, 0xAA, 0xB6, 0x38, 0xB8, 0x1D, 0x9D, 0x3A}"
  using assms by (auto simp: letter_key_def)

section \<open>Properties\<close>

text \<open>
  After \<^verbatim>\<open>idt_init\<close> every vector reaches its handler, reassembled from the three parts of its
  descriptor: the exceptions 0 to 31, the interrupt lines at 32 to 47, the system call at 0x80,
  and the ignoring stub elsewhere; only the system call can be raised from user mode.
\<close>

theorem idt_init_gates:
  assumes "v < 256"
  shows "is_gate
     (if v = 0x80 then stub_syscall stubs else if v < 32 then exception_stubs stubs v
      else if v < 48 then irq_stubs stubs (v - 32) else stub_ignore stubs)
     (if v = 0x80 then 3 else 0) (fst (idt_init stubs a io g d) v)"
proof -
  let ?g1 = "fold (\<lambda>i. idt_set_gate (of_nat i) (stub_ignore stubs)) [0..<256] g"
  let ?g2 = "fold (\<lambda>i. idt_set_gate (of_nat i) (exception_stubs stubs i)) [0..<32] ?g1"
  let ?g3 = "fold (\<lambda>i. idt_set_gate (ucast (IRQ_VECTOR_BASE_MASTER + of_nat i)) (irq_stubs stubs i))
      [0..<16] ?g2"
  have irq: "unat (ucast (IRQ_VECTOR_BASE_MASTER + of_nat i) :: u8) = 32 + i" if "i < 16" for i
  proof -
    have "(IRQ_VECTOR_BASE_MASTER + of_nat i :: u32) = of_nat (32 + i)"
      by (simp add: irq_vectors)
    then show ?thesis
      using that by (simp add: unsigned_ucast_eq unsigned_of_nat take_bit_nat_eq_self del: of_nat_add)
  qed
  have small: "unat (of_nat i :: u8) = 0 + i" if "i < 256" for i
    using that by (simp add: unsigned_of_nat take_bit_nat_eq_self)
  have g1: "is_gate (stub_ignore stubs) 0 (?g1 v)"
    using gate_fold [of 256 of_nat 0 v "\<lambda>_. stub_ignore stubs" g] small assms by simp
  have g2: "(v < 32 \<longrightarrow> is_gate (exception_stubs stubs v) 0 (?g2 v)) \<and> (\<not> v < 32 \<longrightarrow> ?g2 v = ?g1 v)"
    using gate_fold [of 32 of_nat 0 v "exception_stubs stubs" ?g1] small by simp
  have g3: "(32 \<le> v \<and> v < 48 \<longrightarrow> is_gate (irq_stubs stubs (v - 32)) 0 (?g3 v)) \<and>
      (\<not> (32 \<le> v \<and> v < 48) \<longrightarrow> ?g3 v = ?g2 v)"
    using gate_fold [of 16 "\<lambda>i. ucast (IRQ_VECTOR_BASE_MASTER + of_nat i)" 32 v "irq_stubs stubs" ?g2] irq
    by simp
  have "fst (idt_init stubs a io g d) = idt_set_gate_dpl 0x80 (stub_syscall stubs) 3 ?g3"
    by (simp add: idt_init_def Let_def)
  moreover have "is_gate h 3 (idt_set_gate_dpl 0x80 h 3 g' 128)" for h g'
    using is_gate_set(2) [of h "0x80" g'] by simp
  moreover have "idt_set_gate_dpl 0x80 h 3 g' v = g' v" if "v \<noteq> 128" for h g'
    using gate_other [of v "0x80"] that by simp
  ultimately show ?thesis
    using g1 g2 g3 by auto
qed

theorem idt_init_gates_witness:
  "is_gate 0x1021 0 (fst (idt_init \<lparr>stub_ignore = 0x9000, exception_stubs = (\<lambda>i. 0x2000 + of_nat i),
     irq_stubs = (\<lambda>i. 0x1020 + of_nat i), stub_syscall = 0x8000\<rparr> 0 example_cmos (\<lambda>_. undefined) 0) 33)"
  using idt_init_gates [of 33 "\<lparr>stub_ignore = 0x9000, exception_stubs = (\<lambda>i. 0x2000 + of_nat i),
     irq_stubs = (\<lambda>i. 0x1020 + of_nat i), stub_syscall = 0x8000\<rparr>" 0 example_cmos "\<lambda>_. undefined" 0] by simp

text \<open>
  A letter key without the extended prefix produces one key event and leaves the decoder as it
  is: with Ctrl held the code 1 to 26 of the letter; otherwise the character of the active layout,
  in upper case exactly when one of Shift and Caps Lock is on; the event carries the modifiers.
\<close>

theorem keyboard_letters:
  assumes "kbd_ok k" "kbd_extended k = 0" "letter_key sc"
  shows "kbd_scancode sc k = (Some (key_event
      (if kbd_ctrl k \<noteq> 0 then key_at kbd_us_lower_keys sc - 96
       else (if kbd_layout k = 1 then key_at kbd_ru_lower_keys sc else key_at kbd_us_lower_keys sc) -
            (if (kbd_shift k = 1) \<noteq> (kbd_caps_lock k = 1) then 32 else 0)) sc k), k)"
proof -
  note e = letter_entries [OF assms(3)] and c = letter_key_codes [OF assms(3)]
  let ?us = "key_at kbd_us_lower_keys sc" and ?ru = "key_at kbd_ru_lower_keys sc"
  have flags: "kbd_shift k XOR kbd_caps_lock k \<noteq> 0 \<longleftrightarrow> (kbd_shift k = 1) \<noteq> (kbd_caps_lock k = 1)"
    using assms(1) by (auto simp: kbd_ok_def)
  have cp: "kbd_codepoint sc k =
      (if kbd_ctrl k \<noteq> 0 then ?us - 96
       else (if kbd_layout k = 1 then ?ru else ?us) -
            (if (kbd_shift k = 1) \<noteq> (kbd_caps_lock k = 1) then 32 else 0))"
    using e assms(2) unfolding kbd_codepoint_def Let_def flags by (auto simp: flags)
  have "unat ?us - 96 \<noteq> 0" "96 < unat ?us" "32 < unat ?us" "32 < unat ?ru"
    using e by (auto simp: word_le_nat_alt)
  then have "?us - 96 \<noteq> 0" "?us \<noteq> 0" "?us - 32 \<noteq> 0" "?ru \<noteq> 0" "?ru - 32 \<noteq> 0"
    by (auto simp: word_unat_eq_iff unat_sub_le word_le_nat_alt)
  then have "kbd_codepoint sc k \<noteq> 0"
    unfolding cp by auto
  moreover have "k\<lparr>kbd_extended := 0\<rparr> = k"
    using assms(2) by simp
  ultimately show ?thesis
    using c e(2) unfolding cp [symmetric] by (simp add: kbd_scancode_def Let_def)
qed

definition example_keyboard :: keyboard where
  "example_keyboard = \<lparr>kbd_shift = 1, kbd_alt = 0, kbd_ctrl = 0, kbd_caps_lock = 0, kbd_extended = 0,
     kbd_layout = 1\<rparr>"

theorem keyboard_letters_witness:
  "kbd_scancode 0x10 example_keyboard = (Some (key_event 0x419 0x10 example_keyboard), example_keyboard)"
  using keyboard_letters [of example_keyboard "0x10"]
  by (simp add: example_keyboard_def kbd_ok_def letter_key_def key_at_def kbd_ru_lower_keys_def)

text \<open>
  C15: Whatever the controllers return, an interrupt keeps the keyboard flags bits, the mouse packet
  buffer, the pointer and the event queue well formed, counts itself once, and is acknowledged at
  the master controller, and at the slave exactly for its eight lines.
\<close>

theorem irq_dispatch:
  assumes "kbd_ok (ie_kbd env)" "mouse_inv w h (ie_env env)" "0 < w" "0 < h"
    "idt_handle_irq (Some (w, h)) kbd aux vector env = (eoi, env')" "vector < 256"
  shows "kbd_ok (ie_kbd env') \<and> mouse_inv w h (ie_env env') \<and>
         idt_keyboard_irq_count env' = idt_keyboard_irq_count env + (if vector = 33 then 1 else 0) \<and>
         idt_mouse_irq_count env' = idt_mouse_irq_count env + (if vector = 44 then 1 else 0) \<and>
         (vector \<noteq> 33 \<and> vector \<noteq> 44 \<longrightarrow> env' = env) \<and>
         eoi = (if 40 \<le> vector \<and> vector < 48 then [(PIC2_COMMAND, PIC_EOI)] else []) @
               [(PIC1_COMMAND, PIC_EOI)]"
proof -
  have push: "kbd_ok (ie_kbd (push_key_event ev e)) = kbd_ok (ie_kbd e) \<and>
      keyboard_irq_count (push_key_event ev e) = keyboard_irq_count e \<and>
      mouse_irq_count (push_key_event ev e) = mouse_irq_count e \<and>
      (mouse_inv w h (ie_env e) \<longrightarrow> mouse_inv w h (ie_env (push_key_event ev e)))" for ev e
    using iq_push_list(1) [of "me_queue (ie_env e)" _ "me_sched (ie_env e)"]
    by (cases ev) (auto simp: push_key_event_def mouse_inv_def Let_def case_prod_beta)
  have "unat vector < 256"
    using assms(6) by (simp add: word_less_nat_alt)
  then have "unat (ucast vector :: u8) = unat vector"
    by (simp add: unsigned_ucast_eq take_bit_nat_eq_self)
  then have "ucast (ucast vector :: u8) = vector"
    by (simp only: word_unat_eq_iff unat_ucast_up) (simp add: unat_ucast_up)
  then have "eoi = (if 40 \<le> vector \<and> vector < 48 then [(PIC2_COMMAND, PIC_EOI)] else []) @
      [(PIC1_COMMAND, PIC_EOI)]"
    using assms(5) by (auto simp: idt_handle_irq_def pic_send_eoi_def irq_vectors Let_def)
  moreover have "kbd_ok (ie_kbd env') \<and> mouse_inv w h (ie_env env') \<and>
      keyboard_irq_count env' = keyboard_irq_count env + (if vector = 33 then 1 else 0) \<and>
      mouse_irq_count env' = mouse_irq_count env + (if vector = 44 then 1 else 0) \<and>
      (vector \<noteq> 33 \<and> vector \<noteq> 44 \<longrightarrow> env' = env)"
    using assms(1,2,5) push kbd_ok_scancode [OF assms(1)] mouse_inv_streams [OF assms(2-4)]
    by (auto simp: idt_handle_irq_def irq_vectors Let_def case_prod_beta)
  ultimately show ?thesis
    by (simp add: idt_keyboard_irq_count_def idt_mouse_irq_count_def)
qed

definition example_irq_env :: irq_env where
  "example_irq_env = \<lparr>ie_kbd = example_keyboard, keyboard_irq_count = 6, mouse_irq_count = 0,
     ie_env = example_mouse\<rparr>"

theorem irq_dispatch_witness:
  "idt_keyboard_irq_count (snd (idt_handle_irq (Some (1280, 1024)) (0x1D, 0x10) [] 33 example_irq_env)) = 7"
proof -
  obtain eoi env' where r: "idt_handle_irq (Some (1280, 1024)) (0x1D, 0x10) [] 33 example_irq_env = (eoi, env')"
    by force
  have "kbd_ok (ie_kbd example_irq_env)" "mouse_inv 1280 1024 (ie_env example_irq_env)"
    "idt_keyboard_irq_count example_irq_env = 6"
    using example_mouse_inv
    by (simp_all add: example_irq_env_def example_keyboard_def kbd_ok_def idt_keyboard_irq_count_def)
  then show ?thesis
    using irq_dispatch [OF _ _ _ _ r] r by simp
qed

lemma rbp_frames_range:
  "sorted_wrt (<) (map fst (rbp_frames mem rbp n)) \<and> length (rbp_frames mem rbp n) \<le> n \<and>
   (\<forall>a\<in>fst ` set (rbp_frames mem rbp n). rbp \<le> a \<and> 0x1000 \<le> a \<and> a \<le> 0x00007FFFFFFFFFFF \<and> a AND 7 = 0)"
proof (induction mem rbp n rule: rbp_frames.induct)
  case (2 mem rbp n)
  show ?case
  proof (cases "rbp = 0 \<or> rbp < 0x1000 \<or> rbp > 0x00007FFFFFFFFFFF \<or> rbp AND 7 \<noteq> 0")
    case False
    then have rbp: "0x1000 \<le> rbp" "rbp \<le> 0x00007FFFFFFFFFFF" "rbp AND 7 = 0"
      by (simp_all only: de_Morgan_disj not_less not_not)
    show ?thesis
    proof (cases "mem rbp \<le> rbp")
      case True
      then show ?thesis
        using False rbp by simp
    next
      case lt: False
      let ?fs = "rbp_frames mem (mem rbp) n"
      have eq: "rbp_frames mem rbp (Suc n) = (rbp, mem (rbp + 8)) # ?fs"
        using False lt by simp
      have IH: "sorted_wrt (<) (map fst ?fs)" "length ?fs \<le> n"
        "\<And>a. a \<in> fst ` set ?fs \<Longrightarrow> mem rbp \<le> a \<and> 0x1000 \<le> a \<and> a \<le> 0x00007FFFFFFFFFFF \<and> a AND 7 = 0"
        using "2.IH" [OF False lt] by blast+
      have "rbp < a" if "a \<in> fst ` set ?fs" for a
        using IH(3) [OF that] lt by (meson less_le_trans not_le)
      then show ?thesis
        using IH rbp unfolding eq by (auto intro: less_imp_le)
    qed
  next
    case True
    then show ?thesis
      by (simp only: rbp_frames.simps(2) if_True) simp
  qed
qed simp

lemma stack_words_range:
  "length (stack_words mem stk n) \<le> n \<and>
   (\<forall>a\<in>fst ` set (stack_words mem stk n). 0x1000 \<le> a \<and> a \<le> 0x00007FFFFFFFFFFF)"
  by (induction mem stk n rule: stack_words.induct) (auto simp: not_less)

text \<open>
  The exception report always ends in a halt with text on the line, and whatever the corrupted
  registers and memory hold, it dereferences for the stack dump at most 16 addresses, and for the
  call trace at most 12 aligned frame pointers in strictly ascending order, all between 0x1000 and
  the end of the lower half.
\<close>

theorem exception_report_safe:
  "(\<exists>st'. idt_handle_exception io mem cr2 regs st = Some st') \<and>
   length (stack_words mem (r_rsp regs) 16) \<le> 16 \<and>
   length (rbp_frames mem (r_rbp regs) 12) \<le> 12 \<and>
   sorted_wrt (<) (map fst (rbp_frames mem (r_rbp regs) 12)) \<and>
   (\<forall>a. a \<in> fst ` set (stack_words mem (r_rsp regs) 16 @ rbp_frames mem (r_rbp regs) 12) \<longrightarrow>
      0x1000 \<le> a \<and> a \<le> 0x00007FFFFFFFFFFF) \<and>
   (\<forall>a. a \<in> fst ` set (rbp_frames mem (r_rbp regs) 12) \<longrightarrow> a AND 7 = 0)"
proof (intro conjI)
  have "\<exists>st'. serial_printf io (Some (lit ''%d (%s) !!!'' @ [10])) [VInt v, VStr (Some s)] st = Some st'"
    for v s st
    by (simp add: serial_printf_def lit_def serial_directive_def)
  then show "\<exists>st'. idt_handle_exception io mem cr2 regs st = Some st'"
    by (simp add: idt_handle_exception_def Let_def split: option.split) (metis option.distinct(1))
qed (use rbp_frames_range [of mem "r_rbp regs" 12] stack_words_range [of mem "r_rsp regs" 16] in auto)

definition example_registers :: registers where
  "example_registers = \<lparr>r_r15 = 0, r_r14 = 0, r_r13 = 0, r_r12 = 0, r_r11 = 0, r_r10 = 0, r_r9 = 0,
     r_r8 = 0, r_rdi = 0, r_rsi = 0, r_rbp = 0x2000, r_rbx = 0, r_rdx = 0, r_rcx = 0, r_rax = 0,
     r_vector = 13, r_error_code = 0, r_rip = 0x8000, r_cs = 0x18, r_rflags = 2, r_rsp = 0x1FF0,
     r_ss = 0x10\<rparr>"

theorem exception_report_safe_witness:
  "\<exists>st'. idt_handle_exception example_cmos (\<lambda>a. a + 0x10) 0 example_registers
     \<lparr>sl_cmos = 0, sl_sent = [], s_at_line_start = True, last_h = 0, last_m = 0, last_s = 0\<rparr> = Some st'"
  using exception_report_safe by blast

end
