(* ===== verification/Ipc.thy ===== *)
theory Ipc
  imports Fifo Sched_Base
begin

text \<open>
  The message queue between threads, \<^verbatim>\<open>woos_ipc_send\<close>, \<^verbatim>\<open>woos_ipc_recv\<close> and \<^verbatim>\<open>woos_ipc_pending\<close> of
  \<^verbatim>\<open>sched.c\<close>: one ring of 32 slots for all threads, from which a thread extracts the oldest message
  addressed to it.  The loops compare positions for equality, so that they end is proved for a
  queue whose positions are in range.
\<close>

definition IPC_MAX_MSG :: u32 where "IPC_MAX_MSG = 32"

record woos_ipc_msg =
  sender_id :: u32
  dest_id :: u32
  msg_type :: u32
  msg_arg1 :: u32
  msg_arg2 :: u32
  msg_arg3 :: u32
  msg_arg4 :: u32
  msg_arg5 :: u32

record ipc =
  g_ipc_queue :: "nat \<Rightarrow> woos_ipc_msg"
  g_ipc_head :: u32
  g_ipc_tail :: u32

definition ipc_next :: "u32 \<Rightarrow> u32" where
  "ipc_next i = (i + 1) mod IPC_MAX_MSG"

definition woos_ipc_send ::
    "u32 \<Rightarrow> u32 \<Rightarrow> u32 \<Rightarrow> u32 \<Rightarrow> u32 \<Rightarrow> u32 \<Rightarrow> u32 \<Rightarrow> ipc \<times> sched \<Rightarrow> i32 \<times> (ipc \<times> sched)" where
  "woos_ipc_send dest ty a1 a2 a3 a4 a5 st =
     (let (ipc, s) = st; next_head = ipc_next (g_ipc_head ipc) in
      if next_head = g_ipc_tail ipc then (- 1, (ipc, s))
      else
        (0, (ipc\<lparr>g_ipc_queue := (g_ipc_queue ipc)(unat (g_ipc_head ipc) :=
                   \<lparr>sender_id = sched_current_thread_id s, dest_id = dest, msg_type = ty, msg_arg1 = a1,
                    msg_arg2 = a2, msg_arg3 = a3, msg_arg4 = a4, msg_arg5 = a5\<rparr>),
                 g_ipc_head := next_head\<rparr>,
             sched_unblock_all s)))"

text \<open>The scan from the tail: the position of the first message for \<open>current_id\<close>.\<close>

partial_function (option) ipc_scan :: "u32 \<Rightarrow> ipc \<Rightarrow> u32 \<Rightarrow> u32 option option" where
  "ipc_scan current_id ipc scan =
     (if scan = g_ipc_head ipc then Some None
      else if dest_id (g_ipc_queue ipc (unat scan)) = current_id then Some (Some scan)
      else ipc_scan current_id ipc (ipc_next scan))"

partial_function (option) ipc_shift :: "u32 \<Rightarrow> u32 \<Rightarrow> (nat \<Rightarrow> woos_ipc_msg) \<Rightarrow> (nat \<Rightarrow> woos_ipc_msg) option" where
  "ipc_shift head shift q =
     (if shift = head then Some q
      else let next = ipc_next shift in
        if next = head then Some q
        else ipc_shift head next (q(unat shift := q (unat next))))"

definition woos_ipc_recv :: "ipc \<times> sched \<Rightarrow> (i32 \<times> woos_ipc_msg option \<times> (ipc \<times> sched)) option" where
  "woos_ipc_recv st =
     (let (ipc, s) = st in
      case ipc_scan (sched_current_thread_id s) ipc (g_ipc_tail ipc) of
        None \<Rightarrow> None
      | Some None \<Rightarrow> Some (0, None, (ipc, s))
      | Some (Some scan) \<Rightarrow>
          (case ipc_shift (g_ipc_head ipc) scan (g_ipc_queue ipc) of
             None \<Rightarrow> None
           | Some q \<Rightarrow>
               Some (1, Some (g_ipc_queue ipc (unat scan)),
                 (ipc\<lparr>g_ipc_queue := q,
                      g_ipc_head := (if g_ipc_head ipc = 0 then IPC_MAX_MSG - 1 else g_ipc_head ipc - 1)\<rparr>,
                  s))))"

definition woos_ipc_pending :: "ipc \<times> sched \<Rightarrow> u32 option" where
  "woos_ipc_pending st =
     (let (ipc, s) = st in
      map_option (\<lambda>r. if r = None then 0 else 1)
        (ipc_scan (sched_current_thread_id s) ipc (g_ipc_tail ipc)))"

section \<open>The queue as a list\<close>

definition ipc_count :: "ipc \<Rightarrow> nat" where
  "ipc_count ipc = (unat (g_ipc_head ipc) + 32 - unat (g_ipc_tail ipc)) mod 32"

definition ipc_ok :: "ipc \<Rightarrow> bool" where
  "ipc_ok ipc \<longleftrightarrow> unat (g_ipc_head ipc) < 32 \<and> unat (g_ipc_tail ipc) < 32"

definition ipc_list :: "ipc \<Rightarrow> woos_ipc_msg list" where
  "ipc_list ipc = ring (g_ipc_queue ipc) 32 (unat (g_ipc_tail ipc)) (ipc_count ipc)"

lemma unat_ipc_next:
  assumes "unat i < 32"
  shows "unat (ipc_next i) = (unat i + 1) mod 32"
proof -
  have "unat (i + 1) = unat i + 1"
    using assms by (subst unat_plus_one) simp_all
  then show ?thesis
    by (simp add: ipc_next_def IPC_MAX_MSG_def unat_mod)
qed

text \<open>The position of the \<open>i\<close>-th message.\<close>

definition ipc_pos :: "ipc \<Rightarrow> nat \<Rightarrow> u32" where
  "ipc_pos ipc i = of_nat ((unat (g_ipc_tail ipc) + i) mod 32)"

lemma unat_ipc_pos: "unat (ipc_pos ipc i) = (unat (g_ipc_tail ipc) + i) mod 32"
proof -
  have "(unat (g_ipc_tail ipc) + i) mod 32 < 2 ^ 32"
    by (rule less_trans [of _ 32]) simp_all
  then show ?thesis
    by (simp add: ipc_pos_def unsigned_of_nat take_bit_nat_eq_self)
qed

lemma ipc_pos_simps:
  assumes "ipc_ok ipc"
  shows "ipc_pos ipc 0 = g_ipc_tail ipc" "ipc_pos ipc (ipc_count ipc) = g_ipc_head ipc"
    "ipc_next (ipc_pos ipc i) = ipc_pos ipc (Suc i)"
proof -
  note ok = assms [unfolded ipc_ok_def]
  show "ipc_pos ipc 0 = g_ipc_tail ipc"
    using ok by (simp add: ipc_pos_def)
  have "unat (ipc_pos ipc (ipc_count ipc)) = unat (g_ipc_head ipc)"
    using ok by (simp add: unat_ipc_pos ipc_count_def mod_simps)
  then show "ipc_pos ipc (ipc_count ipc) = g_ipc_head ipc"
    by (simp only: word_unat_eq_iff)
  have "unat (ipc_next (ipc_pos ipc i)) = unat (ipc_pos ipc (Suc i))"
    by (subst unat_ipc_next) (simp_all add: unat_ipc_pos mod_simps)
  then show "ipc_next (ipc_pos ipc i) = ipc_pos ipc (Suc i)"
    by (simp only: word_unat_eq_iff)
qed

lemma ipc_pos_inject:
  assumes "i < 32" "j < 32"
  shows "ipc_pos ipc i = ipc_pos ipc j \<longleftrightarrow> i = j"
  using mod_add_inject [OF assms] unat_ipc_pos by metis

lemma ipc_count_less: "ipc_count ipc < 32"
  by (simp add: ipc_count_def)

lemma ipc_nth: "i < ipc_count ipc \<Longrightarrow> ipc_list ipc ! i = g_ipc_queue ipc (unat (ipc_pos ipc i))"
  by (simp add: ipc_list_def ring_nth unat_ipc_pos)

lemma ipc_length [simp]: "length (ipc_list ipc) = ipc_count ipc"
  by (simp add: ipc_list_def)

subsection \<open>Scanning\<close>

definition first_for :: "u32 \<Rightarrow> woos_ipc_msg list \<Rightarrow> nat" where
  "first_for i xs = length (takeWhile (\<lambda>m. dest_id m \<noteq> i) xs)"

lemma ipc_scan_from:
  assumes ok: "ipc_ok ipc" and "k \<le> ipc_count ipc"
  shows "ipc_scan i ipc (ipc_pos ipc k) =
     (let j = k + first_for i (drop k (ipc_list ipc)) in
      Some (if j < ipc_count ipc then Some (ipc_pos ipc j) else None))"
  using assms(2)
proof (induction "ipc_count ipc - k" arbitrary: k)
  case 0
  then have "k = ipc_count ipc"
    by simp
  then show ?case
    using ipc_pos_simps [OF ok] by (subst ipc_scan.simps) (simp add: first_for_def)
next
  case (Suc n)
  then have k: "k < ipc_count ipc"
    by simp
  then have ne: "ipc_pos ipc k \<noteq> g_ipc_head ipc"
    using ipc_pos_inject [of k "ipc_count ipc" ipc] ipc_count_less [of ipc] ipc_pos_simps(2) [OF ok] by simp
  have drop: "drop k (ipc_list ipc) = ipc_list ipc ! k # drop (Suc k) (ipc_list ipc)"
    using k by (simp add: Cons_nth_drop_Suc)
  show ?case
  proof (cases "dest_id (ipc_list ipc ! k) = i")
    case True
    then show ?thesis
      using ne k by (subst ipc_scan.simps) (simp add: drop first_for_def ipc_nth)
  next
    case False
    then show ?thesis
      using Suc(1) [of "Suc k"] Suc(2) k ne
      by (subst ipc_scan.simps) (simp add: drop first_for_def ipc_nth ipc_pos_simps(3) [OF ok] Let_def)
  qed
qed

lemma ipc_scan_list:
  assumes "ipc_ok ipc"
  shows "ipc_scan i ipc (g_ipc_tail ipc) =
     Some (if first_for i (ipc_list ipc) < ipc_count ipc
           then Some (ipc_pos ipc (first_for i (ipc_list ipc))) else None)"
  using ipc_scan_from [OF assms, of 0 i] ipc_pos_simps(1) [OF assms] by simp

subsection \<open>Closing the gap\<close>

lemma ipc_shift_from:
  assumes ok: "ipc_ok ipc" and "k < ipc_count ipc"
  shows "\<exists>q'. ipc_shift (g_ipc_head ipc) (ipc_pos ipc k) q = Some q' \<and>
     (\<forall>i < k. q' (unat (ipc_pos ipc i)) = q (unat (ipc_pos ipc i))) \<and>
     (\<forall>i. k \<le> i \<longrightarrow> Suc i < ipc_count ipc \<longrightarrow> q' (unat (ipc_pos ipc i)) = q (unat (ipc_pos ipc (Suc i))))"
  using assms(2)
proof (induction "ipc_count ipc - k" arbitrary: k q)
  case (Suc n)
  have lt: "ipc_count ipc < 32"
    by (rule ipc_count_less)
  have ne: "ipc_pos ipc k \<noteq> g_ipc_head ipc"
    using ipc_pos_inject [of k "ipc_count ipc" ipc] lt Suc.prems ipc_pos_simps(2) [OF ok] by simp
  show ?case
  proof (cases "Suc k = ipc_count ipc")
    case True
    then have "ipc_shift (g_ipc_head ipc) (ipc_pos ipc k) q = Some q"
      using ne ipc_pos_simps(2,3) [OF ok] by (subst ipc_shift.simps) (simp add: True)
    then show ?thesis
      using True by auto
  next
    case False
    then have k: "Suc k < ipc_count ipc"
      using Suc.prems by simp
    then have ne': "ipc_pos ipc (Suc k) \<noteq> g_ipc_head ipc"
      using ipc_pos_inject [of "Suc k" "ipc_count ipc" ipc] lt ipc_pos_simps(2) [OF ok] by simp
    let ?q = "q(unat (ipc_pos ipc k) := q (unat (ipc_pos ipc (Suc k))))"
    have n: "n = ipc_count ipc - Suc k"
      using Suc(2) by simp
    from Suc(1) [OF n k, of ?q] obtain q' where
      q': "ipc_shift (g_ipc_head ipc) (ipc_pos ipc (Suc k)) ?q = Some q'"
      "\<forall>i < Suc k. q' (unat (ipc_pos ipc i)) = ?q (unat (ipc_pos ipc i))"
      "\<forall>i. Suc k \<le> i \<longrightarrow> Suc i < ipc_count ipc \<longrightarrow> q' (unat (ipc_pos ipc i)) = ?q (unat (ipc_pos ipc (Suc i)))"
      by blast
    have other: "unat (ipc_pos ipc i) \<noteq> unat (ipc_pos ipc k)" if "i \<noteq> k" "i < 32" for i
      using ipc_pos_inject [of i k ipc] that lt Suc.prems by (simp add: word_unat_eq_iff)
    have "ipc_shift (g_ipc_head ipc) (ipc_pos ipc k) q = Some q'"
      using ne ne' q'(1) by (subst ipc_shift.simps) (simp add: ipc_pos_simps(3) [OF ok] Let_def)
    moreover have "q' (unat (ipc_pos ipc i)) = q (unat (ipc_pos ipc i))" if "i < k" for i
      using that q'(2) other [of i] lt k by simp
    moreover have "q' (unat (ipc_pos ipc i)) = q (unat (ipc_pos ipc (Suc i)))"
      if "k \<le> i" "Suc i < ipc_count ipc" for i
    proof (cases "i = k")
      case True
      then show ?thesis
        using q'(2) by simp
    next
      case False
      then show ?thesis
        using q'(3) other [of "Suc i"] that lt by simp
    qed
    ultimately show ?thesis
      by blast
  qed
qed simp

subsection \<open>The operations on the list\<close>

definition list_extract :: "u32 \<Rightarrow> woos_ipc_msg list \<Rightarrow> woos_ipc_msg option \<times> woos_ipc_msg list" where
  "list_extract i xs =
     (let k = first_for i xs in
      if k < length xs then (Some (xs ! k), take k xs @ drop (Suc k) xs) else (None, xs))"

lemma ring_dist: "t < 32 \<Longrightarrow> n < 32 \<Longrightarrow> ((t + n) mod 32 + 32 - t) mod (32 :: nat) = n"
  by (cases "t + n < 32") (simp_all add: mod_if [of "t + n" 32] mod_if)

lemma ring_back:
  "t < 32 \<Longrightarrow> 0 < c \<Longrightarrow> c < 32 \<Longrightarrow>
   (t + (c - 1)) mod (32 :: nat) = (if (t + c) mod 32 = 0 then 31 else (t + c) mod 32 - 1)"
  by (cases "t + c < 32"; cases "t + c = 32")
    (auto simp: mod_if [of "t + c" 32] mod_if [of "t + (c - 1)" 32] mod_if [of "t + c - Suc 0" 32])

lemma ipc_moved_head:
  assumes ok: "ipc_ok ipc" and "n < 32"
  shows "ipc_count (ipc\<lparr>g_ipc_queue := q, g_ipc_head := ipc_pos ipc n\<rparr>) = n"
    "ipc_ok (ipc\<lparr>g_ipc_queue := q, g_ipc_head := ipc_pos ipc n\<rparr>)"
    "ipc_pos (ipc\<lparr>g_ipc_queue := q, g_ipc_head := ipc_pos ipc n\<rparr>) i = ipc_pos ipc i"
proof -
  have "unat (g_ipc_tail ipc) < 32"
    using ok by (simp add: ipc_ok_def)
  then have "((unat (g_ipc_tail ipc) + n) mod 32 + 32 - unat (g_ipc_tail ipc)) mod 32 = n"
    using assms(2) by (rule ring_dist)
  then show "ipc_count (ipc\<lparr>g_ipc_queue := q, g_ipc_head := ipc_pos ipc n\<rparr>) = n"
    by (simp add: ipc_count_def unat_ipc_pos)
  show "ipc_ok (ipc\<lparr>g_ipc_queue := q, g_ipc_head := ipc_pos ipc n\<rparr>)"
    using ok by (simp add: ipc_ok_def unat_ipc_pos)
  show "ipc_pos (ipc\<lparr>g_ipc_queue := q, g_ipc_head := ipc_pos ipc n\<rparr>) i = ipc_pos ipc i"
    by (simp add: ipc_pos_def)
qed

lemma ipc_head_back:
  assumes ok: "ipc_ok ipc" and "0 < ipc_count ipc"
  shows "(if g_ipc_head ipc = 0 then IPC_MAX_MSG - 1 else g_ipc_head ipc - 1) = ipc_pos ipc (ipc_count ipc - 1)"
proof -
  have b: "unat (g_ipc_tail ipc) < 32" "unat (g_ipc_head ipc) < 32"
    using ok by (simp_all add: ipc_ok_def)
  have h: "unat (g_ipc_head ipc) = (unat (g_ipc_tail ipc) + ipc_count ipc) mod 32"
    using ipc_pos_simps(2) [OF ok] unat_ipc_pos [of ipc "ipc_count ipc"] by simp
  have p: "(unat (g_ipc_tail ipc) + (ipc_count ipc - 1)) mod 32 =
      (if unat (g_ipc_head ipc) = 0 then 31 else unat (g_ipc_head ipc) - 1)"
    using ring_back [OF b(1) assms(2) ipc_count_less] h by simp
  have "unat (if g_ipc_head ipc = 0 then IPC_MAX_MSG - 1 else g_ipc_head ipc - 1) =
      unat (ipc_pos ipc (ipc_count ipc - 1))"
    using p unat_minus_one_pos [of "g_ipc_head ipc"] by (simp add: unat_ipc_pos IPC_MAX_MSG_def unat_eq_0)
  then show ?thesis
    by (simp only: word_unat_eq_iff)
qed

lemma ipc_send_list:
  assumes ok: "ipc_ok ipc"
    and send: "woos_ipc_send dest ty a1 a2 a3 a4 a5 (ipc, s) = (r, (ipc', s'))"
  shows "ipc_ok ipc' \<and>
    (if ipc_count ipc < 31 then
       r = 0 \<and> s' = sched_unblock_all s \<and> ipc_list ipc' = ipc_list ipc @
         [\<lparr>sender_id = sched_current_thread_id s, dest_id = dest, msg_type = ty, msg_arg1 = a1,
           msg_arg2 = a2, msg_arg3 = a3, msg_arg4 = a4, msg_arg5 = a5\<rparr>]
     else r = - 1 \<and> ipc' = ipc \<and> s' = s)"
proof -
  let ?n = "ipc_count ipc"
  let ?m = "\<lparr>sender_id = sched_current_thread_id s, dest_id = dest, msg_type = ty, msg_arg1 = a1,
      msg_arg2 = a2, msg_arg3 = a3, msg_arg4 = a4, msg_arg5 = a5\<rparr>"
  have nx: "ipc_next (g_ipc_head ipc) = ipc_pos ipc (Suc ?n)"
    using ipc_pos_simps(2,3) [OF ok] by metis
  have full: "ipc_next (g_ipc_head ipc) = g_ipc_tail ipc \<longleftrightarrow> \<not> ?n < 31"
  proof (cases "?n < 31")
    case True
    then show ?thesis
      using ipc_pos_inject [of "Suc ?n" 0 ipc] ipc_pos_simps(1) [OF ok] by (simp add: nx)
  next
    case False
    then have "Suc ?n = 32"
      using ipc_count_less [of ipc] by simp
    then have "unat (ipc_pos ipc (Suc ?n)) = unat (g_ipc_tail ipc)"
      using ok by (simp add: unat_ipc_pos ipc_ok_def)
    then have "ipc_pos ipc (Suc ?n) = g_ipc_tail ipc"
      by (simp only: word_unat_eq_iff)
    then show ?thesis
      using False nx by simp
  qed
  show ?thesis
  proof (cases "?n < 31")
    case True
    let ?q = "(g_ipc_queue ipc)(unat (g_ipc_head ipc) := ?m)"
    have eq: "ipc' = ipc\<lparr>g_ipc_queue := ?q, g_ipc_head := ipc_pos ipc (Suc ?n)\<rparr>" "r = 0" "s' = sched_unblock_all s"
      using send True full nx by (auto simp: woos_ipc_send_def Let_def)
    have c: "ipc_count ipc' = Suc ?n" "ipc_ok ipc'" "\<And>i. ipc_pos ipc' i = ipc_pos ipc i"
      using True unfolding eq by (intro ipc_moved_head [OF ok]; simp)+
    have "ipc_list ipc' = ipc_list ipc @ [?m]"
    proof (rule nth_equalityI)
      fix i
      assume i: "i < length (ipc_list ipc')"
      have "unat (ipc_pos ipc i) \<noteq> unat (g_ipc_head ipc)" if "i < ?n"
        using ipc_pos_inject [of i ?n ipc] that True ipc_pos_simps(2) [OF ok]
        by (simp add: word_unat_eq_iff)
      then show "ipc_list ipc' ! i = (ipc_list ipc @ [?m]) ! i"
        using i c ipc_pos_simps(2) [OF ok] less_Suc_eq [of i ?n]
        by (auto simp: ipc_nth nth_append eq(1))
    qed (simp add: c)
    then show ?thesis
      using True eq c by simp
  next
    case False
    then show ?thesis
      using send full ok by (auto simp: woos_ipc_send_def Let_def)
  qed
qed

lemma ipc_recv_list:
  assumes ok: "ipc_ok ipc"
  shows "\<exists>ipc'. woos_ipc_recv (ipc, s) =
      Some (if fst (list_extract (sched_current_thread_id s) (ipc_list ipc)) = None then 0 else 1,
        fst (list_extract (sched_current_thread_id s) (ipc_list ipc)), (ipc', s)) \<and>
    ipc_ok ipc' \<and> ipc_list ipc' = snd (list_extract (sched_current_thread_id s) (ipc_list ipc))"
proof -
  let ?i = "sched_current_thread_id s" and ?xs = "ipc_list ipc" and ?n = "ipc_count ipc"
  define k where "k = first_for ?i ?xs"
  show ?thesis
  proof (cases "k < ?n")
    case True
    obtain q' where q': "ipc_shift (g_ipc_head ipc) (ipc_pos ipc k) (g_ipc_queue ipc) = Some q'"
      "\<And>i. i < k \<Longrightarrow> q' (unat (ipc_pos ipc i)) = g_ipc_queue ipc (unat (ipc_pos ipc i))"
      "\<And>i. k \<le> i \<Longrightarrow> Suc i < ?n \<Longrightarrow> q' (unat (ipc_pos ipc i)) = g_ipc_queue ipc (unat (ipc_pos ipc (Suc i)))"
      using ipc_shift_from [OF ok True, of "g_ipc_queue ipc"] by blast
    define ipc' where "ipc' = ipc\<lparr>g_ipc_queue := q', g_ipc_head := ipc_pos ipc (?n - 1)\<rparr>"
    have c: "ipc_count ipc' = ?n - 1" "ipc_ok ipc'" "\<And>i. ipc_pos ipc' i = ipc_pos ipc i"
      using ipc_count_less [of ipc] unfolding ipc'_def by (intro ipc_moved_head [OF ok]; simp)+
    have "ipc_list ipc' = take k ?xs @ drop (Suc k) ?xs"
    proof (rule nth_equalityI)
      fix i
      assume "i < length (ipc_list ipc')"
      then have i: "i < ?n - 1"
        by (simp add: c)
      then have "ipc_list ipc' ! i = q' (unat (ipc_pos ipc i))"
        by (simp add: ipc_nth c) (simp add: ipc'_def)
      then show "ipc_list ipc' ! i = (take k ?xs @ drop (Suc k) ?xs) ! i"
        using i True q'(2,3) by (cases "i < k") (auto simp: nth_append ipc_nth)
    qed (use True in \<open>simp add: c\<close>)
    moreover have "woos_ipc_recv (ipc, s) = Some (1, Some (?xs ! k), (ipc', s))"
      using ipc_scan_list [OF ok, of ?i] q'(1) True ipc_head_back [OF ok]
      by (simp add: woos_ipc_recv_def k_def [symmetric] ipc'_def ipc_nth)
    moreover have "list_extract ?i ?xs = (Some (?xs ! k), take k ?xs @ drop (Suc k) ?xs)"
      using True by (simp add: list_extract_def k_def [symmetric])
    ultimately show ?thesis
      using c(2) by auto
  next
    case False
    then show ?thesis
      using ipc_scan_list [OF ok, of ?i] ok
      by (simp add: woos_ipc_recv_def list_extract_def k_def [symmetric])
  qed
qed

lemma list_extract_Cons:
  "list_extract i (x # xs) =
     (if dest_id x = i then (Some x, xs)
      else (fst (list_extract i xs), x # snd (list_extract i xs)))"
  by (simp add: list_extract_def first_for_def Let_def)

lemma list_extract_None: "fst (list_extract i xs) = None \<Longrightarrow> snd (list_extract i xs) = xs \<and> filter (\<lambda>m. dest_id m = i) xs = []"
proof (induction xs)
  case (Cons x xs)
  then show ?case
    by (cases "dest_id x = i") (simp_all add: list_extract_Cons)
qed (simp add: list_extract_def)

lemma list_extract_Some:
  "fst (list_extract i xs) = Some m \<Longrightarrow>
     dest_id m = i \<and> filter (\<lambda>m. dest_id m = i) xs = m # filter (\<lambda>m. dest_id m = i) (snd (list_extract i xs)) \<and>
     (\<forall>j. j \<noteq> i \<longrightarrow> filter (\<lambda>m. dest_id m = j) xs = filter (\<lambda>m. dest_id m = j) (snd (list_extract i xs)))"
proof (induction xs)
  case (Cons x xs)
  then show ?case
    by (cases "dest_id x = i") (simp_all add: list_extract_Cons)
qed (simp add: list_extract_def)

section \<open>Runs\<close>

text \<open>A send or a receive by the thread with the given index.\<close>

datatype ipc_op = IpcSend nat u32 u32 u32 u32 u32 u32 u32 | IpcRecv nat

text \<open>The messages accepted, and the messages received with the id of the thread that received them.\<close>

fun ipc_run :: "ipc_op list \<Rightarrow> ipc \<times> sched \<Rightarrow>
    (woos_ipc_msg list \<times> (u32 \<times> woos_ipc_msg) list \<times> (ipc \<times> sched)) option" where
  "ipc_run [] st = Some ([], [], st)"
| "ipc_run (IpcSend t d ty a1 a2 a3 a4 a5 # ops) (ipc, s) =
     (let s = s\<lparr>g_current_thread_idx := t\<rparr>;
          (r, (ipc', s')) = woos_ipc_send d ty a1 a2 a3 a4 a5 (ipc, s) in
      map_option (\<lambda>(sent, got, st).
          (if r = 0 then \<lparr>sender_id = sched_current_thread_id s, dest_id = d, msg_type = ty, msg_arg1 = a1,
             msg_arg2 = a2, msg_arg3 = a3, msg_arg4 = a4, msg_arg5 = a5\<rparr> # sent else sent, got, st))
        (ipc_run ops (ipc', s')))"
| "ipc_run (IpcRecv t # ops) (ipc, s) =
     (let s = s\<lparr>g_current_thread_idx := t\<rparr> in
      case woos_ipc_recv (ipc, s) of
        None \<Rightarrow> None
      | Some (r, m, st) \<Rightarrow>
          map_option (\<lambda>(sent, got, st).
              (sent, case m of None \<Rightarrow> got | Some m \<Rightarrow> (sched_current_thread_id s, m) # got, st))
            (ipc_run ops st))"

abbreviation addressed :: "u32 \<Rightarrow> woos_ipc_msg list \<Rightarrow> woos_ipc_msg list" where
  "addressed i xs \<equiv> filter (\<lambda>m. dest_id m = i) xs"

lemma ipc_run_order:
  "ipc_ok ipc \<Longrightarrow>
   \<exists>sent got ipc' s'. ipc_run ops (ipc, s) = Some (sent, got, (ipc', s')) \<and> ipc_ok ipc' \<and>
     (\<forall>i. addressed i (ipc_list ipc) @ addressed i sent =
          map snd (filter (\<lambda>g. fst g = i) got) @ addressed i (ipc_list ipc'))"
proof (induction ops arbitrary: ipc s)
  case (Cons op ops)
  show ?case
  proof (cases op)
    case (IpcSend t d ty a1 a2 a3 a4 a5)
    let ?s = "s\<lparr>g_current_thread_idx := t\<rparr>"
    obtain r ipc1 s1 where r: "woos_ipc_send d ty a1 a2 a3 a4 a5 (ipc, ?s) = (r, (ipc1, s1))"
      by (metis surj_pair)
    note send = ipc_send_list [OF Cons.prems r]
    obtain sent got ipc' s' where run: "ipc_run ops (ipc1, s1) = Some (sent, got, (ipc', s'))"
      "ipc_ok ipc'" "\<forall>i. addressed i (ipc_list ipc1) @ addressed i sent =
          map snd (filter (\<lambda>g. fst g = i) got) @ addressed i (ipc_list ipc')"
      using Cons.IH [of ipc1 s1] send by blast
    show ?thesis
    proof (cases "ipc_count ipc < 31")
      case True
      let ?m = "\<lparr>sender_id = sched_current_thread_id ?s, dest_id = d, msg_type = ty, msg_arg1 = a1,
          msg_arg2 = a2, msg_arg3 = a3, msg_arg4 = a4, msg_arg5 = a5\<rparr>"
      have l: "r = 0" "ipc_list ipc1 = ipc_list ipc @ [?m]"
        using send True by simp_all
      have "ipc_run (op # ops) (ipc, s) = Some (?m # sent, got, (ipc', s'))"
        using run(1) r l(1) by (simp add: IpcSend)
      moreover have "addressed i (ipc_list ipc) @ addressed i (?m # sent) =
          map snd (filter (\<lambda>g. fst g = i) got) @ addressed i (ipc_list ipc')" for i
        using run(3) [rule_format, of i] unfolding l(2) filter_append append_assoc by (cases "d = i") simp_all
      ultimately show ?thesis
        using run(2) by blast
    next
      case False
      then show ?thesis
        using run send r by (simp add: IpcSend)
    qed
  next
    case (IpcRecv t)
    let ?s = "s\<lparr>g_current_thread_idx := t\<rparr>"
    let ?i = "sched_current_thread_id ?s"
    obtain ipc1 m where r: "woos_ipc_recv (ipc, ?s) = Some (if m = None then 0 else 1, m, (ipc1, ?s))"
      "ipc_ok ipc1" "m = fst (list_extract ?i (ipc_list ipc))"
      "ipc_list ipc1 = snd (list_extract ?i (ipc_list ipc))"
      using ipc_recv_list [OF Cons.prems, of ?s] by blast
    obtain sent got ipc' s' where run: "ipc_run ops (ipc1, ?s) = Some (sent, got, (ipc', s'))"
      "ipc_ok ipc'" "\<forall>i. addressed i (ipc_list ipc1) @ addressed i sent =
          map snd (filter (\<lambda>g. fst g = i) got) @ addressed i (ipc_list ipc')"
      using Cons.IH [OF r(2), of ?s] by blast
    show ?thesis
    proof (cases m)
      case None
      then show ?thesis
        using run r list_extract_None [of ?i "ipc_list ipc"] by (simp add: IpcRecv)
    next
      case (Some x)
      have f: "addressed ?i (ipc_list ipc) = x # addressed ?i (ipc_list ipc1)"
        "\<And>j. j \<noteq> ?i \<Longrightarrow> addressed j (ipc_list ipc) = addressed j (ipc_list ipc1)"
        using list_extract_Some [of ?i "ipc_list ipc" x] r(3,4) Some by auto
      have "addressed j (ipc_list ipc) @ addressed j sent =
          map snd (filter (\<lambda>g. fst g = j) ((?i, x) # got)) @ addressed j (ipc_list ipc')" for j
        using f run(3) [rule_format, of j] by (cases "j = ?i") simp_all
      then show ?thesis
        using run(1,2) r(1) Some by (simp add: IpcRecv)
    qed
  qed
qed auto

section \<open>Properties\<close>

text \<open>
  C8: For a queue with its positions in range every operation returns, and acts on the list of
  waiting messages: a send appends a message from the current thread and wakes all blocked threads
  while fewer than 31 wait, and otherwise fails without effect; a receive removes and returns the
  first message addressed to the current thread, keeping the order of the others; \<^verbatim>\<open>woos_ipc_pending\<close>
  tells whether there is one.
\<close>

theorem ipc_refines_list:
  assumes "ipc_ok ipc" "woos_ipc_send dest ty a1 a2 a3 a4 a5 (ipc, s) = (r, (ipc1, s1))"
  shows "ipc_ok ipc1 \<and>
    (if length (ipc_list ipc) < 31 then
       r = 0 \<and> s1 = sched_unblock_all s \<and> ipc_list ipc1 = ipc_list ipc @
         [\<lparr>sender_id = sched_current_thread_id s, dest_id = dest, msg_type = ty, msg_arg1 = a1,
           msg_arg2 = a2, msg_arg3 = a3, msg_arg4 = a4, msg_arg5 = a5\<rparr>]
     else r = - 1 \<and> ipc1 = ipc \<and> s1 = s) \<and>
    (\<exists>ipc2. let (m, rest) = list_extract (sched_current_thread_id s) (ipc_list ipc) in
       woos_ipc_recv (ipc, s) = Some (if m = None then 0 else 1, m, (ipc2, s)) \<and>
       ipc_ok ipc2 \<and> ipc_list ipc2 = rest \<and>
       woos_ipc_pending (ipc, s) = Some (if m = None then 0 else 1))"
proof -
  have "woos_ipc_pending (ipc, s) =
      Some (if fst (list_extract (sched_current_thread_id s) (ipc_list ipc)) = None then 0 else 1)"
    by (simp add: woos_ipc_pending_def ipc_scan_list [OF assms(1)] list_extract_def Let_def)
  then show ?thesis
    using ipc_send_list [OF assms] ipc_recv_list [OF assms(1), of s]
    by (auto simp: case_prod_beta Let_def)
qed

definition example_ipc :: ipc where
  "example_ipc = \<lparr>g_ipc_queue = (\<lambda>_. \<lparr>sender_id = 0, dest_id = 0, msg_type = 0, msg_arg1 = 0,
     msg_arg2 = 0, msg_arg3 = 0, msg_arg4 = 0, msg_arg5 = 0\<rparr>), g_ipc_head = 0, g_ipc_tail = 0\<rparr>"

definition ipc_threads :: sched where
  "ipc_threads = \<lparr>g_threads = (\<lambda>i. \<lparr>t_rsp = 0, t_id = of_nat i, t_state = THREAD_READY, t_stack_limit = 0,
     t_stack_pages_count = 0, t_cr3 = 0, t_kernel_stack_top = 0, t_app_path = (\<lambda>_. 0),
     t_fpu_state = []\<rparr>), g_num_threads = 4, g_current_thread_idx = 1, g_sched_ready = True\<rparr>"

lemma example_ipc_ok: "ipc_ok example_ipc"
  by (simp add: ipc_ok_def example_ipc_def)

theorem ipc_refines_list_witness:
  "fst (woos_ipc_send 2 5 0 0 0 0 0 (example_ipc, ipc_threads)) = 0"
proof -
  obtain r i s where e: "woos_ipc_send 2 5 0 0 0 0 0 (example_ipc, ipc_threads) = (r, (i, s))"
    by (metis surj_pair)
  have "length (ipc_list example_ipc) < 31"
    by (simp add: ipc_count_def example_ipc_def)
  then show ?thesis
    using ipc_refines_list [OF example_ipc_ok e] e by simp
qed

text \<open>
  Over any sequence of sends and receives by any threads no message is lost, duplicated,
  reordered or misdelivered: for every thread id, the messages that were waiting for it followed by
  those accepted for it are the messages it received followed by those still waiting.
\<close>

theorem ipc_delivery:
  assumes "ipc_ok ipc"
  shows "\<exists>sent got ipc' s'. ipc_run ops (ipc, s) = Some (sent, got, (ipc', s')) \<and>
     (\<forall>i. addressed i (ipc_list ipc) @ addressed i sent =
          map snd (filter (\<lambda>g. fst g = i) got) @ addressed i (ipc_list ipc'))"
  using ipc_run_order [OF assms] by blast

theorem ipc_delivery_witness:
  "\<exists>sent got ipc' s'.
     ipc_run [IpcSend 1 2 7 0 0 0 0 0, IpcSend 3 1 8 0 0 0 0 0, IpcRecv 2] (example_ipc, ipc_threads) =
       Some (sent, got, (ipc', s')) \<and>
     addressed 2 (ipc_list example_ipc) @ addressed 2 sent =
       map snd (filter (\<lambda>g. fst g = 2) got) @ addressed 2 (ipc_list ipc')"
  using ipc_delivery [OF example_ipc_ok, of "[IpcSend 1 2 7 0 0 0 0 0, IpcSend 3 1 8 0 0 0 0 0, IpcRecv 2]"
      ipc_threads]
  by blast

end
