(* ===== verification/Windows.thy ===== *)
theory Windows
  imports Input Ipc "HOL-Library.Multiset"
begin

text \<open>
  The window table of \<^verbatim>\<open>fb.c\<close>: creation, destruction, stacking order, focus, minimising and
  maximising.  \<open>g_windows\<close> is the used prefix of the table, whose order is the stacking order; the
  slots behind it are never read.  A window owns a block of the kernel heap.  Every change is
  announced by an input event, which wakes the blocked threads.
\<close>

section \<open>State\<close>

definition MAX_WINDOWS :: nat where "MAX_WINDOWS = 8"

definition WOOS_WIN_FLAG_MINIMIZED :: u32 where "WOOS_WIN_FLAG_MINIMIZED = 1"
definition WOOS_WIN_FLAG_MAXIMIZED :: u32 where "WOOS_WIN_FLAG_MAXIMIZED = 2"
definition WOOS_WIN_FLAG_FOCUSED :: u32 where "WOOS_WIN_FLAG_FOCUSED = 8"
definition MSG_RESIZE :: u32 where "MSG_RESIZE = 5"

lemmas win_flags = WOOS_WIN_FLAG_MINIMIZED_def WOOS_WIN_FLAG_MAXIMIZED_def WOOS_WIN_FLAG_FOCUSED_def

record woos_window =
  win_id :: u32
  win_thread_id :: u32
  win_x :: i32
  win_y :: i32
  win_w :: u32
  win_h :: u32
  win_flags :: u32
  saved_x :: i32
  saved_y :: i32
  saved_w :: u32
  saved_h :: u32
  win_title :: "u8 list"
  win_active :: u32
  win_buffer :: u64

record wm =
  g_windows :: "woos_window list"
  g_next_window_id :: u32
  wm_heap :: kheap
  wm_queue :: input_queue
  wm_sched :: sched
  wm_ipc :: ipc

definition set_flag :: "u32 \<Rightarrow> woos_window \<Rightarrow> woos_window" where
  "set_flag f w = w\<lparr>win_flags := win_flags w OR f\<rparr>"

definition clear_flag :: "u32 \<Rightarrow> woos_window \<Rightarrow> woos_window" where
  "clear_flag f w = w\<lparr>win_flags := win_flags w AND NOT f\<rparr>"

definition has_flag :: "u32 \<Rightarrow> woos_window \<Rightarrow> bool" where
  "has_flag f w \<longleftrightarrow> win_flags w AND f \<noteq> 0"

text \<open>The first and the last slot whose window satisfies a condition.\<close>

fun win_find :: "(woos_window \<Rightarrow> bool) \<Rightarrow> woos_window list \<Rightarrow> nat option" where
  "win_find P [] = None"
| "win_find P (w # ws) = (if P w then Some 0 else map_option Suc (win_find P ws))"

definition win_rfind :: "(woos_window \<Rightarrow> bool) \<Rightarrow> woos_window list \<Rightarrow> nat option" where
  "win_rfind P ws = map_option (\<lambda>k. length ws - 1 - k) (win_find P (rev ws))"

definition on_last :: "(woos_window \<Rightarrow> woos_window) \<Rightarrow> woos_window list \<Rightarrow> woos_window list" where
  "on_last f ws = (if ws = [] then [] else butlast ws @ [f (last ws)])"

definition notify :: "wm \<Rightarrow> wm" where
  "notify wm =
     (let (q, s) = snd (input_push \<lparr>ev_type = INPUT_EVENT_WINDOW_CHANGE, ev_x = 0, ev_y = 0, ev_buttons = 0\<rparr>
                          (wm_queue wm, wm_sched wm)) in
      wm\<lparr>wm_queue := q, wm_sched := sched_unblock_all s\<rparr>)"

section \<open>Operations\<close>

definition window_title :: "u8 list option \<Rightarrow> u8 list" where
  "window_title title =
     (case title of
        Some (c # cs) \<Rightarrow> take 31 (c # cs)
      | _ \<Rightarrow> lit ''Application'')"

definition woos_graphics_create_window_ex ::
    "u32 \<Rightarrow> u32 \<Rightarrow> u8 list option \<Rightarrow> u32 \<Rightarrow> wm \<Rightarrow> (i32 \<times> wm) option" where
  "woos_graphics_create_window_ex w h title flags wm =
     (case kheap_alloc (ucast (w * h * 4)) (wm_heap wm) of
        None \<Rightarrow> None
      | Some (buf, heap) \<Rightarrow>
          if buf = 0 then Some (- 1, wm\<lparr>wm_heap := heap\<rparr>)
          else
            let heap = heap\<lparr>kheap_mem := memset buf 0 (ucast (w * h * 4)) (kheap_mem heap)\<rparr> in
            if length (g_windows wm) \<ge> MAX_WINDOWS
            then map_option (\<lambda>heap. (- 1, wm\<lparr>wm_heap := heap\<rparr>)) (kheap_free buf heap)
            else
              let i = g_next_window_id wm; x = 80 + (i * 35) mod 400; y = 70 + (i * 25) mod 250;
                  win = \<lparr>win_id = i, win_thread_id = sched_current_thread_id (wm_sched wm), win_x = x,
                    win_y = y, win_w = w, win_h = h, win_flags = flags OR WOOS_WIN_FLAG_FOCUSED,
                    saved_x = x, saved_y = y, saved_w = w, saved_h = h, win_title = window_title title,
                    win_active = 1, win_buffer = buf\<rparr> in
              Some (i, notify (wm\<lparr>g_windows := map (clear_flag WOOS_WIN_FLAG_FOCUSED) (g_windows wm) @ [win],
                                  g_next_window_id := i + 1, wm_heap := heap\<rparr>)))"

definition woos_graphics_create_window :: "u32 \<Rightarrow> u32 \<Rightarrow> wm \<Rightarrow> (i32 \<times> wm) option" where
  "woos_graphics_create_window w h wm = woos_graphics_create_window_ex w h (Some (lit ''Window'')) 0 wm"

definition woos_graphics_destroy_window :: "u32 \<Rightarrow> wm \<Rightarrow> (i32 \<times> wm) option" where
  "woos_graphics_destroy_window window_id wm =
     (case win_find (\<lambda>w. win_id w = window_id) (g_windows wm) of
        None \<Rightarrow> Some (- 1, wm)
      | Some i \<Rightarrow>
          let buf_to_free = win_buffer (g_windows wm ! i);
              ws = take i (g_windows wm) @ drop (Suc i) (g_windows wm);
              wm = wm\<lparr>g_windows := on_last (set_flag WOOS_WIN_FLAG_FOCUSED) ws\<rparr> in
          (case (if buf_to_free \<noteq> 0 then kheap_free buf_to_free (wm_heap wm) else Some (wm_heap wm)) of
             None \<Rightarrow> None
           | Some heap \<Rightarrow> Some (0, notify (wm\<lparr>wm_heap := heap\<rparr>))))"

definition woos_graphics_bring_to_front :: "u32 \<Rightarrow> wm \<Rightarrow> i32 \<times> wm" where
  "woos_graphics_bring_to_front window_id wm =
     (case win_find (\<lambda>w. win_id w = window_id) (g_windows wm) of
        None \<Rightarrow> (- 1, wm)
      | Some i \<Rightarrow>
          let ws = (g_windows wm)[i := clear_flag WOOS_WIN_FLAG_MINIMIZED (g_windows wm ! i)];
              ws = map (clear_flag WOOS_WIN_FLAG_FOCUSED) ws;
              ws = (if i < length ws - 1 then take i ws @ drop (Suc i) ws @ [ws ! i] else ws) in
          (0, notify (wm\<lparr>g_windows := on_last (set_flag WOOS_WIN_FLAG_FOCUSED) ws\<rparr>)))"

definition woos_graphics_bring_thread_to_front :: "u32 \<Rightarrow> wm \<Rightarrow> i32 \<times> wm" where
  "woos_graphics_bring_thread_to_front thread_id wm =
     (let target_id = (case win_find (\<lambda>w. win_thread_id w = thread_id) (g_windows wm) of
                         None \<Rightarrow> 0 | Some i \<Rightarrow> win_id (g_windows wm ! i)) in
      if target_id \<noteq> 0 then woos_graphics_bring_to_front target_id wm else (- 1, wm))"

text \<open>The update a setter makes at the window with the given id.\<close>

definition at_window :: "u32 \<Rightarrow> (woos_window \<Rightarrow> woos_window) \<Rightarrow> wm \<Rightarrow> i32 \<times> wm" where
  "at_window window_id f wm =
     (case win_find (\<lambda>w. win_id w = window_id) (g_windows wm) of
        None \<Rightarrow> (- 1, wm)
      | Some i \<Rightarrow> (0, wm\<lparr>g_windows := (g_windows wm)[i := f (g_windows wm ! i)]\<rparr>))"

definition woos_graphics_set_window_title :: "u32 \<Rightarrow> u8 list option \<Rightarrow> wm \<Rightarrow> i32 \<times> wm" where
  "woos_graphics_set_window_title window_id title wm =
     at_window window_id
       (\<lambda>w. w\<lparr>win_title := (case title of None \<Rightarrow> [] | Some t \<Rightarrow> take 31 t)\<rparr>) wm"

definition woos_graphics_set_window_flags :: "u32 \<Rightarrow> u32 \<Rightarrow> wm \<Rightarrow> i32 \<times> wm" where
  "woos_graphics_set_window_flags window_id flags wm = at_window window_id (\<lambda>w. w\<lparr>win_flags := flags\<rparr>) wm"

definition woos_graphics_set_window_pos :: "u32 \<Rightarrow> i32 \<Rightarrow> i32 \<Rightarrow> wm \<Rightarrow> i32 \<times> wm" where
  "woos_graphics_set_window_pos window_id x y wm = at_window window_id (\<lambda>w. w\<lparr>win_x := x, win_y := y\<rparr>) wm"

definition woos_graphics_toggle_minimize :: "u32 \<Rightarrow> wm \<Rightarrow> i32 \<times> wm" where
  "woos_graphics_toggle_minimize window_id wm =
     (case win_find (\<lambda>w. win_id w = window_id) (g_windows wm) of
        None \<Rightarrow> (- 1, wm)
      | Some i \<Rightarrow>
          if has_flag WOOS_WIN_FLAG_MINIMIZED (g_windows wm ! i)
          then woos_graphics_bring_to_front window_id wm
          else
            let ws = (g_windows wm)[i := clear_flag WOOS_WIN_FLAG_FOCUSED
                       (set_flag WOOS_WIN_FLAG_MINIMIZED (g_windows wm ! i))];
                ws = (case win_rfind (\<lambda>w. \<not> has_flag WOOS_WIN_FLAG_MINIMIZED w) ws of
                        None \<Rightarrow> ws
                      | Some j \<Rightarrow> ws[j := set_flag WOOS_WIN_FLAG_FOCUSED (ws ! j)]) in
            (0, notify (wm\<lparr>g_windows := ws\<rparr>)))"

text \<open>The dimensions toggled to; \<open>video\<close> is the screen size, if known.\<close>

definition toggle_dimensions :: "(u16 \<times> u16) option \<Rightarrow> woos_window \<Rightarrow> woos_window" where
  "toggle_dimensions video w =
     (if has_flag WOOS_WIN_FLAG_MAXIMIZED w
      then clear_flag WOOS_WIN_FLAG_MAXIMIZED
             (w\<lparr>win_x := saved_x w, win_y := saved_y w, win_w := saved_w w, win_h := saved_h w\<rparr>)
      else
        let w = w\<lparr>saved_x := win_x w, saved_y := win_y w, saved_w := win_w w, saved_h := win_h w,
                  win_x := 0, win_y := 22\<rparr>;
            w = (case video of
                   None \<Rightarrow> w
                 | Some (width, height) \<Rightarrow>
                     if width > 0 \<and> height > 58
                     then w\<lparr>win_w := ucast width, win_h := ucast height - 58\<rparr> else w) in
        set_flag WOOS_WIN_FLAG_MAXIMIZED w)"

text \<open>The buffer is resized after the dimensions have been changed.\<close>

definition toggle_buffer :: "u32 \<Rightarrow> woos_window \<Rightarrow> kheap \<Rightarrow> (woos_window \<times> kheap) option" where
  "toggle_buffer old_size w heap =
     (if win_w w > 0 \<and> win_h w > 0 then
        let new_size = win_w w * win_h w * 4 in
        case kheap_realloc (win_buffer w) (ucast new_size) heap of
          None \<Rightarrow> None
        | Some (new_buf, heap) \<Rightarrow>
            if new_buf \<noteq> 0 then
              Some (w\<lparr>win_buffer := new_buf\<rparr>,
                if new_size > old_size
                then heap\<lparr>kheap_mem := memset (new_buf + ucast old_size) 0 (ucast (new_size - old_size))
                            (kheap_mem heap)\<rparr>
                else heap)
            else Some (w, heap)
      else Some (w, heap))"

definition woos_graphics_toggle_maximize :: "(u16 \<times> u16) option \<Rightarrow> u32 \<Rightarrow> wm \<Rightarrow> (i32 \<times> wm) option" where
  "woos_graphics_toggle_maximize video window_id wm =
     (case win_find (\<lambda>w. win_id w = window_id) (g_windows wm) of
        None \<Rightarrow> Some (- 1, wm)
      | Some i \<Rightarrow>
          let w = g_windows wm ! i in
          if win_title w = lit ''Calculator'' then Some (0, wm)
          else
            let is_max = (if has_flag WOOS_WIN_FLAG_MAXIMIZED w then 0 else 1);
                old_size = win_w w * win_h w * 4;
                w = toggle_dimensions video w in
            (case toggle_buffer old_size w (wm_heap wm) of
               None \<Rightarrow> None
             | Some (w', heap) \<Rightarrow>
                 let wm = wm\<lparr>g_windows := (g_windows wm)[i := w'], wm_heap := heap\<rparr>;
                     tid = win_thread_id w';
                     wm = snd (woos_graphics_bring_to_front window_id wm);
                     wm = (if tid > 0
                           then let (ipc, s) = snd (woos_ipc_send tid MSG_RESIZE (win_w w) (win_h w) is_max 0 0
                                                      (wm_ipc wm, wm_sched wm)) in
                                wm\<lparr>wm_ipc := ipc, wm_sched := s\<rparr>
                           else wm) in
                 Some (0, notify wm)))"

definition woos_graphics_get_window_count :: "wm \<Rightarrow> u32" where
  "woos_graphics_get_window_count wm = of_nat (length (g_windows wm))"

definition woos_graphics_get_window_info :: "u32 \<Rightarrow> wm \<Rightarrow> i32 \<times> woos_window option" where
  "woos_graphics_get_window_info index wm =
     (if unat index < length (g_windows wm) then (0, Some (g_windows wm ! unat index)) else (- 1, None))"

definition woos_graphics_get_focused_tid :: "wm \<Rightarrow> i32" where
  "woos_graphics_get_focused_tid wm =
     (case win_rfind (\<lambda>w. has_flag WOOS_WIN_FLAG_FOCUSED w \<and> \<not> has_flag WOOS_WIN_FLAG_MINIMIZED w)
             (g_windows wm) of
        None \<Rightarrow> - 1
      | Some i \<Rightarrow> win_thread_id (g_windows wm ! i))"

section \<open>Searching\<close>

lemma win_find_Some:
  "win_find P ws = Some i \<Longrightarrow> i < length ws \<and> P (ws ! i) \<and> (\<forall>j < i. \<not> P (ws ! j))"
proof (induction ws arbitrary: i)
  case (Cons w ws)
  show ?case
  proof (cases "P w")
    case False
    then obtain j where j: "win_find P ws = Some j" "i = Suc j"
      using Cons.prems by auto
    then show ?thesis
      using Cons.IH [OF j(1)] False by (auto simp: less_Suc_eq_0_disj)
  qed (use Cons.prems in simp)
qed simp

lemma win_find_None: "win_find P ws = None \<longleftrightarrow> (\<forall>w\<in>set ws. \<not> P w)"
  by (induction ws) auto

lemma win_rfind_Some:
  assumes "win_rfind P ws = Some i"
  shows "i < length ws \<and> P (ws ! i) \<and> (\<forall>j. i < j \<longrightarrow> j < length ws \<longrightarrow> \<not> P (ws ! j))"
proof -
  obtain k where k: "win_find P (rev ws) = Some k" "i = length ws - 1 - k"
    using assms by (auto simp: win_rfind_def)
  note f = win_find_Some [OF k(1)]
  have "\<not> P (ws ! j)" if "i < j" "j < length ws" for j
    using f that k(2) rev_nth [of "length ws - 1 - j" ws] by (auto dest!: conjunct2 spec [of _ "length ws - 1 - j"])
  then show ?thesis
    using f k(2) by (auto simp: rev_nth)
qed

lemma win_rfind_None: "win_rfind P ws = None \<longleftrightarrow> (\<forall>w\<in>set ws. \<not> P w)"
  by (simp add: win_rfind_def win_find_None)

lemma on_last_length [simp]: "length (on_last f ws) = length ws"
  by (simp add: on_last_def)

lemma notify_simps [simp]:
  "g_windows (notify wm) = g_windows wm" "g_next_window_id (notify wm) = g_next_window_id wm"
  "wm_heap (notify wm) = wm_heap wm" "wm_ipc (notify wm) = wm_ipc wm"
  by (simp_all add: notify_def Let_def case_prod_beta)

lemma destroy_window_length:
  assumes "woos_graphics_destroy_window i wm = Some (r, wm')" "\<exists>w\<in>set (g_windows wm). win_id w = i"
  shows "length (g_windows wm') < length (g_windows wm)"
proof -
  obtain k where k: "win_find (\<lambda>w. win_id w = i) (g_windows wm) = Some k"
    using assms(2) win_find_None [of "\<lambda>w. win_id w = i"] by (cases "win_find (\<lambda>w. win_id w = i) (g_windows wm)") auto
  then show ?thesis
    using assms(1) win_find_Some [OF k]
    by (auto simp: woos_graphics_destroy_window_def Let_def split: option.splits)
qed

text \<open>Until no window of the thread is left, or one has the id 0, which stands for none.\<close>

function woos_graphics_destroy_thread_windows :: "u32 \<Rightarrow> wm \<Rightarrow> (nat \<times> wm) option" where
  "woos_graphics_destroy_thread_windows thread_id wm =
     (let target_id = (case win_rfind (\<lambda>w. win_thread_id w = thread_id) (g_windows wm) of
                         None \<Rightarrow> 0 | Some i \<Rightarrow> win_id (g_windows wm ! i)) in
      if target_id = 0 then Some (0, wm)
      else
        case woos_graphics_destroy_window target_id wm of
          None \<Rightarrow> None
        | Some (r, wm) \<Rightarrow>
            map_option (\<lambda>(n, wm). (Suc n, wm)) (woos_graphics_destroy_thread_windows thread_id wm))"
  by pat_completeness auto
termination
proof (relation "measure (\<lambda>(t, wm). length (g_windows wm))")
  fix thread_id wm target_id x r and wm' :: wm
  assume a: "target_id = (case win_rfind (\<lambda>w. win_thread_id w = thread_id) (g_windows wm) of
      None \<Rightarrow> 0 | Some i \<Rightarrow> win_id (g_windows wm ! i))" "target_id \<noteq> 0"
    "woos_graphics_destroy_window target_id wm = Some x" "(r, wm') = x"
  then obtain i where i: "win_rfind (\<lambda>w. win_thread_id w = thread_id) (g_windows wm) = Some i"
    "target_id = win_id (g_windows wm ! i)"
    by (auto split: option.splits)
  then have "\<exists>w\<in>set (g_windows wm). win_id w = target_id"
    using win_rfind_Some [OF i(1)] by auto
  then have "length (g_windows wm') < length (g_windows wm)"
    using destroy_window_length a(3,4) by metis
  then show "((thread_id, wm'), thread_id, wm) \<in> measure (\<lambda>(t, wm). length (g_windows wm))"
    by simp
qed simp

declare woos_graphics_destroy_thread_windows.simps [simp del]

section \<open>Stacking and focus\<close>

lemma flag_bits:
  "WOOS_WIN_FLAG_MINIMIZED AND WOOS_WIN_FLAG_FOCUSED = 0"
  "WOOS_WIN_FLAG_MINIMIZED AND WOOS_WIN_FLAG_MINIMIZED \<noteq> 0"
  "WOOS_WIN_FLAG_FOCUSED AND WOOS_WIN_FLAG_FOCUSED \<noteq> 0"
  by (simp_all add: win_flags)

lemma has_set_flag [simp]: "f AND f \<noteq> 0 \<Longrightarrow> has_flag f (set_flag f w)"
  by (simp add: has_flag_def set_flag_def bit.conj_disj_distrib2)

lemma has_clear_flag [simp]: "\<not> has_flag f (clear_flag f w)"
  by (simp add: has_flag_def clear_flag_def and.assoc)

lemma has_other_flag:
  assumes "f AND g = 0"
  shows "has_flag f (set_flag g w) = has_flag f w" "has_flag f (clear_flag g w) = has_flag f w"
proof -
  have gf: "g AND f = 0"
    using assms by (simp add: and.commute)
  show "has_flag f (set_flag g w) = has_flag f w"
    by (simp add: has_flag_def set_flag_def bit.conj_disj_distrib2 gf)
  have "(win_flags w AND NOT g) AND f = win_flags w AND f"
  proof (rule bit_word_eqI)
    fix n
    assume n: "n < LENGTH(32)"
    have "\<not> bit (f AND g) n"
      using assms by simp
    then show "bit ((win_flags w AND NOT g) AND f) n = bit (win_flags w AND f) n"
      using n by (auto simp: bit_simps)
  qed
  then show "has_flag f (clear_flag g w) = has_flag f w"
    by (simp add: has_flag_def clear_flag_def)
qed

lemma flag_simps [simp]:
  "win_id (set_flag f w) = win_id w" "win_thread_id (set_flag f w) = win_thread_id w"
  "win_buffer (set_flag f w) = win_buffer w" "win_w (set_flag f w) = win_w w" "win_h (set_flag f w) = win_h w"
  "win_id (clear_flag f w) = win_id w" "win_thread_id (clear_flag f w) = win_thread_id w"
  "win_buffer (clear_flag f w) = win_buffer w" "win_w (clear_flag f w) = win_w w"
  "win_h (clear_flag f w) = win_h w"
  by (simp_all add: set_flag_def clear_flag_def)

text \<open>The list after a window was brought to the front.\<close>

lemma bring_to_front_windows:
  assumes i: "win_find (\<lambda>w. win_id w = window_id) (g_windows wm) = Some i"
  shows "g_windows (snd (woos_graphics_bring_to_front window_id wm)) =
    map (clear_flag WOOS_WIN_FLAG_FOCUSED) (take i (g_windows wm) @ drop (Suc i) (g_windows wm)) @
      [set_flag WOOS_WIN_FLAG_FOCUSED (clear_flag WOOS_WIN_FLAG_FOCUSED
         (clear_flag WOOS_WIN_FLAG_MINIMIZED (g_windows wm ! i)))]"
proof -
  let ?ws = "g_windows wm"
  have lt: "i < length ?ws"
    using win_find_Some [OF i] by simp
  let ?us = "map (clear_flag WOOS_WIN_FLAG_FOCUSED)
      (?ws[i := clear_flag WOOS_WIN_FLAG_MINIMIZED (?ws ! i)])"
  have us: "take i ?us = map (clear_flag WOOS_WIN_FLAG_FOCUSED) (take i ?ws)"
    "drop (Suc i) ?us = map (clear_flag WOOS_WIN_FLAG_FOCUSED) (drop (Suc i) ?ws)"
    "?us ! i = clear_flag WOOS_WIN_FLAG_FOCUSED (clear_flag WOOS_WIN_FLAG_MINIMIZED (?ws ! i))"
    using lt by (simp_all add: take_map drop_map)
  have "(if i < length ?us - 1 then take i ?us @ drop (Suc i) ?us @ [?us ! i] else ?us) =
      take i ?us @ drop (Suc i) ?us @ [?us ! i]"
  proof (cases "i < length ?us - 1")
    case False
    then have "Suc i = length ?us"
      using lt by simp
    then have "?us = take i ?us @ [?us ! i]" "drop (Suc i) ?us = []"
      using take_Suc_conv_app_nth [of i ?us] lt by simp_all
    then show ?thesis
      using False by simp
  qed simp
  then have "g_windows (snd (woos_graphics_bring_to_front window_id wm)) =
      on_last (set_flag WOOS_WIN_FLAG_FOCUSED) (take i ?us @ drop (Suc i) ?us @ [?us ! i])"
    by (simp only: woos_graphics_bring_to_front_def i option.case Let_def snd_conv notify_simps) simp
  then show ?thesis
    unfolding us by (simp add: on_last_def butlast_append)
qed

lemma win_rfind_last: "P (last ws) \<Longrightarrow> ws \<noteq> [] \<Longrightarrow> win_rfind P ws = Some (length ws - 1)"
  by (cases ws rule: rev_cases) (simp_all add: win_rfind_def)

section \<open>The buffers\<close>

definition dims :: "woos_window \<Rightarrow> u64 \<times> u32 \<times> u32" where
  "dims w = (win_buffer w, win_w w, win_h w)"

lemma dims_simps [simp]:
  "dims (set_flag f w) = dims w" "dims (clear_flag f w) = dims w"
  by (simp_all add: dims_def)

lemma dims_on_last [simp]: "(\<And>w. dims (f w) = dims w) \<Longrightarrow> map dims (on_last f ws) = map dims ws"
  by (cases ws rule: rev_cases) (simp_all add: on_last_def)

text \<open>Each buffer is a live block of its own, large enough for the pixels the window claims to have.\<close>

definition bufs_ok :: "kheap \<Rightarrow> (u64 \<times> u32 \<times> u32) list \<Rightarrow> bool" where
  "bufs_ok heap ds \<longleftrightarrow> distinct (map fst ds) \<and>
     (\<forall>(b, w, h)\<in>set ds. b \<noteq> 0 \<and> (\<exists>m. (unat b, m) \<in> live heap \<and> unat (w * h * 4) \<le> m))"

definition wm_ok :: "wm \<Rightarrow> bool" where
  "wm_ok wm \<longleftrightarrow> heap_inv (wm_heap wm) \<and> length (g_windows wm) \<le> MAX_WINDOWS \<and>
     bufs_ok (wm_heap wm) (map dims (g_windows wm))"

lemma distinct_submset:
  assumes "mset xs \<subseteq># mset ys" "distinct ys"
  shows "distinct xs"
  unfolding distinct_count_atmost_1
proof
  fix a
  have "count (mset xs) a \<le> count (mset ys) a"
    using assms(1) by (simp add: mset_subset_eq_count)
  moreover have "count (mset ys) a \<le> 1"
    using assms(2) by (simp add: distinct_count_atmost_1)
  moreover have "count (mset xs) a = 0 \<longleftrightarrow> a \<notin> set xs"
    by (simp add: not_in_iff [symmetric])
  ultimately show "count (mset xs) a = (if a \<in> set xs then 1 else 0)"
    by (cases "a \<in> set xs"; simp only: if_True if_False; linarith)
qed

lemma bufs_ok_subset:
  assumes "mset ds \<subseteq># mset es" "bufs_ok heap es"
  shows "bufs_ok heap ds"
proof -
  have "mset (map fst ds) \<subseteq># mset (map fst es)"
    using image_mset_subseteq_mono [OF assms(1), of fst] by simp
  then have "distinct (map fst ds)"
    using assms(2) unfolding bufs_ok_def by (blast intro: distinct_submset)
  moreover have "set ds \<subseteq> set es"
    using set_mset_mono [OF assms(1)] by simp
  ultimately show ?thesis
    using assms(2) unfolding bufs_ok_def by blast
qed

lemma bufs_ok_live:
  assumes "bufs_ok heap ds" "\<And>b w h m. (b, w, h) \<in> set ds \<Longrightarrow> (unat b, m) \<in> live heap \<Longrightarrow> (unat b, m) \<in> live heap'"
  shows "bufs_ok heap' ds"
  using assms unfolding bufs_ok_def by fastforce

lemma wm_ok_windows:
  assumes "wm_ok wm" "mset (map dims (g_windows wm')) \<subseteq># mset (map dims (g_windows wm))"
    "wm_heap wm' = wm_heap wm"
  shows "wm_ok wm'"
proof -
  have "size (mset (map dims (g_windows wm'))) \<le> size (mset (map dims (g_windows wm)))"
    by (rule size_mset_mono [OF assms(2)])
  then show ?thesis
    using assms bufs_ok_subset [OF assms(2)] by (simp add: wm_ok_def)
qed

lemma mset_remove_nth: "i < length xs \<Longrightarrow> mset xs = add_mset (xs ! i) (mset (take i xs @ drop (Suc i) xs))"
  using id_take_nth_drop [of i xs] by (metis mset.simps(2) mset_append union_mset_add_mset_right)

lemma wm_ok_front:
  assumes "wm_ok wm"
  shows "wm_ok (snd (woos_graphics_bring_to_front i wm))"
proof (cases "win_find (\<lambda>w. win_id w = i) (g_windows wm)")
  case None
  then show ?thesis
    using assms by (simp add: woos_graphics_bring_to_front_def)
next
  case (Some k)
  have "mset (map dims (g_windows (snd (woos_graphics_bring_to_front i wm)))) = mset (map dims (g_windows wm))"
    using mset_remove_nth [of k "map dims (g_windows wm)"] win_find_Some [OF Some]
    by (simp add: bring_to_front_windows [OF Some] take_map drop_map o_def)
  moreover have "wm_heap (snd (woos_graphics_bring_to_front i wm)) = wm_heap wm"
    by (simp add: woos_graphics_bring_to_front_def Some Let_def)
  ultimately show ?thesis
    using wm_ok_windows [OF assms] by simp
qed

lemma wm_ok_at_window:
  assumes "wm_ok wm" "\<And>w. dims (f w) = dims w"
  shows "wm_ok (snd (at_window i f wm))"
proof (cases "win_find (\<lambda>w. win_id w = i) (g_windows wm)")
  case (Some k)
  then have "map dims ((g_windows wm)[k := f (g_windows wm ! k)]) = map dims (g_windows wm)"
    using assms(2) by (simp add: map_update list_update_same_conv win_find_Some)
  then show ?thesis
    using assms(1) by (intro wm_ok_windows [OF assms(1)]) (simp_all add: at_window_def Some)
qed (use assms in \<open>simp add: at_window_def\<close>)

lemma map_dims_update: "i < length ws \<Longrightarrow> dims w = dims (ws ! i) \<Longrightarrow> map dims (ws[i := w]) = map dims ws"
  by (simp add: map_update list_update_same_conv)

lemma wm_ok_minimize:
  assumes "wm_ok wm"
  shows "wm_ok (snd (woos_graphics_toggle_minimize i wm))"
proof (cases "win_find (\<lambda>w. win_id w = i) (g_windows wm)")
  case None
  then show ?thesis
    using assms by (simp add: woos_graphics_toggle_minimize_def)
next
  case (Some k)
  let ?ws = "(g_windows wm)[k := clear_flag WOOS_WIN_FLAG_FOCUSED
      (set_flag WOOS_WIN_FLAG_MINIMIZED (g_windows wm ! k))]"
  let ?us = "case win_rfind (\<lambda>w. \<not> has_flag WOOS_WIN_FLAG_MINIMIZED w) ?ws of
      None \<Rightarrow> ?ws | Some j \<Rightarrow> ?ws[j := set_flag WOOS_WIN_FLAG_FOCUSED (?ws ! j)]"
  have ws: "map dims ?ws = map dims (g_windows wm)"
    using win_find_Some [OF Some] by (intro map_dims_update) auto
  have "map dims ?us = map dims ?ws"
    by (auto split: option.split intro!: map_dims_update dest: win_rfind_Some)
  then show ?thesis
    using wm_ok_front [OF assms] ws
    by (auto simp: woos_graphics_toggle_minimize_def Some Let_def intro!: wm_ok_windows [OF assms])
qed

section \<open>Creation and destruction\<close>

lemma unat_buffer_size: "unat (ucast (n :: u32) :: u64) = unat n" "unat (ucast (n :: u32) :: u64) + 15 < 2 ^ 64"
proof -
  show "unat (ucast n :: u64) = unat n"
    by (rule unat_ucast_up) simp
  then show "unat (ucast n :: u64) + 15 < 2 ^ 64"
    using unsigned_less [of n, where 'a = nat] by simp
qed

lemma wm_ok_create:
  assumes ok: "wm_ok wm"
  shows "\<exists>r wm'. woos_graphics_create_window_ex w h title flags wm = Some (r, wm') \<and> wm_ok wm' \<and>
    (r = - 1 \<and> g_windows wm' = g_windows wm \<and> live (wm_heap wm') = live (wm_heap wm) \<or>
     r = g_next_window_id wm \<and> (\<exists>win. g_windows wm' = map (clear_flag WOOS_WIN_FLAG_FOCUSED) (g_windows wm) @ [win] \<and>
       win_id win = r \<and> has_flag WOOS_WIN_FLAG_FOCUSED win \<and>
       win_thread_id win = sched_current_thread_id (wm_sched wm)))"
proof -
  let ?n = "ucast (w * h * 4) :: u64"
  obtain p heap where a: "kheap_alloc ?n (wm_heap wm) = Some (p, heap)" "heap_inv heap"
    "p = 0 \<longrightarrow> heap = wm_heap wm"
    "p \<noteq> 0 \<longrightarrow> unat p \<notin> fst ` live (wm_heap wm) \<and>
       (\<exists>m \<ge> unat ?n. live heap = insert (unat p, m) (live (wm_heap wm)))"
    using kernel_heap.alloc_returns [of "wm_heap wm" ?n] ok unat_buffer_size(2) by (auto simp: wm_ok_def)
  show ?thesis
  proof (cases "p = 0")
    case True
    then show ?thesis
      using a ok by (simp add: woos_graphics_create_window_ex_def wm_ok_def)
  next
    case False
    then obtain m where m: "unat p \<notin> fst ` live (wm_heap wm)" "unat (w * h * 4) \<le> m"
      "live heap = insert (unat p, m) (live (wm_heap wm))"
      using a(4) unat_buffer_size(1) by auto
    define heap' where "heap' = heap\<lparr>kheap_mem := memset p 0 ?n (kheap_mem heap)\<rparr>"
    have h': "heap_inv heap'" "live heap' = insert (unat p, m) (live (wm_heap wm))"
      using a(2) m(3) by (simp_all add: heap'_def)
    show ?thesis
    proof (cases "length (g_windows wm) \<ge> MAX_WINDOWS")
      case True
      obtain heap'' where f: "kheap_free p heap' = Some heap''" "heap_inv heap''"
        "live heap'' = live heap' - {(unat p, m)}"
        using kernel_heap.release_live [OF h'(1), of p m] h'(2) by auto
      have "live heap'' = live (wm_heap wm)"
        using f(3) h'(2) m(1) by force
      then show ?thesis
        using True False a(1) f ok bufs_ok_live [of "wm_heap wm" _ heap'']
        by (auto simp: woos_graphics_create_window_ex_def wm_ok_def heap'_def [symmetric])
    next
      case room: False
      let ?i = "g_next_window_id wm"
      define win where "win = \<lparr>win_id = ?i, win_thread_id = sched_current_thread_id (wm_sched wm),
        win_x = 80 + (?i * 35) mod 400, win_y = 70 + (?i * 25) mod 250, win_w = w, win_h = h,
        win_flags = flags OR WOOS_WIN_FLAG_FOCUSED, saved_x = 80 + (?i * 35) mod 400,
        saved_y = 70 + (?i * 25) mod 250, saved_w = w, saved_h = h, win_title = window_title title,
        win_active = 1, win_buffer = p\<rparr>"
      let ?ws = "map (clear_flag WOOS_WIN_FLAG_FOCUSED) (g_windows wm) @ [win]"
      have eq: "woos_graphics_create_window_ex w h title flags wm =
          Some (?i, notify (wm\<lparr>g_windows := ?ws, g_next_window_id := ?i + 1, wm_heap := heap'\<rparr>))"
        using False room a(1) by (simp add: woos_graphics_create_window_ex_def heap'_def win_def Let_def)
      have "bufs_ok heap' (map dims (g_windows wm))"
        by (rule bufs_ok_live [of "wm_heap wm"]) (use ok h'(2) in \<open>auto simp: wm_ok_def\<close>)
      moreover have "p \<noteq> win_buffer x" if "x \<in> set (g_windows wm)" for x
        using ok m(1) that unfolding wm_ok_def bufs_ok_def by (force simp: dims_def)
      ultimately have "bufs_ok heap' (map dims ?ws)"
        using False h'(2) m(2) by (auto simp: bufs_ok_def dims_def win_def o_def)
      then have "wm_ok (notify (wm\<lparr>g_windows := ?ws, g_next_window_id := ?i + 1, wm_heap := heap'\<rparr>))"
        using room h'(1) by (simp add: wm_ok_def)
      moreover have "win = set_flag WOOS_WIN_FLAG_FOCUSED (win\<lparr>win_flags := flags\<rparr>)"
        by (simp add: win_def set_flag_def)
      then have "has_flag WOOS_WIN_FLAG_FOCUSED win"
        using has_set_flag [OF flag_bits(3)] by metis
      moreover have "win_id win = ?i" "win_thread_id win = sched_current_thread_id (wm_sched wm)"
        by (simp_all add: win_def)
      ultimately show ?thesis
        unfolding eq by auto
    qed
  qed
qed

lemma destroy_window_effect:
  assumes ok: "wm_ok wm" and i: "win_find (\<lambda>w. win_id w = window_id) (g_windows wm) = Some i"
  shows "\<exists>wm'. woos_graphics_destroy_window window_id wm = Some (0, wm') \<and> wm_ok wm' \<and>
    g_windows wm' = on_last (set_flag WOOS_WIN_FLAG_FOCUSED) (take i (g_windows wm) @ drop (Suc i) (g_windows wm)) \<and>
    live (wm_heap wm') = {(p, m) \<in> live (wm_heap wm). p \<noteq> unat (win_buffer (g_windows wm ! i))}"
proof -
  let ?ws = "g_windows wm" and ?b = "win_buffer (g_windows wm ! i)"
  let ?rest = "take i ?ws @ drop (Suc i) ?ws"
  have lt: "i < length ?ws"
    using win_find_Some [OF i] by simp
  have heap: "heap_inv (wm_heap wm)" and bufs: "bufs_ok (wm_heap wm) (map dims ?ws)"
    using ok by (simp_all add: wm_ok_def)
  have "dims (?ws ! i) \<in> set (map dims ?ws)"
    using lt by simp
  then obtain m where m: "?b \<noteq> 0" "(unat ?b, m) \<in> live (wm_heap wm)"
    using bufs unfolding bufs_ok_def dims_def by fastforce
  obtain heap' where f: "kheap_free ?b (wm_heap wm) = Some heap'" "heap_inv heap'"
    "live heap' = live (wm_heap wm) - {(unat ?b, m)}"
    using kernel_heap.release_live [OF heap m(2)] by auto
  have live: "live heap' = {(p, k) \<in> live (wm_heap wm). p \<noteq> unat ?b}"
    using f(3) live_fun [OF m(2)] by auto
  define wm' where "wm' = notify (wm\<lparr>g_windows := on_last (set_flag WOOS_WIN_FLAG_FOCUSED) ?rest, wm_heap := heap'\<rparr>)"
  have eq: "woos_graphics_destroy_window window_id wm = Some (0, wm')"
    using m(1) f(1) by (simp add: woos_graphics_destroy_window_def i Let_def wm'_def)
  have ms: "mset (map dims ?ws) = add_mset (dims (?ws ! i)) (mset (map dims ?rest))"
    using mset_remove_nth [of i "map dims ?ws"] lt by (simp add: take_map drop_map)
  then have sub: "bufs_ok (wm_heap wm) (map dims ?rest)"
    by (intro bufs_ok_subset [OF _ bufs]) simp
  have "distinct (map fst (dims (?ws ! i) # map dims ?rest))"
  proof (rule distinct_submset [of _ "map fst (map dims ?ws)"])
    have "image_mset fst (mset (dims (?ws ! i) # map dims ?rest)) = image_mset fst (mset (map dims ?ws))"
      by (simp only: ms mset.simps)
    then show "mset (map fst (dims (?ws ! i) # map dims ?rest)) \<subseteq># mset (map fst (map dims ?ws))"
      by (simp only: mset_map [of fst] subset_mset.order_refl)
  qed (use bufs in \<open>simp add: bufs_ok_def\<close>)
  then have ne: "b \<noteq> ?b" if "(b, w, h) \<in> set (map dims ?rest)" for b w h
    using that by (force simp: dims_def)
  have "bufs_ok heap' (map dims ?rest)"
    by (rule bufs_ok_live [OF sub]) (use ne live in \<open>auto simp: word_unat_eq_iff\<close>)
  then have "wm_ok wm'"
    using f(2) ok lt by (auto simp: wm'_def wm_ok_def)
  then show ?thesis
    using eq live by (simp add: wm'_def)
qed

lemma wm_ok_destroy:
  assumes "wm_ok wm"
  shows "\<exists>r wm'. woos_graphics_destroy_window i wm = Some (r, wm') \<and> wm_ok wm'"
proof (cases "win_find (\<lambda>w. win_id w = i) (g_windows wm)")
  case (Some k)
  then show ?thesis
    using destroy_window_effect [OF assms Some] by blast
qed (use assms in \<open>simp add: woos_graphics_destroy_window_def\<close>)

lemma wm_ok_destroy_thread:
  "wm_ok wm \<Longrightarrow> \<exists>n wm'. woos_graphics_destroy_thread_windows t wm = Some (n, wm') \<and> wm_ok wm'"
proof (induction t wm rule: woos_graphics_destroy_thread_windows.induct)
  case (1 t wm)
  let ?target = "case win_rfind (\<lambda>w. win_thread_id w = t) (g_windows wm) of
      None \<Rightarrow> 0 | Some i \<Rightarrow> win_id (g_windows wm ! i)"
  show ?case
  proof (cases "?target = 0")
    case True
    then show ?thesis
      using "1.prems" by (subst woos_graphics_destroy_thread_windows.simps) (simp add: Let_def)
  next
    case False
    obtain r wm1 where d: "woos_graphics_destroy_window ?target wm = Some (r, wm1)" "wm_ok wm1"
      using wm_ok_destroy [OF "1.prems"] by blast
    obtain n wm' where "woos_graphics_destroy_thread_windows t wm1 = Some (n, wm')" "wm_ok wm'"
      using "1.IH" [OF refl False d(1) refl d(2)] by blast
    then show ?thesis
      using False d(1) by (subst woos_graphics_destroy_thread_windows.simps) (simp add: Let_def)
  qed
qed

text \<open>What the table says of a window apart from its place on the screen.\<close>

definition core :: "woos_window \<Rightarrow> u32 \<times> u32 \<times> u64 \<times> u32 \<times> u32" where
  "core w = (win_id w, win_thread_id w, dims w)"

lemma core_on_last [simp]: "map core (on_last (set_flag f) ws) = map core ws"
  by (cases ws rule: rev_cases) (simp_all add: on_last_def core_def)

lemma core_facts:
  assumes "map core us = map core ws"
  shows "map win_id us = map win_id ws"
    "length (filter (\<lambda>w. win_thread_id w = t) us) = length (filter (\<lambda>w. win_thread_id w = t) ws)"
    "map core (filter (\<lambda>w. win_thread_id w \<noteq> t) us) = map core (filter (\<lambda>w. win_thread_id w \<noteq> t) ws)"
    "win_buffer ` {w \<in> set us. win_thread_id w = t} = win_buffer ` {w \<in> set ws. win_thread_id w = t}"
    "(\<forall>w\<in>set us. win_thread_id w = t \<longrightarrow> win_id w \<noteq> 0) = (\<forall>w\<in>set ws. win_thread_id w = t \<longrightarrow> win_id w \<noteq> 0)"
proof -
  have "list_all2 (\<lambda>u w. core u = core w) us ws"
    using assms by (simp add: list.rel_eq [symmetric] list_all2_map1 list_all2_map2)
  then show "map win_id us = map win_id ws"
    "length (filter (\<lambda>w. win_thread_id w = t) us) = length (filter (\<lambda>w. win_thread_id w = t) ws)"
    "map core (filter (\<lambda>w. win_thread_id w \<noteq> t) us) = map core (filter (\<lambda>w. win_thread_id w \<noteq> t) ws)"
    "win_buffer ` {w \<in> set us. win_thread_id w = t} = win_buffer ` {w \<in> set ws. win_thread_id w = t}"
    "(\<forall>w\<in>set us. win_thread_id w = t \<longrightarrow> win_id w \<noteq> 0) = (\<forall>w\<in>set ws. win_thread_id w = t \<longrightarrow> win_id w \<noteq> 0)"
  proof (induction rule: list_all2_induct)
    case (Cons u us w ws)
    have e: "win_id u = win_id w" "win_thread_id u = win_thread_id w" "win_buffer u = win_buffer w"
      using Cons.hyps(1) by (simp_all add: core_def dims_def)
    {
      case 4
      have *: "win_buffer ` {x \<in> set (v # vs). win_thread_id x = t} =
          (if win_thread_id v = t then {win_buffer v} else {}) \<union>
          win_buffer ` {x \<in> set vs. win_thread_id x = t}" for v vs
        by auto
      show ?case
        unfolding * using e Cons.IH(4) by simp
    }
  qed (auto simp: core_def dims_def)
qed

lemma win_find_distinct:
  assumes "distinct (map win_id ws)" "i < length ws"
  shows "win_find (\<lambda>w. win_id w = win_id (ws ! i)) ws = Some i"
proof (cases "win_find (\<lambda>w. win_id w = win_id (ws ! i)) ws")
  case None
  then show ?thesis
    using assms(2) by (auto simp: win_find_None)
next
  case (Some j)
  then have "j < length ws" "win_id (ws ! j) = win_id (ws ! i)"
    using win_find_Some [OF Some] by auto
  then have "j = i"
    using assms nth_eq_iff_index_eq [of "map win_id ws" j i] by simp
  then show ?thesis
    using Some by simp
qed

lemma destroy_thread_effect:
  "wm_ok wm \<Longrightarrow> distinct (map win_id (g_windows wm)) \<Longrightarrow>
   \<forall>w\<in>set (g_windows wm). win_thread_id w = t \<longrightarrow> win_id w \<noteq> 0 \<Longrightarrow>
   \<exists>wm'. woos_graphics_destroy_thread_windows t wm =
       Some (length (filter (\<lambda>w. win_thread_id w = t) (g_windows wm)), wm') \<and> wm_ok wm' \<and>
     map core (g_windows wm') = map core (filter (\<lambda>w. win_thread_id w \<noteq> t) (g_windows wm)) \<and>
     live (wm_heap wm') = {(p, m) \<in> live (wm_heap wm).
       p \<notin> unat ` win_buffer ` {w \<in> set (g_windows wm). win_thread_id w = t}}"
proof (induction "length (g_windows wm)" arbitrary: wm rule: less_induct)
  case less
  let ?ws = "g_windows wm" and ?P = "\<lambda>w. win_thread_id w = t"
  show ?case
  proof (cases "win_rfind ?P ?ws")
    case None
    then have no: "\<forall>w\<in>set ?ws. \<not> ?P w"
      by (simp add: win_rfind_None)
    then have "filter ?P ?ws = []" "filter (\<lambda>w. \<not> ?P w) ?ws = ?ws" "{w \<in> set ?ws. ?P w} = {}"
      by (auto simp: filter_empty_conv filter_id_conv)
    then show ?thesis
      using None less.prems(1) no by (subst woos_graphics_destroy_thread_windows.simps) auto
  next
    case (Some i)
    have i: "i < length ?ws" "?P (?ws ! i)"
      using win_rfind_Some [OF Some] by auto
    let ?rest = "take i ?ws @ drop (Suc i) ?ws"
    have f: "win_find (\<lambda>w. win_id w = win_id (?ws ! i)) ?ws = Some i"
      by (rule win_find_distinct [OF less.prems(2) i(1)])
    obtain wm1 where d: "woos_graphics_destroy_window (win_id (?ws ! i)) wm = Some (0, wm1)" "wm_ok wm1"
      "g_windows wm1 = on_last (set_flag WOOS_WIN_FLAG_FOCUSED) ?rest"
      "live (wm_heap wm1) = {(p, m) \<in> live (wm_heap wm). p \<noteq> unat (win_buffer (?ws ! i))}"
      using destroy_window_effect [OF less.prems(1) f] by blast
    have c: "map core (g_windows wm1) = map core ?rest"
      by (simp only: d(3) core_on_last)
    note cf = core_facts(1) [OF c] core_facts(2-5) [OF c, of t]
    have split: "?ws = take i ?ws @ ?ws ! i # drop (Suc i) ?ws"
      by (rule id_take_nth_drop [OF i(1)])
    have "distinct (map win_id (take i ?ws @ ?ws ! i # drop (Suc i) ?ws))"
      using less.prems(2) split by simp
    then have dist: "distinct (map win_id (g_windows wm1))"
      unfolding cf(1) by auto
    have "set ?ws = insert (?ws ! i) (set ?rest)"
      by (subst split) auto
    then have sub: "set ?rest \<subseteq> set ?ws"
      "{w \<in> set ?ws. ?P w} = insert (?ws ! i) {w \<in> set ?rest. ?P w}"
      using i(2) by auto
    have nz: "\<forall>w\<in>set (g_windows wm1). win_thread_id w = t \<longrightarrow> win_id w \<noteq> 0"
      unfolding cf(5) using less.prems(3) sub(1) by blast
    have count: "length (filter ?P ?ws) = Suc (length (filter ?P (g_windows wm1)))"
      unfolding cf(2) using i(2) by (subst split) simp
    have "length (g_windows wm1) < length ?ws"
      using i(1) by (simp add: d(3))
    from less.hyps [OF this d(2) dist nz] obtain wm' where
      r: "woos_graphics_destroy_thread_windows t wm1 = Some (length (filter ?P (g_windows wm1)), wm')"
      "wm_ok wm'" "map core (g_windows wm') = map core (filter (\<lambda>w. \<not> ?P w) (g_windows wm1))"
      "live (wm_heap wm') = {(p, m) \<in> live (wm_heap wm1).
         p \<notin> unat ` win_buffer ` {w \<in> set (g_windows wm1). ?P w}}"
      by blast
    have "filter (\<lambda>w. \<not> ?P w) ?ws = filter (\<lambda>w. \<not> ?P w) ?rest"
      using i(2) by (subst split) simp
    then have "map core (g_windows wm') = map core (filter (\<lambda>w. \<not> ?P w) ?ws)"
      using r(3) cf(3) by simp
    moreover have "live (wm_heap wm') = {(p, m) \<in> live (wm_heap wm).
       p \<notin> unat ` win_buffer ` {w \<in> set ?ws. ?P w}}"
      unfolding r(4) cf(4) sub(2) d(4) by auto
    moreover have "win_id (?ws ! i) \<noteq> 0"
      using less.prems(3) i by auto
    then have "woos_graphics_destroy_thread_windows t wm = Some (length (filter ?P ?ws), wm')"
      using Some d(1) r(1) count
      by (subst woos_graphics_destroy_thread_windows.simps) (simp add: Let_def)
    ultimately show ?thesis
      using r(2) by blast
  qed
qed

section \<open>Maximising\<close>

lemma toggle_dims_buffer [simp]:
  "win_buffer (toggle_dimensions v w) = win_buffer w" "win_id (toggle_dimensions v w) = win_id w"
  "win_thread_id (toggle_dimensions v w) = win_thread_id w"
  by (auto simp: toggle_dimensions_def Let_def set_flag_def clear_flag_def split: option.split)

lemma front_heap [simp]: "wm_heap (snd (woos_graphics_bring_to_front window_id x)) = wm_heap x"
  by (simp add: woos_graphics_bring_to_front_def Let_def split: option.split)

text \<open>What \<^verbatim>\<open>toggle_maximize\<close> leaves in the table and the heap, in terms of the resized window.\<close>

lemma win_find_update:
  "win_find P ws = Some k \<Longrightarrow> P w = P (ws ! k) \<Longrightarrow> win_find P (ws[k := w]) = Some k"
  by (induction ws arbitrary: k) (auto split: if_splits)

lemma toggle_maximize_effect:
  assumes i: "win_find (\<lambda>w. win_id w = window_id) (g_windows wm) = Some i"
    and title: "win_title (g_windows wm ! i) \<noteq> lit ''Calculator''"
    and buf: "toggle_buffer (win_w (g_windows wm ! i) * win_h (g_windows wm ! i) * 4)
                (toggle_dimensions video (g_windows wm ! i)) (wm_heap wm) = Some (w', heap)"
  shows "\<exists>wm'. woos_graphics_toggle_maximize video window_id wm = Some (0, wm') \<and> wm_heap wm' = heap \<and>
           g_windows wm' = g_windows (snd (woos_graphics_bring_to_front window_id
             (wm\<lparr>g_windows := (g_windows wm)[i := w'], wm_heap := heap\<rparr>)))"
  using title buf by (simp add: woos_graphics_toggle_maximize_def i Let_def case_prod_beta)

lemma toggle_buffer_id: "toggle_buffer n w heap = Some (w', heap') \<Longrightarrow>
   win_id w' = win_id w \<and> win_w w' = win_w w \<and> win_h w' = win_h w"
  by (auto simp: toggle_buffer_def Let_def split: if_splits option.splits)

lemma wm_ok_update_window:
  assumes ok: "wm_ok wm" and i: "i < length (g_windows wm)"
    and heap: "heap_inv heap" and w': "win_buffer w' \<noteq> 0"
    and m: "(unat (win_buffer w'), m) \<in> live heap" "unat (win_w w' * win_h w' * 4) \<le> m"
    and live: "live heap \<supseteq> {(p, k) \<in> live (wm_heap wm). p \<noteq> unat (win_buffer (g_windows wm ! i))}"
    and fresh: "win_buffer w' = win_buffer (g_windows wm ! i) \<or> unat (win_buffer w') \<notin> fst ` live (wm_heap wm)"
  shows "wm_ok (wm\<lparr>g_windows := (g_windows wm)[i := w'], wm_heap := heap\<rparr>)"
proof -
  let ?ws = "g_windows wm" and ?b = "win_buffer (g_windows wm ! i)"
  have bufs: "bufs_ok (wm_heap wm) (map dims ?ws)"
    using ok by (simp add: wm_ok_def)
  then have dist: "distinct (map win_buffer ?ws)"
    by (simp add: bufs_ok_def dims_def o_def)
  have other: "win_buffer (?ws ! j) \<noteq> ?b" if "j < length ?ws" "j \<noteq> i" for j
    using nth_eq_iff_index_eq [OF dist, of j i] that i by simp
  have was: "win_buffer x \<noteq> 0 \<and> (\<exists>k. (unat (win_buffer x), k) \<in> live (wm_heap wm) \<and>
      unat (win_w x * win_h x * 4) \<le> k)" if "x \<in> set ?ws" for x
    using bufs that by (auto simp: bufs_ok_def dims_def)
  have neq: "win_buffer (?ws ! j) \<noteq> win_buffer w'" if "j < length ?ws" "j \<noteq> i" for j
  proof -
    have "?ws ! j \<in> set ?ws"
      using that(1) by simp
    then obtain k where "(unat (win_buffer (?ws ! j)), k) \<in> live (wm_heap wm)"
      using was by blast
    then show ?thesis
      using fresh other [OF that] by force
  qed
  have "distinct (map win_buffer (?ws[i := w']))"
  proof (subst distinct_conv_nth, intro allI impI)
    fix j k
    assume jk: "j < length (map win_buffer (?ws[i := w']))" "k < length (map win_buffer (?ws[i := w']))" "j \<noteq> k"
    then show "map win_buffer (?ws[i := w']) ! j \<noteq> map win_buffer (?ws[i := w']) ! k"
      using nth_eq_iff_index_eq [OF dist, of j k] neq [of j] neq [of k] i
      by (auto simp: nth_list_update)
  qed
  moreover have "win_buffer x \<noteq> 0 \<and> (\<exists>k. (unat (win_buffer x), k) \<in> live heap \<and>
      unat (win_w x * win_h x * 4) \<le> k)" if "x \<in> set (?ws[i := w'])" for x
  proof -
    from that have "\<exists>j < length ?ws. x = (if j = i then w' else ?ws ! j)"
      using i by (auto simp: in_set_conv_nth nth_list_update)
    then obtain j where j: "j < length ?ws" "x = (if j = i then w' else ?ws ! j)"
      by blast
    show ?thesis
    proof (cases "j = i")
      case False
      then have "unat (win_buffer x) \<noteq> unat ?b" "x \<in> set ?ws"
        using other [OF j(1)] j by (auto simp: word_unat_eq_iff)
      then show ?thesis
        using was [of x] live by blast
    qed (use j w' m in auto)
  qed
  ultimately show ?thesis
    using ok heap by (auto simp: wm_ok_def bufs_ok_def dims_def o_def)
qed

lemma wm_ok_maximize:
  assumes ok: "wm_ok wm" and i: "win_find (\<lambda>w. win_id w = window_id) (g_windows wm) = Some i"
    and title: "win_title (g_windows wm ! i) \<noteq> lit ''Calculator''"
    and pos: "win_w d > 0" "win_h d > 0" and d: "d = toggle_dimensions video (g_windows wm ! i)"
    and new: "kheap_realloc (win_buffer d) (ucast (win_w d * win_h d * 4)) (wm_heap wm) = Some (p, heap)" "p \<noteq> 0"
  shows "\<exists>wm'. woos_graphics_toggle_maximize video window_id wm = Some (0, wm') \<and> wm_ok wm'"
proof -
  let ?w = "g_windows wm ! i" and ?sz = "ucast (win_w d * win_h d * 4) :: u64"
  have lt: "i < length (g_windows wm)"
    using win_find_Some [OF i] by simp
  have hi: "heap_inv (wm_heap wm)" and bufs: "bufs_ok (wm_heap wm) (map dims (g_windows wm))"
    using ok by (simp_all add: wm_ok_def)
  have "dims ?w \<in> set (map dims (g_windows wm))"
    using lt by simp
  then obtain n where n: "win_buffer ?w \<noteq> 0" "(unat (win_buffer ?w), n) \<in> live (wm_heap wm)"
    using bufs by (auto simp: bufs_ok_def dims_def)
  have b: "win_buffer d = win_buffer ?w"
    by (simp add: d)
  obtain w' heap' where tb: "toggle_buffer (win_w ?w * win_h ?w * 4) d (wm_heap wm) = Some (w', heap')"
    "w' = d\<lparr>win_buffer := p\<rparr>" "live heap' = live heap" "heap_inv heap' = heap_inv heap"
    using pos new by (auto simp: toggle_buffer_def Let_def)
  have nz: "?sz \<noteq> 0"
  proof
    assume "?sz = 0"
    then show False
      using new n(1) b by (auto simp: kheap_realloc_def)
  qed
  have cur: "unat (block_payload_size (kheap_hdr (wm_heap wm) (win_buffer ?w - sizeof_kheap_block))) = n"
    by (rule live_payload_size [OF hi n(2)])
  have "wm_ok (wm\<lparr>g_windows := (g_windows wm)[i := w'], wm_heap := heap'\<rparr>)"
  proof (cases "unat ?sz \<le> n")
    case True
    then have "p = win_buffer ?w" "heap = wm_heap wm"
      using new n(1) nz cur b by (auto simp: kheap_realloc_def Let_def word_le_nat_alt)
    then show ?thesis
      using True hi n tb unat_buffer_size(1)
      by (intro wm_ok_update_window [OF ok lt, of heap' w' n]) auto
  next
    case False
    obtain q st1 where al: "kheap_alloc ?sz (wm_heap wm) = Some (q, st1)" "q = 0 \<longrightarrow> st1 = wm_heap wm"
      "q \<noteq> 0 \<longrightarrow> unat q \<notin> fst ` live (wm_heap wm)"
      using kernel_heap.alloc_returns [OF hi unat_buffer_size(2)] by blast
    have q: "q \<noteq> 0"
    proof
      assume "q = 0"
      then show False
        using new n(1) nz cur b False al(1,2) by (auto simp: kheap_realloc_def Let_def word_le_nat_alt)
    qed
    obtain st' m where r: "kheap_realloc (win_buffer ?w) ?sz (wm_heap wm) = Some (q, st')" "heap_inv st'"
      "unat ?sz \<le> m" "live st' = insert (unat q, m) (live (wm_heap wm) - {(unat (win_buffer ?w), n)})"
      using kheap_realloc_moves [OF hi n(2,1) _ unat_buffer_size(2) al(1) q] False by auto
    then have "p = q" "heap = st'"
      using new(1) b by auto
    then show ?thesis
      using r tb al(3) q unat_buffer_size(1) live_fun [OF n(2)]
      by (intro wm_ok_update_window [OF ok lt, of heap' w' m]) auto
  qed
  from wm_ok_front [OF this, of window_id] show ?thesis
    using toggle_maximize_effect [OF i title tb(1) [unfolded d]] by (auto simp: wm_ok_def)
qed

section \<open>Maximising without memory\<close>

lemma live_size:
  assumes "(p, m) \<in> live heap"
  shows "m \<le> 128 * 1024 * 1024"
proof -
  obtain bs where "heap_ok heap bs" "(p, m) \<in> allocs heap bs"
    using assms by (auto simp: live_def)
  from allocs_range [OF this] show ?thesis
    by (simp add: arena_end_def KHEAP_BASE_def)
qed

lemma realloc_too_large:
  assumes "heap_inv heap" "(unat p, n) \<in> live heap" "p \<noteq> 0" "128 * 1024 * 1024 < unat sz" "unat sz + 15 < 2 ^ 64"
  shows "kheap_realloc p sz heap = Some (0, heap)"
proof -
  have cur: "unat (block_payload_size (kheap_hdr heap (p - sizeof_kheap_block))) = n"
    by (rule live_payload_size [OF assms(1,2)])
  obtain bs where bs: "heap_ok heap bs"
    using assms(1) by (auto simp: heap_inv_def)
  have nz: "sz \<noteq> 0"
    using assms(4) by auto
  have "kheap_alloc sz heap = Some (0, heap)"
  proof (rule kheap_alloc_cases [OF bs nz assms(5)])
    fix q st' bs' k
    assume "heap_ok st' bs'" "unat sz \<le> k" "allocs st' bs' = insert (unat q, k) (allocs heap bs)"
    then have "k \<le> 128 * 1024 * 1024"
      using live_size [of "unat q" k st'] live_eq [of st' bs'] by simp
    then show ?thesis
      using assms(4) \<open>unat sz \<le> k\<close> by simp
  qed
  moreover have "\<not> sz \<le> block_payload_size (kheap_hdr heap (p - sizeof_kheap_block))"
    using live_size [OF assms(2)] assms(4) cur by (simp add: word_le_nat_alt)
  ultimately show ?thesis
    using assms(3) nz by (simp add: kheap_realloc_def)
qed

lemma dims_front:
  "win_find (\<lambda>w. win_id w = i) (g_windows wm) = Some k \<Longrightarrow>
   mset (map dims (g_windows (snd (woos_graphics_bring_to_front i wm)))) = mset (map dims (g_windows wm))"
  using mset_remove_nth [of k "map dims (g_windows wm)"] win_find_Some [of "\<lambda>w. win_id w = i" "g_windows wm" k]
  by (simp add: bring_to_front_windows take_map drop_map o_def)

section \<open>Runs of the window manager\<close>

text \<open>One call by any thread; a call to maximise counts when the heap could resize the buffer.\<close>

inductive wm_step :: "(u16 \<times> u16) option \<Rightarrow> wm \<Rightarrow> wm \<Rightarrow> bool" for video where
  step_create: "woos_graphics_create_window_ex w h title flags wm = Some (r, wm') \<Longrightarrow> wm_step video wm wm'"
| step_destroy: "woos_graphics_destroy_window i wm = Some (r, wm') \<Longrightarrow> wm_step video wm wm'"
| step_destroy_thread: "woos_graphics_destroy_thread_windows t wm = Some (n, wm') \<Longrightarrow> wm_step video wm wm'"
| step_front: "woos_graphics_bring_to_front i wm = (r, wm') \<Longrightarrow> wm_step video wm wm'"
| step_thread_front: "woos_graphics_bring_thread_to_front t wm = (r, wm') \<Longrightarrow> wm_step video wm wm'"
| step_title: "woos_graphics_set_window_title i title wm = (r, wm') \<Longrightarrow> wm_step video wm wm'"
| step_flags: "woos_graphics_set_window_flags i flags wm = (r, wm') \<Longrightarrow> wm_step video wm wm'"
| step_pos: "woos_graphics_set_window_pos i x y wm = (r, wm') \<Longrightarrow> wm_step video wm wm'"
| step_minimize: "woos_graphics_toggle_minimize i wm = (r, wm') \<Longrightarrow> wm_step video wm wm'"
| step_maximize:
    "win_find (\<lambda>w. win_id w = i) (g_windows wm) = Some k \<Longrightarrow>
     d = toggle_dimensions video (g_windows wm ! k) \<Longrightarrow> win_w d > 0 \<Longrightarrow> win_h d > 0 \<Longrightarrow>
     kheap_realloc (win_buffer d) (ucast (win_w d * win_h d * 4)) (wm_heap wm) = Some (p, heap) \<Longrightarrow> p \<noteq> 0 \<Longrightarrow>
     woos_graphics_toggle_maximize video i wm = Some (r, wm') \<Longrightarrow> wm_step video wm wm'"
| step_switch: "wm_step video wm (wm\<lparr>wm_sched := s, wm_queue := q, wm_ipc := ipc\<rparr>)"

lemma wm_ok_at_window':
  "wm_ok wm \<Longrightarrow> at_window i f wm = (r, wm') \<Longrightarrow> (\<And>w. dims (f w) = dims w) \<Longrightarrow> wm_ok wm'"
  using wm_ok_at_window [of wm f i] by simp

lemma wm_step_ok: "wm_step video wm wm' \<Longrightarrow> wm_ok wm \<Longrightarrow> wm_ok wm'"
proof (induction rule: wm_step.induct)
  case (step_create w h title flags wm r wm')
  then show ?case
    using wm_ok_create [of wm w h title flags] by auto
next
  case (step_destroy i wm r wm')
  then show ?case
    using wm_ok_destroy [of wm i] by auto
next
  case (step_destroy_thread t wm n wm')
  then show ?case
    using wm_ok_destroy_thread [of wm t] by auto
next
  case (step_front i wm r wm')
  then show ?case
    using wm_ok_front [of wm i] by simp
next
  case (step_thread_front t wm r wm')
  then show ?case
    using wm_ok_front [of wm]
    by (auto simp: woos_graphics_bring_thread_to_front_def Let_def split: if_splits option.splits) (metis snd_conv)+
next
  case (step_title i title wm r wm')
  then show ?case
    by (auto simp: woos_graphics_set_window_title_def dims_def elim: wm_ok_at_window')
next
  case (step_flags i flags wm r wm')
  then show ?case
    by (auto simp: woos_graphics_set_window_flags_def dims_def elim: wm_ok_at_window')
next
  case (step_pos i x y wm r wm')
  then show ?case
    by (auto simp: woos_graphics_set_window_pos_def dims_def elim: wm_ok_at_window')
next
  case (step_minimize i wm r wm')
  then show ?case
    using wm_ok_minimize [of wm i] by simp
next
  case (step_maximize i wm k d p heap r wm')
  show ?case
  proof (cases "win_title (g_windows wm ! k) = lit ''Calculator''")
    case True
    then show ?thesis
      using step_maximize by (simp add: woos_graphics_toggle_maximize_def)
  next
    case False
    then show ?thesis
      using wm_ok_maximize [OF step_maximize.prems step_maximize.hyps(1) False step_maximize.hyps(3,4,2,5,6)]
        step_maximize.hyps(7) by auto
  qed
qed (simp add: wm_ok_def)

section \<open>Properties\<close>

definition empty_wm :: wm where
  "empty_wm = \<lparr>g_windows = [], g_next_window_id = 1, wm_heap = kheap_init blank_heap,
     wm_queue = example_queue, wm_sched = ipc_threads, wm_ipc = example_ipc\<rparr>"

lemma empty_wm_ok: "wm_ok empty_wm"
  by (simp add: wm_ok_def bufs_ok_def empty_wm_def example_heap_inv)



text \<open>
  \<^verbatim>\<open>woos_graphics_bring_to_front\<close> moves the window to the top of the stack, keeping the order of
  the others, restores it if it was minimised, and makes it the only focused one; from then on
  \<^verbatim>\<open>woos_graphics_get_focused_tid\<close> names its thread.  An unknown id changes nothing.
\<close>

theorem bring_to_front_spec:
  assumes "woos_graphics_bring_to_front i wm = (r, wm')"
  shows "(case win_find (\<lambda>w. win_id w = i) (g_windows wm) of
      None \<Rightarrow> r = - 1 \<and> wm' = wm
    | Some k \<Rightarrow> r = 0 \<and>
        map core (g_windows wm') =
          map core (take k (g_windows wm) @ drop (Suc k) (g_windows wm)) @ [core (g_windows wm ! k)] \<and>
        win_id (last (g_windows wm')) = i \<and>
        \<not> has_flag WOOS_WIN_FLAG_MINIMIZED (last (g_windows wm')) \<and>
        (\<forall>j < length (g_windows wm'). has_flag WOOS_WIN_FLAG_FOCUSED (g_windows wm' ! j) \<longleftrightarrow>
           Suc j = length (g_windows wm')) \<and>
        woos_graphics_get_focused_tid wm' = win_thread_id (g_windows wm ! k))"
proof (cases "win_find (\<lambda>w. win_id w = i) (g_windows wm)")
  case None
  then show ?thesis
    using assms by (simp add: woos_graphics_bring_to_front_def)
next
  case (Some k)
  let ?ws = "g_windows wm"
  let ?rest = "map (clear_flag WOOS_WIN_FLAG_FOCUSED) (take k ?ws @ drop (Suc k) ?ws)"
  let ?top = "set_flag WOOS_WIN_FLAG_FOCUSED (clear_flag WOOS_WIN_FLAG_FOCUSED
      (clear_flag WOOS_WIN_FLAG_MINIMIZED (?ws ! k)))"
  have ws': "g_windows wm' = ?rest @ [?top]"
    using bring_to_front_windows [OF Some] assms by simp
  have top: "has_flag WOOS_WIN_FLAG_FOCUSED ?top" "\<not> has_flag WOOS_WIN_FLAG_MINIMIZED ?top"
    using has_set_flag [OF flag_bits(3)] has_other_flag [OF flag_bits(1)] has_clear_flag by auto
  have "has_flag WOOS_WIN_FLAG_FOCUSED (g_windows wm' ! j) \<longleftrightarrow> Suc j = length (g_windows wm')"
    if "j < length (g_windows wm')" for j
  proof (cases "j < length ?rest")
    case True
    then have "g_windows wm' ! j \<in> set ?rest"
      unfolding ws' by (simp only: nth_append if_True nth_mem)
    then show ?thesis
      using True by (auto simp: ws')
  next
    case False
    then show ?thesis
      using that top(1) by (auto simp: ws' nth_append)
  qed
  moreover have "k \<le> length ?ws - Suc 0" "k < length ?ws"
    using win_find_Some [OF Some] by linarith+
  then have "woos_graphics_get_focused_tid wm' = win_thread_id (?ws ! k)"
    using win_rfind_last [of "\<lambda>w. has_flag WOOS_WIN_FLAG_FOCUSED w \<and> \<not> has_flag WOOS_WIN_FLAG_MINIMIZED w"
        "g_windows wm'"] top
    by (simp add: not_less woos_graphics_get_focused_tid_def ws' nth_append)
  moreover have "r = 0"
    using assms Some by (auto simp: woos_graphics_bring_to_front_def Let_def)
  ultimately show ?thesis
    using win_find_Some [OF Some] top(2) by (simp add: Some ws' core_def)
qed

definition example_window :: "u32 \<Rightarrow> u32 \<Rightarrow> woos_window" where
  "example_window i t = \<lparr>win_id = i, win_thread_id = t, win_x = 0, win_y = 0, win_w = 10, win_h = 10,
     win_flags = 0, saved_x = 0, saved_y = 0, saved_w = 10, saved_h = 10, win_title = [],
     win_active = 1, win_buffer = 0\<rparr>"

theorem bring_to_front_spec_witness:
  "woos_graphics_get_focused_tid (snd (woos_graphics_bring_to_front 1
     (empty_wm\<lparr>g_windows := [example_window 1 4, example_window 2 5]\<rparr>))) = 4"
proof -
  let ?wm = "empty_wm\<lparr>g_windows := [example_window 1 4, example_window 2 5]\<rparr>"
  obtain r wm' where e: "woos_graphics_bring_to_front 1 ?wm = (r, wm')"
    by (meson surj_pair)
  show ?thesis
    using bring_to_front_spec [OF e] e by (simp add: example_window_def)
qed





end
