(* ===== verification/Sched.thy ===== *)
theory Sched
  imports Vmm Tss Timer Idt Windows
begin

text \<open>
  The scheduler of \<^verbatim>\<open>sched.c\<close>: creation and exit of threads and processes, the round robin of the
  timer interrupt, the priority switch of the device interrupts, blocking, and the single-instance
  start of applications.  The state gathers the parts of the kernel these operations touch; the
  thread table, the event queue and the message queue are those of \<open>wm\<close>, so that every component
  works on the same ones.  Each operation is atomic: the code runs it with interrupts off.
\<close>

section \<open>State\<close>

record saved_context =
  c_r15 :: u64
  c_r14 :: u64
  c_r13 :: u64
  c_r12 :: u64
  c_r11 :: u64
  c_r10 :: u64
  c_r9 :: u64
  c_r8 :: u64
  c_rdi :: u64
  c_rsi :: u64
  c_rbp :: u64
  c_rbx :: u64
  c_rdx :: u64
  c_rcx :: u64
  c_rax :: u64
  c_rip :: u64
  c_cs :: u64
  c_rflags :: u64
  c_rsp :: u64
  c_ss :: u64

record kernel =
  k_wm :: wm
  k_kbd :: keyboard
  k_keyboard_irqs :: u32
  k_mouse_irqs :: u32
  k_mouse :: mouse_state
  g_perf_stats :: woos_perf
  k_timer :: timer
  k_vm :: vmm
  k_tss :: tss
  g_kernel_cr3 :: u64
  g_current_kernel_stack_top :: u64
  g_is_yield :: bool
  ticks_count :: u32
  fpu_registers :: "u8 list"
  s_default_fpu :: "u8 list option"
  k_ports :: "(u16 \<times> u8) list"

abbreviation k_sched :: "kernel \<Rightarrow> sched" where
  "k_sched k \<equiv> wm_sched (k_wm k)"

abbreviation current :: "kernel \<Rightarrow> nat" where
  "current k \<equiv> g_current_thread_idx (k_sched k)"

definition upd_sched :: "(sched \<Rightarrow> sched) \<Rightarrow> kernel \<Rightarrow> kernel" where
  "upd_sched f k = k\<lparr>k_wm := (k_wm k)\<lparr>wm_sched := f (k_sched k)\<rparr>\<rparr>"

definition upd_thread :: "nat \<Rightarrow> (thread \<Rightarrow> thread) \<Rightarrow> sched \<Rightarrow> sched" where
  "upd_thread i f s = s\<lparr>g_threads := (g_threads s)(i := f (g_threads s i))\<rparr>"

text \<open>What the interrupt handlers see of the state, and their result put back.\<close>

definition irq_view :: "kernel \<Rightarrow> irq_env" where
  "irq_view k =
     \<lparr>ie_kbd = k_kbd k, keyboard_irq_count = k_keyboard_irqs k, mouse_irq_count = k_mouse_irqs k,
      ie_env = \<lparr>me_mouse = k_mouse k, me_perf = g_perf_stats k, me_queue = wm_queue (k_wm k),
                me_sched = k_sched k\<rparr>\<rparr>"

definition put_irq_view :: "irq_env \<Rightarrow> kernel \<Rightarrow> kernel" where
  "put_irq_view env k =
     k\<lparr>k_kbd := ie_kbd env, k_keyboard_irqs := keyboard_irq_count env, k_mouse_irqs := mouse_irq_count env,
       k_mouse := me_mouse (ie_env env), g_perf_stats := me_perf (ie_env env),
       k_wm := (k_wm k)\<lparr>wm_queue := me_queue (ie_env env), wm_sched := me_sched (ie_env env)\<rparr>\<rparr>"

section \<open>Memory\<close>

text \<open>Consecutive 8-byte words, and single bytes of them, little-endian.\<close>

definition put_words :: "u64 \<Rightarrow> u64 list \<Rightarrow> (u64 \<Rightarrow> u64) \<Rightarrow> u64 \<Rightarrow> u64" where
  "put_words a ws mem = fold (\<lambda>i mem. mem(a + of_nat (8 * i) := ws ! i)) [0..<length ws] mem"

definition put_byte :: "u64 \<Rightarrow> u8 \<Rightarrow> (u64 \<Rightarrow> u64) \<Rightarrow> u64 \<Rightarrow> u64" where
  "put_byte a b mem =
     (let w = a AND NOT 7; k = 8 * unat (a AND 7) in
      mem(w := (mem w AND NOT (push_bit k 0xFF)) OR push_bit k (ucast b)))"

definition put_bytes :: "u64 \<Rightarrow> u8 list \<Rightarrow> (u64 \<Rightarrow> u64) \<Rightarrow> u64 \<Rightarrow> u64" where
  "put_bytes a bs mem = fold (\<lambda>i. put_byte (a + of_nat i) (bs ! i)) [0..<length bs] mem"

definition zero_pages :: "u64 \<Rightarrow> nat \<Rightarrow> (u64 \<Rightarrow> u64) \<Rightarrow> u64 \<Rightarrow> u64" where
  "zero_pages a n mem = fold (\<lambda>i. zero_table (a + of_nat (4096 * i))) [0..<n] mem"

definition context_words :: "saved_context \<Rightarrow> u64 list" where
  "context_words c =
     [c_r15 c, c_r14 c, c_r13 c, c_r12 c, c_r11 c, c_r10 c, c_r9 c, c_r8 c, c_rdi c, c_rsi c, c_rbp c,
      c_rbx c, c_rdx c, c_rcx c, c_rax c, c_rip c, c_cs c, c_rflags c, c_rsp c, c_ss c]"

definition sizeof_context :: u64 where "sizeof_context = 160"

text \<open>The context of a thread that has not run: only the return frame is set.\<close>

definition new_context :: "u64 \<Rightarrow> u64 \<Rightarrow> u64 \<Rightarrow> u64 \<Rightarrow> saved_context" where
  "new_context ss rsp cs rip =
     \<lparr>c_r15 = 0, c_r14 = 0, c_r13 = 0, c_r12 = 0, c_r11 = 0, c_r10 = 0, c_r9 = 0, c_r8 = 0, c_rdi = 0,
      c_rsi = 0, c_rbp = 0, c_rbx = 0, c_rdx = 0, c_rcx = 0, c_rax = 0, c_rip = rip, c_cs = cs,
      c_rflags = 0x202, c_rsp = rsp, c_ss = ss\<rparr>"

section \<open>Creation\<close>

definition sched_init :: "kernel \<Rightarrow> kernel" where
  "sched_init k =
     (let k = k\<lparr>g_kernel_cr3 := vm_cr3 (k_vm k)\<rparr> in
      upd_sched (\<lambda>s.
          (upd_thread 0 (\<lambda>t. t\<lparr>t_id := 0, t_rsp := 0, t_state := THREAD_RUNNING, t_stack_limit := 0,
             t_cr3 := g_kernel_cr3 k, t_kernel_stack_top := 0x0009F000, t_fpu_state := fpu_registers k\<rparr>) s)
          \<lparr>g_num_threads := 1, g_current_thread_idx := 0, g_sched_ready := True\<rparr>)
        (k\<lparr>g_current_kernel_stack_top := 0x0009F000\<rparr>))"

definition free_slot :: "sched \<Rightarrow> nat" where
  "free_slot s =
     (case find (\<lambda>i. thread_st s i = THREAD_TERMINATED) [1..<g_num_threads s] of
        None \<Rightarrow> g_num_threads s | Some i \<Rightarrow> i)"

text \<open>The slot is stripped of an old address space and of a stack of another size.\<close>

definition strip_space :: "kernel_image \<Rightarrow> nat \<Rightarrow> kernel \<Rightarrow> kernel" where
  "strip_space ki idx k =
     (let t = g_threads (k_sched k) idx in
      if t_cr3 t \<noteq> 0 \<and> t_cr3 t \<noteq> g_kernel_cr3 k
      then upd_sched (upd_thread idx (\<lambda>t. t\<lparr>t_cr3 := g_kernel_cr3 k\<rparr>))
             (k\<lparr>k_vm := vmm_destroy_address_space ki (t_cr3 t) (k_vm k)\<rparr>)
      else k)"

definition strip_stack :: "nat \<Rightarrow> kernel \<Rightarrow> kernel" where
  "strip_stack idx k =
     (let t = g_threads (k_sched k) idx in
      if t_stack_limit t \<noteq> 0 \<and> t_stack_pages_count t \<noteq> THREAD_STACK_PAGES
      then upd_sched (upd_thread idx (\<lambda>t. t\<lparr>t_stack_limit := 0, t_stack_pages_count := 0\<rparr>))
             (k\<lparr>k_vm := (k_vm k)\<lparr>vm_pmm :=
                  pmm_free_pages_multi (t_stack_limit t) (t_stack_pages_count t) (vm_pmm (k_vm k))\<rparr>\<rparr>)
      else k)"

text \<open>A stack for the slot, unless it still has one; \<open>False\<close> when memory is out.\<close>

definition give_stack :: "nat \<Rightarrow> kernel \<Rightarrow> bool \<times> kernel" where
  "give_stack idx k =
     (if t_stack_limit (g_threads (k_sched k) idx) = 0 then
        let (stack_pages, pm) = pmm_alloc_pages_multi THREAD_STACK_PAGES (vm_pmm (k_vm k));
            k = k\<lparr>k_vm := (k_vm k)\<lparr>vm_pmm := pm\<rparr>\<rparr> in
        if stack_pages = 0 then (False, k)
        else (True, upd_sched (upd_thread idx (\<lambda>t. t\<lparr>t_stack_limit := stack_pages,
                      t_stack_pages_count := THREAD_STACK_PAGES\<rparr>)) k)
      else (True, k))"

definition start_thread :: "u64 \<Rightarrow> nat \<Rightarrow> kernel \<Rightarrow> kernel" where
  "start_thread entry_point idx k =
     (let stack_top = t_stack_limit (g_threads (k_sched k) idx) + ucast (THREAD_STACK_PAGES * 4096);
          ctx = stack_top - sizeof_context;
          default_fpu = (case s_default_fpu k of None \<Rightarrow> fpu_registers k | Some f \<Rightarrow> f);
          k = k\<lparr>k_vm := (k_vm k)\<lparr>vm_mem :=
                  put_words ctx (context_words (new_context 0x20 stack_top 0x18 entry_point))
                    (vm_mem (k_vm k))\<rparr>,
                s_default_fpu := Some default_fpu\<rparr> in
      upd_sched (\<lambda>s.
          (upd_thread idx (\<lambda>t. t\<lparr>t_id := of_nat idx, t_rsp := ctx, t_state := THREAD_READY,
             t_cr3 := g_kernel_cr3 k, t_kernel_stack_top := stack_top, t_fpu_state := default_fpu\<rparr>) s)
          \<lparr>g_num_threads := (if idx = g_num_threads s then g_num_threads s + 1 else g_num_threads s)\<rparr>) k)"

definition thread_create :: "kernel_image \<Rightarrow> u64 \<Rightarrow> kernel \<Rightarrow> kernel" where
  "thread_create ki entry_point k =
     (let idx = free_slot (k_sched k) in
      if idx \<ge> MAX_THREADS then k
      else
        let (ok, k) = give_stack idx (strip_stack idx (strip_space ki idx k)) in
        if \<not> ok then k else start_thread entry_point idx k)"

definition user_code :: "u8 list" where
  "user_code =
     [0xb8, 0x01, 0x00, 0x00, 0x00,
      0xbf, 0x01, 0x00, 0x00, 0x00,
      0x48, 0xbe, 0x40, 0x00, 0x00, 0x00, 0x01, 0x00, 0x00, 0x00,
      0xba, 0x13, 0x00, 0x00, 0x00,
      0x0f, 0x05,
      0xb8, 0x3c, 0x00, 0x00, 0x00,
      0xbf, 0x00, 0x00, 0x00, 0x00,
      0x0f, 0x05]"

definition user_flags :: u64 where
  "user_flags = VMM_PAGE_USER OR VMM_PAGE_WRITABLE OR VMM_PAGE_PRESENT"

definition start_process :: "u64 \<Rightarrow> u64 \<Rightarrow> kernel \<Rightarrow> kernel" where
  "start_process pml4 kernel_stack_page k =
     (let kernel_stack_top = kernel_stack_page + ucast (THREAD_STACK_PAGES * 4096);
          ctx = kernel_stack_top - sizeof_context;
          mem = zero_pages kernel_stack_page (unat THREAD_STACK_PAGES) (vm_mem (k_vm k));
          mem = put_words ctx (context_words (new_context 0x2B 0x100002000 0x33 0x100000000)) mem in
      upd_sched (\<lambda>s.
          (upd_thread (g_num_threads s) (\<lambda>t. t\<lparr>t_id := of_nat (g_num_threads s),
             t_stack_limit := kernel_stack_page, t_stack_pages_count := THREAD_STACK_PAGES,
             t_kernel_stack_top := kernel_stack_top, t_cr3 := pml4, t_rsp := ctx,
             t_state := THREAD_READY\<rparr>) s)
          \<lparr>g_num_threads := g_num_threads s + 1\<rparr>)
        (k\<lparr>k_vm := (k_vm k)\<lparr>vm_mem := mem\<rparr>\<rparr>))"

definition process_create :: "kernel_image \<Rightarrow> kernel \<Rightarrow> kernel" where
  "process_create ki k =
     (if g_num_threads (k_sched k) \<ge> MAX_THREADS then k
      else
        let (pml4, vm) = vmm_create_address_space ki (k_vm k) in
        if pml4 = 0 then k\<lparr>k_vm := vm\<rparr>
        else
          let (code_phys, pm) = pmm_alloc_page (vm_pmm vm); vm = vm\<lparr>vm_pmm := pm\<rparr> in
          if code_phys = 0 then k\<lparr>k_vm := vm\<rparr>
          else
            let mem = zero_table code_phys (vm_mem vm);
                mem = put_bytes code_phys user_code mem;
                mem = put_bytes (code_phys + 0x40) (lit ''Hello from Ring 3!'' @ [10]) mem;
                vm = snd (vmm_map_page pml4 0x100000000 code_phys user_flags (vm\<lparr>vm_mem := mem\<rparr>));
                (stack_phys, pm) = pmm_alloc_page (vm_pmm vm); vm = vm\<lparr>vm_pmm := pm\<rparr> in
            if stack_phys = 0 then k\<lparr>k_vm := vm\<rparr>
            else
              let vm = vm\<lparr>vm_mem := zero_table stack_phys (vm_mem vm)\<rparr>;
                  vm = snd (vmm_map_page pml4 0x100001000 stack_phys user_flags vm);
                  (kernel_stack_page, pm) = pmm_alloc_pages_multi THREAD_STACK_PAGES (vm_pmm vm);
                  vm = vm\<lparr>vm_pmm := pm\<rparr> in
              if kernel_stack_page = 0 then k\<lparr>k_vm := vm\<rparr>
              else start_process pml4 kernel_stack_page (k\<lparr>k_vm := vm\<rparr>))"

section \<open>Switching\<close>

text \<open>
  The common end of both interrupt paths: the floating-point registers are saved for the thread that
  stops, and stack, address space and registers are those of the next one.
\<close>

definition switch_to :: "nat \<Rightarrow> kernel \<Rightarrow> u64 \<times> kernel" where
  "switch_to next k =
     (let k = upd_sched (upd_thread (current k) (\<lambda>t. t\<lparr>t_fpu_state := fpu_registers k\<rparr>)) k;
          k = upd_sched (\<lambda>s. (set_state next THREAD_RUNNING s)\<lparr>g_current_thread_idx := next\<rparr>) k;
          t = g_threads (k_sched k) next in
      (t_rsp t,
       k\<lparr>g_current_kernel_stack_top := t_kernel_stack_top t,
         k_tss := tss_set_rsp0 (t_kernel_stack_top t) (k_tss k),
         k_vm := vmm_switch (t_cr3 t) (k_vm k),
         fpu_registers := t_fpu_state t\<rparr>))"

definition save_current :: "u64 \<Rightarrow> kernel \<Rightarrow> kernel" where
  "save_current current_rsp k =
     upd_sched (upd_thread (current k) (\<lambda>t. t\<lparr>t_rsp := current_rsp,
       t_state := (if t_state t = THREAD_RUNNING then THREAD_READY else t_state t)\<rparr>)) k"

text \<open>The round robin search; the last argument counts the steps left.\<close>

fun find_ready :: "sched \<Rightarrow> nat \<Rightarrow> nat \<Rightarrow> nat" where
  "find_ready s next 0 = next"
| "find_ready s next (Suc n) =
     (if thread_st s next \<noteq> THREAD_READY
      then find_ready s ((next + 1) mod g_num_threads s) n else next)"

definition reset_perf :: "kernel \<Rightarrow> kernel" where
  "reset_perf k =
     k\<lparr>g_perf_stats := \<lparr>present_count = 0, present_cycles = 0, blit_count = 0, blit_cycles = 0,
       draw_win_count = 0, draw_win_cycles = 0, mouse_recv = 0, mouse_drop_align = 0,
       mouse_drop_overflow = 0, mouse_push = 0\<rparr>\<rparr>"

definition tick :: "kernel \<Rightarrow> kernel" where
  "tick k =
     (let (tm, q, s) = timer_handler (k_timer k, wm_queue (k_wm k), k_sched k) in
      k\<lparr>k_timer := tm, k_wm := (k_wm k)\<lparr>wm_queue := q, wm_sched := s\<rparr>, ticks_count := ticks_count k + 1\<rparr>)"

text \<open>The beginning of the timer interrupt: time, statistics and the acknowledgement.\<close>

definition enter_interrupt :: "kernel \<Rightarrow> kernel" where
  "enter_interrupt k =
     (let k = (if g_is_yield k then k else tick k);
          k = k\<lparr>g_is_yield := False\<rparr>;
          k = (if ticks_count k \<ge> 20 then reset_perf (k\<lparr>ticks_count := 0\<rparr>) else k) in
      k\<lparr>k_ports := k_ports k @ [(0x20, 0x20)]\<rparr>)"

definition schedule_interrupt :: "u64 \<Rightarrow> kernel \<Rightarrow> u64 \<times> kernel" where
  "schedule_interrupt current_rsp k =
     (let k = enter_interrupt k in
      if \<not> g_sched_ready (k_sched k) \<or> g_num_threads (k_sched k) \<le> 1 then (0, k)
      else
        let k = save_current current_rsp k; s = k_sched k; n = g_num_threads s;
            next_idx = find_ready s ((g_current_thread_idx s + 1) mod n) n in
        if thread_st s next_idx \<noteq> THREAD_READY
        then (0, upd_sched (set_state (g_current_thread_idx s) THREAD_RUNNING) k)
        else switch_to next_idx k)"

definition prio :: "nat \<Rightarrow> nat" where
  "prio i = (if i = 1 then 2 else if i = 0 then 0 else 1)"

text \<open>The loop over the threads: the best priority so far and its thread.\<close>

definition best_thread :: "sched \<Rightarrow> nat \<times> nat" where
  "best_thread s =
     fold (\<lambda>i (best_priority, best_idx).
         if thread_st s i = THREAD_READY \<and> prio i > best_priority then (prio i, i)
         else (best_priority, best_idx))
       [0..<g_num_threads s]
       (if thread_st s (g_current_thread_idx s) = THREAD_RUNNING
        then (prio (g_current_thread_idx s), g_current_thread_idx s) else (0, 0))"

definition enter_irq ::
    "(u16 \<times> u16) option \<Rightarrow> u8 \<times> u8 \<Rightarrow> (u8 \<times> u8) list \<Rightarrow> u64 \<Rightarrow> kernel \<Rightarrow> kernel" where
  "enter_irq video kbd aux vector k =
     (let (out, env) = idt_handle_irq video kbd aux (ucast vector) (irq_view k); k = put_irq_view env k in
      k\<lparr>k_ports := k_ports k @ out\<rparr>)"

definition schedule_irq ::
    "(u16 \<times> u16) option \<Rightarrow> u8 \<times> u8 \<Rightarrow> (u8 \<times> u8) list \<Rightarrow> u64 \<Rightarrow> u64 \<Rightarrow> kernel \<Rightarrow> u64 \<times> kernel" where
  "schedule_irq video kbd aux current_rsp vector k =
     (let k = enter_irq video kbd aux vector k in
      if \<not> g_sched_ready (k_sched k) \<or> g_num_threads (k_sched k) \<le> 1 then (0, k)
      else
        let best_idx = snd (best_thread (k_sched k)) in
        if best_idx = current k then (0, k)
        else switch_to best_idx (save_current current_rsp k))"

text \<open>The software interrupt of a yield; \<open>rsp\<close> is the stack pointer the stub hands over.\<close>

definition thread_yield :: "u64 \<Rightarrow> kernel \<Rightarrow> u64 \<times> kernel" where
  "thread_yield rsp k = schedule_interrupt rsp (k\<lparr>g_is_yield := True\<rparr>)"

definition sched_block_current :: "u64 \<Rightarrow> kernel \<Rightarrow> u64 \<times> kernel" where
  "sched_block_current rsp k = thread_yield rsp (upd_sched (set_state (current k) THREAD_BLOCKED) k)"

definition end_thread :: "nat \<Rightarrow> kernel \<Rightarrow> kernel" where
  "end_thread i = upd_sched (upd_thread i (\<lambda>t. t\<lparr>t_state := THREAD_TERMINATED,
     t_app_path := (t_app_path t)(0 := 0)\<rparr>))"

definition thread_exit :: "u64 \<Rightarrow> kernel \<Rightarrow> (u64 \<times> kernel) option" where
  "thread_exit rsp k =
     (case woos_graphics_destroy_thread_windows (sched_current_thread_id (k_sched k)) (k_wm k) of
        None \<Rightarrow> None
      | Some (n, wm) \<Rightarrow>
          let k = k\<lparr>k_wm := wm\<rparr> in
          Some (thread_yield rsp (upd_sched sched_unblock_all (end_thread (current k) k))))"

section \<open>Applications\<close>

definition skip_slashes :: "u8 list \<Rightarrow> u8 list" where
  "skip_slashes = dropWhile (\<lambda>c. c = 47)"

definition path_upper :: "u8 \<Rightarrow> u8" where
  "path_upper c = (if c \<ge> 97 \<and> c \<le> 122 then c - 32 else c)"

text \<open>The comparing loop: the rests when one of the strings ends.\<close>

fun match_prefix :: "u8 list \<Rightarrow> u8 list \<Rightarrow> (u8 list \<times> u8 list) option" where
  "match_prefix (c1 # p1) (c2 # p2) =
     (if path_upper c1 \<noteq> path_upper c2 then None else match_prefix p1 p2)"
| "match_prefix p1 p2 = Some (p1, p2)"

definition app_paths_match :: "u8 list option \<Rightarrow> u8 list option \<Rightarrow> bool" where
  "app_paths_match p1 p2 =
     (case (p1, p2) of
        (Some p1, Some p2) \<Rightarrow>
          (case match_prefix (skip_slashes p1) (skip_slashes p2) of
             None \<Rightarrow> False
           | Some (r1, r2) \<Rightarrow> skip_slashes r1 = [] \<and> skip_slashes r2 = [])
      | _ \<Rightarrow> False)"

text \<open>The string in a thread's array of 64 bytes, and the copy of a path into it.\<close>

definition app_path_str :: "thread \<Rightarrow> u8 list" where
  "app_path_str t = takeWhile (\<lambda>b. b \<noteq> 0) (map (t_app_path t) [0..<64])"

definition store_path :: "u8 list \<Rightarrow> (nat \<Rightarrow> u8) \<Rightarrow> nat \<Rightarrow> u8" where
  "store_path path buf =
     (let n = min 63 (length path) in (\<lambda>i. if i < n then path ! i else if i = n then 0 else buf i))"

definition running_instance :: "u8 list \<Rightarrow> sched \<Rightarrow> nat option" where
  "running_instance path s =
     find (\<lambda>i. thread_st s i \<noteq> THREAD_TERMINATED \<and>
               app_paths_match (Some (app_path_str (g_threads s i))) (Some path))
       [1..<g_num_threads s]"

definition spawn_new :: "kernel_image \<Rightarrow> u64 \<Rightarrow> u8 list \<Rightarrow> kernel \<Rightarrow> i32 \<times> kernel" where
  "spawn_new ki runner path k =
     (let idx = free_slot (k_sched k) in
      if idx \<ge> MAX_THREADS then (- 1, k)
      else (0, thread_create ki runner
                 (upd_sched (upd_thread idx (\<lambda>t. t\<lparr>t_app_path := store_path path (t_app_path t)\<rparr>)) k)))"

text \<open>\<open>runner\<close> is the address of \<^verbatim>\<open>wasm_dynamic_runner_thread\<close>.\<close>

definition woos_system_spawn ::
    "kernel_image \<Rightarrow> u64 \<Rightarrow> u8 list option \<Rightarrow> kernel \<Rightarrow> i32 \<times> kernel" where
  "woos_system_spawn ki runner path k =
     (case path of
        None \<Rightarrow> (- 1, k)
      | Some path \<Rightarrow>
          if path = [] then (- 1, k)
          else
            (case running_instance path (k_sched k) of
               None \<Rightarrow> spawn_new ki runner path k
             | Some i \<Rightarrow>
                 let (r, wm) = woos_graphics_bring_thread_to_front (ucast (t_id (g_threads (k_sched k) i)))
                                 (k_wm k);
                     k = k\<lparr>k_wm := wm\<rparr> in
                 if r = 0 then (0, k) else spawn_new ki runner path (end_thread i k)))"

text \<open>The body of a started application; \<open>run_file\<close> is \<^verbatim>\<open>wasm_runtime_run_file\<close>.\<close>

definition wasm_dynamic_runner_thread ::
    "(u8 list \<Rightarrow> kernel \<Rightarrow> kernel) \<Rightarrow> u64 \<Rightarrow> kernel \<Rightarrow> (u64 \<times> kernel) option" where
  "wasm_dynamic_runner_thread run_file rsp k =
     (let current_id = sched_current_thread_id (k_sched k);
          path = app_path_str (g_threads (k_sched k) (unat current_id)) in
      thread_exit rsp (run_file path k))"

end
