(* ===== verification/Scheduling.thy ===== *)
theory Scheduling
  imports Sched
begin

text \<open>
  What the scheduler guarantees: which thread runs, in which order the threads get the processor, and
  what a switch saves and restores.  The device handlers and the window calls touch the thread table
  only by waking blocked threads, which \<open>wakes\<close> captures.
\<close>

section \<open>Waking\<close>

definition wakes :: "sched \<Rightarrow> sched \<Rightarrow> bool" where
  "wakes s s' \<longleftrightarrow> (\<exists>W. (\<forall>i\<in>W. i < g_num_threads s \<and> thread_st s i = THREAD_BLOCKED) \<and>
     s' = s\<lparr>g_threads := (\<lambda>i. if i \<in> W then (g_threads s i)\<lparr>t_state := THREAD_READY\<rparr> else g_threads s i)\<rparr>)"

lemma wakes_refl [simp]: "wakes s s"
  by (auto simp: wakes_def intro: exI [of _ "{}"])

lemma wakes_trans [trans]:
  assumes "wakes s s'" "wakes s' s''"
  shows "wakes s s''"
proof -
  obtain W where W: "\<forall>i\<in>W. i < g_num_threads s \<and> thread_st s i = THREAD_BLOCKED"
    "s' = s\<lparr>g_threads := (\<lambda>i. if i \<in> W then (g_threads s i)\<lparr>t_state := THREAD_READY\<rparr> else g_threads s i)\<rparr>"
    using assms(1) by (auto simp: wakes_def)
  obtain V where V: "\<forall>i\<in>V. i < g_num_threads s' \<and> thread_st s' i = THREAD_BLOCKED"
    "s'' = s'\<lparr>g_threads := (\<lambda>i. if i \<in> V then (g_threads s' i)\<lparr>t_state := THREAD_READY\<rparr> else g_threads s' i)\<rparr>"
    using assms(2) by (auto simp: wakes_def)
  have "s'' = s\<lparr>g_threads := (\<lambda>i. if i \<in> W \<union> V then (g_threads s i)\<lparr>t_state := THREAD_READY\<rparr> else g_threads s i)\<rparr>"
    using W V by (auto simp: fun_eq_iff)
  moreover have "\<forall>i\<in>W \<union> V. i < g_num_threads s \<and> thread_st s i = THREAD_BLOCKED"
    using W V by (auto split: if_splits)
  ultimately show ?thesis
    unfolding wakes_def by blast
qed

lemma wakesD:
  assumes "wakes s s'"
  shows "g_num_threads s' = g_num_threads s" "g_current_thread_idx s' = g_current_thread_idx s"
    "g_sched_ready s' = g_sched_ready s"
    "(g_threads s' i)\<lparr>t_state := x\<rparr> = (g_threads s i)\<lparr>t_state := x\<rparr>"
    "thread_st s i \<noteq> THREAD_BLOCKED \<Longrightarrow> thread_st s' i = thread_st s i"
    "thread_st s i = THREAD_BLOCKED \<Longrightarrow> thread_st s' i \<in> {THREAD_BLOCKED, THREAD_READY}"
  using assms by (auto simp: wakes_def)

lemma wakes_fields:
  assumes "wakes s s'"
  shows "t_id (g_threads s' i) = t_id (g_threads s i)" "t_rsp (g_threads s' i) = t_rsp (g_threads s i)"
    "t_cr3 (g_threads s' i) = t_cr3 (g_threads s i)"
    "t_kernel_stack_top (g_threads s' i) = t_kernel_stack_top (g_threads s i)"
    "t_fpu_state (g_threads s' i) = t_fpu_state (g_threads s i)"
    "t_stack_limit (g_threads s' i) = t_stack_limit (g_threads s i)"
    "t_stack_pages_count (g_threads s' i) = t_stack_pages_count (g_threads s i)"
    "t_app_path (g_threads s' i) = t_app_path (g_threads s i)"
  using assms by (auto simp: wakes_def)

lemma unblock_threads:
  "g_threads (sched_unblock_all s) = (\<lambda>i. if i < g_num_threads s \<and> thread_st s i = THREAD_BLOCKED
     then (g_threads s i)\<lparr>t_state := THREAD_READY\<rparr> else g_threads s i)"
proof -
  have "fold (\<lambda>i s. if thread_st s i = THREAD_BLOCKED then set_state i THREAD_READY s else s) [0..<n] s =
      s\<lparr>g_threads := (\<lambda>i. if i < n \<and> thread_st s i = THREAD_BLOCKED
        then (g_threads s i)\<lparr>t_state := THREAD_READY\<rparr> else g_threads s i)\<rparr>" for n
    by (induction n) (auto simp: set_state_def less_Suc_eq fun_eq_iff intro!: sched.equality)
  then show ?thesis
    by (simp add: sched_unblock_all_def)
qed

lemma wakes_unblock [simp]: "wakes s (sched_unblock_all s)"
proof -
  have "sched_unblock_all s = s\<lparr>g_threads := g_threads (sched_unblock_all s)\<rparr>"
    by (rule sched.equality) simp_all
  then show ?thesis
    unfolding wakes_def
    by (intro exI [of _ "{i. i < g_num_threads s \<and> thread_st s i = THREAD_BLOCKED}"])
      (simp add: unblock_threads)
qed

text \<open>The rules below compose: an operation run after waking steps is one more of them.\<close>

lemma wakes_unblock_after [intro!]: "wakes s s' \<Longrightarrow> wakes s (sched_unblock_all s')"
  by (rule wakes_trans [OF _ wakes_unblock])

lemma wakes_push [intro!]: "wakes s s' \<Longrightarrow> wakes s (snd (snd (input_push ev (q, s'))))"
  by (auto simp: input_push_def)

lemma wakes_publish [intro!]: "wakes s (me_sched e) \<Longrightarrow> wakes s (me_sched (publish ty b e))"
  by (auto simp: publish_def Let_def case_prod_beta)

lemma wakes_packet [intro!]:
  assumes "wakes s (me_sched e)"
  shows "wakes s (me_sched (handle_mouse_packet video p n e))"
proof -
  have "wakes s (me_sched e) \<Longrightarrow> wakes s (me_sched (mouse_move w h p e))" for e w h
    by (auto simp: mouse_move_def Let_def)
  moreover have "wakes s (me_sched e) \<Longrightarrow> wakes s (me_sched (mouse_buttons p e))" for e
    by (auto simp: mouse_buttons_def Let_def)
  moreover have "wakes s (me_sched e) \<Longrightarrow> wakes s (me_sched (mouse_wheel p n e))" for e
    by (auto simp: mouse_wheel_def Let_def)
  ultimately show ?thesis
    using assms by (auto simp: handle_mouse_packet_def Let_def split: prod.split)
qed

lemma wakes_byte [intro!]: "wakes s (me_sched e) \<Longrightarrow> wakes s (me_sched (snd (mouse_byte video d e)))"
  by (auto simp: mouse_byte_def Let_def)

lemma wakes_mouse [intro!]: "wakes s (me_sched e) \<Longrightarrow> wakes s (me_sched (mouse_handler video io e))"
proof -
  have "wakes s (me_sched e) \<Longrightarrow> wakes s (me_sched (mouse_handler_loop video io e))"
    by (induction video io e rule: mouse_handler_loop.induct) auto
  then show "wakes s (me_sched e) \<Longrightarrow> wakes s (me_sched (mouse_handler video io e))"
    by (simp add: mouse_handler_def)
qed

lemma wakes_key [intro!]:
  "wakes s (me_sched (ie_env e)) \<Longrightarrow> wakes s (me_sched (ie_env (push_key_event ev e)))"
  by (auto simp: push_key_event_def Let_def case_prod_beta split: option.split)

lemma wakes_irq [intro!]:
  "wakes s (me_sched (ie_env e)) \<Longrightarrow>
   wakes s (me_sched (ie_env (snd (idt_handle_irq video kbd aux v e))))"
  by (auto simp: idt_handle_irq_def Let_def case_prod_beta)

lemma wakes_timer [intro!]: "wakes s s' \<Longrightarrow> wakes s (snd (snd (timer_handler (tm, q, s'))))"
  by (auto simp: timer_handler_def Let_def)

lemma wakes_notify [intro!]: "wakes s (wm_sched wm) \<Longrightarrow> wakes s (wm_sched (notify wm))"
  by (auto simp: notify_def Let_def case_prod_beta)

lemma wakes_front [intro!]:
  "wakes s (wm_sched wm) \<Longrightarrow> wakes s (wm_sched (snd (woos_graphics_bring_to_front i wm)))"
  by (auto simp: woos_graphics_bring_to_front_def Let_def split: option.split)

lemma wakes_thread_front [intro!]:
  "wakes s (wm_sched wm) \<Longrightarrow> wakes s (wm_sched (snd (woos_graphics_bring_thread_to_front i wm)))"
  by (auto simp: woos_graphics_bring_thread_to_front_def Let_def)

lemma wakes_destroy:
  "woos_graphics_destroy_window i wm = Some (r, wm') \<Longrightarrow> wakes s (wm_sched wm) \<Longrightarrow> wakes s (wm_sched wm')"
  by (auto simp: woos_graphics_destroy_window_def Let_def split: option.splits)

lemma wakes_destroy_thread:
  "woos_graphics_destroy_thread_windows t wm = Some (n, wm') \<Longrightarrow> wakes s (wm_sched wm) \<Longrightarrow>
   wakes s (wm_sched wm')"
proof (induction t wm arbitrary: n wm' rule: woos_graphics_destroy_thread_windows.induct)
  case (1 t wm)
  let ?i = "case win_rfind (\<lambda>w. win_thread_id w = t) (g_windows wm) of
      None \<Rightarrow> 0 | Some i \<Rightarrow> win_id (g_windows wm ! i)"
  note unfolded = woos_graphics_destroy_thread_windows.simps [of t wm]
  show ?case
  proof (cases "?i = 0")
    case True
    then show ?thesis
      using "1.prems" unfolded by simp
  next
    case False
    then obtain r wm1 n1 where "woos_graphics_destroy_window ?i wm = Some (r, wm1)"
      "woos_graphics_destroy_thread_windows t wm1 = Some (n1, wm')"
      using "1.prems"(1) unfolded by (auto simp: Let_def split: option.splits)
    then show ?thesis
      using "1.IH" [OF refl False, of "(r, wm1)" r wm1] wakes_destroy "1.prems"(2) by blast
  qed
qed

section \<open>The table\<close>

lemma upd_sched_simps [simp]:
  "k_sched (upd_sched f k) = f (k_sched k)" "k_vm (upd_sched f k) = k_vm k" "k_tss (upd_sched f k) = k_tss k"
  "fpu_registers (upd_sched f k) = fpu_registers k" "g_kernel_cr3 (upd_sched f k) = g_kernel_cr3 k"
  "g_current_kernel_stack_top (upd_sched f k) = g_current_kernel_stack_top k"
  by (simp_all add: upd_sched_def)

lemma upd_thread_simps [simp]:
  "g_threads (upd_thread i f s) j = (if j = i then f (g_threads s i) else g_threads s j)"
  "g_num_threads (upd_thread i f s) = g_num_threads s"
  "g_current_thread_idx (upd_thread i f s) = g_current_thread_idx s"
  "g_sched_ready (upd_thread i f s) = g_sched_ready s"
  by (simp_all add: upd_thread_def)

lemma set_state_thread: "g_threads (set_state i st s) j =
    (if j = i then (g_threads s i)\<lparr>t_state := st\<rparr> else g_threads s j)"
  by (simp add: set_state_def)

text \<open>The table is well formed: ids are indices, and at most the current thread is running.\<close>

definition sched_ok :: "sched \<Rightarrow> bool" where
  "sched_ok s \<longleftrightarrow> 0 < g_num_threads s \<and> g_num_threads s \<le> MAX_THREADS \<and>
     g_current_thread_idx s < g_num_threads s \<and>
     (\<forall>i < g_num_threads s. thread_st s i = THREAD_RUNNING \<longrightarrow> i = g_current_thread_idx s) \<and>
     (\<forall>i < g_num_threads s. t_id (g_threads s i) = of_nat i)"

lemma sched_ok_wakes: "wakes s s' \<Longrightarrow> sched_ok s \<Longrightarrow> sched_ok s'"
  using wakesD(1-3,5,6) [of s s'] wakes_fields(1) [of s s']
  by (simp add: sched_ok_def) (metis thread_state.distinct(7) insertE singletonD thread_state.distinct(1))

lemma enter_interrupt_effect:
  "wakes (k_sched k) (k_sched (enter_interrupt k))" "k_vm (enter_interrupt k) = k_vm k"
  "k_tss (enter_interrupt k) = k_tss k" "fpu_registers (enter_interrupt k) = fpu_registers k"
proof -
  have "wakes (k_sched k) (k_sched (tick k))" "k_vm (tick k) = k_vm k" "k_tss (tick k) = k_tss k"
    "fpu_registers (tick k) = fpu_registers k"
    by (auto simp: tick_def Let_def case_prod_beta)
  then show "wakes (k_sched k) (k_sched (enter_interrupt k))" "k_vm (enter_interrupt k) = k_vm k"
    "k_tss (enter_interrupt k) = k_tss k" "fpu_registers (enter_interrupt k) = fpu_registers k"
    by (simp_all add: enter_interrupt_def reset_perf_def Let_def)
qed

lemma enter_irq_effect:
  "wakes (k_sched k) (k_sched (enter_irq video kbd aux v k))" "k_vm (enter_irq video kbd aux v k) = k_vm k"
  "k_tss (enter_irq video kbd aux v k) = k_tss k"
  "fpu_registers (enter_irq video kbd aux v k) = fpu_registers k"
  using wakes_irq [of "k_sched k" "irq_view k" video kbd aux "ucast v"]
  by (simp_all add: enter_irq_def put_irq_view_def irq_view_def Let_def case_prod_beta)

section \<open>The searches\<close>

lemma find_ready_offset:
  assumes "0 < g_num_threads s"
  shows "\<exists>d\<le>m. find_ready s (i mod g_num_threads s) m = (i + d) mod g_num_threads s \<and>
    (\<forall>d'<d. thread_st s ((i + d') mod g_num_threads s) \<noteq> THREAD_READY) \<and>
    (d < m \<longrightarrow> thread_st s ((i + d) mod g_num_threads s) = THREAD_READY)"
proof (induction m arbitrary: i)
  case (Suc m)
  show ?case
  proof (cases "thread_st s (i mod g_num_threads s) = THREAD_READY")
    case True
    then show ?thesis
      by (intro exI [of _ 0]) simp
  next
    case False
    obtain d where d: "d \<le> m" "find_ready s (Suc i mod g_num_threads s) m = (Suc i + d) mod g_num_threads s"
      "\<forall>d'<d. thread_st s ((Suc i + d') mod g_num_threads s) \<noteq> THREAD_READY"
      "d < m \<longrightarrow> thread_st s ((Suc i + d) mod g_num_threads s) = THREAD_READY"
      using Suc [of "Suc i"] by blast
    have "find_ready s (i mod g_num_threads s) (Suc m) = (i + Suc d) mod g_num_threads s"
      using False d(2) by (simp add: mod_Suc_eq)
    moreover have "thread_st s ((i + d') mod g_num_threads s) \<noteq> THREAD_READY" if "d' < Suc d" for d'
      using that False d(3) by (cases d') auto
    ultimately show ?thesis
      using d(1,4) by (intro exI [of _ "Suc d"]) auto
  qed
qed simp

text \<open>The search started behind the current thread: the first ready one in cyclic order, if any.\<close>

lemma find_ready_next:
  fixes s c
  defines "n \<equiv> g_num_threads s"
  defines "r \<equiv> find_ready s ((c + 1) mod n) n"
  assumes c: "c < n"
  shows "r < n" "i < n \<Longrightarrow> thread_st s i = THREAD_READY \<Longrightarrow> thread_st s r = THREAD_READY"
    and "j < n \<Longrightarrow> thread_st s j = THREAD_READY \<Longrightarrow> j \<noteq> c \<Longrightarrow> (j + n - r) mod n < (j + n - c) mod n"
proof -
  obtain d where d: "d \<le> n" "r = (c + 1 + d) mod n"
    "\<forall>d'<d. thread_st s ((c + 1 + d') mod n) \<noteq> THREAD_READY" "d < n \<longrightarrow> thread_st s r = THREAD_READY"
    using find_ready_offset [of s n "c + 1"] c unfolding n_def r_def by auto
  show "r < n"
    using c by (simp add: d(2))
  have reach: "d \<le> D" if "(c + 1 + D) mod n = i" "thread_st s i = THREAD_READY" for i D
    using d(3) that by (meson not_less)
  show "thread_st s r = THREAD_READY" if "i < n" "thread_st s i = THREAD_READY"
  proof -
    let ?D = "if c < i then i - c - 1 else i + n - c - 1"
    have "(c + 1 + ?D) mod n = i"
      using that(1) c by (auto simp: mod_if)
    from reach [OF this that(2)] show ?thesis
      using d(4) that(1) c by (auto split: if_splits)
  qed
  show "(j + n - r) mod n < (j + n - c) mod n" if "j < n" "thread_st s j = THREAD_READY" "j \<noteq> c"
  proof -
    let ?D = "if c < j then j - c - 1 else j + n - c - 1"
    have "(c + 1 + ?D) mod n = j"
      using that(1) c by (auto simp: mod_if)
    from reach [OF this that(2)] have le: "d \<le> ?D" .
    have dist: "(j + n - c) mod n = Suc ?D"
      using that c by (auto simp: mod_if)
    show ?thesis
    proof (cases "c + 1 + d < n")
      case True
      then have "r = c + 1 + d"
        by (simp add: d(2))
      then show ?thesis
        unfolding dist using le that c True by (auto simp: mod_if split: if_splits)
    next
      case False
      moreover have "d < n"
        using le that c by (auto split: if_splits)
      ultimately have "r = c + 1 + d - n"
        using c by (simp add: d(2) mod_if)
      then show ?thesis
        unfolding dist using le that c False by (auto simp: mod_if split: if_splits)
    qed
  qed
qed

lemma best_thread_spec:
  assumes "g_current_thread_idx s < g_num_threads s"
  defines "init \<equiv> if thread_st s (g_current_thread_idx s) = THREAD_RUNNING
      then (prio (g_current_thread_idx s), g_current_thread_idx s) else (0, 0)"
  shows "fst init \<le> fst (best_thread s) \<and>
    (\<forall>i < g_num_threads s. thread_st s i = THREAD_READY \<longrightarrow> prio i \<le> fst (best_thread s)) \<and>
    (best_thread s = init \<or>
     (let i = snd (best_thread s) in i < g_num_threads s \<and> thread_st s i = THREAD_READY \<and>
        fst (best_thread s) = prio i \<and> fst init < prio i))"
proof -
  let ?f = "\<lambda>i (best_priority, best_idx).
      if thread_st s i = THREAD_READY \<and> prio i > best_priority then (prio i, i) else (best_priority, best_idx)"
  have "m \<le> g_num_threads s \<Longrightarrow> (let r = fold ?f [0..<m] init in fst init \<le> fst r \<and>
      (\<forall>i < m. thread_st s i = THREAD_READY \<longrightarrow> prio i \<le> fst r) \<and>
      (r = init \<or> snd r < g_num_threads s \<and> thread_st s (snd r) = THREAD_READY \<and>
        fst r = prio (snd r) \<and> fst init < prio (snd r)))" for m
  proof (induction m)
    case (Suc m)
    obtain p i where r: "fold ?f [0..<m] init = (p, i)" by force
    show ?case
      using Suc by (auto simp: r Let_def less_Suc_eq)
  qed simp
  from this [of "g_num_threads s"] show ?thesis
    by (simp add: best_thread_def init_def Let_def)
qed

section \<open>A switch\<close>

lemma save_current_simps:
  "k_sched (save_current rsp k) = upd_thread (current k) (\<lambda>t. t\<lparr>t_rsp := rsp,
     t_state := (if t_state t = THREAD_RUNNING then THREAD_READY else t_state t)\<rparr>) (k_sched k)"
  "k_vm (save_current rsp k) = k_vm k" "k_tss (save_current rsp k) = k_tss k"
  "fpu_registers (save_current rsp k) = fpu_registers k"
  by (simp_all add: save_current_def)

text \<open>What a switch from \<open>c\<close> to \<open>j\<close>, with the stack pointer \<open>rsp\<close> of the interrupted thread, does.\<close>

definition switched :: "u64 \<Rightarrow> kernel \<Rightarrow> nat \<Rightarrow> u64 \<times> kernel \<Rightarrow> bool" where
  "switched rsp k j res \<longleftrightarrow>
     (let c = current k; s = k_sched k; (r, k') = res; s' = k_sched k' in
      r = (if j = c then rsp else t_rsp (g_threads s j)) \<and>
      fpu_registers k' = (if j = c then fpu_registers k else t_fpu_state (g_threads s j)) \<and>
      rsp0 (k_tss k') = t_kernel_stack_top (g_threads s j) \<and>
      g_current_kernel_stack_top k' = t_kernel_stack_top (g_threads s j) \<and>
      vm_cr3 (k_vm k') = (if t_cr3 (g_threads s j) = 0 then g_kernel_pml4 (k_vm k) else t_cr3 (g_threads s j)) \<and>
      current k' = j \<and> t_rsp (g_threads s' c) = rsp \<and> t_fpu_state (g_threads s' c) = fpu_registers k \<and>
      (\<forall>i. i \<noteq> c \<longrightarrow> t_rsp (g_threads s' i) = t_rsp (g_threads s i) \<and>
         t_fpu_state (g_threads s' i) = t_fpu_state (g_threads s i)) \<and>
      (\<forall>i. t_id (g_threads s' i) = t_id (g_threads s i) \<and> t_cr3 (g_threads s' i) = t_cr3 (g_threads s i) \<and>
         t_kernel_stack_top (g_threads s' i) = t_kernel_stack_top (g_threads s i)) \<and>
      g_num_threads s' = g_num_threads s)"

lemma switch_to_switched: "switched rsp k j (switch_to j (save_current rsp k))"
  by (auto simp: switched_def switch_to_def save_current_simps Let_def set_state_thread tss_set_rsp0_def
      vmm_switch_def)

lemma switch_to_states:
  "thread_st (k_sched (snd (switch_to j (save_current rsp k)))) i =
     (if i = j then THREAD_RUNNING
      else if i = current k \<and> thread_st (k_sched k) i = THREAD_RUNNING then THREAD_READY
      else thread_st (k_sched k) i)"
  by (simp add: switch_to_def save_current_simps Let_def set_state_thread)

section \<open>The interrupts\<close>

lemma switched_enter:
  assumes "wakes (k_sched k) (k_sched k1)" "k_vm k1 = k_vm k" "fpu_registers k1 = fpu_registers k"
    "switched rsp k1 j res"
  shows "switched rsp k j res"
  using assms(4) wakes_fields [OF assms(1)] wakesD(1,2) [OF assms(1)] assms(2,3)
  by (simp add: switched_def Let_def case_prod_beta)

lemma interrupt_cases:
  assumes ok: "sched_ok (k_sched k)"
  defines "k1 \<equiv> enter_interrupt k"
  obtains (idle) "schedule_interrupt rsp k = (0, k1)" "\<not> g_sched_ready (k_sched k) \<or> g_num_threads (k_sched k) \<le> 1"
    | (stay) "schedule_interrupt rsp k = (0, upd_sched (set_state (current k) THREAD_RUNNING) (save_current rsp k1))"
        "\<forall>i < g_num_threads (k_sched k). thread_st (k_sched (save_current rsp k1)) i \<noteq> THREAD_READY"
    | (switch) j where "schedule_interrupt rsp k = switch_to j (save_current rsp k1)"
        "j < g_num_threads (k_sched k)" "thread_st (k_sched (save_current rsp k1)) j = THREAD_READY"
        "\<forall>i < g_num_threads (k_sched k). thread_st (k_sched (save_current rsp k1)) i = THREAD_READY \<longrightarrow> i \<noteq> current k \<longrightarrow>
           (i + g_num_threads (k_sched k) - j) mod g_num_threads (k_sched k) <
           (i + g_num_threads (k_sched k) - current k) mod g_num_threads (k_sched k)"
proof -
  let ?s = "k_sched (save_current rsp k1)" and ?n = "g_num_threads (k_sched k)" and ?c = "current k"
  have w: "wakes (k_sched k) (k_sched k1)"
    unfolding k1_def by (rule enter_interrupt_effect)
  have eq: "g_num_threads ?s = ?n" "g_current_thread_idx ?s = ?c" "g_sched_ready (k_sched k1) = g_sched_ready (k_sched k)"
    "current k1 = ?c" "g_num_threads (k_sched k1) = ?n"
    using wakesD [OF w] by (simp_all add: save_current_simps)
  have "?c < ?n"
    using ok by (simp add: sched_ok_def)
  note nxt = find_ready_next [of ?c ?s, unfolded eq(1), OF this]
  let ?j = "find_ready ?s ((?c + 1) mod ?n) ?n"
  have sched: "schedule_interrupt rsp k =
      (if \<not> g_sched_ready (k_sched k) \<or> ?n \<le> 1 then (0, k1)
       else if thread_st ?s ?j \<noteq> THREAD_READY then (0, upd_sched (set_state ?c THREAD_RUNNING) (save_current rsp k1))
       else switch_to ?j (save_current rsp k1))"
    by (simp add: schedule_interrupt_def k1_def [symmetric] Let_def eq)
  show ?thesis
  proof (cases "\<not> g_sched_ready (k_sched k) \<or> ?n \<le> 1")
    case True
    then show ?thesis
      using idle sched by simp
  next
    case False
    then show ?thesis
      using stay switch [of ?j] sched nxt by (cases "thread_st ?s ?j = THREAD_READY") auto
  qed
qed

lemma irq_cases:
  fixes video kbd aux v
  assumes ok: "sched_ok (k_sched k)"
  defines "k1 \<equiv> enter_irq video kbd aux v k"
  obtains (idle) "schedule_irq video kbd aux rsp v k = (0, k1)"
        "\<not> g_sched_ready (k_sched k) \<or> g_num_threads (k_sched k) \<le> 1 \<or> snd (best_thread (k_sched k1)) = current k"
    | (switch) j where "schedule_irq video kbd aux rsp v k = switch_to j (save_current rsp k1)"
        "j = snd (best_thread (k_sched k1))" "j \<noteq> current k"
proof -
  have "wakes (k_sched k) (k_sched k1)"
    unfolding k1_def by (rule enter_irq_effect)
  note eq = wakesD(1-3) [OF this]
  have "schedule_irq video kbd aux rsp v k =
      (if (\<not> g_sched_ready (k_sched k) \<or> g_num_threads (k_sched k) \<le> 1) \<or>
          snd (best_thread (k_sched k1)) = current k then (0, k1)
       else switch_to (snd (best_thread (k_sched k1))) (save_current rsp k1))"
    unfolding schedule_irq_def k1_def [symmetric] Let_def eq by simp
  then show ?thesis
    using idle switch by (metis (no_types, lifting))
qed

lemma best_thread_less:
  assumes "sched_ok s"
  shows "snd (best_thread s) < g_num_threads s"
proof -
  have c: "g_current_thread_idx s < g_num_threads s"
    using assms by (simp add: sched_ok_def)
  show ?thesis
    using best_thread_spec [OF c] c unfolding Let_def by (elim conjE disjE) (simp_all split: if_splits)
qed

text \<open>The table after a switch, after a step that keeps the processor, and after a change of one thread.\<close>

lemma sched_ok_switch:
  assumes "sched_ok (k_sched k)" "j < g_num_threads (k_sched k)"
  shows "sched_ok (k_sched (snd (switch_to j (save_current rsp k))))"
proof -
  obtain r k' where r: "switch_to j (save_current rsp k) = (r, k')" by force
  have "switched rsp k j (r, k')"
    using switch_to_switched [of rsp k j] r by simp
  moreover have "thread_st (k_sched k') i = (if i = j then THREAD_RUNNING
      else if i = current k \<and> thread_st (k_sched k) i = THREAD_RUNNING then THREAD_READY
      else thread_st (k_sched k) i)" for i
    using switch_to_states [of j rsp k i] r by simp
  ultimately show ?thesis
    using assms r by (auto simp: sched_ok_def switched_def Let_def)
qed

lemma sched_ok_save: "sched_ok (k_sched k) \<Longrightarrow> sched_ok (k_sched (save_current rsp k))"
  by (auto simp: sched_ok_def save_current_simps)

lemma sched_ok_state:
  "sched_ok s \<Longrightarrow> st = THREAD_RUNNING \<longrightarrow> i = g_current_thread_idx s \<Longrightarrow> sched_ok (set_state i st s)"
  by (auto simp: sched_ok_def)

lemma sched_ok_thread:
  "sched_ok s \<Longrightarrow> t_state (f (g_threads s i)) \<noteq> THREAD_RUNNING \<or> t_state (f (g_threads s i)) = thread_st s i \<Longrightarrow>
   i < g_num_threads s \<Longrightarrow> t_id (f (g_threads s i)) = of_nat i \<Longrightarrow> sched_ok (upd_thread i f s)"
  by (auto simp: sched_ok_def split: if_splits)

lemma sched_ok_interrupt:
  assumes ok: "sched_ok (k_sched k)"
  shows "sched_ok (k_sched (snd (schedule_interrupt rsp k)))"
proof -
  have ok1: "sched_ok (k_sched (enter_interrupt k))" and w: "wakes (k_sched k) (k_sched (enter_interrupt k))"
    using sched_ok_wakes enter_interrupt_effect(1) ok by blast+
  show ?thesis
  proof (cases rule: interrupt_cases [OF ok, of rsp, case_names idle stay switch])
    case stay
    then show ?thesis
      using sched_ok_state [OF sched_ok_save [OF ok1, of rsp], of THREAD_RUNNING "current k"] wakesD(2) [OF w]
      by (simp add: save_current_simps)
  next
    case (switch j)
    then show ?thesis
      using sched_ok_switch [OF ok1] wakesD(1) [OF w] by simp
  qed (use ok1 in simp)
qed

lemma sched_ok_irq:
  assumes ok: "sched_ok (k_sched k)"
  shows "sched_ok (k_sched (snd (schedule_irq video kbd aux rsp v k)))"
proof -
  have ok1: "sched_ok (k_sched (enter_irq video kbd aux v k))"
    using sched_ok_wakes enter_irq_effect(1) ok by blast
  show ?thesis
  proof (cases rule: irq_cases [OF ok, of video kbd aux rsp v, case_names idle switch])
    case (switch j)
    then show ?thesis
      using sched_ok_switch [OF ok1] best_thread_less [OF ok1] by simp
  qed (use ok1 in simp)
qed

section \<open>Creation, exit and start\<close>

lemma free_slot_cases:
  obtains (old) "free_slot s \<in> {1..<g_num_threads s}" "thread_st s (free_slot s) = THREAD_TERMINATED"
    | (new) "free_slot s = g_num_threads s" "\<forall>i\<in>{1..<g_num_threads s}. thread_st s i \<noteq> THREAD_TERMINATED"
  using that by (fastforce simp: free_slot_def find_None_iff find_Some_iff nth_Cons' split: option.splits)

text \<open>What preparing and starting a thread in a slot leaves of the table.\<close>

definition only_slot :: "nat \<Rightarrow> sched \<Rightarrow> sched \<Rightarrow> bool" where
  "only_slot j s s' \<longleftrightarrow> g_num_threads s' = g_num_threads s \<and> g_current_thread_idx s' = g_current_thread_idx s \<and>
     g_sched_ready s' = g_sched_ready s \<and> (\<forall>i. i \<noteq> j \<longrightarrow> g_threads s' i = g_threads s i) \<and>
     thread_st s' j = thread_st s j \<and> t_id (g_threads s' j) = t_id (g_threads s j) \<and>
     t_app_path (g_threads s' j) = t_app_path (g_threads s j)"

lemma only_slot_ok:
  assumes "only_slot j s s'" "sched_ok s"
  shows "sched_ok s'"
proof -
  have "thread_st s' i = thread_st s i" "t_id (g_threads s' i) = t_id (g_threads s i)" for i
    using assms(1) by (cases "i = j"; simp add: only_slot_def)+
  then show ?thesis
    using assms by (simp add: sched_ok_def only_slot_def)
qed

lemma prepare_slot:
  assumes "give_stack j (strip_stack j (strip_space ki j k)) = (ok, k')"
  shows "only_slot j (k_sched k) (k_sched k')"
  using assms
  by (auto simp: give_stack_def strip_stack_def strip_space_def only_slot_def Let_def case_prod_beta
      split: if_splits)

lemma start_thread_sched:
  "k_sched (start_thread e j k) =
     (upd_thread j (\<lambda>t. t\<lparr>t_id := of_nat j,
        t_rsp := t_stack_limit t + ucast (THREAD_STACK_PAGES * 4096) - sizeof_context,
        t_state := THREAD_READY, t_cr3 := g_kernel_cr3 k,
        t_kernel_stack_top := t_stack_limit t + ucast (THREAD_STACK_PAGES * 4096),
        t_fpu_state := the (s_default_fpu (start_thread e j k))\<rparr>) (k_sched k))
     \<lparr>g_num_threads := (if j = g_num_threads (k_sched k) then g_num_threads (k_sched k) + 1
                        else g_num_threads (k_sched k))\<rparr>"
  by (simp add: start_thread_def Let_def upd_sched_def upd_thread_def)

lemma sched_ok_create:
  assumes ok: "sched_ok (k_sched k)"
  shows "sched_ok (k_sched (thread_create ki e k))"
proof -
  let ?j = "free_slot (k_sched k)"
  obtain b k1 where g: "give_stack ?j (strip_stack ?j (strip_space ki ?j k)) = (b, k1)" by force
  note only = prepare_slot [OF g]
  have ok1: "sched_ok (k_sched k1)"
    by (rule only_slot_ok [OF only ok])
  have n1: "g_num_threads (k_sched k1) = g_num_threads (k_sched k)"
    using only by (simp add: only_slot_def)
  have start: "sched_ok (k_sched (start_thread e ?j k1))" if "?j < MAX_THREADS"
  proof (cases rule: free_slot_cases [of "k_sched k", case_names old new])
    case old
    then have "?j < g_num_threads (k_sched k1)"
      by (simp add: n1)
    then show ?thesis
      using ok1 unfolding start_thread_sched by (simp add: sched_ok_def)
  next
    case new
    then have "?j = g_num_threads (k_sched k1)" "g_num_threads (k_sched k1) < MAX_THREADS"
      using that by (simp_all add: n1)
    then show ?thesis
      using ok1 unfolding start_thread_sched by (auto simp: sched_ok_def less_Suc_eq)
  qed
  then show ?thesis
    using ok ok1 g by (simp add: thread_create_def Let_def)
qed

lemma sched_ok_process:
  assumes "sched_ok (k_sched k)"
  shows "sched_ok (k_sched (process_create ki k))"
proof -
  have "sched_ok (k_sched (start_process p q k'))"
    if "k_sched k' = k_sched k" "g_num_threads (k_sched k) < MAX_THREADS" for p q k'
    using that assms by (auto simp: start_process_def Let_def sched_ok_def less_Suc_eq)
  then show ?thesis
    using assms by (simp add: process_create_def Let_def split: prod.split)
qed

lemma sched_ok_end:
  assumes "sched_ok (k_sched k)" "i < g_num_threads (k_sched k)"
  shows "sched_ok (k_sched (end_thread i k))"
  using assms sched_ok_thread [of "k_sched k"] by (simp add: end_thread_def sched_ok_def)

lemma sched_ok_exit:
  assumes ok: "sched_ok (k_sched k)" and "thread_exit rsp k = Some (r, k')"
  shows "sched_ok (k_sched k')"
proof -
  obtain n wm where d: "woos_graphics_destroy_thread_windows (sched_current_thread_id (k_sched k)) (k_wm k) = Some (n, wm)"
    using assms(2) by (auto simp: thread_exit_def split: option.splits)
  let ?k = "k\<lparr>k_wm := wm\<rparr>"
  have "wakes (k_sched k) (k_sched ?k)"
    using wakes_destroy_thread [OF d] by simp
  then have ok1: "sched_ok (k_sched ?k)"
    using sched_ok_wakes ok by blast
  have "sched_ok (k_sched (end_thread (current ?k) ?k))"
    by (rule sched_ok_end [OF ok1]) (use ok1 in \<open>simp add: sched_ok_def\<close>)
  then have "sched_ok (sched_unblock_all (k_sched (end_thread (current ?k) ?k)))"
    by (rule sched_ok_wakes [OF wakes_unblock])
  then have "sched_ok (k_sched (snd (thread_yield rsp (upd_sched sched_unblock_all (end_thread (current ?k) ?k)))))"
    unfolding thread_yield_def by (intro sched_ok_interrupt) simp
  then show ?thesis
    using assms(2) d by (auto simp: thread_exit_def Let_def)
qed

lemma running_instance_Some:
  "running_instance path s = Some i \<Longrightarrow> i \<in> {1..<g_num_threads s} \<and> thread_st s i \<noteq> THREAD_TERMINATED \<and>
     app_paths_match (Some (app_path_str (g_threads s i))) (Some path)"
  by (auto simp: running_instance_def find_Some_iff)

lemma sched_ok_spawn_new:
  assumes "sched_ok (k_sched k)"
  shows "sched_ok (k_sched (snd (spawn_new ki e path k)))"
proof -
  let ?j = "free_slot (k_sched k)"
  let ?f = "upd_thread ?j (\<lambda>t. t\<lparr>t_app_path := store_path path (t_app_path t)\<rparr>)"
  have "sched_ok (?f (k_sched k))"
    using assms by (cases rule: free_slot_cases [of "k_sched k"]) (auto simp: sched_ok_def)
  then have "sched_ok (k_sched (thread_create ki e (upd_sched ?f k)))"
    by (intro sched_ok_create) simp
  then show ?thesis
    using assms by (simp add: spawn_new_def Let_def)
qed

lemma sched_ok_spawn:
  assumes ok: "sched_ok (k_sched k)"
  shows "sched_ok (k_sched (snd (woos_system_spawn ki e path k)))"
proof (cases path)
  case (Some p)
  show ?thesis
  proof (cases "running_instance p (k_sched k)")
    case None
    then show ?thesis
      using ok sched_ok_spawn_new by (simp add: woos_system_spawn_def Some)
  next
    case i: (Some i)
    obtain r wm where f: "woos_graphics_bring_thread_to_front (ucast (t_id (g_threads (k_sched k) i))) (k_wm k) = (r, wm)"
      by force
    have w: "wakes (k_sched k) (wm_sched wm)"
      using wakes_thread_front [of "k_sched k" "k_wm k" "ucast (t_id (g_threads (k_sched k) i))"] f by simp
    let ?k = "k\<lparr>k_wm := wm\<rparr>"
    have ok1: "sched_ok (k_sched ?k)"
      using sched_ok_wakes [OF w] ok by simp
    then have "sched_ok (k_sched (end_thread i ?k))"
      using running_instance_Some [OF i] wakesD(1) [OF w] by (intro sched_ok_end) auto
    then show ?thesis
      using ok ok1 f sched_ok_spawn_new by (simp add: woos_system_spawn_def Some i Let_def)
  qed
qed (use ok in \<open>simp add: woos_system_spawn_def\<close>)

section \<open>Fairness\<close>

definition dist :: "nat \<Rightarrow> kernel \<Rightarrow> nat" where
  "dist j k = (j + g_num_threads (k_sched k) - current k) mod g_num_threads (k_sched k)"

text \<open>A ready thread that waits for the processor, in a running system.\<close>

definition waiting :: "nat \<Rightarrow> kernel \<Rightarrow> bool" where
  "waiting j k \<longleftrightarrow> sched_ok (k_sched k) \<and> g_sched_ready (k_sched k) \<and> j < g_num_threads (k_sched k) \<and>
     j \<noteq> current k \<and> thread_st (k_sched k) j = THREAD_READY"

lemma waiting_interrupt:
  fixes rsp :: u64
  assumes "waiting j k"
  defines "k' \<equiv> snd (schedule_interrupt rsp k)"
  shows "current k' = j \<or> waiting j k' \<and> dist j k' < dist j k"
    and "g_num_threads (k_sched k') = g_num_threads (k_sched k)"
proof -
  let ?k1 = "enter_interrupt k"
  let ?s = "k_sched (save_current rsp ?k1)"
  have ok: "sched_ok (k_sched k)" and j: "j < g_num_threads (k_sched k)" "j \<noteq> current k"
    "thread_st (k_sched k) j = THREAD_READY" and run: "g_sched_ready (k_sched k)"
    using assms(1) by (simp_all add: waiting_def)
  have w: "wakes (k_sched k) (k_sched ?k1)"
    by (rule enter_interrupt_effect)
  have n: "1 < g_num_threads (k_sched k)"
    using ok j by (auto simp: sched_ok_def)
  have jr: "thread_st ?s j = THREAD_READY" "thread_st (k_sched ?k1) j = THREAD_READY"
    using wakesD(2,5) [OF w] j by (auto simp: save_current_simps)
  have "sched_ok (k_sched k')"
    unfolding k'_def by (rule sched_ok_interrupt [OF ok])
  moreover have "(current k' = j \<or> j \<noteq> current k' \<and> thread_st (k_sched k') j = THREAD_READY \<and>
      g_sched_ready (k_sched k') \<and> dist j k' < dist j k) \<and>
      g_num_threads (k_sched k') = g_num_threads (k_sched k)"
  proof (cases rule: interrupt_cases [OF ok, of rsp, case_names idle stay switch])
    case idle
    then show ?thesis
      using n run by simp
  next
    case stay
    then show ?thesis
      using jr j(1) by simp
  next
    case (switch i)
    obtain r where r: "switch_to i (save_current rsp ?k1) = (r, k')"
      using switch(1) by (simp add: k'_def prod_eq_iff)
    then have "switched rsp ?k1 i (r, k')"
      using switch_to_switched [of rsp ?k1 i] by simp
    then have c: "current k' = i" "g_num_threads (k_sched k') = g_num_threads (k_sched k)"
      using wakesD(1) [OF w] by (simp_all add: switched_def Let_def)
    have "thread_st (k_sched k') j = THREAD_READY" if "j \<noteq> i"
      using switch_to_states [of i rsp ?k1 j] r that jr(2) by simp
    moreover have "g_sched_ready (k_sched k') = g_sched_ready (k_sched k)"
      using r wakesD(3) [OF w] by (auto simp: switch_to_def Let_def save_current_simps set_state_def)
    moreover have "dist j k' < dist j k"
      using switch(4) j jr(1) c by (simp add: dist_def)
    ultimately show ?thesis
      using c run by blast
  qed
  ultimately show "current k' = j \<or> waiting j k' \<and> dist j k' < dist j k"
    "g_num_threads (k_sched k') = g_num_threads (k_sched k)"
    using j(1) by (auto simp: waiting_def)
qed

text \<open>The ways a thread loses the processor to the round robin.\<close>

datatype cpu_event = Tick u64 | Yield u64 | Block u64

fun cpu_step :: "cpu_event \<Rightarrow> kernel \<Rightarrow> kernel" where
  "cpu_step (Tick rsp) k = snd (schedule_interrupt rsp k)"
| "cpu_step (Yield rsp) k = snd (thread_yield rsp k)"
| "cpu_step (Block rsp) k = snd (sched_block_current rsp k)"

lemma waiting_step:
  assumes "waiting j k"
  shows "current (cpu_step e k) = j \<or> waiting j (cpu_step e k) \<and> dist j (cpu_step e k) < dist j k"
    and "g_num_threads (k_sched (cpu_step e k)) = g_num_threads (k_sched k)"
proof -
  have y: "waiting j (k'\<lparr>g_is_yield := True\<rparr>) = waiting j k'" "dist j (k'\<lparr>g_is_yield := True\<rparr>) = dist j k'"
    for k' by (simp_all add: waiting_def dist_def)
  let ?b = "upd_sched (set_state (current k) THREAD_BLOCKED) k"
  have b: "waiting j ?b" "dist j ?b = dist j k"
    using assms sched_ok_state [of "k_sched k" THREAD_BLOCKED "current k"] by (simp_all add: waiting_def dist_def)
  have "(current (cpu_step e k) = j \<or> waiting j (cpu_step e k) \<and> dist j (cpu_step e k) < dist j k) \<and>
      g_num_threads (k_sched (cpu_step e k)) = g_num_threads (k_sched k)"
  proof (cases e)
    case (Tick rsp)
    then show ?thesis
      using waiting_interrupt [OF assms, of rsp] by simp
  next
    case (Yield rsp)
    then show ?thesis
      using waiting_interrupt [of j "k\<lparr>g_is_yield := True\<rparr>" rsp] assms by (simp add: thread_yield_def y)
  next
    case (Block rsp)
    then show ?thesis
      using waiting_interrupt [of j "?b\<lparr>g_is_yield := True\<rparr>" rsp] b
      by (simp add: sched_block_current_def thread_yield_def y)
  qed
  then show "current (cpu_step e k) = j \<or> waiting j (cpu_step e k) \<and> dist j (cpu_step e k) < dist j k"
    "g_num_threads (k_sched (cpu_step e k)) = g_num_threads (k_sched k)" by auto
qed

lemma cyclic_pos: "j < n \<Longrightarrow> c < n \<Longrightarrow> j \<noteq> c \<Longrightarrow> 0 < (j + n - c) mod n" for j c n :: nat
  by (cases "c < j") (auto simp: mod_if)

lemma dist_pos: "waiting j k \<Longrightarrow> 0 < dist j k"
  unfolding waiting_def dist_def sched_ok_def by (intro cyclic_pos) simp_all

lemma waiting_run:
  "waiting j k \<Longrightarrow> dist j k \<le> length es \<Longrightarrow> \<exists>m \<le> dist j k. current (fold cpu_step (take m es) k) = j"
proof (induction es arbitrary: k)
  case Nil
  then show ?case
    using dist_pos [of j k] by simp
next
  case (Cons e es)
  show ?case
  proof (cases "current (cpu_step e k) = j")
    case True
    then show ?thesis
      using dist_pos [OF Cons.prems(1)] by (intro exI [of _ 1]) simp
  next
    case False
    then have "waiting j (cpu_step e k)" "dist j (cpu_step e k) < dist j k"
      using waiting_step [OF Cons.prems(1)] by auto
    moreover from this obtain m where "m \<le> dist j (cpu_step e k)"
      "current (fold cpu_step (take m es) (cpu_step e k)) = j"
      using Cons.IH Cons.prems(2) by fastforce
    ultimately show ?thesis
      by (intro exI [of _ "Suc m"]) simp
  qed
qed

section \<open>Paths\<close>

text \<open>The slashes at the end removed; the name of an application: also those at the start, in capitals.\<close>

definition strip_end :: "u8 list \<Rightarrow> u8 list" where
  "strip_end p = rev (dropWhile (\<lambda>c. c = 47) (rev p))"

definition app_name :: "u8 list \<Rightarrow> u8 list" where
  "app_name p = strip_end (map path_upper (skip_slashes p))"

lemma strip_end_simps [simp]:
  "strip_end [] = []"
  "strip_end (c # p) = (if c = 47 \<and> strip_end p = [] then [] else c # strip_end p)"
  by (auto simp: strip_end_def dropWhile_append dropWhile_eq_Nil_conv)

lemma strip_end_Nil: "strip_end p = [] \<longleftrightarrow> (\<forall>c\<in>set p. c = 47)"
  by (induction p) auto

lemma skip_slashes_Nil: "skip_slashes p = [] \<longleftrightarrow> (\<forall>c\<in>set p. c = 47)"
  by (simp add: skip_slashes_def dropWhile_eq_Nil_conv)

lemma path_upper_slash [simp]: "path_upper c = 47 \<longleftrightarrow> c = 47"
proof -
  have "c = 79" if "c - 32 = 47"
    using that by (simp add: diff_eq_eq)
  then show ?thesis
    by (auto simp: path_upper_def)
qed

lemma match_prefix_name:
  "(case match_prefix p q of None \<Rightarrow> False | Some (r1, r2) \<Rightarrow> skip_slashes r1 = [] \<and> skip_slashes r2 = []) \<longleftrightarrow>
   strip_end (map path_upper p) = strip_end (map path_upper q)"
proof (induction p q rule: match_prefix.induct [case_names both left right])
  case (both c p d q)
  then show ?case
    by (cases "path_upper c = path_upper d") auto
next
  case (left q)
  have "skip_slashes q = [] \<longleftrightarrow> strip_end (map path_upper q) = []"
    by (simp add: strip_end_Nil skip_slashes_Nil)
  then show ?case
    by (auto simp: skip_slashes_Nil)
next
  case (right p)
  have "skip_slashes p = [] \<longleftrightarrow> strip_end (map path_upper p) = []"
    by (simp add: strip_end_Nil skip_slashes_Nil)
  then show ?case
    by (auto simp: skip_slashes_Nil)
qed

end
