(* ===== verification/Sched_Spec.thy ===== *)
theory Sched_Spec
  imports Scheduling
begin

text \<open>
  The properties of the scheduler, over the step relation of the whole kernel state: interrupts,
  yields, blocking, waking, creation, exit and the start of applications, in any order, with
  arbitrary computation of the running thread in between.
\<close>

section \<open>The kernel's steps\<close>

inductive kernel_step :: "kernel_image \<Rightarrow> kernel \<Rightarrow> kernel \<Rightarrow> bool" for ki where
  step_timer: "schedule_interrupt rsp k = (r, k') \<Longrightarrow> kernel_step ki k k'"
| step_device: "schedule_irq video kbd aux rsp v k = (r, k') \<Longrightarrow> kernel_step ki k k'"
| step_yield: "thread_yield rsp k = (r, k') \<Longrightarrow> kernel_step ki k k'"
| step_block: "kernel_step ki k (upd_sched (set_state (current k) THREAD_BLOCKED) k)"
| step_unblock: "kernel_step ki k (upd_sched sched_unblock_all k)"
| step_exit: "thread_exit rsp k = Some (r, k') \<Longrightarrow> kernel_step ki k k'"
| step_thread: "kernel_step ki k (thread_create ki entry_point k)"
| step_process: "kernel_step ki k (process_create ki k)"
| step_spawn: "woos_system_spawn ki runner path k = (r, k') \<Longrightarrow> kernel_step ki k k'"
| step_compute: "k_sched k' = k_sched k \<Longrightarrow> kernel_step ki k k'"

lemma sched_ok_init: "sched_ok (k_sched (sched_init k))"
  by (simp add: sched_init_def sched_ok_def MAX_THREADS_def Let_def)

lemma sched_ok_step: "kernel_step ki k k' \<Longrightarrow> sched_ok (k_sched k) \<Longrightarrow> sched_ok (k_sched k')"
proof (induction rule: kernel_step.induct)
  case (step_timer rsp k r k')
  then show ?case
    using sched_ok_interrupt [of k rsp] by simp
next
  case (step_device video kbd aux rsp v k r k')
  then show ?case
    using sched_ok_irq [of k video kbd aux rsp v] by simp
next
  case (step_yield rsp k r k')
  then show ?case
    using sched_ok_interrupt [of "k\<lparr>g_is_yield := True\<rparr>" rsp] by (simp add: thread_yield_def)
next
  case (step_block k)
  then show ?case
    using sched_ok_state by simp
next
  case (step_unblock k)
  then show ?case
    using sched_ok_wakes [OF wakes_unblock] by simp
next
  case (step_exit rsp k r k')
  then show ?case
    using sched_ok_exit by blast
next
  case (step_thread k e)
  then show ?case
    by (simp add: sched_ok_create)
next
  case (step_process k)
  then show ?case
    by (simp add: sched_ok_process)
next
  case (step_spawn runner path k r k')
  then show ?case
    using sched_ok_spawn [of k ki runner path] by simp
qed simp

section \<open>Starting applications\<close>

lemma app_paths_match_names:
  "app_paths_match p q \<longleftrightarrow> (\<exists>x y. p = Some x \<and> q = Some y \<and> app_name x = app_name y)"
  by (cases p; cases q) (simp_all add: app_paths_match_def match_prefix_name app_name_def)

lemma app_path_stored:
  assumes "0 \<notin> set path" "length path \<le> 63"
  shows "app_path_str (t\<lparr>t_app_path := store_path path buf\<rparr>) = path"
proof -
  let ?n = "length path"
  have "map (store_path path buf) [0..<64] = map (store_path path buf) [0..<?n] @ 0 # map (store_path path buf) [Suc ?n..<64]"
    using assms(2) upt_add_eq_append [of 0 ?n "64 - ?n"] by (simp add: upt_conv_Cons store_path_def Let_def)
  also have "map (store_path path buf) [0..<?n] = path"
    using assms(2) by (intro nth_equalityI) (simp_all add: store_path_def Let_def)
  finally have "app_path_str (t\<lparr>t_app_path := store_path path buf\<rparr>) =
      takeWhile (\<lambda>b. b \<noteq> 0) (path @ 0 # map (store_path path buf) [Suc ?n..<64])"
    by (simp add: app_path_str_def)
  moreover have "\<forall>b\<in>set path. b \<noteq> 0"
    using assms(1) by metis
  ultimately show ?thesis
    by (simp add: takeWhile_append)
qed

text \<open>The live threads with an application path of their own.\<close>

definition live_app :: "sched \<Rightarrow> nat \<Rightarrow> bool" where
  "live_app s i \<longleftrightarrow> i \<in> {1..<g_num_threads s} \<and> thread_st s i \<noteq> THREAD_TERMINATED"

definition app_of :: "sched \<Rightarrow> nat \<Rightarrow> u8 list" where
  "app_of s i = app_name (app_path_str (g_threads s i))"

definition single_instance :: "sched \<Rightarrow> bool" where
  "single_instance s \<longleftrightarrow>
     (\<forall>i j. live_app s i \<and> live_app s j \<and> app_of s i = app_of s j \<and> app_of s i \<noteq> [] \<longrightarrow> i = j)"

lemma app_path_cong: "t_app_path t = t_app_path t' \<Longrightarrow> app_path_str t = app_path_str t'"
  by (simp add: app_path_str_def)

lemma live_app_wakes:
  assumes "wakes s s'"
  shows "live_app s' i = live_app s i" "app_of s' i = app_of s i"
proof -
  show "live_app s' i = live_app s i"
    using wakesD(1) [OF assms] wakesD(5,6) [OF assms, of i]
    by (cases "thread_st s i = THREAD_BLOCKED") (auto simp: live_app_def)
  show "app_of s' i = app_of s i"
    unfolding app_of_def by (simp only: app_path_cong [OF wakes_fields(8) [OF assms]])
qed

text \<open>What creating a thread leaves of the others and gives to its slot.\<close>

lemma thread_create_slot:
  fixes ki e
  assumes "free_slot (k_sched k) < MAX_THREADS"
  defines "j \<equiv> free_slot (k_sched k)" and "s \<equiv> k_sched k" and "s' \<equiv> k_sched (thread_create ki e k)"
  shows "\<forall>i. i \<noteq> j \<longrightarrow> g_threads s' i = g_threads s i" "t_app_path (g_threads s' j) = t_app_path (g_threads s j)"
    "g_current_thread_idx s' = g_current_thread_idx s"
    "g_num_threads s' = g_num_threads s \<and> thread_st s' j = thread_st s j \<or>
     g_num_threads s' = max (Suc j) (g_num_threads s) \<and> thread_st s' j = THREAD_READY \<and> t_id (g_threads s' j) = of_nat j"
proof -
  obtain b k1 where g: "give_stack j (strip_stack j (strip_space ki j k)) = (b, k1)" by force
  note only = prepare_slot [OF g]
  have le: "j \<le> g_num_threads s"
    unfolding j_def s_def by (cases rule: free_slot_cases [of "k_sched k"]) auto
  have s': "s' = k_sched (if b then start_thread e j k1 else k1)"
    using assms(1) g by (auto simp: thread_create_def Let_def s'_def j_def)
  show "\<forall>i. i \<noteq> j \<longrightarrow> g_threads s' i = g_threads s i" "t_app_path (g_threads s' j) = t_app_path (g_threads s j)"
    "g_current_thread_idx s' = g_current_thread_idx s"
    "g_num_threads s' = g_num_threads s \<and> thread_st s' j = thread_st s j \<or>
     g_num_threads s' = max (Suc j) (g_num_threads s) \<and> thread_st s' j = THREAD_READY \<and> t_id (g_threads s' j) = of_nat j"
    using only le unfolding s' start_thread_sched by (auto simp: only_slot_def s_def start_thread_sched)
qed

lemma free_slot_cong:
  "(\<And>i. thread_st s' i = thread_st s i) \<Longrightarrow> g_num_threads s' = g_num_threads s \<Longrightarrow> free_slot s' = free_slot s"
  by (simp add: free_slot_def split: option.split)

lemma spawn_new_slot:
  fixes k path ki e
  assumes "free_slot (k_sched k) < MAX_THREADS" "0 \<notin> set path" "length path \<le> 63"
  defines "j \<equiv> free_slot (k_sched k)" and "s \<equiv> k_sched k" and "s' \<equiv> k_sched (snd (spawn_new ki e path k))"
  shows "\<forall>i. i \<noteq> j \<longrightarrow> g_threads s' i = g_threads s i" "app_of s' j = app_name path"
    "g_num_threads s' = g_num_threads s \<and> thread_st s' j = thread_st s j \<or>
     g_num_threads s' = max (Suc j) (g_num_threads s) \<and> thread_st s' j = THREAD_READY \<and> t_id (g_threads s' j) = of_nat j"
proof -
  let ?f = "upd_thread j (\<lambda>t. t\<lparr>t_app_path := store_path path (t_app_path t)\<rparr>)"
  let ?k = "upd_sched ?f k"
  have j: "free_slot (k_sched ?k) = j"
    unfolding j_def by (rule free_slot_cong) simp_all
  have s': "s' = k_sched (thread_create ki e ?k)"
    using assms(1) by (simp add: s'_def spawn_new_def j_def Let_def)
  have "free_slot (k_sched ?k) < MAX_THREADS"
    using assms(1) j by (simp add: j_def)
  note create = thread_create_slot [OF this, of ki e, unfolded j, folded s']
  show "\<forall>i. i \<noteq> j \<longrightarrow> g_threads s' i = g_threads s i"
    using create(1) by (simp add: s_def)
  show "g_num_threads s' = g_num_threads s \<and> thread_st s' j = thread_st s j \<or>
     g_num_threads s' = max (Suc j) (g_num_threads s) \<and> thread_st s' j = THREAD_READY \<and> t_id (g_threads s' j) = of_nat j"
    using create(4) by (simp add: s_def)
  have "t_app_path (g_threads s' j) = store_path path (t_app_path (g_threads s j))"
    using create(2) by (simp add: s_def)
  then have "app_path_str (g_threads s' j) = app_path_str ((g_threads s j)\<lparr>t_app_path := store_path path (t_app_path (g_threads s j))\<rparr>)"
    by (intro app_path_cong) simp
  then show "app_of s' j = app_name path"
    using app_path_stored [OF assms(2,3)] by (simp add: app_of_def)
qed

lemma spawn_new_single:
  fixes k path ki e
  assumes "single_instance (k_sched k)" "\<forall>i. live_app (k_sched k) i \<longrightarrow> app_of (k_sched k) i \<noteq> app_name path"
    "0 \<notin> set path" "length path \<le> 63"
  defines "s' \<equiv> k_sched (snd (spawn_new ki e path k))"
  shows "single_instance s'"
proof (cases "free_slot (k_sched k) < MAX_THREADS")
  case True
  note slot = spawn_new_slot [OF True assms(3,4), of ki e, folded s'_def]
  let ?j = "free_slot (k_sched k)"
  have "?j \<le> g_num_threads (k_sched k)"
    by (cases rule: free_slot_cases [of "k_sched k"]) auto
  then have others: "live_app (k_sched k) i \<and> app_of s' i = app_of (k_sched k) i"
    if "live_app s' i" "i \<noteq> ?j" for i
    using that slot(1,3) by (auto simp: live_app_def app_of_def)
  show ?thesis
    unfolding single_instance_def
  proof (intro allI impI)
    fix i i'
    assume *: "live_app s' i \<and> live_app s' i' \<and> app_of s' i = app_of s' i' \<and> app_of s' i \<noteq> []"
    show "i = i'"
    proof (cases "i = ?j \<or> i' = ?j")
      case True
      then show ?thesis
        using * others [of i] others [of i'] slot(2) assms(2) by metis
    next
      case False
      then show ?thesis
        using * others [of i] others [of i'] assms(1) unfolding single_instance_def by metis
    qed
  qed
qed (use assms(1) in \<open>simp add: spawn_new_def Let_def s'_def\<close>)

lemma no_running_instance:
  "running_instance path s = None \<Longrightarrow> live_app s i \<Longrightarrow> app_of s i \<noteq> app_name path"
  by (auto simp: running_instance_def find_None_iff live_app_def app_paths_match_names app_of_def)

lemma end_thread_live:
  "live_app (k_sched (end_thread i k)) j \<longleftrightarrow> live_app (k_sched k) j \<and> j \<noteq> i"
  "j \<noteq> i \<Longrightarrow> app_of (k_sched (end_thread i k)) j = app_of (k_sched k) j"
  by (auto simp: end_thread_def live_app_def app_of_def)

lemma spawn_single:
  assumes ok: "single_instance (k_sched k)" and path: "0 \<notin> set path" "length path \<le> 63" "app_name path \<noteq> []"
  shows "single_instance (k_sched (snd (woos_system_spawn ki e (Some path) k)))"
proof (cases "path = []")
  case False
  show ?thesis
  proof (cases "running_instance path (k_sched k)")
    case None
    then show ?thesis
      using False ok spawn_new_single [of k path ki e] path no_running_instance by (simp add: woos_system_spawn_def)
  next
    case (Some i)
    obtain r wm where f: "woos_graphics_bring_thread_to_front (ucast (t_id (g_threads (k_sched k) i))) (k_wm k) = (r, wm)"
      by force
    let ?k = "k\<lparr>k_wm := wm\<rparr>"
    have w: "wakes (k_sched k) (k_sched ?k)"
      using wakes_thread_front [of "k_sched k" "k_wm k" "ucast (t_id (g_threads (k_sched k) i))"] f by simp
    have single: "single_instance (k_sched ?k)"
      using ok unfolding single_instance_def live_app_wakes [OF w] .
    have i: "live_app (k_sched ?k) i" "app_of (k_sched ?k) i = app_name path"
      using running_instance_Some [OF Some] live_app_wakes [OF w]
      by (auto simp: live_app_def app_of_def app_paths_match_names)
    have "single_instance (k_sched (snd (spawn_new ki e path (end_thread i ?k))))"
    proof (rule spawn_new_single [OF _ _ path(1,2)])
      show "single_instance (k_sched (end_thread i ?k))"
        using single unfolding single_instance_def by (metis end_thread_live)
      show "\<forall>j. live_app (k_sched (end_thread i ?k)) j \<longrightarrow> app_of (k_sched (end_thread i ?k)) j \<noteq> app_name path"
        using single i path(3) unfolding single_instance_def by (metis end_thread_live)
    qed
    then show ?thesis
      using single f False by (simp add: woos_system_spawn_def Some Let_def)
  qed
qed (use ok in \<open>simp add: woos_system_spawn_def\<close>)

section \<open>Priority\<close>

lemma irq_choice:
  assumes ok: "sched_ok (k_sched k)" and run: "g_sched_ready (k_sched k)" "1 < g_num_threads (k_sched k)"
    "thread_st (k_sched k) (current k) = THREAD_RUNNING"
    and r: "schedule_irq video kbd aux rsp v k = (r, k')"
  shows "\<forall>i < g_num_threads (k_sched k). thread_st (k_sched k') i = THREAD_READY \<longrightarrow> prio i \<le> prio (current k')"
    "thread_st (k_sched k') (current k') = THREAD_RUNNING" "current k' = current k \<longrightarrow> r = 0"
    "thread_st (k_sched k) 1 = THREAD_READY \<longrightarrow> current k' = 1"
    "\<forall>i. thread_st (k_sched k) i = THREAD_READY \<longrightarrow> i \<noteq> current k' \<longrightarrow> thread_st (k_sched k') i = THREAD_READY"
    "current k' \<noteq> current k \<longrightarrow> thread_st (k_sched k') (current k) = THREAD_READY"
    "g_num_threads (k_sched k') = g_num_threads (k_sched k)" "g_sched_ready (k_sched k')"
proof -
  let ?k1 = "enter_irq video kbd aux v k"
  let ?s = "k_sched ?k1" and ?n = "g_num_threads (k_sched k)"
  have w: "wakes (k_sched k) ?s"
    by (rule enter_irq_effect)
  note eq = wakesD(1-3) [OF w]
  have ok1: "sched_ok ?s"
    using sched_ok_wakes [OF w ok] .
  then have c: "g_current_thread_idx ?s < g_num_threads ?s"
    by (simp add: sched_ok_def)
  have cr: "thread_st ?s (current k) = THREAD_RUNNING"
    using wakesD(5) [OF w] run(3) by simp
  have r1: "thread_st ?s i = THREAD_READY" if "thread_st (k_sched k) i = THREAD_READY" for i
    using wakesD(5) [OF w, of i] that by simp
  note best = best_thread_spec [OF c, unfolded eq cr, simplified if_True fst_conv snd_conv Let_def]
  let ?b = "snd (best_thread ?s)"
  have pb: "fst (best_thread ?s) = prio ?b"
    using best by force
  have top: "prio i \<le> prio ?b" if "i < ?n" "thread_st ?s i = THREAD_READY" for i
    using best that pb by simp
  have st: "(r, k') = (if ?b = current k then (0, ?k1) else switch_to ?b (save_current rsp ?k1))"
    using r run(1,2) by (simp add: schedule_irq_def Let_def eq)
  have cur: "current k' = ?b" and num: "g_num_threads (k_sched k') = ?n" "g_sched_ready (k_sched k')"
    using st eq run by (auto simp: switch_to_def Let_def save_current_simps set_state_def split: if_splits)
  have states: "thread_st (k_sched k') i = (if i = ?b then THREAD_RUNNING
      else if i = current k then THREAD_READY else thread_st ?s i)" for i
  proof (cases "?b = current k")
    case True
    then show ?thesis
      using st cr by simp
  next
    case False
    then have "k' = snd (switch_to ?b (save_current rsp ?k1))"
      using st by (metis snd_conv)
    then show ?thesis
      using switch_to_states [of ?b rsp ?k1 i] cr eq by simp
  qed
  show "\<forall>i < ?n. thread_st (k_sched k') i = THREAD_READY \<longrightarrow> prio i \<le> prio (current k')"
    using top best pb by (auto simp: states cur)
  show "thread_st (k_sched k') (current k') = THREAD_RUNNING"
    by (simp add: states cur)
  show "current k' = current k \<longrightarrow> r = 0"
    using st cur by (auto split: if_splits)
  show "thread_st (k_sched k) 1 = THREAD_READY \<longrightarrow> current k' = 1"
  proof
    assume "thread_st (k_sched k) 1 = THREAD_READY"
    then have "prio 1 \<le> prio ?b"
      using top [of 1] r1 run(2) by simp
    then show "current k' = 1"
      by (simp add: cur prio_def split: if_splits)
  qed
  show "\<forall>i. thread_st (k_sched k) i = THREAD_READY \<longrightarrow> i \<noteq> current k' \<longrightarrow> thread_st (k_sched k') i = THREAD_READY"
    using r1 by (simp add: states cur)
  show "current k' \<noteq> current k \<longrightarrow> thread_st (k_sched k') (current k) = THREAD_READY"
    by (simp add: states cur)
  show "g_num_threads (k_sched k') = ?n" "g_sched_ready (k_sched k')"
    by (fact num)+
qed

text \<open>The processor passes from thread 1 to a ready thread 2 at the next timer interrupt.\<close>

lemma tick_to_next:
  assumes ok: "sched_ok (k_sched k)" and run: "g_sched_ready (k_sched k)" "2 < g_num_threads (k_sched k)"
    "current k = 1" "thread_st (k_sched k) 1 = THREAD_RUNNING" "thread_st (k_sched k) 2 = THREAD_READY"
    and k': "k' = snd (schedule_interrupt rsp k)"
  shows "current k' = 2" "thread_st (k_sched k') 2 = THREAD_RUNNING" "thread_st (k_sched k') 1 = THREAD_READY"
    "\<forall>i. i \<noteq> 2 \<longrightarrow> thread_st (k_sched k) i = THREAD_READY \<longrightarrow> thread_st (k_sched k') i = THREAD_READY"
    "g_num_threads (k_sched k') = g_num_threads (k_sched k)" "g_sched_ready (k_sched k')"
proof -
  let ?k1 = "enter_interrupt k" and ?n = "g_num_threads (k_sched k)"
  let ?s = "k_sched (save_current rsp ?k1)"
  have w: "wakes (k_sched k) (k_sched ?k1)"
    by (rule enter_interrupt_effect)
  note eq = wakesD(1-3) [OF w]
  have keep: "thread_st (k_sched ?k1) i = thread_st (k_sched k) i" if "thread_st (k_sched k) i \<noteq> THREAD_BLOCKED" for i
    using wakesD(5) [OF w that] .
  have two: "thread_st ?s 2 = THREAD_READY"
    using keep [of 2] run eq by (simp add: save_current_simps)
  have "find_ready ?s 2 ?n = 2"
    using run(2) two by (cases ?n) simp_all
  then have "find_ready ?s ((current k + 1) mod ?n) ?n = 2"
    using run(2,3) by (simp add: numeral_2_eq_2)
  then have st: "schedule_interrupt rsp k = switch_to 2 (save_current rsp ?k1)"
    using run(1,2) two eq by (simp add: schedule_interrupt_def Let_def save_current_simps)
  have states: "thread_st (k_sched k') i =
      (if i = 2 then THREAD_RUNNING else if i = 1 then THREAD_READY else thread_st (k_sched ?k1) i)" for i
    using switch_to_states [of 2 rsp ?k1 i] keep [of 1] run eq by (simp add: k' st)
  show "current k' = 2" "g_num_threads (k_sched k') = ?n" "g_sched_ready (k_sched k')"
    using eq run by (auto simp: k' st switch_to_def Let_def save_current_simps set_state_def)
  show "thread_st (k_sched k') 2 = THREAD_RUNNING" "thread_st (k_sched k') 1 = THREAD_READY"
    "\<forall>i. i \<noteq> 2 \<longrightarrow> thread_st (k_sched k) i = THREAD_READY \<longrightarrow> thread_st (k_sched k') i = THREAD_READY"
    using keep by (simp_all add: states)
qed

text \<open>One device interrupt before every tick: the threads that get the processor.\<close>

fun busy_device :: "((u16 \<times> u16) option \<times> (u8 \<times> u8) \<times> (u8 \<times> u8) list \<times> u64 \<times> u64 \<times> u64) list \<Rightarrow>
    kernel \<Rightarrow> nat list \<times> kernel" where
  "busy_device [] k = ([], k)"
| "busy_device ((video, kbd, aux, v, ra, rb) # xs) k =
     (let k1 = snd (schedule_irq video kbd aux ra v k); k2 = snd (schedule_interrupt rb k1);
          (trace, k') = busy_device xs k2 in
      (current k1 # current k2 # trace, k'))"

lemma busy_device_trace:
  "sched_ok (k_sched k) \<Longrightarrow> g_sched_ready (k_sched k) \<Longrightarrow> 2 < g_num_threads (k_sched k) \<Longrightarrow> current k = 2 \<Longrightarrow>
   thread_st (k_sched k) 2 = THREAD_RUNNING \<Longrightarrow> thread_st (k_sched k) 1 = THREAD_READY \<Longrightarrow>
   thread_st (k_sched k) j = THREAD_READY \<Longrightarrow>
   set (fst (busy_device xs k)) \<subseteq> {1, 2} \<and> thread_st (k_sched (snd (busy_device xs k))) j = THREAD_READY"
proof (induction xs arbitrary: k)
  case (Cons x xs)
  obtain video kbd aux v ra rb where x: "x = (video, kbd, aux, v, ra, rb)"
    by (cases x)
  obtain r1 k1 where i: "schedule_irq video kbd aux ra v k = (r1, k1)" by force
  have n: "1 < g_num_threads (k_sched k)" "thread_st (k_sched k) (current k) = THREAD_RUNNING"
    using Cons.prems by simp_all
  note irq = irq_choice [OF Cons.prems(1,2) n i]
  have c1: "current k1 = 1"
    using irq(4) Cons.prems(6) by simp
  have j: "j \<noteq> 2"
    using Cons.prems(5,7) by auto
  have ok1: "sched_ok (k_sched k1)"
    using sched_ok_irq [OF Cons.prems(1), of video kbd aux ra v] i by simp
  have two: "thread_st (k_sched k1) 1 = THREAD_RUNNING" "thread_st (k_sched k1) 2 = THREAD_READY"
    using irq(2,6) c1 Cons.prems(4) by auto
  have len: "2 < g_num_threads (k_sched k1)"
    using irq(7) Cons.prems(3) by simp
  let ?k2 = "snd (schedule_interrupt rb k1)"
  note tick = tick_to_next [OF ok1 irq(8) len c1 two refl, of rb]
  have jr: "thread_st (k_sched ?k2) j = THREAD_READY"
    using irq(5) Cons.prems(7) tick(3,4) c1 j by (cases "j = 1") auto
  have "sched_ok (k_sched ?k2)"
    by (rule sched_ok_interrupt [OF ok1])
  then show ?case
    using Cons.IH [of ?k2] tick jr len c1 i by (simp add: x Let_def case_prod_beta)
qed simp

section \<open>Properties\<close>

text \<open>Four threads, the second one on the processor.\<close>

definition example_kernel :: "nat \<Rightarrow> kernel" where
  "example_kernel c =
     \<lparr>k_wm = empty_wm\<lparr>wm_sched := (set_state c THREAD_RUNNING ipc_threads)\<lparr>g_current_thread_idx := c\<rparr>\<rparr>,
      k_kbd = example_keyboard, k_keyboard_irqs = 0, k_mouse_irqs = 0, k_mouse = me_mouse example_mouse,
      g_perf_stats = me_perf example_mouse, k_timer = example_timer, k_vm = example_vmm,
      k_tss = \<lparr>rsp0 = 0, rsp1 = 0, rsp2 = 0, ists = (\<lambda>_. 0), iopb = 104\<rparr>, g_kernel_cr3 = 0x1000,
      g_current_kernel_stack_top = 0, g_is_yield = False, ticks_count = 0, fpu_registers = [],
      s_default_fpu = None, k_ports = []\<rparr>"

lemma example_sched:
  assumes "c < 4"
  shows "sched_ok (k_sched (example_kernel c))" "g_num_threads (k_sched (example_kernel c)) = 4"
    "current (example_kernel c) = c" "g_sched_ready (k_sched (example_kernel c))"
    "thread_st (k_sched (example_kernel c)) i = (if i = c then THREAD_RUNNING else THREAD_READY)"
    "app_path_str (g_threads (k_sched (example_kernel c)) i) = []"
  using assms by (simp_all add: example_kernel_def ipc_threads_def sched_ok_def set_state_def MAX_THREADS_def
      app_path_str_def upt_rec)

text \<open>
  C2: In every state reached from \<^verbatim>\<open>sched_init\<close> by interrupts, yields, blocking, waking, exits, creations
  of threads and processes, application starts and arbitrary computation, the table holds between one
  and 16 threads, every thread's id is its index, the current thread is one of them, and no other
  thread is marked as running.
\<close>

theorem one_thread_runs:
  assumes "(kernel_step ki)\<^sup>*\<^sup>* (sched_init k0) k"
  shows "g_num_threads (k_sched k) \<in> {1..16} \<and> current k < g_num_threads (k_sched k) \<and>
    (\<forall>i < g_num_threads (k_sched k). t_id (g_threads (k_sched k) i) = of_nat i \<and>
       (thread_st (k_sched k) i = THREAD_RUNNING \<longrightarrow> i = current k))"
proof -
  have "sched_ok (k_sched k)"
    using assms by (induction rule: rtranclp_induct) (auto intro: sched_ok_init sched_ok_step)
  then show ?thesis
    by (auto simp: sched_ok_def MAX_THREADS_def)
qed

theorem one_thread_runs_witness:
  "current (snd (schedule_interrupt 0x5000 (thread_create example_image 0x1000 (sched_init (example_kernel 0))))) < 16"
proof -
  let ?k1 = "thread_create example_image 0x1000 (sched_init (example_kernel 0))"
  obtain r k' where "schedule_interrupt 0x5000 ?k1 = (r, k')" by force
  then have "(kernel_step example_image)\<^sup>*\<^sup>* (sched_init (example_kernel 0)) k'"
    by (meson kernel_step.intros converse_rtranclp_into_rtranclp rtranclp.rtrancl_refl)
  from one_thread_runs [OF this] show ?thesis
    using \<open>schedule_interrupt 0x5000 ?k1 = (r, k')\<close> by simp
qed

text \<open>
  C13: A timer or device interrupt either changes neither processor state nor current thread, or it
  switches: the interrupted thread's stack pointer and floating-point registers are saved, the new
  current thread gets back the stack pointer and registers saved for it, its kernel stack and its
  address space, and what is saved for every other thread is untouched.
\<close>

theorem switch_restores:
  assumes "sched_ok (k_sched k)"
    "res \<in> {schedule_interrupt rsp k, schedule_irq video kbd aux rsp v k}"
  shows "switched rsp k (current (snd res)) res \<or>
    fst res = 0 \<and> current (snd res) = current k \<and> fpu_registers (snd res) = fpu_registers k \<and>
    k_vm (snd res) = k_vm k \<and> k_tss (snd res) = k_tss k \<and>
    (\<forall>i. i \<noteq> current k \<longrightarrow> t_rsp (g_threads (k_sched (snd res)) i) = t_rsp (g_threads (k_sched k) i) \<and>
       t_fpu_state (g_threads (k_sched (snd res)) i) = t_fpu_state (g_threads (k_sched k) i))"
proof -
  have sw: "switched rsp k (current (snd r)) r"
    if "wakes (k_sched k) (k_sched k1)" "k_vm k1 = k_vm k" "fpu_registers k1 = fpu_registers k"
      "r = switch_to j (save_current rsp k1)" for k1 r j
  proof -
    have s: "switched rsp k j r"
      using switched_enter [OF that(1-3)] switch_to_switched that(4) by blast
    then have "current (snd r) = j"
      by (simp add: switched_def Let_def case_prod_beta)
    then show ?thesis
      using s by simp
  qed
  note timer = enter_interrupt_effect [of k] and dev = enter_irq_effect [where k = k and video = video and kbd = kbd and aux = aux and v = v]
  consider (timer) "res = schedule_interrupt rsp k" | (device) "res = schedule_irq video kbd aux rsp v k"
    using assms(2) by blast
  then show ?thesis
  proof cases
    case t: timer
    show ?thesis
    proof (cases rule: interrupt_cases [OF assms(1), of rsp, case_names idle stay switch])
      case idle
      then show ?thesis
        using t timer wakesD(2) [OF timer(1)] wakes_fields [OF timer(1)] by simp
    next
      case stay
      then show ?thesis
        using t timer wakesD(2) [OF timer(1)] wakes_fields [OF timer(1)]
        by (simp add: save_current_simps set_state_thread)
    next
      case (switch j)
      then show ?thesis
        using sw [OF timer(1,2,4)] t by simp
    qed
  next
    case d: device
    show ?thesis
    proof (cases rule: irq_cases [OF assms(1), of video kbd aux rsp v, case_names idle switch])
      case idle
      then show ?thesis
        using d dev wakesD(2) [OF dev(1)] wakes_fields [OF dev(1)] by simp
    next
      case (switch j)
      then show ?thesis
        using sw [OF dev(1,2,4)] d by simp
    qed
  qed
qed

theorem switch_restores_witness:
  "let res = schedule_interrupt 0x5000 (example_kernel 1) in
     switched 0x5000 (example_kernel 1) (current (snd res)) res \<or> fst res = 0"
  using switch_restores [OF example_sched(1) [of 1], of "schedule_interrupt 0x5000 (example_kernel 1)" "0x5000"]
  by (auto simp: Let_def)

text \<open>
  C14: The round robin is fair: while threads lose the processor by timer ticks, yields and blocking, a
  ready thread gets it after fewer events than there are threads, whatever the others do.
\<close>

theorem round_robin_fair:
  assumes "waiting j k" "g_num_threads (k_sched k) \<le> Suc (length es)"
  shows "\<exists>m < g_num_threads (k_sched k). current (fold cpu_step (take m es) k) = j"
proof -
  have "dist j k < g_num_threads (k_sched k)"
    using assms(1) by (simp add: dist_def waiting_def sched_ok_def)
  moreover from this have "dist j k \<le> length es"
    using assms(2) by simp
  ultimately show ?thesis
    using waiting_run [OF assms(1)] le_less_trans by blast
qed

theorem round_robin_fair_witness:
  "\<exists>m < 4. current (fold cpu_step (take m [Tick 0x5000, Block 0x6000, Yield 0x7000]) (example_kernel 1)) = 0"
proof -
  have "waiting 0 (example_kernel 1)"
    by (simp add: waiting_def example_sched)
  from round_robin_fair [OF this, of "[Tick 0x5000, Block 0x6000, Yield 0x7000]"] show ?thesis
    by (simp add: example_sched)
qed

text \<open>
  After a device interrupt of a running thread no ready thread has a higher priority than the
  running one, where thread 1 (the compositor) ranks first and thread 0 last: a ready compositor gets
  the processor at once.  When the current thread stays, no stack switch is requested.
\<close>

theorem device_interrupt_priority:
  assumes "sched_ok (k_sched k)" "g_sched_ready (k_sched k)" "1 < g_num_threads (k_sched k)"
    "thread_st (k_sched k) (current k) = THREAD_RUNNING" "schedule_irq video kbd aux rsp v k = (r, k')"
  shows "(\<forall>i < g_num_threads (k_sched k). thread_st (k_sched k') i = THREAD_READY \<longrightarrow> prio i \<le> prio (current k')) \<and>
    thread_st (k_sched k') (current k') = THREAD_RUNNING \<and>
    (thread_st (k_sched k) 1 = THREAD_READY \<longrightarrow> current k' = 1) \<and> (current k' = current k \<longrightarrow> r = 0)"
  using irq_choice [OF assms] by simp

theorem device_interrupt_priority_witness:
  "current (snd (schedule_irq None (0, 0) [] 0x5000 33 (example_kernel 3))) = 1"
proof -
  obtain r k' where r: "schedule_irq None (0, 0) [] 0x5000 33 (example_kernel 3) = (r, k')" by force
  have "1 < g_num_threads (k_sched (example_kernel 3))"
    "thread_st (k_sched (example_kernel 3)) (current (example_kernel 3)) = THREAD_RUNNING"
    "thread_st (k_sched (example_kernel 3)) 1 = THREAD_READY"
    by (simp_all add: example_sched)
  then show ?thesis
    using device_interrupt_priority [OF _ _ _ _ r] r example_sched(1,4) [of 3] by simp
qed



text \<open>
  Two paths match exactly when they are equal after removing the slashes at both ends and
  turning ASCII letters into capitals; no path matches \<^verbatim>\<open>NULL\<close>.
\<close>

theorem app_paths_match_equiv:
  "app_paths_match p q \<longleftrightarrow> (\<exists>x y. p = Some x \<and> q = Some y \<and>
     strip_end (map path_upper (skip_slashes x)) = strip_end (map path_upper (skip_slashes y)))"
  by (simp add: app_paths_match_names app_name_def)



end
