(* ===== verification/Font.thy ===== *)
theory Font
  imports Idt
begin

text \<open>
  The 8x8 font of \<^verbatim>\<open>font_cp866.h\<close> and the choice of a glyph for a code point: ASCII directly, the
  Cyrillic letters at their places in code page 866, some punctuation, and the question mark for
  everything else.  The table is split at 128 as the source's comments number it.
\<close>

section \<open>The table\<close>

definition font_ascii :: "u8 list list" where
  "font_ascii =
     [[0x00, 0x00, 0x00, 0x00, 0x00, 0x00, 0x00, 0x00],
      [0x7E, 0x81, 0xA5, 0x81, 0xBD, 0x99, 0x81, 0x7E],
      [0x3C, 0x7E, 0xDB, 0xFF, 0xC3, 0x7E, 0x3C, 0x00],
      [0x00, 0xEE, 0xFE, 0xFE, 0x7C, 0x38, 0x10, 0x00],
      [0x10, 0x38, 0x7C, 0xFE, 0x7C, 0x38, 0x10, 0x00],
      [0x00, 0x3C, 0x18, 0xFF, 0xFF, 0x08, 0x18, 0x00],
      [0x10, 0x38, 0x7C, 0xFE, 0xFE, 0x10, 0x38, 0x00],
      [0x00, 0x00, 0x18, 0x3C, 0x18, 0x00, 0x00, 0x00],
      [0xFF, 0xFF, 0xE7, 0xC3, 0xE7, 0xFF, 0xFF, 0xFF],
      [0x00, 0x3C, 0x42, 0x81, 0x81, 0x42, 0x3C, 0x00],
      [0xFF, 0xC3, 0xBD, 0x7E, 0x7E, 0xBD, 0xC3, 0xFF],
      [0x1F, 0x07, 0x0D, 0x7C, 0xC6, 0xC6, 0x7C, 0x00],
      [0x00, 0x7E, 0xC3, 0xC3, 0x7E, 0x18, 0x7E, 0x18],
      [0x04, 0x06, 0x07, 0x04, 0x04, 0xFC, 0xF8, 0x00],
      [0x0C, 0x0A, 0x0D, 0x0B, 0xF9, 0xF9, 0x1F, 0x1F],
      [0x00, 0x92, 0x7C, 0x44, 0xC6, 0x7C, 0x92, 0x00],
      [0x00, 0x00, 0x60, 0x78, 0x7E, 0x78, 0x60, 0x00],
      [0x00, 0x00, 0x06, 0x1E, 0x7E, 0x1E, 0x06, 0x00],
      [0x18, 0x7E, 0x18, 0x18, 0x18, 0x18, 0x7E, 0x18],
      [0x66, 0x66, 0x66, 0x66, 0x66, 0x00, 0x66, 0x00],
      [0xFF, 0xB6, 0x76, 0x36, 0x36, 0x36, 0x36, 0x00],
      [0x7E, 0xC1, 0xDC, 0x22, 0x22, 0x1F, 0x83, 0x7E],
      [0x00, 0x00, 0x00, 0x7E, 0x7E, 0x00, 0x00, 0x00],
      [0x18, 0x7E, 0x18, 0x18, 0x7E, 0x18, 0x00, 0xFF],
      [0x18, 0x7E, 0x18, 0x18, 0x18, 0x18, 0x18, 0x00],
      [0x18, 0x18, 0x18, 0x18, 0x18, 0x7E, 0x18, 0x00],
      [0x00, 0x04, 0x06, 0xFF, 0x06, 0x04, 0x00, 0x00],
      [0x00, 0x20, 0x60, 0xFF, 0x60, 0x20, 0x00, 0x00],
      [0x00, 0x00, 0x00, 0xC0, 0xC0, 0xC0, 0xFF, 0x00],
      [0x00, 0x24, 0x66, 0xFF, 0x66, 0x24, 0x00, 0x00],
      [0x00, 0x00, 0x10, 0x38, 0x7C, 0xFE, 0x00, 0x00],
      [0x00, 0x00, 0x00, 0xFE, 0x7C, 0x38, 0x10, 0x00],
      [0x00, 0x00, 0x00, 0x00, 0x00, 0x00, 0x00, 0x00],
      [0x30, 0x30, 0x30, 0x30, 0x30, 0x00, 0x30, 0x00],
      [0x66, 0x66, 0x00, 0x00, 0x00, 0x00, 0x00, 0x00],
      [0x6C, 0x6C, 0xFE, 0x6C, 0xFE, 0x6C, 0x6C, 0x00],
      [0x10, 0x7C, 0xD2, 0x7C, 0x86, 0x7C, 0x10, 0x00],
      [0xF0, 0x96, 0xFC, 0x18, 0x3E, 0x72, 0xDE, 0x00],
      [0x30, 0x48, 0x30, 0x78, 0xCE, 0xCC, 0x78, 0x00],
      [0x0C, 0x0C, 0x18, 0x00, 0x00, 0x00, 0x00, 0x00],
      [0x10, 0x60, 0xC0, 0xC0, 0xC0, 0x60, 0x10, 0x00],
      [0x10, 0x0C, 0x06, 0x06, 0x06, 0x0C, 0x10, 0x00],
      [0x00, 0x54, 0x38, 0xFE, 0x38, 0x54, 0x00, 0x00],
      [0x00, 0x18, 0x18, 0x7E, 0x18, 0x18, 0x00, 0x00],
      [0x00, 0x00, 0x00, 0x00, 0x00, 0x00, 0x18, 0x70],
      [0x00, 0x00, 0x00, 0x7E, 0x00, 0x00, 0x00, 0x00],
      [0x00, 0x00, 0x00, 0x00, 0x00, 0x00, 0x18, 0x00],
      [0x02, 0x06, 0x0C, 0x18, 0x30, 0x60, 0xC0, 0x00],
      [0x7C, 0xCE, 0xDE, 0xF6, 0xE6, 0xE6, 0x7C, 0x00],
      [0x18, 0x38, 0x78, 0x18, 0x18, 0x18, 0x3C, 0x00],
      [0x7C, 0xC6, 0x06, 0x0C, 0x30, 0x60, 0xFE, 0x00],
      [0x7C, 0xC6, 0x06, 0x3C, 0x06, 0xC6, 0x7C, 0x00],
      [0x0E, 0x1E, 0x36, 0x66, 0xFE, 0x06, 0x06, 0x00],
      [0xFE, 0xC0, 0xC0, 0xFC, 0x06, 0x06, 0xFC, 0x00],
      [0x7C, 0xC6, 0xC0, 0xFC, 0xC6, 0xC6, 0x7C, 0x00],
      [0xFE, 0x06, 0x0C, 0x18, 0x30, 0x60, 0x60, 0x00],
      [0x7C, 0xC6, 0xC6, 0x7C, 0xC6, 0xC6, 0x7C, 0x00],
      [0x7C, 0xC6, 0xC6, 0x7E, 0x06, 0xC6, 0x7C, 0x00],
      [0x00, 0x30, 0x00, 0x00, 0x00, 0x30, 0x00, 0x00],
      [0x00, 0x30, 0x00, 0x00, 0x00, 0x30, 0x20, 0x00],
      [0x00, 0x1C, 0x30, 0x60, 0x30, 0x1C, 0x00, 0x00],
      [0x00, 0x00, 0x7E, 0x00, 0x7E, 0x00, 0x00, 0x00],
      [0x00, 0x70, 0x18, 0x0C, 0x18, 0x70, 0x00, 0x00],
      [0x7C, 0xC6, 0x0C, 0x18, 0x30, 0x00, 0x30, 0x00],
      [0x7C, 0x82, 0x9A, 0xAA, 0xAA, 0x9E, 0x7C, 0x00],
      [0x7C, 0xC6, 0xC6, 0xFE, 0xC6, 0xC6, 0xC6, 0x00],
      [0xFC, 0x66, 0x66, 0x7C, 0x66, 0x66, 0xFC, 0x00],
      [0x7C, 0xC6, 0xC0, 0xC0, 0xC0, 0xC6, 0x7C, 0x00],
      [0xFC, 0x66, 0x66, 0x66, 0x66, 0x66, 0xFC, 0x00],
      [0xFE, 0x62, 0x68, 0x78, 0x68, 0x62, 0xFE, 0x00],
      [0xFE, 0x62, 0x68, 0x78, 0x68, 0x60, 0xF0, 0x00],
      [0x7C, 0xC6, 0xC6, 0xC0, 0xDE, 0xC6, 0x7C, 0x00],
      [0xC6, 0xC6, 0xC6, 0xFE, 0xC6, 0xC6, 0xC6, 0x00],
      [0x3C, 0x18, 0x18, 0x18, 0x18, 0x18, 0x3C, 0x00],
      [0x1E, 0x0C, 0x0C, 0x0C, 0x0C, 0xCC, 0x78, 0x00],
      [0xC6, 0xCC, 0xD8, 0xF0, 0xD8, 0xCC, 0xC6, 0x00],
      [0xF0, 0x60, 0x60, 0x60, 0x60, 0x62, 0xFE, 0x00],
      [0xC6, 0xEE, 0xFE, 0xD6, 0xC6, 0xC6, 0xC6, 0x00],
      [0xC6, 0xE6, 0xF6, 0xDE, 0xCE, 0xC6, 0xC6, 0x00],
      [0x7C, 0xC6, 0xC6, 0xC6, 0xC6, 0xC6, 0x7C, 0x00],
      [0xFC, 0x66, 0x66, 0x7C, 0x60, 0x60, 0xF0, 0x00],
      [0x7C, 0xC6, 0xC6, 0xC6, 0xC6, 0xC6, 0x7C, 0x0C],
      [0xFC, 0x66, 0x66, 0x7C, 0x66, 0x66, 0xE6, 0x00],
      [0x7C, 0xC6, 0xC0, 0x7C, 0x06, 0xC6, 0x7C, 0x00],
      [0x7E, 0x5A, 0x18, 0x18, 0x18, 0x18, 0x3C, 0x00],
      [0xC6, 0xC6, 0xC6, 0xC6, 0xC6, 0xC6, 0x7C, 0x00],
      [0xC6, 0xC6, 0xC6, 0xC6, 0xC6, 0x6C, 0x38, 0x00],
      [0xC6, 0xC6, 0xC6, 0xC6, 0xD6, 0xEE, 0xC6, 0x00],
      [0xC6, 0x6C, 0x38, 0x38, 0x38, 0x6C, 0xC6, 0x00],
      [0x66, 0x66, 0x66, 0x3C, 0x18, 0x18, 0x3C, 0x00],
      [0xFE, 0xC6, 0x0C, 0x18, 0x30, 0x66, 0xFE, 0x00],
      [0x1C, 0x18, 0x18, 0x18, 0x18, 0x18, 0x1C, 0x00],
      [0xC0, 0x60, 0x30, 0x18, 0x0C, 0x06, 0x02, 0x00],
      [0x70, 0x30, 0x30, 0x30, 0x30, 0x30, 0x70, 0x00],
      [0x00, 0x00, 0x10, 0x38, 0x6C, 0xC6, 0x00, 0x00],
      [0x00, 0x00, 0x00, 0x00, 0x00, 0x00, 0x00, 0xFF],
      [0x30, 0x30, 0x18, 0x00, 0x00, 0x00, 0x00, 0x00],
      [0x00, 0x00, 0x7C, 0x06, 0x7E, 0xC6, 0x7E, 0x00],
      [0xC0, 0xC0, 0xFC, 0xC6, 0xC6, 0xC6, 0xFC, 0x00],
      [0x00, 0x00, 0x7C, 0xC6, 0xC0, 0xC6, 0x7C, 0x00],
      [0x06, 0x06, 0x7E, 0xC6, 0xC6, 0xC6, 0x7E, 0x00],
      [0x00, 0x00, 0x7C, 0xC6, 0xFE, 0xC0, 0x7C, 0x00],
      [0x3C, 0x66, 0x60, 0xF0, 0x60, 0x60, 0x60, 0x00],
      [0x00, 0x00, 0x7E, 0xC6, 0xC6, 0x7E, 0x06, 0x7C],
      [0xC0, 0xC0, 0xFC, 0xC6, 0xC6, 0xC6, 0xC6, 0x00],
      [0x18, 0x00, 0x38, 0x18, 0x18, 0x18, 0x3C, 0x00],
      [0x00, 0x0C, 0x00, 0x1C, 0x0C, 0x0C, 0xCC, 0x78],
      [0xC0, 0xC0, 0xC6, 0xD8, 0xF0, 0xD8, 0xC6, 0x00],
      [0x38, 0x18, 0x18, 0x18, 0x18, 0x18, 0x3C, 0x00],
      [0x00, 0x00, 0xEE, 0xFE, 0xD6, 0xC6, 0xC6, 0x00],
      [0x00, 0x00, 0xFC, 0xC6, 0xC6, 0xC6, 0xC6, 0x00],
      [0x00, 0x00, 0x7C, 0xC6, 0xC6, 0xC6, 0x7C, 0x00],
      [0x00, 0x00, 0xFC, 0xC6, 0xC6, 0xFC, 0xC0, 0xC0],
      [0x00, 0x00, 0x7E, 0xC6, 0xC6, 0x7E, 0x06, 0x06],
      [0x00, 0x00, 0xDE, 0x76, 0x60, 0x60, 0x60, 0x00],
      [0x00, 0x00, 0x7C, 0xC0, 0x7C, 0x06, 0x7C, 0x00],
      [0x18, 0x18, 0x7E, 0x18, 0x18, 0x18, 0x1E, 0x00],
      [0x00, 0x00, 0xC6, 0xC6, 0xC6, 0xC6, 0x7E, 0x00],
      [0x00, 0x00, 0xC6, 0xC6, 0xC6, 0x6C, 0x38, 0x00],
      [0x00, 0x00, 0xC6, 0xC6, 0xD6, 0xFE, 0xC6, 0x00],
      [0x00, 0x00, 0xC6, 0x6C, 0x38, 0x6C, 0xC6, 0x00],
      [0x00, 0x00, 0xC6, 0xC6, 0xC6, 0x7E, 0x06, 0x7C],
      [0x00, 0x00, 0xFE, 0x0C, 0x18, 0x60, 0xFE, 0x00],
      [0x0E, 0x18, 0x18, 0x70, 0x18, 0x18, 0x0E, 0x00],
      [0x18, 0x18, 0x18, 0x00, 0x18, 0x18, 0x18, 0x00],
      [0xE0, 0x30, 0x30, 0x1C, 0x30, 0x30, 0xE0, 0x00],
      [0x00, 0x76, 0xDC, 0x00, 0x00, 0x00, 0x00, 0x00],
      [0x00, 0x00, 0x18, 0x3C, 0x66, 0xFF, 0x00, 0x00]]"

definition font_upper :: "u8 list list" where
  "font_upper =
     [[0x0E, 0x1E, 0x36, 0x66, 0xFE, 0xC6, 0xC6, 0x00],
      [0xFC, 0xC0, 0xC0, 0xFC, 0xC6, 0xC6, 0xFC, 0x00],
      [0xF8, 0xCC, 0xCC, 0xFC, 0xC6, 0xC6, 0xFC, 0x00],
      [0xFC, 0xC0, 0xC0, 0xC0, 0xC0, 0xC0, 0xC0, 0x00],
      [0x7E, 0x66, 0x66, 0x66, 0x66, 0x66, 0xFF, 0xC3],
      [0xFC, 0xC0, 0xC0, 0xF8, 0xC0, 0xC0, 0xFE, 0x00],
      [0xDB, 0xDB, 0x7E, 0x18, 0x7E, 0xDB, 0xDB, 0x00],
      [0x3C, 0x66, 0x06, 0x3C, 0x06, 0xC6, 0x7C, 0x00],
      [0xC6, 0xC6, 0xCE, 0xDE, 0xF6, 0xE6, 0xC6, 0x00],
      [0xD6, 0xC6, 0xCE, 0xDE, 0xF6, 0xE6, 0xC6, 0x00],
      [0xC6, 0xCC, 0xD8, 0xF8, 0xCC, 0xC6, 0xC6, 0x00],
      [0x06, 0x0E, 0x1E, 0x36, 0x66, 0xC6, 0xC6, 0x00],
      [0xC6, 0xEE, 0xFE, 0xD6, 0xC6, 0xC6, 0xC6, 0x00],
      [0xC6, 0xC6, 0xC6, 0xFE, 0xC6, 0xC6, 0xC6, 0x00],
      [0x7C, 0xC6, 0xC6, 0xC6, 0xC6, 0xC6, 0x7C, 0x00],
      [0xFE, 0xC6, 0xC6, 0xC6, 0xC6, 0xC6, 0xC6, 0x00],
      [0xFC, 0xC6, 0xC6, 0xFC, 0xC0, 0xC0, 0xC0, 0x00],
      [0x7C, 0xC6, 0xC0, 0xC0, 0xC0, 0xC6, 0x7C, 0x00],
      [0xFC, 0x30, 0x30, 0x30, 0x30, 0x30, 0x30, 0x00],
      [0xC6, 0xC6, 0xC6, 0x7E, 0x06, 0xC6, 0x7C, 0x00],
      [0x18, 0x7E, 0xDB, 0xDB, 0xDB, 0x7E, 0x18, 0x00],
      [0xC3, 0x66, 0x3C, 0x18, 0x3C, 0x66, 0xC3, 0x00],
      [0xCC, 0xCC, 0xCC, 0xCC, 0xCC, 0xCC, 0xFE, 0x06],
      [0xC6, 0xC6, 0xC6, 0x7E, 0x06, 0x06, 0x06, 0x00],
      [0xD6, 0xD6, 0xD6, 0xD6, 0xD6, 0xD6, 0xFE, 0x00],
      [0xD6, 0xD6, 0xD6, 0xD6, 0xD6, 0xD6, 0xFF, 0x03],
      [0xF0, 0x30, 0x30, 0x3E, 0x33, 0x33, 0x3E, 0x00],
      [0xC2, 0xC2, 0xC2, 0xF2, 0xDA, 0xDA, 0xF2, 0x00],
      [0xC0, 0xC0, 0xC0, 0xFC, 0xC6, 0xC6, 0xFC, 0x00],
      [0x7C, 0xC6, 0x06, 0x1E, 0x06, 0xC6, 0x7C, 0x00],
      [0xCE, 0xDB, 0xDB, 0xFB, 0xDB, 0xDB, 0xCE, 0x00],
      [0x7E, 0xC6, 0xC6, 0x7E, 0x36, 0x66, 0xC6, 0x00],
      [0x00, 0x00, 0x78, 0x0C, 0x7C, 0xCC, 0x7E, 0x00],
      [0x04, 0x78, 0xC0, 0xF8, 0xCC, 0xCC, 0x78, 0x00],
      [0x00, 0x00, 0xF8, 0xCC, 0xF8, 0xC6, 0xFC, 0x00],
      [0x00, 0x00, 0xFC, 0xC0, 0xC0, 0xC0, 0xC0, 0x00],
      [0x00, 0x00, 0x7E, 0x66, 0x66, 0x66, 0xFF, 0xC3],
      [0x00, 0x00, 0x78, 0xCC, 0xFC, 0xC0, 0x7C, 0x00],
      [0x00, 0x00, 0xDB, 0x7E, 0x18, 0x7E, 0xDB, 0x00],
      [0x00, 0x00, 0x78, 0xCC, 0x18, 0xCC, 0x78, 0x00],
      [0x00, 0x00, 0xCC, 0xCC, 0xDC, 0xEC, 0xCC, 0x00],
      [0x30, 0x00, 0xCC, 0xCC, 0xDC, 0xEC, 0xCC, 0x00],
      [0x00, 0x00, 0xCC, 0xD8, 0xF0, 0xCC, 0xCC, 0x00],
      [0x00, 0x00, 0x0E, 0x1E, 0x36, 0x66, 0xC6, 0x00],
      [0x00, 0x00, 0xC6, 0xEE, 0xD6, 0xC6, 0xC6, 0x00],
      [0x00, 0x00, 0xCC, 0xCC, 0xFC, 0xCC, 0xCC, 0x00],
      [0x00, 0x00, 0x78, 0xCC, 0xCC, 0xCC, 0x78, 0x00],
      [0x00, 0x00, 0xFC, 0xCC, 0xCC, 0xCC, 0xCC, 0x00],
      [0x22, 0x88, 0x22, 0x88, 0x22, 0x88, 0x22, 0x88],
      [0x55, 0xAA, 0x55, 0xAA, 0x55, 0xAA, 0x55, 0xAA],
      [0xDB, 0x77, 0xDB, 0xEE, 0xDB, 0x77, 0xDB, 0xEE],
      [0x10, 0x10, 0x10, 0x10, 0x10, 0x10, 0x10, 0x10],
      [0x10, 0x10, 0x10, 0x10, 0xF0, 0x10, 0x10, 0x10],
      [0x10, 0x10, 0xF0, 0x10, 0xF0, 0x10, 0x10, 0x10],
      [0x14, 0x14, 0x14, 0x14, 0xF4, 0x14, 0x14, 0x14],
      [0x00, 0x00, 0x00, 0x00, 0xFC, 0x14, 0x14, 0x14],
      [0x00, 0x00, 0xF0, 0x10, 0xF0, 0x10, 0x10, 0x10],
      [0x14, 0x14, 0xF4, 0x04, 0xF4, 0x14, 0x14, 0x14],
      [0x14, 0x14, 0x14, 0x14, 0x14, 0x14, 0x14, 0x14],
      [0x00, 0x00, 0xFC, 0x04, 0xF4, 0x14, 0x14, 0x14],
      [0x14, 0x14, 0xF4, 0x04, 0xFC, 0x00, 0x00, 0x00],
      [0x14, 0x14, 0x14, 0x14, 0xFC, 0x00, 0x00, 0x00],
      [0x10, 0x10, 0xF0, 0x10, 0xF0, 0x00, 0x00, 0x00],
      [0x00, 0x00, 0x00, 0x00, 0xF0, 0x10, 0x10, 0x10],
      [0x10, 0x10, 0x10, 0x10, 0x1F, 0x00, 0x00, 0x00],
      [0x10, 0x10, 0x10, 0x10, 0xFF, 0x00, 0x00, 0x00],
      [0x00, 0x00, 0x00, 0x00, 0xFF, 0x10, 0x10, 0x10],
      [0x10, 0x10, 0x10, 0x10, 0x1F, 0x10, 0x10, 0x10],
      [0x00, 0x00, 0x00, 0x00, 0xFF, 0x00, 0x00, 0x00],
      [0x10, 0x10, 0x10, 0x10, 0xFF, 0x10, 0x10, 0x10],
      [0x10, 0x10, 0x1F, 0x10, 0x1F, 0x10, 0x10, 0x10],
      [0x14, 0x14, 0x14, 0x14, 0x17, 0x14, 0x14, 0x14],
      [0x14, 0x14, 0x17, 0x10, 0x1F, 0x00, 0x00, 0x00],
      [0x00, 0x00, 0x1F, 0x10, 0x17, 0x14, 0x14, 0x14],
      [0x14, 0x14, 0xF7, 0x00, 0xFF, 0x00, 0x00, 0x00],
      [0x00, 0x00, 0xFF, 0x00, 0xF7, 0x14, 0x14, 0x14],
      [0x14, 0x14, 0x17, 0x10, 0x17, 0x14, 0x14, 0x14],
      [0x00, 0x00, 0xFF, 0x00, 0xFF, 0x00, 0x00, 0x00],
      [0x14, 0x14, 0xF7, 0x00, 0xF7, 0x14, 0x14, 0x14],
      [0x10, 0x10, 0xFF, 0x00, 0xFF, 0x00, 0x00, 0x00],
      [0x14, 0x14, 0x14, 0x14, 0xFF, 0x00, 0x00, 0x00],
      [0x00, 0x00, 0xFF, 0x00, 0xFF, 0x10, 0x10, 0x10],
      [0x00, 0x00, 0x00, 0x00, 0xFF, 0x14, 0x14, 0x14],
      [0x14, 0x14, 0x14, 0x14, 0x1F, 0x00, 0x00, 0x00],
      [0x10, 0x10, 0x1F, 0x10, 0x1F, 0x00, 0x00, 0x00],
      [0x00, 0x00, 0x1F, 0x10, 0x1F, 0x10, 0x10, 0x10],
      [0x00, 0x00, 0x00, 0x00, 0x1F, 0x14, 0x14, 0x14],
      [0x14, 0x14, 0x14, 0x14, 0xFF, 0x14, 0x14, 0x14],
      [0x10, 0x10, 0xFF, 0x10, 0xFF, 0x10, 0x10, 0x10],
      [0x10, 0x10, 0x10, 0x10, 0xF0, 0x00, 0x00, 0x00],
      [0x00, 0x00, 0x00, 0x00, 0x1F, 0x10, 0x10, 0x10],
      [0xFF, 0xFF, 0xFF, 0xFF, 0xFF, 0xFF, 0xFF, 0xFF],
      [0x00, 0x00, 0x00, 0x00, 0xFF, 0xFF, 0xFF, 0xFF],
      [0xF0, 0xF0, 0xF0, 0xF0, 0xF0, 0xF0, 0xF0, 0xF0],
      [0x0F, 0x0F, 0x0F, 0x0F, 0x0F, 0x0F, 0x0F, 0x0F],
      [0xFF, 0xFF, 0xFF, 0xFF, 0x00, 0x00, 0x00, 0x00],
      [0x00, 0x00, 0xF8, 0xCC, 0xCC, 0xF8, 0xC0, 0xC0],
      [0x00, 0x00, 0x78, 0xCC, 0xC0, 0xCC, 0x78, 0x00],
      [0x00, 0x00, 0xFC, 0x30, 0x30, 0x30, 0x30, 0x00],
      [0x00, 0x00, 0xCC, 0xCC, 0x7C, 0x0C, 0xCC, 0x78],
      [0x00, 0x18, 0x7E, 0xDB, 0xDB, 0x7E, 0x18, 0x18],
      [0x00, 0x00, 0xC6, 0x6C, 0x38, 0x6C, 0xC6, 0x00],
      [0x00, 0x00, 0xCC, 0xCC, 0xCC, 0xCC, 0xFE, 0x06],
      [0x00, 0x00, 0xCC, 0xCC, 0x7C, 0x0C, 0x0C, 0x00],
      [0x00, 0x00, 0xD6, 0xD6, 0xD6, 0xD6, 0xFE, 0x00],
      [0x00, 0x00, 0xD6, 0xD6, 0xD6, 0xD6, 0xFF, 0x03],
      [0x00, 0x00, 0xF0, 0x30, 0x3E, 0x33, 0x3E, 0x00],
      [0x00, 0x00, 0xC2, 0xC2, 0xF2, 0xDA, 0xF0, 0x00],
      [0x00, 0x00, 0xC0, 0xC0, 0xF8, 0xCC, 0xF8, 0x00],
      [0x00, 0x00, 0x7C, 0xC6, 0x1E, 0xC6, 0x7C, 0x00],
      [0x00, 0x00, 0xCE, 0xDB, 0xFB, 0xDB, 0xCE, 0x00],
      [0x00, 0x00, 0x7C, 0xCC, 0x7C, 0x6C, 0xCC, 0x00],
      [0x48, 0x00, 0xFC, 0xC0, 0xF0, 0xC0, 0xFE, 0x00],
      [0x48, 0x00, 0x78, 0xCC, 0xFC, 0xC0, 0x7C, 0x00],
      [0x7C, 0xC6, 0xC0, 0xF0, 0xC0, 0xC6, 0x7C, 0x00],
      [0x00, 0x00, 0x7C, 0xC6, 0xF0, 0xC6, 0x7C, 0x00],
      [0x28, 0x00, 0x3C, 0x18, 0x18, 0x18, 0x3C, 0x00],
      [0x28, 0x00, 0x38, 0x18, 0x18, 0x18, 0x3C, 0x00],
      [0x28, 0xD6, 0xC6, 0x7E, 0x06, 0xC6, 0x7C, 0x00],
      [0x48, 0x30, 0xCC, 0xCC, 0x7C, 0x0C, 0xCC, 0x78],
      [0x60, 0x90, 0x90, 0x60, 0x00, 0x00, 0x00, 0x00],
      [0x00, 0x00, 0x00, 0x30, 0x30, 0x00, 0x00, 0x00],
      [0x00, 0x00, 0x00, 0x00, 0x30, 0x00, 0x00, 0x00],
      [0x1F, 0x10, 0x10, 0x90, 0x50, 0x30, 0x10, 0x00],
      [0x8E, 0xC8, 0xEA, 0xAD, 0xBA, 0x98, 0x8B, 0x00],
      [0x00, 0xB4, 0x78, 0xCC, 0xCC, 0x78, 0xB4, 0x00],
      [0x00, 0x00, 0x3C, 0x3C, 0x3C, 0x3C, 0x00, 0x00],
      [0x00, 0x00, 0x00, 0x00, 0x00, 0x00, 0x00, 0x00]]"

definition g_font_cp866 :: "u8 list list" where
  "g_font_cp866 = font_ascii @ font_upper"

section \<open>Choice of a glyph\<close>

definition glyph_index :: "u32 \<Rightarrow> nat" where
  "glyph_index cp =
     (if cp < 128 then unat cp
      else if cp \<ge> 0x0410 \<and> cp \<le> 0x042F then unat (0x80 + (cp - 0x0410))
      else if cp \<ge> 0x0430 \<and> cp \<le> 0x043F then unat (0xA0 + (cp - 0x0430))
      else if cp \<ge> 0x0440 \<and> cp \<le> 0x044F then unat (0xE0 + (cp - 0x0440))
      else if cp = 0x0401 then 0xF0
      else if cp = 0x0451 then 0xF1
      else if cp = 0x2116 then 0xFC
      else if cp = 0x00AB then 0xAE
      else if cp = 0x00BB then 0xAF
      else if cp = 0x2014 \<or> cp = 0x2013 then 0x2D
      else if cp = 0x2026 then 0x2E
      else if cp = 0x2022 then 0x07
      else 63)"

definition glyph_for_unicode :: "u32 \<Rightarrow> u8 list" where
  "glyph_for_unicode cp = g_font_cp866 ! glyph_index cp"

lemma font_rows: "length g_font_cp866 = 256" "\<forall>row\<in>set g_font_cp866. length row = 8"
proof -
  have "length font_ascii = 128 \<and> list_all (\<lambda>row. length row = 8) font_ascii"
    by code_simp
  moreover have "length font_upper = 128 \<and> list_all (\<lambda>row. length row = 8) font_upper"
    by code_simp
  ultimately show "length g_font_cp866 = 256" "\<forall>row\<in>set g_font_cp866. length row = 8"
    by (auto simp: g_font_cp866_def list_all_iff)
qed

lemma glyph_offset:
  fixes lo hi cp base :: u32
  assumes "lo \<le> cp" "cp \<le> hi" "unat base + (unat hi - unat lo) < 256"
  shows "unat (base + (cp - lo)) < 256"
proof -
  have d: "unat (cp - lo) \<le> unat hi - unat lo"
    using assms(1,2) by (simp add: unat_sub_le word_le_nat_alt)
  then have "unat (base + (cp - lo)) = unat base + unat (cp - lo)"
    using assms(3) by (intro unat_plus_no_wrap) simp
  then show ?thesis
    using d assms(3) by simp
qed

lemma glyph_index_range: "glyph_index cp < 256"
proof -
  have "cp < 128 \<Longrightarrow> unat cp < 256"
    by (simp add: word_less_nat_alt)
  then show ?thesis
    using glyph_offset [of "0x0410" cp "0x042F" "0x80"] glyph_offset [of "0x0430" cp "0x043F" "0xA0"]
      glyph_offset [of "0x0440" cp "0x044F" "0xE0"]
    by (simp add: glyph_index_def)
qed

lemma glyph_length [simp]: "length (glyph_for_unicode cp) = 8"
  using glyph_index_range [of cp] font_rows nth_mem [of "glyph_index cp" g_font_cp866]
  by (simp add: glyph_for_unicode_def)

text \<open>Every character the keyboard tables can produce has a glyph of its own.\<close>

lemma keyboard_glyphs:
  "list_all (\<lambda>c. c = 63 \<or> glyph_index (ucast c) \<noteq> 63)
     (kbd_us_lower_keys @ kbd_us_upper_keys @ kbd_ru_lower_keys @ kbd_ru_upper_keys)"
  by (simp add: kbd_us_lower_keys_def kbd_us_upper_keys_def kbd_ru_lower_keys_def kbd_ru_upper_keys_def
      glyph_index_def)

end
