(* ===== verification/Draw.thy ===== *)
theory Draw
  imports Font Windows Pmm
begin

text \<open>
  Drawing into the frame buffer (\<^verbatim>\<open>fb.c\<close>): pixels in three formats, clipping, rectangles, frames, the
  8x8 font with UTF-8 text, and the copy of a rectangle from the back buffer to the screen.  The
  frame buffer lies in the byte memory of the kernel; a pixel is stored little-endian.  The code is
  that of a build with double buffering, the default; the virtio-gpu renderer is a parameter.
\<close>

section \<open>State\<close>

record fb =
  fb_mem :: memory
  g_clip_x :: u16
  g_clip_y :: u16
  g_clip_w :: u16
  g_clip_h :: u16
  g_backbuffer_enabled :: bool

definition FB_BACKBUFFER_CAPACITY :: u32 where "FB_BACKBUFFER_CAPACITY = 8 * 1024 * 1024"
definition g_backbuffer :: u64 where "g_backbuffer = 0x01000000"
definition FONT_W :: nat where "FONT_W = 8"
definition FONT_H :: nat where "FONT_H = 8"

definition fb_set_clip :: "u16 \<Rightarrow> u16 \<Rightarrow> u16 \<Rightarrow> u16 \<Rightarrow> fb \<Rightarrow> fb" where
  "fb_set_clip x y w h st = st\<lparr>g_clip_x := x, g_clip_y := y, g_clip_w := w, g_clip_h := h\<rparr>"

definition fb_clear_clip :: "fb \<Rightarrow> fb" where
  "fb_clear_clip st = st\<lparr>g_clip_x := 0, g_clip_y := 0, g_clip_w := 0xFFFF, g_clip_h := 0xFFFF\<rparr>"

definition fb_target_base :: "video_info \<Rightarrow> fb \<Rightarrow> u64" where
  "fb_target_base info st = (if g_backbuffer_enabled st then g_backbuffer else vi_framebuffer info)"

definition bytes_per_pixel :: "video_info \<Rightarrow> u8" where
  "bytes_per_pixel info = (let bytes = vi_bpp info div 8 in if bytes = 0 then 4 else bytes)"

definition fb_init :: "video_info \<Rightarrow> fb \<Rightarrow> fb" where
  "fb_init info st =
     (let required = ucast (vi_pitch info) * ucast (vi_height info) :: u32;
          enabled = (required \<le> FB_BACKBUFFER_CAPACITY) in
      if enabled
      then st\<lparr>g_backbuffer_enabled := True,
              fb_mem := fold (copy_byte g_backbuffer (vi_framebuffer info)) [0..<unat required] (fb_mem st)\<rparr>
      else st\<lparr>g_backbuffer_enabled := False\<rparr>)"

section \<open>Pixels\<close>

definition put_le :: "u64 \<Rightarrow> u8 list \<Rightarrow> memory \<Rightarrow> memory" where
  "put_le a bs mem = fold (\<lambda>i m. m(a + of_nat i := bs ! i)) [0..<length bs] mem"

definition pack565 :: "u32 \<Rightarrow> u16" where
  "pack565 color =
     (let r = ucast (drop_bit 16 color AND 0xFF) :: u8; g = ucast (drop_bit 8 color AND 0xFF) :: u8;
          b = ucast (color AND 0xFF) :: u8 in
      push_bit 11 (ucast (drop_bit 3 r)) OR push_bit 5 (ucast (drop_bit 2 g)) OR ucast (drop_bit 3 b))"

definition unpack565 :: "u16 \<Rightarrow> u32" where
  "unpack565 packed =
     (let r = ucast (push_bit 3 (drop_bit 11 packed AND 0x1F)) :: u8;
          g = ucast (push_bit 2 (drop_bit 5 packed AND 0x3F)) :: u8;
          b = ucast (push_bit 3 (packed AND 0x1F)) :: u8 in
      push_bit 16 (ucast r) OR push_bit 8 (ucast g) OR ucast b)"

text \<open>The bytes a pixel of the given size is stored as.\<close>

definition pixel_bytes :: "u8 \<Rightarrow> u32 \<Rightarrow> u8 list" where
  "pixel_bytes bpp color =
     (if bpp = 2 then let p = pack565 color in [ucast p, ucast (drop_bit 8 p)]
      else if bpp = 3 then [ucast color, ucast (drop_bit 8 color), ucast (drop_bit 16 color)]
      else let c = color AND 0x00FFFFFF in
           [ucast c, ucast (drop_bit 8 c), ucast (drop_bit 16 c), ucast (drop_bit 24 c)])"

definition load_pixel :: "u8 \<Rightarrow> u64 \<Rightarrow> memory \<Rightarrow> u32" where
  "load_pixel bpp px mem =
     (if bpp = 2 then unpack565 (ucast (mem px) OR push_bit 8 (ucast (mem (px + 1))))
      else if bpp = 3 then push_bit 16 (ucast (mem (px + 2))) OR push_bit 8 (ucast (mem (px + 1))) OR ucast (mem px)
      else (ucast (mem px) OR push_bit 8 (ucast (mem (px + 1))) OR push_bit 16 (ucast (mem (px + 2))) OR
            push_bit 24 (ucast (mem (px + 3)))) AND 0x00FFFFFF)"

definition pixel_addr :: "video_info \<Rightarrow> fb \<Rightarrow> u16 \<Rightarrow> u16 \<Rightarrow> u64" where
  "pixel_addr info st x y =
     fb_target_base info st + ucast y * ucast (vi_pitch info) + ucast x * ucast (bytes_per_pixel info)"

definition put_pixel :: "u8 \<Rightarrow> u64 \<Rightarrow> u32 \<Rightarrow> fb \<Rightarrow> fb" where
  "put_pixel bpp px color st = st\<lparr>fb_mem := put_le px (pixel_bytes bpp color) (fb_mem st)\<rparr>"

text \<open>On the screen, and inside the clip rectangle, whose ends are computed as \<^verbatim>\<open>int\<close>.\<close>

definition on_screen :: "video_info \<Rightarrow> u16 \<Rightarrow> u16 \<Rightarrow> bool" where
  "on_screen info x y \<longleftrightarrow> x < vi_width info \<and> y < vi_height info"

definition in_clip :: "fb \<Rightarrow> u16 \<Rightarrow> u16 \<Rightarrow> bool" where
  "in_clip st x y \<longleftrightarrow> g_clip_x st \<le> x \<and> g_clip_y st \<le> y \<and>
     unat x < unat (g_clip_x st) + unat (g_clip_w st) \<and> unat y < unat (g_clip_y st) + unat (g_clip_h st)"

definition fb_readpixel :: "video_info \<Rightarrow> u16 \<Rightarrow> u16 \<Rightarrow> fb \<Rightarrow> u32" where
  "fb_readpixel info x y st =
     (if \<not> on_screen info x y then 0
      else if \<not> in_clip st x y then 0
      else load_pixel (bytes_per_pixel info) (pixel_addr info st x y) (fb_mem st))"

definition fb_writepixel :: "video_info \<Rightarrow> u16 \<Rightarrow> u16 \<Rightarrow> u32 \<Rightarrow> fb \<Rightarrow> fb" where
  "fb_writepixel info x y color st =
     (if \<not> on_screen info x y then st
      else if \<not> in_clip st x y then st
      else put_pixel (bytes_per_pixel info) (pixel_addr info st x y) color st)"

section \<open>Rectangles\<close>

definition fb_fill :: "video_info \<Rightarrow> u32 \<Rightarrow> fb \<Rightarrow> fb" where
  "fb_fill info color st =
     fold (\<lambda>y. fold (\<lambda>x. fb_writepixel info (of_nat x) (of_nat y) color) [0..<unat (vi_width info)])
       [0..<unat (vi_height info)] st"

definition fb_rect :: "video_info \<Rightarrow> u16 \<Rightarrow> u16 \<Rightarrow> u16 \<Rightarrow> u16 \<Rightarrow> u32 \<Rightarrow> fb \<Rightarrow> fb" where
  "fb_rect info x y w h color st =
     (if w = 0 \<or> h = 0 then st
      else
        let cx = max x (g_clip_x st); cy = max y (g_clip_y st);
            x_end = x + w; y_end = y + h;
            clip_x_end = g_clip_x st + g_clip_w st; clip_y_end = g_clip_y st + g_clip_h st;
            cx2 = min x_end clip_x_end; cy2 = min y_end clip_y_end;
            cx = min cx (vi_width info); cy = min cy (vi_height info);
            cx2 = min cx2 (vi_width info); cy2 = min cy2 (vi_height info) in
        if cx2 \<le> cx \<or> cy2 \<le> cy then st
        else
          let cw = cx2 - cx; bpp = bytes_per_pixel info; base = fb_target_base info st in
          if bpp = 4 \<or> bpp = 3 \<or> bpp = 2 then
            fold (\<lambda>py.
                let dst = base + of_nat py * ucast (vi_pitch info) + ucast cx * ucast bpp in
                fold (\<lambda>px. put_pixel bpp (dst + of_nat px * ucast bpp) color) [0..<unat cw])
              [unat cy..<unat cy2] st
          else st)"

definition fb_frame :: "video_info \<Rightarrow> u16 \<Rightarrow> u16 \<Rightarrow> u16 \<Rightarrow> u16 \<Rightarrow> u16 \<Rightarrow> u32 \<Rightarrow> fb \<Rightarrow> fb" where
  "fb_frame info x y w h t color st =
     (if w = 0 \<or> h = 0 \<or> t = 0 then st
      else
        let t = (if t > w then w else t); t = (if t > h then h else t);
            st = fb_rect info x y w t color st;
            st = fb_rect info x (y + h - t) w t color st;
            st = fb_rect info x y t h color st in
        fb_rect info (x + w - t) y t h color st)"

section \<open>Text\<close>

text \<open>A C string is the list of its bytes before the terminator.\<close>

fun utf8_decode_char :: "u8 list \<Rightarrow> u32 \<times> u8 list" where
  "utf8_decode_char [] = (0, [])"
| "utf8_decode_char (c # s) =
     (let cp = ucast c :: u32 in
      if cp < 0x80 then (cp, s)
      else if cp AND 0xE0 = 0xC0 then
        (case s of
           [] \<Rightarrow> (cp, s)
         | b # s \<Rightarrow> (push_bit 6 (cp AND 0x1F) OR ucast (b AND 0x3F), s))
      else if cp AND 0xF0 = 0xE0 then
        (case s of
           [] \<Rightarrow> (cp, s)
         | b2 # s \<Rightarrow>
             (case s of
                [] \<Rightarrow> (cp, s)
              | b3 # s \<Rightarrow>
                  (push_bit 12 (cp AND 0x0F) OR push_bit 6 (ucast (b2 AND 0x3F)) OR ucast (b3 AND 0x3F), s)))
      else if cp AND 0xF8 = 0xF0 then
        (case s of
           [] \<Rightarrow> (cp, s)
         | b2 # s \<Rightarrow>
             (case s of
                [] \<Rightarrow> (cp, s)
              | b3 # s \<Rightarrow>
                  (case s of
                     [] \<Rightarrow> (cp, s)
                   | b4 # s \<Rightarrow>
                       (push_bit 18 (cp AND 0x07) OR push_bit 12 (ucast (b2 AND 0x3F)) OR
                        push_bit 6 (ucast (b3 AND 0x3F)) OR ucast (b4 AND 0x3F), s))))
      else (cp, s))"

lemma utf8_decode_shorter: "s \<noteq> [] \<Longrightarrow> length (snd (utf8_decode_char s)) < length s"
  by (cases s) (auto simp: Let_def split: list.split)

text \<open>The inner and the outer loop body of \<^verbatim>\<open>fb_draw_glyph\<close>.\<close>

definition glyph_pixel :: "video_info \<Rightarrow> u16 \<Rightarrow> u16 \<Rightarrow> u8 \<Rightarrow> u32 \<Rightarrow> u32 \<Rightarrow> nat \<Rightarrow> fb \<Rightarrow> fb" where
  "glyph_pixel info x py row color bg_color gx st =
     (let px = x + of_nat gx; bpp = bytes_per_pixel info in
      if px < g_clip_x st \<or> unat px \<ge> unat (g_clip_x st) + unat (g_clip_w st) \<or> px \<ge> vi_width info then st
      else
        let px_color = (if row AND drop_bit gx 0x80 \<noteq> 0 then color else bg_color) in
        if bpp = 4 \<or> bpp = 3 \<or> bpp = 2 then put_pixel bpp (pixel_addr info st px py) px_color st else st)"

definition glyph_row :: "video_info \<Rightarrow> u16 \<Rightarrow> u16 \<Rightarrow> u8 list \<Rightarrow> u32 \<Rightarrow> u32 \<Rightarrow> nat \<Rightarrow> fb \<Rightarrow> fb" where
  "glyph_row info x y glyph color bg_color gy st =
     (let py = y + of_nat gy in
      if py < g_clip_y st \<or> unat py \<ge> unat (g_clip_y st) + unat (g_clip_h st) \<or> py \<ge> vi_height info then st
      else fold (glyph_pixel info x py (glyph ! gy) color bg_color) [0..<FONT_W] st)"

definition fb_draw_glyph ::
    "video_info \<Rightarrow> u16 \<Rightarrow> u16 \<Rightarrow> u8 list option \<Rightarrow> u32 \<Rightarrow> u32 \<Rightarrow> fb \<Rightarrow> fb" where
  "fb_draw_glyph info x y glyph color bg_color st =
     (case glyph of
        None \<Rightarrow> st
      | Some glyph \<Rightarrow>
          if unat x + FONT_W \<le> unat (g_clip_x st) \<or> unat y + FONT_H \<le> unat (g_clip_y st) \<or>
             unat x \<ge> unat (g_clip_x st) + unat (g_clip_w st) \<or>
             unat y \<ge> unat (g_clip_y st) + unat (g_clip_h st) then st
          else if x \<ge> vi_width info \<or> y \<ge> vi_height info then st
          else fold (glyph_row info x y glyph color bg_color) [0..<FONT_H] st)"

definition fb_draw_char :: "video_info \<Rightarrow> u16 \<Rightarrow> u16 \<Rightarrow> u8 \<Rightarrow> u32 \<Rightarrow> u32 \<Rightarrow> fb \<Rightarrow> fb" where
  "fb_draw_char info x y c color bg_color st =
     fb_draw_glyph info x y (Some (glyph_for_unicode (ucast c))) color bg_color st"

function draw_text_loop :: "video_info \<Rightarrow> u16 \<Rightarrow> u16 \<Rightarrow> u8 list \<Rightarrow> u32 \<Rightarrow> u32 \<Rightarrow> fb \<Rightarrow> fb" where
  "draw_text_loop info cursor_x y text color bg_color st =
     (if text = [] then st
      else
        let (cp, rest) = utf8_decode_char text;
            st = fb_draw_glyph info cursor_x y (Some (glyph_for_unicode cp)) color bg_color st in
        draw_text_loop info (cursor_x + of_nat FONT_W) y rest color bg_color st)"
  by pat_completeness auto
termination
  by (relation "measure (\<lambda>(info, x, y, text, c, b, st). length text)")
    (auto dest: utf8_decode_shorter simp: prod_eq_iff)

definition fb_draw_text :: "video_info \<Rightarrow> u16 \<Rightarrow> u16 \<Rightarrow> u8 list option \<Rightarrow> u32 \<Rightarrow> u32 \<Rightarrow> fb \<Rightarrow> fb" where
  "fb_draw_text info x y text color bg_color st =
     (case text of None \<Rightarrow> st | Some text \<Rightarrow> draw_text_loop info x y text color bg_color st)"

declare draw_text_loop.simps [simp del]

section \<open>The bytes drawing may touch\<close>

definition pixel_size :: "u8 \<Rightarrow> nat" where
  "pixel_size bpp = (if bpp = 2 then 2 else if bpp = 3 then 3 else 4)"

definition pixel_area :: "video_info \<Rightarrow> fb \<Rightarrow> u64 set" where
  "pixel_area info st = {pixel_addr info st x y + of_nat k | x y k.
     on_screen info x y \<and> in_clip st x y \<and> k < pixel_size (bytes_per_pixel info)}"

definition drawn :: "video_info \<Rightarrow> fb \<Rightarrow> fb \<Rightarrow> bool" where
  "drawn info st st' \<longleftrightarrow> (\<exists>mem. st' = st\<lparr>fb_mem := mem\<rparr> \<and> (\<forall>a. a \<notin> pixel_area info st \<longrightarrow> mem a = fb_mem st a))"

lemma area_mem [simp]: "pixel_area info (st\<lparr>fb_mem := mem\<rparr>) = pixel_area info st"
  by (simp add: pixel_area_def pixel_addr_def fb_target_base_def in_clip_def)

lemma drawn_refl [simp]: "drawn info st st"
  by (auto simp: drawn_def intro: exI [of _ "fb_mem st"])

lemma drawn_trans [trans]: "drawn info st st' \<Longrightarrow> drawn info st' st'' \<Longrightarrow> drawn info st st''"
  by (auto simp: drawn_def)

lemma drawn_same:
  assumes "drawn info st st'"
  shows "in_clip st' = in_clip st" "fb_target_base info' st' = fb_target_base info' st"
    "g_clip_x st' = g_clip_x st" "g_clip_y st' = g_clip_y st" "g_clip_w st' = g_clip_w st"
    "g_clip_h st' = g_clip_h st" "pixel_addr info' st' = pixel_addr info' st"
    "pixel_area info' st' = pixel_area info' st" "g_backbuffer_enabled st' = g_backbuffer_enabled st"
  using assms by (auto simp: drawn_def in_clip_def fb_target_base_def pixel_addr_def fun_eq_iff)

lemma drawn_fold:
  "(\<And>x st'. x \<in> set xs \<Longrightarrow> drawn info st st' \<Longrightarrow> drawn info st' (f x st')) \<Longrightarrow> drawn info st (fold f xs st)"
proof (induction xs rule: rev_induct)
  case (snoc x xs)
  have "drawn info st (fold f xs st)"
    by (rule snoc.IH) (simp add: snoc.prems)
  moreover from this have "drawn info (fold f xs st) (f x (fold f xs st))"
    by (intro snoc.prems) simp
  ultimately show ?case
    using drawn_trans by fastforce
qed simp

lemma put_le_other:
  assumes "\<And>k. k < length bs \<Longrightarrow> b \<noteq> a + of_nat k"
  shows "put_le a bs mem b = mem b"
proof -
  have "\<forall>i\<in>set is. b \<noteq> a + of_nat i \<Longrightarrow> fold (\<lambda>i m. m(a + of_nat i := bs ! i)) is mem b = mem b"
    for "is" :: "nat list"
  proof (induction "is" arbitrary: mem)
    case (Cons i "is")
    then have ne: "b \<noteq> a + of_nat i" and rest: "\<forall>i\<in>set is. b \<noteq> a + of_nat i"
      by auto
    have "fold (\<lambda>i m. m(a + of_nat i := bs ! i)) (i # is) mem b = (mem(a + of_nat i := bs ! i)) b"
      using Cons.IH [OF rest] by (simp only: fold_simps)
    then show ?case
      using ne by (simp only: fun_upd_other simp_thms)
  qed simp
  moreover have "\<forall>i\<in>set [0..<length bs]. b \<noteq> a + of_nat i"
    using assms by (auto simp del: of_nat_unat)
  ultimately show ?thesis
    unfolding put_le_def by blast
qed

lemma pixel_bytes_length: "length (pixel_bytes bpp c) = pixel_size bpp"
  by (simp add: pixel_bytes_def pixel_size_def Let_def)

lemma drawn_put_pixel:
  assumes "on_screen info x y" "in_clip st x y"
  shows "drawn info st (put_pixel (bytes_per_pixel info) (pixel_addr info st x y) c st)"
proof -
  have "put_le (pixel_addr info st x y) (pixel_bytes (bytes_per_pixel info) c) (fb_mem st) a = fb_mem st a"
    if "a \<notin> pixel_area info st" for a
    using that assms by (intro put_le_other) (auto simp: pixel_area_def pixel_bytes_length)
  then show ?thesis
    by (auto simp: drawn_def put_pixel_def)
qed

lemma drawn_writepixel [intro]: "drawn info st (fb_writepixel info x y c st)"
  by (simp add: fb_writepixel_def drawn_put_pixel)

lemma drawn_fill: "drawn info st (fb_fill info c st)"
  unfolding fb_fill_def by (intro drawn_fold drawn_writepixel)

lemma of_nat_less_u16: "i < unat (w :: u16) \<Longrightarrow> unat (of_nat i :: u16) = i \<and> (of_nat i :: u16) < w"
proof -
  assume i: "i < unat w"
  then have "i < 2 ^ 16"
    using unsigned_less [of w, where 'a = nat] by simp
  then have "unat (of_nat i :: u16) = i"
    by (simp add: unsigned_of_nat take_bit_nat_eq_self)
  then show ?thesis
    using i by (simp add: word_less_nat_alt)
qed

lemma ucast_of_nat_u16: "i < 2 ^ 16 \<Longrightarrow> ucast (of_nat i :: u16) = (of_nat i :: u64)"
proof -
  assume "i < 2 ^ 16"
  then have "unat (of_nat i :: u16) = i"
    by (simp add: unsigned_of_nat take_bit_nat_eq_self)
  then show ?thesis
    by (metis of_nat_unat)
qed

section \<open>Rectangles and glyphs stay in the area\<close>

lemma pixel_addr_row:
  assumes "unat cx + i < 2 ^ 16" "unat py < 2 ^ 16"
  shows "base + of_nat (unat py) * p + ucast cx * b + of_nat i * b =
    base + ucast py * p + ucast (cx + of_nat i :: u16) * (b :: u64)"
proof -
  have "unat (cx + of_nat i) = unat cx + i"
    using assms(1) by (subst unat_plus_no_wrap) (simp_all add: unsigned_of_nat take_bit_nat_eq_self)
  then have "ucast (cx + of_nat i) = (ucast cx + of_nat i :: u64)"
    by (metis of_nat_add of_nat_unat)
  then show ?thesis
    by (simp add: algebra_simps of_nat_unat)
qed

text \<open>One side of the clipped rectangle: the coordinates the loop runs over.\<close>

lemma clip_side:
  fixes x c e ce wd :: u16
  defines "lo \<equiv> min (max x c) wd" and "hi \<equiv> min (min e ce) wd"
  assumes "lo < hi" "i < unat (hi - lo)"
  shows "unat lo + i < unat hi" "unat hi \<le> unat wd" "unat hi \<le> unat e" "unat hi \<le> unat ce"
    "unat x \<le> unat lo" "unat c \<le> unat lo" "unat (lo + of_nat i) = unat lo + i"
proof -
  have "unat (hi - lo) = unat hi - unat lo"
    using assms(3) by (simp add: unat_sub_le)
  then show lt: "unat lo + i < unat hi"
    using assms(4) by simp
  show "unat hi \<le> unat wd" "unat hi \<le> unat e" "unat hi \<le> unat ce"
    by (simp_all add: hi_def word_le_nat_alt [symmetric] min_le_iff_disj)
  have "lo = max x c"
    using assms(3) by (auto simp: lo_def hi_def min_def split: if_splits)
  then show "unat x \<le> unat lo" "unat c \<le> unat lo"
    by (simp_all add: word_le_nat_alt [symmetric])
  have "unat lo + i < 2 ^ 16"
    using lt unsigned_less [of hi, where 'a = nat] by simp
  then show "unat (lo + of_nat i) = unat lo + i"
    by (subst unat_plus_no_wrap) (simp_all add: unsigned_of_nat take_bit_nat_eq_self)
qed

lemma clip_end: "unat v < unat (a + b) \<Longrightarrow> unat v < unat a + unat b" for v a b :: u16
proof -
  have "unat (a + b) \<le> unat a + unat b"
    by (simp add: unat_word_ariths)
  then show "unat v < unat (a + b) \<Longrightarrow> unat v < unat a + unat b"
    by simp
qed

text \<open>The loop over the clipped rectangle, and the rectangle drawn.\<close>

definition rect_loop :: "video_info \<Rightarrow> u16 \<Rightarrow> u16 \<Rightarrow> u16 \<Rightarrow> u16 \<Rightarrow> u32 \<Rightarrow> fb \<Rightarrow> fb" where
  "rect_loop info cx cy cx2 cy2 color st =
     fold (\<lambda>py. fold (\<lambda>px. put_pixel (bytes_per_pixel info)
         (fb_target_base info st + of_nat py * ucast (vi_pitch info) + ucast cx * ucast (bytes_per_pixel info) +
          of_nat px * ucast (bytes_per_pixel info)) color) [0..<unat (cx2 - cx)])
       [unat cy..<unat cy2] st"

lemma fb_rect_loop:
  "fb_rect info x y w h color st =
     (let cx = min (max x (g_clip_x st)) (vi_width info); cy = min (max y (g_clip_y st)) (vi_height info);
          cx2 = min (min (x + w) (g_clip_x st + g_clip_w st)) (vi_width info);
          cy2 = min (min (y + h) (g_clip_y st + g_clip_h st)) (vi_height info) in
      if w \<noteq> 0 \<and> h \<noteq> 0 \<and> cx < cx2 \<and> cy < cy2 \<and> bytes_per_pixel info \<in> {2, 3, 4}
      then rect_loop info cx cy cx2 cy2 color st else st)"
  unfolding fb_rect_def rect_loop_def Let_def
  by (simp only: not_le [symmetric] insert_iff empty_iff simp_thms if_split_eq1 split: if_split) argo

lemma rect_pixel:
  assumes lx: "lx = min (max x (g_clip_x st)) (vi_width info)"
    and hx: "hx = min (min (x + w) (g_clip_x st + g_clip_w st)) (vi_width info)"
    and ly: "ly = min (max y (g_clip_y st)) (vi_height info)"
    and hy: "hy = min (min (y + h) (g_clip_y st + g_clip_h st)) (vi_height info)"
    and lt: "lx < hx" "ly < hy" and i: "i < unat (hx - lx)" and j: "unat ly \<le> j" "j < unat hy"
  shows "on_screen info (lx + of_nat i) (of_nat j)" "in_clip st (lx + of_nat i) (of_nat j)"
    "fb_target_base info st + of_nat j * ucast (vi_pitch info) + ucast lx * ucast (bytes_per_pixel info) +
       of_nat i * ucast (bytes_per_pixel info) = pixel_addr info st (lx + of_nat i) (of_nat j)"
    "unat (lx + of_nat i) = unat lx + i" "unat (of_nat j :: u16) = j"
proof -
  note X = clip_side [of x "g_clip_x st" "vi_width info" "x + w" "g_clip_x st + g_clip_w st", folded lx hx, OF lt(1) i]
  have "j - unat ly < unat (hy - ly)"
    unfolding unat_sub_le [OF less_imp_le [OF lt(2)]] using j by linarith
  note Y = clip_side [of y "g_clip_y st" "vi_height info" "y + h" "g_clip_y st + g_clip_h st", folded ly hy, OF lt(2) this]
  show x: "unat (lx + of_nat i) = unat lx + i"
    by (rule X(7))
  show y: "unat (of_nat j :: u16) = j"
    using of_nat_less_u16 [OF j(2)] by simp
  let ?x = "lx + of_nat i" and ?y = "of_nat j :: u16"
  have "unat ?x < unat (vi_width info)" "unat ?y < unat (vi_height info)"
    using X(1,2) Y(2) j x y by linarith+
  then show "on_screen info ?x ?y"
    by (simp only: on_screen_def word_less_nat_alt)
  have "unat ?x < unat (g_clip_x st + g_clip_w st)" "unat ?y < unat (g_clip_y st + g_clip_h st)"
    using X(1,4) Y(4) j x y by linarith+
  moreover have "unat (g_clip_x st) \<le> unat ?x" "unat (g_clip_y st) \<le> unat ?y"
    using X(6) Y(6) j x y by linarith+
  ultimately show "in_clip st ?x ?y"
    using clip_end by (simp only: in_clip_def word_le_nat_alt)
  have "unat lx + i < 2 ^ 16"
    using X(1) unsigned_less [of hx, where 'a = nat] by simp
  moreover have "unat ?y < 2 ^ 16"
    using unsigned_less [of ?y, where 'a = nat] by simp
  ultimately show "fb_target_base info st + of_nat j * ucast (vi_pitch info) +
      ucast lx * ucast (bytes_per_pixel info) + of_nat i * ucast (bytes_per_pixel info) = pixel_addr info st ?x ?y"
    unfolding pixel_addr_def
    using pixel_addr_row [of lx i ?y "fb_target_base info st" "ucast (vi_pitch info)" "ucast (bytes_per_pixel info)"]
    by (simp only: y)
qed

lemma drawn_rect_loop:
  assumes lx: "lx = min (max x (g_clip_x st)) (vi_width info)"
    and hx: "hx = min (min (x + w) (g_clip_x st + g_clip_w st)) (vi_width info)"
    and ly: "ly = min (max y (g_clip_y st)) (vi_height info)"
    and hy: "hy = min (min (y + h) (g_clip_y st + g_clip_h st)) (vi_height info)"
    and lt: "lx < hx" "ly < hy"
  shows "drawn info st (rect_loop info lx ly hx hy c st)"
  unfolding rect_loop_def
proof (rule drawn_fold, rule drawn_fold)
  fix j st1 i st2
  assume "j \<in> set [unat ly..<unat hy]" "drawn info st st1" "i \<in> set [0..<unat (hx - lx)]" "drawn info st1 st2"
  then have j: "unat ly \<le> j" "j < unat hy" and i: "i < unat (hx - lx)" and d: "drawn info st st2"
    by (simp_all only: set_upt atLeastLessThan_iff) (blast intro: drawn_trans)
  note pix = rect_pixel [OF lx hx ly hy lt i j]
  show "drawn info st2 (put_pixel (bytes_per_pixel info) (fb_target_base info st + of_nat j * ucast (vi_pitch info) +
      ucast lx * ucast (bytes_per_pixel info) + of_nat i * ucast (bytes_per_pixel info)) c st2)"
    unfolding pix(3) drawn_same(7) [OF d, symmetric]
    by (rule drawn_put_pixel [OF pix(1)]) (simp only: drawn_same(1) [OF d] pix(2))
qed

lemma drawn_rect [intro]: "drawn info st (fb_rect info x y w h c st)"
proof -
  note loop = drawn_rect_loop [OF refl refl refl refl, of x st info w y h c]
  show ?thesis
    unfolding fb_rect_loop Let_def by (rule if_split [THEN iffD2]) (blast intro: loop drawn_refl)
qed

text \<open>The rules compose, as those for waking do.\<close>

lemma drawn_after:
  "drawn info st s \<Longrightarrow> drawn info st (fb_rect info x y w h c s)"
  "drawn info st s \<Longrightarrow> drawn info st (fb_writepixel info x y c s)"
  "drawn info st s \<Longrightarrow> drawn info st (fb_fill info c s)"
  using drawn_trans drawn_rect drawn_writepixel drawn_fill by blast+

lemma drawn_frame: "drawn info st s \<Longrightarrow> drawn info st (fb_frame info x y w h t c s)"
  by (simp add: fb_frame_def Let_def drawn_after)

lemma drawn_glyph_pixel:
  assumes "drawn info st s" "g_clip_y s \<le> py" "unat py < unat (g_clip_y s) + unat (g_clip_h s)" "py < vi_height info"
  shows "drawn info st (glyph_pixel info x py row c bg gx s)"
proof -
  have "drawn info s (put_pixel (bytes_per_pixel info) (pixel_addr info s (x + of_nat gx) py) col s)"
    if "\<not> (x + of_nat gx < g_clip_x s \<or> unat (x + of_nat gx) \<ge> unat (g_clip_x s) + unat (g_clip_w s) \<or>
        x + of_nat gx \<ge> vi_width info)" for col
    by (rule drawn_put_pixel) (use that assms(2-4) in \<open>simp_all only: on_screen_def in_clip_def not_le not_less de_Morgan_disj simp_thms\<close>)
  then show ?thesis
    using assms(1) drawn_trans by (simp only: glyph_pixel_def Let_def split: if_split) blast
qed

lemma drawn_glyph_row:
  assumes "drawn info st s"
  shows "drawn info st (glyph_row info x y glyph c bg gy s)"
proof -
  have "drawn info s (fold (glyph_pixel info x (y + of_nat gy) (glyph ! gy) c bg) [0..<FONT_W] s)"
    if "g_clip_y s \<le> y + of_nat gy" "unat (y + of_nat gy) < unat (g_clip_y s) + unat (g_clip_h s)"
      "y + of_nat gy < vi_height info"
    by (rule drawn_fold, rule drawn_glyph_pixel) (use that drawn_same in simp_all)
  then show ?thesis
    using assms drawn_trans by (simp only: glyph_row_def Let_def not_le not_less de_Morgan_disj split: if_split) (meson not_le)
qed

lemma drawn_glyph:
  assumes "drawn info st s"
  shows "drawn info st (fb_draw_glyph info x y glyph c bg s)"
proof -
  have "drawn info s (fold (glyph_row info x y g c bg) [0..<FONT_H] s)" for g
    by (rule drawn_fold, rule drawn_glyph_row) simp
  from drawn_trans [OF assms this] show ?thesis
    by (cases glyph) (simp_all add: fb_draw_glyph_def assms)
qed

lemma drawn_text:
  assumes "drawn info st s"
  shows "drawn info st (fb_draw_text info x y text c bg s)"
proof -
  have "drawn info st s \<Longrightarrow> drawn info st (draw_text_loop info x y t c bg s)" for t
  proof (induction info x y t c bg s rule: draw_text_loop.induct)
    case (1 info x y t c bg s)
    then show ?case
      by (subst draw_text_loop.simps) (simp add: case_prod_beta drawn_glyph prod_eq_iff)
  qed
  then show ?thesis
    using assms by (simp add: fb_draw_text_def split: option.split)
qed

section \<open>Pixel by pixel\<close>

lemma filter_upt: "filter (\<lambda>n. a \<le> n \<and> n < b) [l..<h] = [max a l..<min b h]"
proof (induction h)
  case (Suc h)
  consider "h < l" | "l \<le> h" "h < b" "a \<le> h" | "l \<le> h" "h < b" "h < a" | "l \<le> h" "b \<le> h"
    by linarith
  then show ?case
  proof cases
    case 2
    then have "min b (Suc h) = Suc h" "min b h = h" "max a l \<le> h"
      by auto
    then show ?thesis
      using 2 Suc by simp
  next
    case 4
    then show ?thesis
      using Suc by (simp add: min_def)
  qed (use Suc in auto)
qed auto

lemma fold_if: "fold (\<lambda>x s. if Q x then f x s else s) xs s = fold f (filter Q xs) s"
  by (induction xs arbitrary: s) auto

lemma fold_mem:
  "(\<And>x m. x \<in> set xs \<Longrightarrow> F x (st\<lparr>fb_mem := m\<rparr>) = st\<lparr>fb_mem := f x m\<rparr>) \<Longrightarrow>
   fold F xs (st\<lparr>fb_mem := m\<rparr>) = st\<lparr>fb_mem := fold f xs m\<rparr>"
  by (induction xs arbitrary: m) simp_all

lemma mem_update_simps [simp]:
  "pixel_addr info (st\<lparr>fb_mem := m\<rparr>) = pixel_addr info st"
  "in_clip (st\<lparr>fb_mem := m\<rparr>) = in_clip st" "fb_target_base info (st\<lparr>fb_mem := m\<rparr>) = fb_target_base info st"
  by (simp_all add: pixel_addr_def fb_target_base_def in_clip_def fun_eq_iff)

text \<open>The columns a rectangle shows, as the loop bounds and as the pixels of it that are visible.\<close>

lemma visible_side:
  fixes x c w cw wd :: u16
  defines "lo \<equiv> min (max x c) wd" and "hi \<equiv> min (min (x + w) (c + cw)) wd"
  assumes "unat x + unat w < 2 ^ 16" "unat c + unat cw < 2 ^ 16"
  shows "filter (\<lambda>n. unat c \<le> n \<and> n < min (unat c + unat cw) (unat wd)) [unat x..<unat x + unat w] =
    (if lo < hi then [unat lo..<unat hi] else [])"
proof -
  have sums: "unat (x + w) = unat x + unat w" "unat (c + cw) = unat c + unat cw"
    using assms(3,4) by (simp_all add: unat_plus_no_wrap)
  have um: "unat (min a b) = min (unat a) (unat b)" "unat (max a b) = max (unat a) (unat b)" for a b :: u16
    by (simp_all add: min_def max_def word_le_nat_alt)
  have lo: "unat lo = min (max (unat x) (unat c)) (unat wd)"
    by (simp only: lo_def um)
  have hi: "unat hi = min (min (unat x + unat w) (unat c + unat cw)) (unat wd)"
    by (simp only: hi_def um sums)
  show ?thesis
    unfolding filter_upt word_less_nat_alt lo hi by (auto simp: min_def max_def)
qed

definition rect_pixels :: "video_info \<Rightarrow> u16 \<Rightarrow> u16 \<Rightarrow> u16 \<Rightarrow> u16 \<Rightarrow> u32 \<Rightarrow> fb \<Rightarrow> fb" where
  "rect_pixels info x y w h color st =
     fold (\<lambda>py. fold (\<lambda>px. fb_writepixel info (of_nat px) (of_nat py) color) [unat x..<unat x + unat w])
       [unat y..<unat y + unat h] st"

lemma rect_pixels_loops:
  assumes "unat x + unat w < 2 ^ 16" "unat y + unat h < 2 ^ 16"
  shows "rect_pixels info x y w h c st = st\<lparr>fb_mem :=
    fold (\<lambda>py. fold (\<lambda>px. put_le (pixel_addr info st (of_nat px) (of_nat py)) (pixel_bytes (bytes_per_pixel info) c))
      (filter (\<lambda>n. unat (g_clip_x st) \<le> n \<and>
         n < min (unat (g_clip_x st) + unat (g_clip_w st)) (unat (vi_width info))) [unat x..<unat x + unat w]))
      (filter (\<lambda>n. unat (g_clip_y st) \<le> n \<and>
         n < min (unat (g_clip_y st) + unat (g_clip_h st)) (unat (vi_height info))) [unat y..<unat y + unat h])
      (fb_mem st)\<rparr>"
proof -
  let ?vx = "\<lambda>n. unat (g_clip_x st) \<le> n \<and> n < min (unat (g_clip_x st) + unat (g_clip_w st)) (unat (vi_width info))"
  let ?vy = "\<lambda>n. unat (g_clip_y st) \<le> n \<and> n < min (unat (g_clip_y st) + unat (g_clip_h st)) (unat (vi_height info))"
  let ?p = "\<lambda>px py. put_le (pixel_addr info st (of_nat px) (of_nat py)) (pixel_bytes (bytes_per_pixel info) c)"
  have nat16: "unat (of_nat n :: u16) = n" if "n < 2 ^ 16" for n
    using that by (simp add: unsigned_of_nat take_bit_nat_eq_self)
  have px: "fb_writepixel info (of_nat px) (of_nat py) c (st\<lparr>fb_mem := m\<rparr>) =
      st\<lparr>fb_mem := (if ?vx px then (if ?vy py then ?p px py m else m) else m)\<rparr>"
    if "px < 2 ^ 16" "py < 2 ^ 16" for px py m
  proof -
    have "on_screen info (of_nat px) (of_nat py) \<and> in_clip st (of_nat px) (of_nat py) \<longleftrightarrow> ?vx px \<and> ?vy py"
      unfolding on_screen_def in_clip_def word_less_nat_alt word_le_nat_alt nat16 [OF that(1)] nat16 [OF that(2)]
      by (simp only: min_less_iff_conj) blast
    moreover have "fb_writepixel info (of_nat px) (of_nat py) c (st\<lparr>fb_mem := m\<rparr>) =
        st\<lparr>fb_mem := (if on_screen info (of_nat px) (of_nat py) \<and> in_clip st (of_nat px) (of_nat py)
          then ?p px py m else m)\<rparr>"
      by (simp add: fb_writepixel_def put_pixel_def)
    ultimately show ?thesis
      by (simp only: if_if_eq_conj)
  qed
  have row: "fold (\<lambda>px. fb_writepixel info (of_nat px) (of_nat py) c) [unat x..<unat x + unat w] (st\<lparr>fb_mem := m\<rparr>) =
      st\<lparr>fb_mem := (if ?vy py then fold (\<lambda>px. ?p px py) (filter ?vx [unat x..<unat x + unat w]) m else m)\<rparr>"
    if py: "py < 2 ^ 16" for py m
  proof -
    have "fold (\<lambda>px. fb_writepixel info (of_nat px) (of_nat py) c) [unat x..<unat x + unat w] (st\<lparr>fb_mem := m\<rparr>) =
        st\<lparr>fb_mem := fold (\<lambda>px m. if ?vx px then (if ?vy py then ?p px py m else m) else m) [unat x..<unat x + unat w] m\<rparr>"
      using assms(1) py by (intro fold_mem px) simp_all
    also have "fold (\<lambda>px m. if ?vx px then (if ?vy py then ?p px py m else m) else m) [unat x..<unat x + unat w] m =
        fold (\<lambda>px m. if ?vy py then ?p px py m else m) (filter ?vx [unat x..<unat x + unat w]) m"
      by (rule fold_if)
    also have "\<dots> = (if ?vy py then fold (\<lambda>px. ?p px py) (filter ?vx [unat x..<unat x + unat w]) m else m)"
    proof (cases "?vy py")
      case False
      have "fold (\<lambda>px m. m) xs m = m" for xs :: "nat list"
        by (induction xs) simp_all
      then show ?thesis
        using False by (simp only: if_False)
    qed simp
    finally show ?thesis .
  qed
  have "fold (\<lambda>py. fold (\<lambda>px. fb_writepixel info (of_nat px) (of_nat py) c) [unat x..<unat x + unat w])
      [unat y..<unat y + unat h] (st\<lparr>fb_mem := fb_mem st\<rparr>) =
    st\<lparr>fb_mem := fold (\<lambda>py m. if ?vy py then fold (\<lambda>px. ?p px py) (filter ?vx [unat x..<unat x + unat w]) m else m)
      [unat y..<unat y + unat h] (fb_mem st)\<rparr>"
    using assms(2) by (intro fold_mem row) simp
  then show ?thesis
    unfolding rect_pixels_def fold_if by simp
qed

lemma rect_loop_mem:
  assumes lx: "lx = min (max x (g_clip_x st)) (vi_width info)"
    and hx: "hx = min (min (x + w) (g_clip_x st + g_clip_w st)) (vi_width info)"
    and ly: "ly = min (max y (g_clip_y st)) (vi_height info)"
    and hy: "hy = min (min (y + h) (g_clip_y st + g_clip_h st)) (vi_height info)"
    and lt: "lx < hx" "ly < hy"
  shows "rect_loop info lx ly hx hy c st = st\<lparr>fb_mem :=
    fold (\<lambda>py. fold (\<lambda>px. put_le (pixel_addr info st (of_nat px) (of_nat py)) (pixel_bytes (bytes_per_pixel info) c))
      [unat lx..<unat hx]) [unat ly..<unat hy] (fb_mem st)\<rparr>"
proof -
  let ?p = "\<lambda>px py. put_le (pixel_addr info st (of_nat px) (of_nat py)) (pixel_bytes (bytes_per_pixel info) c)"
  let ?a = "\<lambda>i j. fb_target_base info st + of_nat j * ucast (vi_pitch info) + ucast lx * ucast (bytes_per_pixel info) +
      of_nat i * ucast (bytes_per_pixel info)"
  have row: "fold (\<lambda>i. put_pixel (bytes_per_pixel info) (?a i j) c) [0..<unat (hx - lx)] (st\<lparr>fb_mem := m\<rparr>) =
      st\<lparr>fb_mem := fold (\<lambda>px. ?p px j) [unat lx..<unat hx] m\<rparr>" if j: "unat ly \<le> j" "j < unat hy" for j m
  proof -
    have a: "?a i j = pixel_addr info st (of_nat (unat lx + i)) (of_nat j)" if "i < unat (hx - lx)" for i
      using rect_pixel(3) [OF lx hx ly hy lt that j] by (simp add: of_nat_unat)
    have "fold (\<lambda>i. put_pixel (bytes_per_pixel info) (?a i j) c) [0..<unat (hx - lx)] (st\<lparr>fb_mem := m\<rparr>) =
        st\<lparr>fb_mem := fold (\<lambda>i. ?p (unat lx + i) j) [0..<unat (hx - lx)] m\<rparr>"
      by (rule fold_mem) (simp add: put_pixel_def a)
    also have "fold (\<lambda>i. ?p (unat lx + i) j) [0..<unat (hx - lx)] m =
        fold (\<lambda>px. ?p px j) (map ((+) (unat lx)) [0..<unat (hx - lx)]) m"
      by (simp only: fold_map comp_def)
    also have "map ((+) (unat lx)) [0..<unat (hx - lx)] = [unat lx..<unat hx]"
      using lt(1) map_add_upt [of "unat lx" "unat (hx - lx)"]
      by (simp add: add.commute [of _ "unat lx"] unat_sub_le word_less_nat_alt word_le_nat_alt)
    finally show ?thesis .
  qed
  have "fold (\<lambda>j. fold (\<lambda>i. put_pixel (bytes_per_pixel info) (?a i j) c) [0..<unat (hx - lx)])
      [unat ly..<unat hy] (st\<lparr>fb_mem := fb_mem st\<rparr>) =
    st\<lparr>fb_mem := fold (\<lambda>j. fold (\<lambda>px. ?p px j) [unat lx..<unat hx]) [unat ly..<unat hy] (fb_mem st)\<rparr>"
    by (rule fold_mem, rule row) (simp_all only: set_upt atLeastLessThan_iff)
  then show ?thesis
    by (simp add: rect_loop_def)
qed

end
