(* ===== verification/Draw_Spec.thy ===== *)
theory Draw_Spec
  imports Draw
begin

text \<open>
  What drawing promises: a clipped rectangle is the rectangle drawn pixel by pixel; no sequence of
  drawing calls writes outside the frame buffer; a pixel reads back as the colour it was given, as
  far as the format keeps it; UTF-8 text is drawn glyph by glyph at steps of eight pixels.
\<close>

section \<open>Rectangles\<close>

definition rect_fits :: "fb \<Rightarrow> u16 \<Rightarrow> u16 \<Rightarrow> u16 \<Rightarrow> u16 \<Rightarrow> bool" where
  "rect_fits st x y w h \<longleftrightarrow> unat x + unat w < 2 ^ 16 \<and> unat y + unat h < 2 ^ 16 \<and>
     unat (g_clip_x st) + unat (g_clip_w st) < 2 ^ 16 \<and> unat (g_clip_y st) + unat (g_clip_h st) < 2 ^ 16"

lemma fold_skip: "fold (\<lambda>x s. s) xs s = s"
  by (induction xs) simp_all

text \<open>
  C18: Drawing a rectangle computes the clipped edges once and writes straight into memory; where the
  edges do not wrap in 16 bits and the pixel size is 2, 3 or 4 bytes this is the same as writing the
  pixels of the rectangle one by one, each checked against the screen and the clip rectangle.
\<close>

theorem fb_rect_pixels:
  assumes "rect_fits st x y w h" "bytes_per_pixel info \<in> {2, 3, 4}"
  shows "fb_rect info x y w h color st = rect_pixels info x y w h color st"
proof -
  define lx hx ly hy where "lx = min (max x (g_clip_x st)) (vi_width info)"
    and "hx = min (min (x + w) (g_clip_x st + g_clip_w st)) (vi_width info)"
    and "ly = min (max y (g_clip_y st)) (vi_height info)"
    and "hy = min (min (y + h) (g_clip_y st + g_clip_h st)) (vi_height info)"
  note bounds = this
  from assms(1) have fit: "unat x + unat w < 2 ^ 16" "unat y + unat h < 2 ^ 16"
    "unat (g_clip_x st) + unat (g_clip_w st) < 2 ^ 16" "unat (g_clip_y st) + unat (g_clip_h st) < 2 ^ 16"
    by (simp_all only: rect_fits_def)
  have pix: "rect_pixels info x y w h color st = st\<lparr>fb_mem :=
      fold (\<lambda>py. fold (\<lambda>px. put_le (pixel_addr info st (of_nat px) (of_nat py)) (pixel_bytes (bytes_per_pixel info) color))
        (if lx < hx then [unat lx..<unat hx] else [])) (if ly < hy then [unat ly..<unat hy] else []) (fb_mem st)\<rparr>"
    unfolding rect_pixels_loops [OF fit(1,2)] visible_side [OF fit(1,3)] visible_side [OF fit(2,4)] bounds ..
  have rect: "fb_rect info x y w h color st =
      (if w \<noteq> 0 \<and> h \<noteq> 0 \<and> lx < hx \<and> ly < hy then rect_loop info lx ly hx hy color st else st)"
    using assms(2) by (simp only: fb_rect_loop Let_def bounds simp_thms)
  show ?thesis
  proof (cases "lx < hx \<and> ly < hy")
    case True
    then have "w \<noteq> 0" "h \<noteq> 0"
      unfolding bounds by (auto simp: min_def max_def split: if_splits)
    then show ?thesis
      using True rect_loop_mem [OF bounds] unfolding rect pix by simp
  next
    case False
    then show ?thesis
      unfolding rect pix by (auto simp: fold_skip id_def)
  qed
qed

definition demo_info :: video_info where
  "demo_info = \<lparr>vi_magic = 0, vi_version = 0, vi_size = 0, vi_framebuffer = 0xE0000000, vi_pitch = 12,
     vi_width = 4, vi_height = 3, vi_bpp = 24, vi_reserved = 0, memory_region_count = 0,
     memory_region_capacity = 0, memory_regions = \<lambda>i. \<lparr>region_base = 0, region_length = 0, region_type = 0, region_attributes = 0\<rparr>\<rparr>"

definition demo_fb :: fb where
  "demo_fb = \<lparr>fb_mem = \<lambda>a. 0, g_clip_x = 1, g_clip_y = 0, g_clip_w = 2, g_clip_h = 2, g_backbuffer_enabled = False\<rparr>"

lemma demo_bpp: "bytes_per_pixel demo_info = 3"
  by (simp add: bytes_per_pixel_def demo_info_def Let_def)

theorem fb_rect_pixels_witness:
  "fb_rect demo_info 0 1 3 5 0x112233 demo_fb = rect_pixels demo_info 0 1 3 5 0x112233 demo_fb"
  by (rule fb_rect_pixels) (simp_all add: demo_bpp rect_fits_def demo_fb_def)


section \<open>Memory outside the frame buffer\<close>

text \<open>The drawing calls a client makes, the changes of the clip rectangle among them.\<close>

inductive draw_step :: "video_info \<Rightarrow> fb \<Rightarrow> fb \<Rightarrow> bool" for info where
  pixel: "draw_step info st (fb_writepixel info x y c st)"
| rect: "draw_step info st (fb_rect info x y w h c st)"
| frame: "draw_step info st (fb_frame info x y w h t c st)"
| fill: "draw_step info st (fb_fill info c st)"
| char: "draw_step info st (fb_draw_char info x y ch c bg st)"
| glyph: "draw_step info st (fb_draw_glyph info x y g c bg st)"
| draw_text: "draw_step info st (fb_draw_text info x y t c bg st)"
| clip: "draw_step info st (fb_set_clip x y w h st)"
| clear_clip: "draw_step info st (fb_clear_clip st)"

definition in_frame_buffer :: "video_info \<Rightarrow> fb \<Rightarrow> u64 \<Rightarrow> bool" where
  "in_frame_buffer info st a \<longleftrightarrow>
     unat (a - fb_target_base info st) < unat (vi_pitch info) * unat (vi_height info)"

definition good_mode :: "video_info \<Rightarrow> bool" where
  "good_mode info \<longleftrightarrow> bytes_per_pixel info \<in> {2, 3, 4} \<and>
     unat (vi_width info) * unat (bytes_per_pixel info) \<le> unat (vi_pitch info)"

lemma nat64: "n < 2 ^ 64 \<Longrightarrow> unat (of_nat n :: u64) = n"
  by (simp add: unsigned_of_nat take_bit_nat_eq_self)

lemma pixel_in_frame_buffer:
  assumes mode: "good_mode info" and x: "on_screen info x y" and k: "k < pixel_size (bytes_per_pixel info)"
  shows "in_frame_buffer info st (pixel_addr info st x y + of_nat k)"
proof -
  let ?b = "bytes_per_pixel info" and ?p = "vi_pitch info"
  have size: "pixel_size ?b = unat ?b"
    using mode by (auto simp: good_mode_def pixel_size_def)
  have xy: "Suc (unat x) \<le> unat (vi_width info)" "Suc (unat y) \<le> unat (vi_height info)"
    using x by (simp_all add: on_screen_def word_less_nat_alt)
  have "unat x * unat ?b + k < Suc (unat x) * unat ?b"
    using k size by simp
  also have "\<dots> \<le> unat ?p"
    using mult_le_mono1 [OF xy(1), of "unat ?b"] mode le_trans unfolding good_mode_def by blast
  finally have "unat y * unat ?p + (unat x * unat ?b + k) < Suc (unat y) * unat ?p"
    by simp
  also have "\<dots> \<le> unat ?p * unat (vi_height info)"
    using mult_le_mono1 [OF xy(2), of "unat ?p"] by (simp only: mult.commute)
  finally have lt: "unat y * unat ?p + unat x * unat ?b + k < unat ?p * unat (vi_height info)"
    by (simp only: add.assoc)
  have "unat ?p \<le> 2 ^ 16" "unat (vi_height info) \<le> 2 ^ 16"
    using unsigned_less [of ?p, where 'a = nat] unsigned_less [of "vi_height info", where 'a = nat] by simp_all
  from mult_le_mono [OF this] have "unat ?p * unat (vi_height info) \<le> 2 ^ 32"
    by simp
  with lt have small: "unat y * unat ?p + unat x * unat ?b + k < 2 ^ 64"
    by simp
  have "pixel_addr info st x y + of_nat k - fb_target_base info st =
      of_nat (unat y * unat ?p + unat x * unat ?b + k)"
    by (simp add: pixel_addr_def of_nat_unat)
  then have "unat (pixel_addr info st x y + of_nat k - fb_target_base info st) =
      unat y * unat ?p + unat x * unat ?b + k"
    using small nat64 by (simp only:)
  then show ?thesis
    using lt by (simp only: in_frame_buffer_def)
qed

definition only_frame_buffer :: "video_info \<Rightarrow> fb \<Rightarrow> fb \<Rightarrow> bool" where
  "only_frame_buffer info st st' \<longleftrightarrow> g_backbuffer_enabled st' = g_backbuffer_enabled st \<and>
     (\<forall>a. \<not> in_frame_buffer info st a \<longrightarrow> fb_mem st' a = fb_mem st a)"

lemma drawn_only:
  assumes "good_mode info" "drawn info st st'"
  shows "only_frame_buffer info st st'"
proof -
  have "a \<notin> pixel_area info st" if "\<not> in_frame_buffer info st a" for a
    using that pixel_in_frame_buffer [OF assms(1)] by (auto simp: pixel_area_def)
  then show ?thesis
    using assms(2) drawn_same(9) [OF assms(2)] by (auto simp: only_frame_buffer_def drawn_def)
qed

lemma draw_step_only:
  assumes "good_mode info" "draw_step info st st'"
  shows "only_frame_buffer info st st'"
  using assms(2)
proof cases
  case clip
  then show ?thesis
    by (simp add: only_frame_buffer_def fb_set_clip_def)
next
  case clear_clip
  then show ?thesis
    by (simp add: only_frame_buffer_def fb_clear_clip_def)
qed (auto intro!: drawn_only assms(1) drawn_frame drawn_glyph drawn_text drawn_fill simp: fb_draw_char_def)

lemma only_frame_buffer_trans:
  "only_frame_buffer info st s \<Longrightarrow> only_frame_buffer info s s' \<Longrightarrow> only_frame_buffer info st s'"
  by (simp add: only_frame_buffer_def in_frame_buffer_def fb_target_base_def)

text \<open>
  C7: Where a screen line holds the pixels of its width, no sequence of drawing calls (pixels,
  rectangles, frames, fills, characters, glyphs, text, clip changes), whatever their arguments,
  changes a byte outside the \<^verbatim>\<open>pitch * height\<close> bytes of the buffer that is drawn to.
\<close>

theorem drawing_stays_in_frame_buffer:
  assumes "good_mode info" "(draw_step info)\<^sup>*\<^sup>* st st'" "\<not> in_frame_buffer info st a"
  shows "fb_mem st' a = fb_mem st a"
proof -
  have "only_frame_buffer info st st'"
    using assms(2)
    by induction (simp add: only_frame_buffer_def, blast intro: only_frame_buffer_trans draw_step_only assms(1))
  then show ?thesis
    using assms(3) by (simp only: only_frame_buffer_def simp_thms)
qed

theorem drawing_stays_in_frame_buffer_witness:
  "fb_mem (fb_draw_text demo_info 65535 2 (Some [87, 0xD0, 0x90]) 0xFF 0 (fb_rect demo_info 2 0 9 9 0xFF00 demo_fb))
     0xE0000024 = fb_mem demo_fb 0xE0000024"
proof (rule drawing_stays_in_frame_buffer)
  show "good_mode demo_info"
    by (simp add: good_mode_def demo_bpp) (simp add: demo_info_def)
  show "(draw_step demo_info)\<^sup>*\<^sup>* demo_fb
      (fb_draw_text demo_info 65535 2 (Some [87, 0xD0, 0x90]) 0xFF 0 (fb_rect demo_info 2 0 9 9 0xFF00 demo_fb))"
    by (blast intro: draw_step.intros rtranclp.intros)
  show "\<not> in_frame_buffer demo_info demo_fb 0xE0000024"
    by (simp add: in_frame_buffer_def fb_target_base_def demo_info_def demo_fb_def)
qed


section \<open>A pixel reads back\<close>

lemma put_le_2: "put_le a [b0, b1] mem = mem(a := b0, a + 1 := b1)"
  and put_le_3: "put_le a [b0, b1, b2] mem = mem(a := b0, a + 1 := b1, a + 2 := b2)"
  and put_le_4: "put_le a [b0, b1, b2, b3] mem = mem(a := b0, a + 1 := b1, a + 2 := b2, a + 3 := b3)"
  by (simp_all add: put_le_def)

text \<open>The bits of a colour a pixel of the given size keeps.\<close>

definition kept_bits :: "u8 \<Rightarrow> u32" where
  "kept_bits bpp = (if bpp = 2 then 0xF8FCF8 else 0xFFFFFF)"

lemma kept_masks: "(0xFFFFFF :: u32) = mask 24"
    "(0xF8FCF8 :: u32) = push_bit 19 (mask 5) OR push_bit 10 (mask 6) OR push_bit 3 (mask 5)"
  by (simp_all add: mask_eq_exp_minus_1)

lemma byte_masks: "(0xFF :: u32) = mask 8" "(0x1F :: u16) = mask 5" "(0x3F :: u16) = mask 6"
  by (simp_all add: mask_eq_exp_minus_1)

lemma load_put_pixel_2: "load_pixel 2 a (put_le a (pixel_bytes 2 c) mem) = c AND kept_bits 2"
proof -
  have "ucast (ucast p :: u8) OR push_bit 8 (ucast (ucast (drop_bit 8 p) :: u8)) = p" for p :: u16
    by (rule bit_word_eqI) (auto simp: bit_simps)
  then have "load_pixel 2 a (put_le a (pixel_bytes 2 c) mem) = unpack565 (pack565 c)"
    by (simp add: load_pixel_def pixel_bytes_def Let_def put_le_2)
  also have "\<dots> = c AND kept_bits 2"
    unfolding unpack565_def pack565_def Let_def kept_bits_def if_P [OF refl] kept_masks byte_masks
    by (simp add: word_bits_eq all_less_numeral bit_simps)
  finally show ?thesis .
qed

lemma load_put_pixel_3: "load_pixel 3 a (put_le a (pixel_bytes 3 c) mem) = c AND kept_bits 3"
proof -
  have "push_bit 16 (ucast (ucast (drop_bit 16 c) :: u8)) OR push_bit 8 (ucast (ucast (drop_bit 8 c) :: u8)) OR
      ucast (ucast c :: u8) = c AND mask 24"
    by (simp add: word_bits_eq all_less_numeral bit_simps)
  then show ?thesis
    by (simp add: load_pixel_def pixel_bytes_def kept_bits_def put_le_3 flip: kept_masks(1))
qed

lemma load_put_pixel_4:
  assumes "bpp \<noteq> 2" "bpp \<noteq> 3"
  shows "load_pixel bpp a (put_le a (pixel_bytes bpp c) mem) = c AND kept_bits bpp"
proof -
  have "(ucast (ucast d :: u8) OR push_bit 8 (ucast (ucast (drop_bit 8 d) :: u8)) OR
      push_bit 16 (ucast (ucast (drop_bit 16 d) :: u8)) OR push_bit 24 (ucast (ucast (drop_bit 24 d) :: u8))) = d"
    for d :: u32
    by (simp add: word_bits_eq all_less_numeral bit_simps)
  then have "load_pixel bpp a (put_le a [ucast d, ucast (drop_bit 8 d), ucast (drop_bit 16 d), ucast (drop_bit 24 d)] mem) =
      d AND 0x00FFFFFF" for d
    using assms by (simp add: load_pixel_def put_le_4)
  from this [of "c AND 0x00FFFFFF"] show ?thesis
    using assms by (simp only: pixel_bytes_def kept_bits_def Let_def if_False and.assoc and.idem)
qed

lemma load_put_pixel: "load_pixel bpp a (put_le a (pixel_bytes bpp c) mem) = c AND kept_bits bpp"
  by (cases "bpp = 2"; cases "bpp = 3") (simp_all only: load_put_pixel_2 load_put_pixel_3 load_put_pixel_4 not_False_eq_True)

text \<open>
  A visible pixel reads back as the colour written, less the bits the format does not hold: the
  top byte in 24 and 32 bits per pixel, and in 16 bits per pixel also the low three bits of red and
  blue and the low two of green.
\<close>

theorem pixel_read_back:
  assumes "on_screen info x y" "in_clip st x y"
  shows "fb_readpixel info x y (fb_writepixel info x y color st) = color AND kept_bits (bytes_per_pixel info)"
  by (simp add: fb_readpixel_def fb_writepixel_def put_pixel_def assms load_put_pixel)

theorem pixel_read_back_witness:
  "fb_readpixel demo_info 2 1 (fb_writepixel demo_info 2 1 0x01ABCDEF demo_fb) = 0xABCDEF"
  by (subst pixel_read_back) (simp_all add: on_screen_def in_clip_def demo_bpp kept_bits_def, simp_all add: demo_info_def demo_fb_def)


section \<open>Text is drawn character by character\<close>

text \<open>The UTF-8 encoding of a code point, from the standard.\<close>

definition cont_byte :: "nat \<Rightarrow> u32 \<Rightarrow> u8" where
  "cont_byte n cp = ucast (0x80 OR (drop_bit n cp AND 0x3F))"

definition utf8_encode :: "u32 \<Rightarrow> u8 list" where
  "utf8_encode cp =
     (if cp < 0x80 then [ucast cp]
      else if cp < 0x800 then [ucast (0xC0 OR drop_bit 6 cp), cont_byte 0 cp]
      else if cp < 0x10000 then [ucast (0xE0 OR drop_bit 12 cp), cont_byte 6 cp, cont_byte 0 cp]
      else [ucast (0xF0 OR drop_bit 18 cp), cont_byte 12 cp, cont_byte 6 cp, cont_byte 0 cp])"

lemma small_bits: "v < 2 ^ k \<Longrightarrow> k \<le> n \<Longrightarrow> \<not> bit v n" for v :: u32
proof -
  assume "v < 2 ^ k" "k \<le> n"
  then have "bit v n = bit (v AND mask k) n"
    by (simp only: less_mask_eq)
  also have "\<dots> = False"
    using \<open>k \<le> n\<close> by (simp add: bit_simps)
  finally show "\<not> bit v n"
    by simp
qed

text \<open>The lead byte, once read back, passes the tests of the decoder up to its own and keeps the bits.\<close>

definition lead :: "u32 \<Rightarrow> u32 \<Rightarrow> u32" where "lead tag t = ucast (ucast (tag OR t) :: u8)"

lemmas bit_blast = word_bits_eq all_less_numeral bit_simps

lemma lead_2: "lead 0xC0 t AND 0xE0 = 0xC0" "lead 0xC0 t AND 0x1F = t" if "t < 2 ^ 5"
  using small_bits [OF that] by (simp_all add: lead_def bit_blast)

lemma lead_3: "lead 0xE0 t AND 0xE0 = 0xE0" "lead 0xE0 t AND 0xF0 = 0xE0" "lead 0xE0 t AND 0x0F = t" if "t < 2 ^ 4"
  using small_bits [OF that] by (simp_all add: lead_def bit_blast)

lemma lead_4: "lead 0xF0 t AND 0xE0 = 0xE0" "lead 0xF0 t AND 0xF0 = 0xF0" "lead 0xF0 t AND 0xF8 = 0xF0"
    "lead 0xF0 t AND 0x07 = t" if "t < 2 ^ 3"
  using small_bits [OF that] by (simp_all add: lead_def bit_blast)

lemma lead_not_ascii: "\<not> lead tag t < 0x80" if "bit tag 7"
  using small_bits [of "lead tag t" 7 7] that by (auto simp: lead_def bit_simps)

lemma drop_bit_small: "w < 2 ^ (n + k) \<Longrightarrow> n + k < 32 \<Longrightarrow> drop_bit n w < 2 ^ k" for w :: u32
proof -
  assume w: "w < 2 ^ (n + k)" and nk: "n + k < 32"
  have "drop_bit n w AND mask k = drop_bit n w"
    using small_bits [OF w] by (intro bit_word_eqI) (auto simp: bit_simps, meson add_le_cancel_left not_le)
  moreover have "drop_bit n w AND mask k < 2 ^ k"
    using nk by (intro and_mask_less') simp
  ultimately show ?thesis
    by simp
qed

lemma pieces:
  "cp < 2 ^ 11 \<Longrightarrow> push_bit 6 (drop_bit 6 cp) OR (cp AND 0x3F) = cp"
  "push_bit 12 (drop_bit 12 cp) OR push_bit 6 (drop_bit 6 cp AND 0x3F) OR (cp AND 0x3F) = cp"
  "push_bit 18 (drop_bit 18 cp) OR push_bit 12 (drop_bit 12 cp AND 0x3F) OR push_bit 6 (drop_bit 6 cp AND 0x3F) OR
     (cp AND 0x3F) = cp" for cp :: u32
  by (simp_all add: bit_blast)

lemma cont_bits: "ucast (cont_byte n cp AND 0x3F) = drop_bit n cp AND (0x3F :: u32)"
  by (simp add: cont_byte_def bit_blast)

lemma decode_encode:
  assumes "cp < 0x110000"
  shows "utf8_decode_char (utf8_encode cp @ s) = (cp, s)"
proof -
  consider "cp < 0x80" | "\<not> cp < 0x80" "cp < 0x800" | "\<not> cp < 0x80" "\<not> cp < 0x800" "cp < 0x10000"
    | "\<not> cp < 0x80" "\<not> cp < 0x800" "\<not> cp < 0x10000"
    by blast
  then show ?thesis
  proof cases
    case 1
    then have "ucast (ucast cp :: u8) = cp"
      using small_bits [of cp 7] by (simp add: bit_blast)
    then show ?thesis
      using 1 by (simp add: utf8_encode_def)
  next
    case 2
    then have t: "drop_bit 6 cp < 2 ^ 5"
      by (intro drop_bit_small) simp_all
    have tests: "\<not> lead 0xC0 (drop_bit 6 cp) < 0x80"
      by (rule lead_not_ascii) (simp add: bit_simps)
    show ?thesis
      using 2 tests lead_2 [OF t] pieces
      by (simp add: utf8_encode_def cont_bits flip: lead_def)
  next
    case 3
    then have t: "drop_bit 12 cp < 2 ^ 4"
      by (intro drop_bit_small) simp_all
    have tests: "\<not> lead 0xE0 (drop_bit 12 cp) < 0x80"
      by (rule lead_not_ascii) (simp add: bit_simps)
    show ?thesis
      using 3 tests lead_3 [OF t] pieces
      by (simp add: utf8_encode_def cont_bits flip: lead_def)
  next
    case 4
    from assms have "cp < 2 ^ (18 + 3)"
      by (rule less_trans) simp
    then have t: "drop_bit 18 cp < 2 ^ 3"
      by (rule drop_bit_small) simp
    have tests: "\<not> lead 0xF0 (drop_bit 18 cp) < 0x80"
      by (rule lead_not_ascii) (simp add: bit_simps)
    show ?thesis
      using 4 tests lead_4 [OF t] pieces
      by (simp add: utf8_encode_def cont_bits flip: lead_def)
  qed
qed

lemma encode_nonempty: "utf8_encode cp \<noteq> []"
  by (simp add: utf8_encode_def)

definition glyphs_from :: "video_info \<Rightarrow> u16 \<Rightarrow> u16 \<Rightarrow> u32 list \<Rightarrow> u32 \<Rightarrow> u32 \<Rightarrow> fb \<Rightarrow> fb" where
  "glyphs_from info x y cps color bg_color st =
     fold (\<lambda>i. fb_draw_glyph info (x + 8 * of_nat i) y (Some (glyph_for_unicode (cps ! i))) color bg_color)
       [0..<length cps] st"

lemma glyphs_from_Cons:
  "glyphs_from info x y (cp # cps) c bg st =
   glyphs_from info (x + 8) y cps c bg (fb_draw_glyph info x y (Some (glyph_for_unicode cp)) c bg st)"
proof -
  have "[0..<length (cp # cps)] = 0 # map Suc [0..<length cps]"
    by (simp only: length_Cons upt_conv_Cons map_Suc_upt zero_less_Suc)
  then show ?thesis
    unfolding glyphs_from_def by (simp add: fold_map comp_def algebra_simps del: upt.simps length_Cons)
qed

lemma draw_text_glyphs:
  assumes "\<forall>cp\<in>set cps. cp < 0x110000"
  shows "draw_text_loop info x y (concat (map utf8_encode cps)) c bg st = glyphs_from info x y cps c bg st"
  using assms
proof (induction cps arbitrary: x st)
  case Nil
  show ?case
    by (subst draw_text_loop.simps) (simp add: glyphs_from_def)
next
  case (Cons cp cps)
  then show ?case
    by (subst draw_text_loop.simps) (simp add: encode_nonempty decode_encode glyphs_from_Cons FONT_W_def)
qed

text \<open>
  C30: Drawing the UTF-8 encoding of a list of code points draws the glyph of each code point in order,
  each eight pixels to the right of the one before (in 16 bits): the decoder accepts every encoding of
  one to four bytes and loses no byte of the text.
\<close>

theorem text_drawn_by_code_points:
  assumes "\<forall>cp\<in>set cps. cp < 0x110000"
  shows "fb_draw_text info x y (Some (concat (map utf8_encode cps))) color bg_color st =
    glyphs_from info x y cps color bg_color st"
  using draw_text_glyphs [OF assms] by (simp add: fb_draw_text_def)

theorem text_drawn_by_code_points_witness:
  "fb_draw_text demo_info 0 0 (Some (concat (map utf8_encode [0x57, 0x410, 0x20AC, 0x1F600]))) 0xFF 0 demo_fb =
    glyphs_from demo_info 0 0 [0x57, 0x410, 0x20AC, 0x1F600] 0xFF 0 demo_fb"
  by (rule text_drawn_by_code_points) simp

end
