(* ===== verification/Sockets.thy ===== *)
theory Sockets
  imports Fifo Kheap
begin

text \<open>
  The socket layer, \<^verbatim>\<open>net_socket.c\<close>: a table of eight sockets over lwIP, each with a 64 KiB receive
  ring in a heap block, and a queue of accepted connections for a listening socket.  lwIP itself is
  a parameter: \<open>api\<close> answers a call in a state of the stack, and \<open>poll\<close> (\<^verbatim>\<open>net_poll\<close>) yields the
  callbacks the stack makes while it is polled.  Socket numbers are \<^verbatim>\<open>int32_t\<close>.
\<close>

section \<open>State\<close>

definition NET_MAX_SOCKETS :: int where "NET_MAX_SOCKETS = 8"
definition NET_SOCKET_BUF_SIZE :: u32 where "NET_SOCKET_BUF_SIZE = 65536"
definition SOCKET_TYPE_TCP :: u8 where "SOCKET_TYPE_TCP = 1"
definition SOCKET_TYPE_UDP :: u8 where "SOCKET_TYPE_UDP = 2"

record net_socket =
  sk_in_use :: bool
  sk_type :: u8
  sk_state :: u8
  sk_tcp :: u64
  sk_udp :: u64
  accept_queue :: "int list"
  accept_head :: u8
  accept_tail :: u8
  accept_count :: u8
  rx_buf :: u64
  rx_head :: u32
  rx_tail :: u32
  rx_count :: u32

record 'l net =
  g_sockets :: "net_socket list"
  net_heap :: kheap
  lwip :: 'l

text \<open>The calls into lwIP; the answer is an \<^verbatim>\<open>err_t\<close> (\<open>0\<close> is \<^verbatim>\<open>ERR_OK\<close>), a pcb or a size.\<close>

datatype lwip_call =
    Tcp_New | Udp_New
  | Tcp_Bind u64 u16 | Udp_Bind u64 u16
  | Tcp_Listen u64
  | Tcp_Arg u64 u64 | Tcp_Recv u64 bool | Tcp_Err u64 bool | Tcp_Accept u64
  | Tcp_Connect u64 u32 u16
  | Tcp_Sndbuf u64 | Tcp_Write u64 "u8 list" | Tcp_Output u64
  | Tcp_Recved u64 u16 | Pbuf_Free u64
  | Tcp_Close u64 | Udp_Remove u64

type_synonym 'l lwip_api = "lwip_call \<Rightarrow> 'l \<Rightarrow> u64 \<times> 'l"

definition ERR_OK :: int where "ERR_OK = 0"
definition ERR_MEM :: int where "ERR_MEM = -1"
definition ERR_VAL :: int where "ERR_VAL = -6"

definition call :: "'l lwip_api \<Rightarrow> lwip_call \<Rightarrow> 'l net \<Rightarrow> u64 \<times> 'l net" where
  "call api c st = (let (r, l) = api c (lwip st) in (r, st\<lparr>lwip := l\<rparr>))"

text \<open>A call whose answer the code does not look at.\<close>

definition call_do :: "'l lwip_api \<Rightarrow> lwip_call \<Rightarrow> 'l net \<Rightarrow> 'l net" where
  "call_do api c st = snd (call api c st)"

text \<open>What lwIP calls back: data or the end of a stream, a lost connection, a new one, a result.\<close>

datatype net_event =
    Received u64 u64 "(u64 \<times> u8 list list) option"
  | Lost u64
  | Incoming u64 u64
  | Connected u64 u64 bool

section \<open>The table\<close>

definition zero_socket :: net_socket where
  "zero_socket = \<lparr>sk_in_use = False, sk_type = 0, sk_state = 0, sk_tcp = 0, sk_udp = 0,
     accept_queue = [0, 0, 0, 0], accept_head = 0, accept_tail = 0, accept_count = 0,
     rx_buf = 0, rx_head = 0, rx_tail = 0, rx_count = 0\<rparr>"

definition sock :: "int \<Rightarrow> 'l net \<Rightarrow> net_socket" where
  "sock s st = g_sockets st ! nat s"

definition upd_sock :: "int \<Rightarrow> (net_socket \<Rightarrow> net_socket) \<Rightarrow> 'l net \<Rightarrow> 'l net" where
  "upd_sock s f st = st\<lparr>g_sockets := (g_sockets st)[nat s := f (sock s st)]\<rparr>"

definition valid_sock :: "int \<Rightarrow> 'l net \<Rightarrow> bool" where
  "valid_sock s st \<longleftrightarrow> \<not> (s < 0 \<or> s \<ge> NET_MAX_SOCKETS \<or> \<not> sk_in_use (sock s st))"

definition allocate_socket_slot :: "'l net \<Rightarrow> int \<times> 'l net" where
  "allocate_socket_slot st =
     (case List.find (\<lambda>i. \<not> sk_in_use (sock i st)) [0..NET_MAX_SOCKETS - 1] of
        None \<Rightarrow> (-1, st)
      | Some i \<Rightarrow> (i, upd_sock i (\<lambda>_. zero_socket\<lparr>sk_in_use := True\<rparr>) st))"

text \<open>\<^verbatim>\<open>(int32_t)(uintptr_t)arg\<close> and back.\<close>

definition sock_of_arg :: "u64 \<Rightarrow> int" where
  "sock_of_arg arg = sint (ucast arg :: u32)"

definition arg_of_sock :: "int \<Rightarrow> u64" where
  "arg_of_sock s = word_of_int s"

section \<open>Callbacks\<close>

text \<open>One byte of a segment: stored if the ring has room, dropped otherwise.\<close>

definition rx_put :: "u8 \<Rightarrow> net_socket \<times> memory \<times> u32 \<Rightarrow> net_socket \<times> memory \<times> u32" where
  "rx_put d = (\<lambda>(s, mem, copied).
     if rx_count s < NET_SOCKET_BUF_SIZE
     then (s\<lparr>rx_tail := (rx_tail s + 1) mod NET_SOCKET_BUF_SIZE, rx_count := rx_count s + 1\<rparr>,
           mem(rx_buf s + ucast (rx_tail s) := d), copied + 1)
     else (s, mem, copied))"

definition set_mem :: "memory \<Rightarrow> 'l net \<Rightarrow> 'l net" where
  "set_mem mem st = st\<lparr>net_heap := (net_heap st)\<lparr>kheap_mem := mem\<rparr>\<rparr>"

definition net_mem :: "'l net \<Rightarrow> memory" where
  "net_mem st = kheap_mem (net_heap st)"

definition tcp_recv_callback ::
    "'l lwip_api \<Rightarrow> u64 \<Rightarrow> u64 \<Rightarrow> (u64 \<times> u8 list list) option \<Rightarrow> 'l net \<Rightarrow> int \<times> 'l net" where
  "tcp_recv_callback api arg pcb p st =
     (let s = sock_of_arg arg in
      if \<not> valid_sock s st then (ERR_VAL, st)
      else
        case p of
          None \<Rightarrow> (ERR_OK, upd_sock s (\<lambda>k. k\<lparr>sk_state := 4\<rparr>) st)
        | Some (p, q) \<Rightarrow>
            let (k, mem, copied) = fold (fold rx_put) q (sock s st, net_mem st, 0);
                st = set_mem mem (upd_sock s (\<lambda>_. k) st);
                st = call_do api (Tcp_Recved pcb (ucast copied)) st;
                st = call_do api (Pbuf_Free p) st in
            (ERR_OK, st))"

definition tcp_err_callback :: "u64 \<Rightarrow> 'l net \<Rightarrow> 'l net" where
  "tcp_err_callback arg st =
     (let s = sock_of_arg arg in
      if s \<ge> 0 \<and> s < NET_MAX_SOCKETS then upd_sock s (\<lambda>k. k\<lparr>sk_state := 4, sk_tcp := 0\<rparr>) st else st)"

definition tcp_connect_callback :: "'l lwip_api \<Rightarrow> u64 \<Rightarrow> u64 \<Rightarrow> bool \<Rightarrow> 'l net \<Rightarrow> int \<times> 'l net" where
  "tcp_connect_callback api arg tpcb ok st =
     (let s = sock_of_arg arg in
      if \<not> valid_sock s st then (ERR_VAL, st)
      else if ok
      then (ERR_OK, call_do api (Tcp_Recv tpcb True) (upd_sock s (\<lambda>k. k\<lparr>sk_state := 3\<rparr>) st))
      else (ERR_OK, upd_sock s (\<lambda>k. k\<lparr>sk_state := 4\<rparr>) st))"

definition enqueue_client :: "int \<Rightarrow> net_socket \<Rightarrow> net_socket" where
  "enqueue_client c k = k\<lparr>accept_queue := (accept_queue k)[unat (accept_tail k) := c],
     accept_tail := (accept_tail k + 1) mod 4, accept_count := accept_count k + 1\<rparr>"

definition tcp_accept_callback :: "'l lwip_api \<Rightarrow> u64 \<Rightarrow> u64 \<Rightarrow> 'l net \<Rightarrow> (int \<times> 'l net) option" where
  "tcp_accept_callback api arg newpcb st =
     (let parent = sock_of_arg arg in
      if \<not> valid_sock parent st then Some (ERR_VAL, st)
      else if accept_count (sock parent st) \<ge> 4 then Some (ERR_MEM, st)
      else
        let (client, st) = allocate_socket_slot st in
        if client < 0 then Some (ERR_MEM, st)
        else
          let st = upd_sock client (\<lambda>k. k\<lparr>sk_type := SOCKET_TYPE_TCP, sk_state := 3, sk_tcp := newpcb\<rparr>) st in
          case kheap_alloc (ucast NET_SOCKET_BUF_SIZE) (net_heap st) of
            None \<Rightarrow> None
          | Some (buf, heap) \<Rightarrow>
              let st = upd_sock client (\<lambda>k. k\<lparr>rx_buf := buf\<rparr>) (st\<lparr>net_heap := heap\<rparr>) in
              if buf = 0 then Some (ERR_MEM, upd_sock client (\<lambda>k. k\<lparr>sk_in_use := False\<rparr>) st)
              else
                let st = upd_sock client (\<lambda>k. k\<lparr>rx_head := 0, rx_tail := 0, rx_count := 0\<rparr>) st;
                    st = call_do api (Tcp_Arg newpcb (arg_of_sock client)) st;
                    st = call_do api (Tcp_Recv newpcb True) st;
                    st = call_do api (Tcp_Err newpcb True) st in
                Some (ERR_OK, upd_sock parent (enqueue_client client) st))"

text \<open>The callbacks made during one poll, in their order.\<close>

definition net_event :: "'l lwip_api \<Rightarrow> net_event \<Rightarrow> 'l net \<Rightarrow> 'l net option" where
  "net_event api e st =
     (case e of
        Received arg pcb p \<Rightarrow> Some (snd (tcp_recv_callback api arg pcb p st))
      | Lost arg \<Rightarrow> Some (tcp_err_callback arg st)
      | Incoming arg pcb \<Rightarrow> map_option snd (tcp_accept_callback api arg pcb st)
      | Connected arg pcb ok \<Rightarrow> Some (snd (tcp_connect_callback api arg pcb ok st)))"

primrec net_events :: "'l lwip_api \<Rightarrow> net_event list \<Rightarrow> 'l net \<Rightarrow> 'l net option" where
  "net_events api [] st = Some st"
| "net_events api (e # es) st =
     (case net_event api e st of None \<Rightarrow> None | Some st \<Rightarrow> net_events api es st)"

type_synonym 'l net_poller = "'l \<Rightarrow> net_event list \<times> 'l"

definition poll_sockets :: "'l lwip_api \<Rightarrow> 'l net_poller \<Rightarrow> 'l net \<Rightarrow> 'l net option" where
  "poll_sockets api poll st = (let (es, l) = poll (lwip st) in net_events api es (st\<lparr>lwip := l\<rparr>))"

section \<open>Operations\<close>

definition net_socket_create :: "'l lwip_api \<Rightarrow> u8 \<Rightarrow> 'l net \<Rightarrow> (int \<times> 'l net) option" where
  "net_socket_create api ty st =
     (let (s, st) = allocate_socket_slot st in
      if s < 0 then Some (-1, st)
      else
        let st = upd_sock s (\<lambda>k. k\<lparr>sk_type := ty, sk_state := 0\<rparr>) st in
        case kheap_alloc (ucast NET_SOCKET_BUF_SIZE) (net_heap st) of
          None \<Rightarrow> None
        | Some (buf, heap) \<Rightarrow>
            let st = upd_sock s (\<lambda>k. k\<lparr>rx_buf := buf\<rparr>) (st\<lparr>net_heap := heap\<rparr>) in
            if buf = 0 then Some (-1, upd_sock s (\<lambda>k. k\<lparr>sk_in_use := False\<rparr>) st)
            else
              let st = upd_sock s (\<lambda>k. k\<lparr>rx_head := 0, rx_tail := 0, rx_count := 0\<rparr>) st;
                  (pcb, st) = call api (if ty = SOCKET_TYPE_TCP then Tcp_New else Udp_New) st;
                  st = upd_sock s (\<lambda>k. if ty = SOCKET_TYPE_TCP then k\<lparr>sk_tcp := pcb\<rparr> else k\<lparr>sk_udp := pcb\<rparr>) st in
              if pcb = 0
              then (case kheap_free (rx_buf (sock s st)) (net_heap st) of
                      None \<Rightarrow> None
                    | Some heap \<Rightarrow>
                        Some (-1, upd_sock s (\<lambda>k. k\<lparr>sk_in_use := False\<rparr>) (st\<lparr>net_heap := heap\<rparr>)))
              else Some (s, st))"

definition net_socket_bind :: "'l lwip_api \<Rightarrow> int \<Rightarrow> u16 \<Rightarrow> 'l net \<Rightarrow> int \<times> 'l net" where
  "net_socket_bind api s port st =
     (if \<not> valid_sock s st then (-1, st)
      else
        let k = sock s st;
            (err, st) = call api (if sk_type k = SOCKET_TYPE_TCP then Tcp_Bind (sk_tcp k) port
                                  else Udp_Bind (sk_udp k) port) st in
        if err \<noteq> 0 then (-1, st) else (0, upd_sock s (\<lambda>k. k\<lparr>sk_state := 1\<rparr>) st))"

definition net_socket_listen :: "'l lwip_api \<Rightarrow> int \<Rightarrow> 'l net \<Rightarrow> int \<times> 'l net" where
  "net_socket_listen api s st =
     (if \<not> valid_sock s st then (-1, st)
      else if sk_type (sock s st) \<noteq> SOCKET_TYPE_TCP \<or> sk_state (sock s st) \<noteq> 1 then (-1, st)
      else
        let (pcb, st) = call api (Tcp_Listen (sk_tcp (sock s st))) st in
        if pcb = 0 then (-1, st)
        else
          let st = upd_sock s (\<lambda>k. k\<lparr>sk_tcp := pcb, sk_state := 2, accept_head := 0, accept_tail := 0,
                                     accept_count := 0\<rparr>) st;
              st = call_do api (Tcp_Arg pcb (arg_of_sock s)) st in
          (0, call_do api (Tcp_Accept pcb) st))"

definition dequeue_client :: "net_socket \<Rightarrow> net_socket" where
  "dequeue_client k = k\<lparr>accept_head := (accept_head k + 1) mod 4, accept_count := accept_count k - 1\<rparr>"

definition net_socket_accept :: "'l lwip_api \<Rightarrow> 'l net_poller \<Rightarrow> int \<Rightarrow> 'l net \<Rightarrow> (int \<times> 'l net) option" where
  "net_socket_accept api poll s st =
     (if \<not> valid_sock s st then Some (-1, st)
      else if sk_type (sock s st) \<noteq> SOCKET_TYPE_TCP \<or> sk_state (sock s st) \<noteq> 2 then Some (-1, st)
      else
        case poll_sockets api poll st of
          None \<Rightarrow> None
        | Some st \<Rightarrow>
            let k = sock s st in
            if accept_count k > 0
            then Some (accept_queue k ! unat (accept_head k), upd_sock s dequeue_client st)
            else Some (-1, st))"

text \<open>\<open>aton\<close> is \<^verbatim>\<open>ipaddr_aton\<close>: the address a string denotes, if any.\<close>

definition net_socket_connect ::
    "'l lwip_api \<Rightarrow> 'l net_poller \<Rightarrow> (u8 list \<Rightarrow> u32 option) \<Rightarrow> int \<Rightarrow> u8 list option \<Rightarrow> u16 \<Rightarrow> 'l net \<Rightarrow>
     (int \<times> 'l net) option" where
  "net_socket_connect api poll aton s remote_ip remote_port st =
     (if \<not> valid_sock s st \<or> remote_ip = None then Some (-1, st)
      else if sk_type (sock s st) \<noteq> SOCKET_TYPE_TCP \<or> sk_state (sock s st) \<noteq> 0 then Some (-1, st)
      else
        case aton (the remote_ip) of
          None \<Rightarrow> Some (-1, st)
        | Some addr \<Rightarrow>
            let st = upd_sock s (\<lambda>k. k\<lparr>sk_state := 5\<rparr>) st;
                pcb = sk_tcp (sock s st);
                st = call_do api (Tcp_Arg pcb (arg_of_sock s)) st;
                st = call_do api (Tcp_Err pcb True) st;
                (err, st) = call api (Tcp_Connect pcb addr remote_port) st in
            if err = 0 then map_option (Pair 0) (poll_sockets api poll st)
            else Some (-1, upd_sock s (\<lambda>k. k\<lparr>sk_state := 4\<rparr>) st))"

text \<open>\<open>data\<close> is what the pointer points to, at least \<open>len\<close> bytes, or \<^verbatim>\<open>NULL\<close>.\<close>

definition net_socket_send ::
    "'l lwip_api \<Rightarrow> 'l net_poller \<Rightarrow> int \<Rightarrow> u8 list option \<Rightarrow> u32 \<Rightarrow> 'l net \<Rightarrow> (int \<times> 'l net) option" where
  "net_socket_send api poll s data len st =
     (if \<not> valid_sock s st \<or> data = None \<or> len = 0 then Some (-1, st)
      else
        let k = sock s st in
        if sk_type k \<noteq> SOCKET_TYPE_TCP \<or> sk_state k \<noteq> 3 \<or> sk_tcp k = 0 then Some (-1, st)
        else
          let (room, st) = call api (Tcp_Sndbuf (sk_tcp k)) st; send_buf_size = ucast room :: u16 in
          if send_buf_size = 0 then map_option (Pair (-1)) (poll_sockets api poll st)
          else
            let to_send = (if len > ucast send_buf_size then ucast send_buf_size else len);
                (err, st) = call api (Tcp_Write (sk_tcp k) (take (unat (ucast to_send :: u16)) (the data))) st in
            if err = 0
            then map_option (Pair (sint to_send)) (poll_sockets api poll (call_do api (Tcp_Output (sk_tcp k)) st))
            else Some (-1, st))"

text \<open>One byte of \<^verbatim>\<open>net_socket_recv\<close>.\<close>

definition rx_take :: "u64 \<Rightarrow> nat \<Rightarrow> net_socket \<times> memory \<Rightarrow> net_socket \<times> memory" where
  "rx_take dest i = (\<lambda>(s, mem).
     (s\<lparr>rx_head := (rx_head s + 1) mod NET_SOCKET_BUF_SIZE, rx_count := rx_count s - 1\<rparr>,
      mem(dest + of_nat i := mem (rx_buf s + ucast (rx_head s)))))"

definition net_socket_recv ::
    "'l lwip_api \<Rightarrow> 'l net_poller \<Rightarrow> int \<Rightarrow> u64 \<Rightarrow> u32 \<Rightarrow> 'l net \<Rightarrow> (int \<times> 'l net) option" where
  "net_socket_recv api poll s buf len st =
     (if \<not> valid_sock s st \<or> buf = 0 \<or> len = 0 then Some (-1, st)
      else
        case poll_sockets api poll st of
          None \<Rightarrow> None
        | Some st \<Rightarrow>
            let k = sock s st in
            if rx_count k = 0
            then (if sk_state k = 4 \<or> sk_tcp k = 0 then Some (0, st) else Some (-1, st))
            else
              let to_copy = (if len > rx_count k then rx_count k else len);
                  (k, mem) = fold (rx_take buf) [0..<unat to_copy] (k, net_mem st) in
              Some (sint to_copy, set_mem mem (upd_sock s (\<lambda>_. k) st)))"

text \<open>
  \<^verbatim>\<open>net_socket_close\<close> calls itself for the connections that wait in the accept queue; the first
  argument is fuel for that recursion and the loop over the queue.
\<close>

definition release_socket :: "'l lwip_api \<Rightarrow> int \<Rightarrow> 'l net \<Rightarrow> 'l net option" where
  "release_socket api s st =
     (let k = sock s st;
          st = (if sk_tcp k \<noteq> 0
                then let st = call_do api (Tcp_Arg (sk_tcp k) 0) st;
                         st = call_do api (Tcp_Recv (sk_tcp k) False) st;
                         st = call_do api (Tcp_Err (sk_tcp k) False) st;
                         st = call_do api (Tcp_Close (sk_tcp k)) st in
                     upd_sock s (\<lambda>k. k\<lparr>sk_tcp := 0\<rparr>) st
                else st);
          st = (if sk_udp k \<noteq> 0
                then upd_sock s (\<lambda>k. k\<lparr>sk_udp := 0\<rparr>) (call_do api (Udp_Remove (sk_udp k)) st)
                else st) in
      if rx_buf k \<noteq> 0
      then (case kheap_free (rx_buf k) (net_heap st) of
              None \<Rightarrow> None
            | Some heap \<Rightarrow> Some (upd_sock s (\<lambda>k. k\<lparr>rx_buf := 0\<rparr>) (st\<lparr>net_heap := heap\<rparr>)))
      else Some st)"

fun close_fuel :: "nat \<Rightarrow> 'l lwip_api \<Rightarrow> int \<Rightarrow> 'l net \<Rightarrow> 'l net option"
  and close_waiting :: "nat \<Rightarrow> 'l lwip_api \<Rightarrow> int \<Rightarrow> 'l net \<Rightarrow> 'l net option" where
  "close_fuel 0 api s st = None"
| "close_fuel (Suc n) api s st =
     (if \<not> valid_sock s st then Some st
      else
        let st = upd_sock s (\<lambda>k. k\<lparr>sk_in_use := False\<rparr>) st in
        case (if sk_type (sock s st) = SOCKET_TYPE_TCP \<and> sk_state (sock s st) = 2
              then close_waiting n api s st else Some st) of
          None \<Rightarrow> None
        | Some st \<Rightarrow> release_socket api s st)"
| "close_waiting 0 api s st = None"
| "close_waiting (Suc n) api s st =
     (if accept_count (sock s st) > 0
      then
        let k = sock s st; client = accept_queue k ! unat (accept_head k);
            st = upd_sock s dequeue_client st in
        case close_fuel n api client st of
          None \<Rightarrow> None
        | Some st \<Rightarrow> close_waiting n api s st
      else Some st)"

definition CLOSE_FUEL :: nat where "CLOSE_FUEL = 64"

definition net_socket_close :: "'l lwip_api \<Rightarrow> int \<Rightarrow> 'l net \<Rightarrow> 'l net option" where
  "net_socket_close api s st = close_fuel CLOSE_FUEL api s st"

definition net_socket_get_state :: "int \<Rightarrow> 'l net \<Rightarrow> int" where
  "net_socket_get_state s st = (if \<not> valid_sock s st then -1 else uint (sk_state (sock s st)))"

end
