(* ===== verification/Socket_Table.thy ===== *)
theory Socket_Table
  imports Sockets
begin

text \<open>
  The socket table keeps its shape: the receive ring of a socket as a bounded queue of bytes, the
  ownership of the receive buffers in the kernel heap, and the closing of a listening socket with
  the connections that wait in it.
\<close>

section \<open>Reading and updating the table\<close>

lemma call_do_simps [simp]:
  "g_sockets (call_do api c st) = g_sockets st" "net_heap (call_do api c st) = net_heap st"
  by (simp_all add: call_do_def call_def case_prod_beta)

lemma call_simps [simp]:
  "g_sockets (snd (call api c st)) = g_sockets st" "net_heap (snd (call api c st)) = net_heap st"
  by (simp_all add: call_def case_prod_beta)

lemma sock_simps [simp]:
  "sock s (call_do api c st) = sock s st" "sock s (snd (call api c st)) = sock s st"
  "sock s (st\<lparr>net_heap := h\<rparr>) = sock s st" "sock s (st\<lparr>lwip := l\<rparr>) = sock s st"
  "sock s (set_mem mem st) = sock s st"
  by (simp_all add: sock_def set_mem_def)

lemma upd_sock_simps [simp]:
  "net_heap (upd_sock s f st) = net_heap st" "lwip (upd_sock s f st) = lwip st"
  "length (g_sockets (upd_sock s f st)) = length (g_sockets st)"
  by (simp_all add: upd_sock_def)

lemma g_sockets_upd: "g_sockets (upd_sock s f st) = (g_sockets st)[nat s := f (sock s st)]"
  by (simp add: upd_sock_def)

lemma set_mem_simps [simp]:
  "g_sockets (set_mem mem st) = g_sockets st" "net_mem (set_mem mem st) = mem"
  "kheap_mem (net_heap (set_mem mem st)) = mem"
  by (simp_all add: set_mem_def net_mem_def)

lemma valid_sock_range: "valid_sock s st \<Longrightarrow> 0 \<le> s \<and> nat s < 8 \<and> sk_in_use (sock s st)"
  by (auto simp: valid_sock_def NET_MAX_SOCKETS_def)

section \<open>The receive ring\<close>

definition rx_ok :: "net_socket \<Rightarrow> bool" where
  "rx_ok k \<longleftrightarrow> unat (rx_head k) < 65536 \<and> unat (rx_count k) \<le> 65536 \<and>
     unat (rx_tail k) = (unat (rx_head k) + unat (rx_count k)) mod 65536"

definition rx_place :: "net_socket \<Rightarrow> bool" where
  "rx_place k \<longleftrightarrow> unat (rx_buf k) + 65536 \<le> 2 ^ 64"

text \<open>The bytes that wait in the ring, oldest first.\<close>

definition rx_contents :: "net_socket \<times> memory \<Rightarrow> u8 list" where
  "rx_contents = (\<lambda>(k, mem). ring (\<lambda>i. mem (rx_buf k + of_nat i)) 65536 (unat (rx_head k)) (unat (rx_count k)))"

definition rx_push :: "u8 \<Rightarrow> net_socket \<times> memory \<Rightarrow> bool \<times> net_socket \<times> memory" where
  "rx_push d = (\<lambda>(k, mem). let (k', mem', c) = rx_put d (k, mem, 0) in (c = 1, k', mem'))"

definition rx_pop :: "net_socket \<times> memory \<Rightarrow> u8 option \<times> net_socket \<times> memory" where
  "rx_pop = (\<lambda>(k, mem). if rx_count k = 0 then (None, k, mem)
     else (Some (mem (rx_buf k + ucast (rx_head k))), fst (rx_take 0 0 (k, mem)), mem))"

lemma unat_next_rx:
  assumes "unat h < 65536"
  shows "unat ((h + 1) mod NET_SOCKET_BUF_SIZE) = (unat h + 1) mod 65536"
proof -
  have "unat (h + 1) = unat h + 1"
    using assms by (subst unat_plus_no_wrap) auto
  then show ?thesis
    by (simp add: NET_SOCKET_BUF_SIZE_def unat_mod)
qed

lemma rx_ok_put: "rx_ok k \<Longrightarrow> rx_ok (fst (rx_put d (k, mem, c)))"
proof -
  assume ok: "rx_ok k"
  then have tail: "unat (rx_tail k) < 65536"
    by (simp add: rx_ok_def)
  have "unat (rx_count k + 1) = Suc (unat (rx_count k))" if "rx_count k < NET_SOCKET_BUF_SIZE"
    using that by (subst unat_plus_no_wrap) (auto simp: NET_SOCKET_BUF_SIZE_def word_less_nat_alt)
  then show ?thesis
    using ok unat_next_rx [OF tail]
    by (auto simp: rx_ok_def rx_put_def NET_SOCKET_BUF_SIZE_def word_less_nat_alt mod_Suc_eq)
qed

lemma rx_ok_take: "rx_ok k \<Longrightarrow> rx_count k \<noteq> 0 \<Longrightarrow> rx_ok (fst (rx_take dest i (k, mem)))"
proof -
  assume ok: "rx_ok k" and n: "rx_count k \<noteq> 0"
  then obtain m where m: "unat (rx_count k) = Suc m"
    by (metis not0_implies_Suc unat_eq_zero)
  then have "unat (rx_count k - 1) = m"
    using n by (simp add: unat_minus_one)
  then show ?thesis
    using ok m unat_next_rx [of "rx_head k"]
    by (simp add: rx_ok_def rx_take_def mod_simps)
qed

lemma ring_cong: "(\<And>i. i < cap \<Longrightarrow> f i = g i) \<Longrightarrow> 0 < cap \<Longrightarrow> ring f cap h n = ring g cap h n"
  by (simp add: ring_def)

lemma rx_write:
  fixes b :: u64 and t :: u32
  assumes "i < 65536" "unat t < 65536"
  shows "(mem(b + ucast t := d)) (b + of_nat i) = ((\<lambda>i. mem (b + of_nat i))(unat t := d)) i"
proof -
  have t: "ucast t = (of_nat (unat t) :: u64)"
    by (rule of_nat_unat [symmetric])
  have "b + of_nat i = b + of_nat (unat t) \<longleftrightarrow> i = unat t"
    using of_nat_u64_inject [OF less_trans less_trans, OF assms(1) _ assms(2)] by simp
  then show ?thesis
    unfolding t by (simp only: fun_upd_apply)
qed

lemma rx_contents_put:
  assumes "rx_ok k" "rx_count k < NET_SOCKET_BUF_SIZE"
  shows "rx_contents (fst (rx_put d (k, mem, c)), fst (snd (rx_put d (k, mem, c)))) = rx_contents (k, mem) @ [d]"
proof -
  let ?f = "\<lambda>i. mem (rx_buf k + of_nat i)"
  have n: "unat (rx_count k) < 65536"
    using assms(2) by (simp add: NET_SOCKET_BUF_SIZE_def word_less_nat_alt)
  then have count: "unat (rx_count k + 1) = Suc (unat (rx_count k))"
    by (subst unat_plus_no_wrap) auto
  have tail: "unat (rx_tail k) = (unat (rx_head k) + unat (rx_count k)) mod 65536"
    using assms(1) by (simp add: rx_ok_def)
  have "ring (\<lambda>i. (mem(rx_buf k + ucast (rx_tail k) := d)) (rx_buf k + of_nat i)) 65536 (unat (rx_head k)) (Suc (unat (rx_count k))) =
      ring (?f(unat (rx_tail k) := d)) 65536 (unat (rx_head k)) (Suc (unat (rx_count k)))"
    by (rule ring_cong, rule rx_write) (simp_all add: tail)
  also have "\<dots> = ring ?f 65536 (unat (rx_head k)) (unat (rx_count k)) @ [d]"
    unfolding tail by (rule ring_snoc [OF n])
  finally show ?thesis
    using assms(2) by (simp add: rx_contents_def rx_put_def count)
qed

lemma rx_contents_take:
  assumes "rx_ok k" "rx_count k \<noteq> 0"
  shows "rx_contents (k, mem) = mem (rx_buf k + ucast (rx_head k)) # rx_contents (fst (rx_take dest i (k, mem)), mem)"
proof -
  obtain m where m: "unat (rx_count k) = Suc m"
    using assms(2) by (metis not0_implies_Suc unat_eq_zero)
  then have "unat (rx_count k - 1) = m"
    using assms(2) by (simp add: unat_minus_one)
  moreover have "unat (rx_head k) < 65536"
    using assms(1) by (simp add: rx_ok_def)
  ultimately show ?thesis
    using m unat_next_rx [of "rx_head k"]
    by (simp add: rx_contents_def rx_take_def ring_Suc of_nat_unat)
qed

interpretation rx_ring: bounded_fifo rx_push rx_pop rx_contents "\<lambda>(k, mem). rx_ok k" 65536
proof
  fix s :: "net_socket \<times> memory" and d
  obtain k mem where s: "s = (k, mem)"
    by force
  assume "case s of (k, mem) \<Rightarrow> rx_ok k"
  then have ok: "rx_ok k"
    by (simp add: s)
  show "case snd (rx_push d s) of (k, mem) \<Rightarrow> rx_ok k"
    using rx_ok_put [OF ok] by (simp add: s rx_push_def case_prod_beta)
  show "case snd (rx_pop s) of (k, mem) \<Rightarrow> rx_ok k"
    using rx_ok_take [OF ok] ok by (auto simp: s rx_pop_def)
  show "length (rx_contents s) \<le> 65536"
    using ok by (simp add: s rx_contents_def rx_ok_def)
  show "(fst (rx_push d s), rx_contents (snd (rx_push d s))) = list_push 65536 d (rx_contents s)"
  proof (cases "rx_count k < NET_SOCKET_BUF_SIZE")
    case True
    then show ?thesis
      using rx_contents_put [OF ok True, of d mem 0]
      by (auto simp: s rx_push_def rx_put_def list_push_def NET_SOCKET_BUF_SIZE_def word_less_nat_alt
          rx_contents_def simp del: fun_upd_apply)
  next
    case False
    then show ?thesis
      by (auto simp: s rx_push_def rx_put_def list_push_def NET_SOCKET_BUF_SIZE_def word_less_nat_alt rx_contents_def)
  qed
  show "(fst (rx_pop s), rx_contents (snd (rx_pop s))) = list_pop (rx_contents s)"
  proof (cases "rx_count k = 0")
    case True
    then show ?thesis
      by (simp add: s rx_pop_def list_pop_def rx_contents_def)
  next
    case False
    then show ?thesis
      using rx_contents_take [OF ok False, of mem 0 0] by (simp add: s rx_pop_def list_pop_def)
  qed
qed


section \<open>Segments and reads\<close>

text \<open>What filling and draining a ring leave alone.\<close>

definition rx_same :: "net_socket \<Rightarrow> net_socket \<Rightarrow> bool" where
  "rx_same k k' \<longleftrightarrow>
     k\<lparr>rx_head := 0, rx_tail := 0, rx_count := 0\<rparr> = k'\<lparr>rx_head := 0, rx_tail := 0, rx_count := 0\<rparr>"

lemma rx_same_refl [simp]: "rx_same k k"
  by (simp add: rx_same_def)

lemma rx_same_trans: "rx_same k k' \<Longrightarrow> rx_same k' k'' \<Longrightarrow> rx_same k k''"
  by (simp add: rx_same_def)

lemma rx_same_simps:
  assumes "rx_same k k'"
  shows "rx_buf k' = rx_buf k" "sk_in_use k' = sk_in_use k" "sk_tcp k' = sk_tcp k" "sk_state k' = sk_state k"
    "accept_queue k' = accept_queue k" "accept_head k' = accept_head k" "accept_tail k' = accept_tail k"
    "accept_count k' = accept_count k"
  using assms by (cases k; cases k'; simp add: rx_same_def)+

lemma rx_same_put: "rx_same k (fst (rx_put d (k, mem, c)))"
  and rx_same_take: "rx_same k (fst (rx_take dest i (k, mem)))"
  by (simp_all add: rx_put_def rx_take_def rx_same_def)

lemma rx_put_memory:
  assumes "rx_ok k" "\<forall>i<65536. a \<noteq> rx_buf k + of_nat i"
  shows "fst (snd (rx_put d (k, mem, c))) a = mem a"
proof -
  have "unat (rx_tail k) < 65536"
    using assms(1) by (simp add: rx_ok_def)
  then have "a \<noteq> rx_buf k + of_nat (unat (rx_tail k))"
    using assms(2) by blast
  then show ?thesis
    by (simp add: rx_put_def of_nat_unat)
qed

lemma rx_contents_length: "length (rx_contents (k, mem)) = unat (rx_count k)"
  by (simp add: rx_contents_def)

lemma rx_contents_cong:
  "(\<And>j. j < 65536 \<Longrightarrow> m (rx_buf k + of_nat j) = m' (rx_buf k + of_nat j)) \<Longrightarrow> rx_contents (k, m) = rx_contents (k, m')"
  unfolding rx_contents_def prod.case by (rule ring_cong) simp_all

lemma rx_put_full: "rx_count k \<ge> NET_SOCKET_BUF_SIZE \<Longrightarrow> rx_put d (k, mem, c) = (k, mem, c)"
  by (simp add: rx_put_def)

lemma rx_puts:
  assumes "rx_ok k" "fold rx_put ds (k, mem, c) = (k', mem', c')"
  shows "rx_ok k' \<and> rx_same k k' \<and>
    rx_contents (k', mem') = rx_contents (k, mem) @ take (65536 - unat (rx_count k)) ds \<and>
    c' = c + of_nat (min (65536 - unat (rx_count k)) (length ds)) \<and>
    (\<forall>a. (\<forall>i<65536. a \<noteq> rx_buf k + of_nat i) \<longrightarrow> mem' a = mem a)"
  using assms
proof (induction ds arbitrary: k mem c)
  case (Cons d ds)
  obtain k1 m1 c1 where put: "rx_put d (k, mem, c) = (k1, m1, c1)"
    by (metis prod_cases3)
  have rest: "fold rx_put ds (k1, m1, c1) = (k', mem', c')"
    using Cons.prems(2) put by simp
  have k1: "rx_ok k1" "rx_same k k1"
    using rx_ok_put [OF Cons.prems(1), of d mem c] rx_same_put [of k d mem c] put by simp_all
  have m1: "m1 a = mem a" if "\<forall>i<65536. a \<noteq> rx_buf k + of_nat i" for a
    using rx_put_memory [OF Cons.prems(1) that, of d mem c] put by simp
  note IH = Cons.IH [OF k1(1) rest]
  show ?case
  proof (cases "rx_count k < NET_SOCKET_BUF_SIZE")
    case True
    then have n: "unat (rx_count k) < 65536"
      by (simp add: NET_SOCKET_BUF_SIZE_def word_less_nat_alt)
    have contents: "rx_contents (k1, m1) = rx_contents (k, mem) @ [d]"
      using rx_contents_put [OF Cons.prems(1) True, of d mem c] put by simp
    then have count: "unat (rx_count k1) = Suc (unat (rx_count k))"
      using rx_contents_length [of k1 m1] rx_contents_length [of k mem] by simp
    have c1: "c1 = c + 1"
      using True put by (auto simp: rx_put_def)
    have "65536 - unat (rx_count k) = Suc (65536 - unat (rx_count k1))"
      using n count by simp
    then show ?thesis
      using IH contents c1 m1 rx_same_trans [OF k1(2)] rx_same_simps [OF k1(2)] by (simp add: add.assoc)
  next
    case False
    then have "k1 = k" "m1 = mem" "c1 = c" "65536 - unat (rx_count k) = 0"
      using put Cons.prems(1) by (auto simp: rx_put_full not_less NET_SOCKET_BUF_SIZE_def word_le_nat_alt)
    then show ?thesis
      using IH by simp
  qed
qed simp

lemma drop_ConsD: "drop n xs = y # ys \<Longrightarrow> take (Suc n) xs = take n xs @ [y] \<and> drop (Suc n) xs = ys"
proof (induction xs arbitrary: n)
  case (Cons x xs)
  then show ?case
    by (cases n) auto
qed simp

lemma rx_takes:
  assumes "rx_ok k" "n \<le> unat (rx_count k)"
    and apart: "\<And>i j. i < n \<Longrightarrow> j < 65536 \<Longrightarrow> dest + of_nat i \<noteq> rx_buf k + of_nat j"
    and run: "fold (rx_take dest) [0..<n] (k, mem) = (k', mem')" and small: "n \<le> 2 ^ 64"
  shows "rx_ok k' \<and> rx_same k k' \<and> unat (rx_count k') = unat (rx_count k) - n \<and>
    rx_contents (k', mem') = drop n (rx_contents (k, mem)) \<and>
    mem_range mem' dest n = take n (rx_contents (k, mem)) \<and>
    (\<forall>a. (\<forall>i<n. a \<noteq> dest + of_nat i) \<longrightarrow> mem' a = mem a)"
  using assms(2-)
proof (induction n arbitrary: k' mem')
  case 0
  then show ?case
    using assms(1) by (simp add: mem_range_def)
next
  case (Suc n)
  obtain k1 m1 where run1: "fold (rx_take dest) [0..<n] (k, mem) = (k1, m1)"
    by force
  have IH: "rx_ok k1 \<and> rx_same k k1 \<and> unat (rx_count k1) = unat (rx_count k) - n \<and>
    rx_contents (k1, m1) = drop n (rx_contents (k, mem)) \<and>
    mem_range m1 dest n = take n (rx_contents (k, mem)) \<and>
    (\<forall>a. (\<forall>i<n. a \<noteq> dest + of_nat i) \<longrightarrow> m1 a = mem a)"
    by (rule Suc.IH) (use Suc.prems run1 in auto)
  have last: "rx_take dest n (k1, m1) = (k', mem')"
    using Suc.prems(3) run1 by simp
  have "rx_count k1 \<noteq> 0"
    using IH Suc.prems(1) by auto
  note ok = rx_ok_take [OF conjunct1 [OF IH] this] and cont = rx_contents_take [OF conjunct1 [OF IH] this]
  have step: "mem' = m1(dest + of_nat n := m1 (rx_buf k1 + ucast (rx_head k1)))"
    using last by (auto simp: rx_take_def)
  have new: "rx_ok k'" "rx_same k k'" "rx_contents (k1, m1) = mem' (dest + of_nat n) # rx_contents (k', m1)"
    using ok [of dest n m1] cont [of m1 dest n] rx_same_trans [OF conjunct1 [OF conjunct2 [OF IH]]]
      rx_same_take [of k1 dest n m1] last by (auto simp: step)
  have "rx_contents (k', mem') = rx_contents (k', m1)"
    unfolding step
    by (intro rx_contents_cong, subst fun_upd_other) (metis rx_same_simps(1) [OF new(2)] Suc.prems(2) lessI, rule refl)
  with new(3) IH have drop: "drop n (rx_contents (k, mem)) = mem' (dest + of_nat n) # rx_contents (k', mem')"
    by simp
  have "mem' (dest + of_nat i) = m1 (dest + of_nat i)" if "i < n" for i
    using that Suc.prems(4) of_nat_u64_inject [of i n] unfolding step by (subst fun_upd_other) auto
  then have "mem_range mem' dest (Suc n) = mem_range m1 dest n @ [mem' (dest + of_nat n)]"
    by (simp add: mem_range_def)
  moreover have "take (Suc n) (rx_contents (k, mem)) = take n (rx_contents (k, mem)) @ [mem' (dest + of_nat n)]"
    using drop_ConsD [OF drop] by blast
  moreover have "unat (rx_count k') = unat (rx_count k) - Suc n"
    using arg_cong [OF drop, of length] by (simp add: rx_contents_length)
  moreover have "drop (Suc n) (rx_contents (k, mem)) = rx_contents (k', mem')"
    using drop_ConsD [OF drop] by blast
  moreover have "mem' a = mem a" if "\<forall>i<Suc n. a \<noteq> dest + of_nat i" for a
    using that IH unfolding step by (subst fun_upd_other) (auto intro: less_SucI)
  ultimately show ?case
    using new(1,2) IH by simp
qed


section \<open>Ownership of the receive buffers\<close>

definition accept_ok :: "net_socket \<Rightarrow> bool" where
  "accept_ok k \<longleftrightarrow> length (accept_queue k) = 4 \<and> unat (accept_head k) < 4 \<and> unat (accept_count k) \<le> 4 \<and>
     unat (accept_tail k) = (unat (accept_head k) + unat (accept_count k)) mod 4 \<and>
     (\<forall>c\<in>set (accept_queue k). 0 \<le> c \<and> c < 8)"

definition owned :: "kheap \<Rightarrow> net_socket \<Rightarrow> bool" where
  "owned heap k \<longleftrightarrow> rx_ok k \<and> accept_ok k \<and> rx_buf k \<noteq> 0 \<and>
     (\<exists>m\<ge>65536. (unat (rx_buf k), m) \<in> live heap)"

text \<open>
  Sockets in use, and the sockets \<open>P\<close> that are being closed, own distinct live blocks of at least
  64 KiB.
\<close>

definition owner :: "nat set \<Rightarrow> net_socket list \<Rightarrow> nat \<Rightarrow> bool" where
  "owner P ks i \<longleftrightarrow> sk_in_use (ks ! i) \<or> i \<in> P"

definition table_ok :: "nat set \<Rightarrow> net_socket list \<Rightarrow> kheap \<Rightarrow> bool" where
  "table_ok P ks heap \<longleftrightarrow> heap_inv heap \<and> length ks = 8 \<and>
     (\<forall>i<8. owner P ks i \<longrightarrow> owned heap (ks ! i)) \<and>
     (\<forall>i<8. \<forall>j<8. i \<noteq> j \<longrightarrow> owner P ks i \<longrightarrow> owner P ks j \<longrightarrow> rx_buf (ks ! i) \<noteq> rx_buf (ks ! j))"

definition net_ok :: "'l net \<Rightarrow> bool" where
  "net_ok st \<longleftrightarrow> table_ok {} (g_sockets st) (net_heap st)"

lemma table_ok_D:
  assumes "table_ok P ks heap"
  shows "heap_inv heap" "length ks = 8" "i < 8 \<Longrightarrow> owner P ks i \<Longrightarrow> owned heap (ks ! i)"
    "i < 8 \<Longrightarrow> j < 8 \<Longrightarrow> i \<noteq> j \<Longrightarrow> owner P ks i \<Longrightarrow> owner P ks j \<Longrightarrow> rx_buf (ks ! i) \<noteq> rx_buf (ks ! j)"
  using assms unfolding table_ok_def by blast+

lemma owned_mem [simp]: "owned (heap\<lparr>kheap_mem := m\<rparr>) k = owned heap k"
  by (simp add: owned_def)

lemma table_ok_mem [simp]: "table_ok P ks (heap\<lparr>kheap_mem := m\<rparr>) = table_ok P ks heap"
  by (simp add: table_ok_def)

text \<open>A socket changes and keeps its buffer, or is no owner any more.\<close>

lemma table_ok_update:
  assumes "table_ok P ks heap" "i < 8" "P' - {i} = P - {i}"
    "sk_in_use k \<or> i \<in> P' \<Longrightarrow> owner P ks i \<and> owned heap k \<and> rx_buf k = rx_buf (ks ! i)"
  shows "table_ok P' (ks[i := k]) heap"
proof -
  note D = table_ok_D [OF assms(1)]
  have other: "owner P' (ks[i := k]) j \<longleftrightarrow> owner P ks j" if "j \<noteq> i" for j
    using assms(3) that by (auto simp: owner_def)
  have at_i: "owner P' (ks[i := k]) i \<longleftrightarrow> sk_in_use k \<or> i \<in> P'"
    using D(2) assms(2) by (simp add: owner_def)
  have own: "owned heap (ks[i := k] ! j)" if "j < 8" "owner P' (ks[i := k]) j" for j
    using that other at_i assms(2,4) D(2,3) by (cases "j = i") auto
  have buf: "rx_buf (ks[i := k] ! j) = rx_buf (ks ! j) \<and> owner P ks j" if "j < 8" "owner P' (ks[i := k]) j" for j
    using that other at_i assms(2,4) D(2) by (cases "j = i") auto
  show ?thesis
    unfolding table_ok_def using D(1,2) own buf D(4) by (metis length_list_update)
qed

text \<open>A socket in no use gets a fresh block.\<close>

lemma table_ok_fresh:
  assumes "table_ok P ks heap" "i < 8" "\<not> owner P ks i"
    and heap': "heap_inv heap'" "live heap' = insert (unat p, m) (live heap)" "unat p \<notin> fst ` live heap"
    and k: "rx_ok k" "accept_ok k" "rx_buf k = p" "p \<noteq> 0" "65536 \<le> m"
  shows "table_ok P (ks[i := k]) heap'"
proof -
  note D = table_ok_D [OF assms(1)]
  have own: "owned heap' k"
    using k heap' by (auto simp: owned_def)
  have grow: "owned heap' x" if "owned heap x" for x
    using that heap'(2) by (auto simp: owned_def)
  have other: "owner P (ks[i := k]) j \<longleftrightarrow> owner P ks j" if "j \<noteq> i" for j
    using that by (auto simp: owner_def)
  have ne: "rx_buf (ks ! j) \<noteq> p" if "j < 8" "owner P ks j" for j
    using D(3) [OF that] heap'(3) by (force simp: owned_def)
  have nth: "ks[i := k] ! j = (if j = i then k else ks ! j)" if "j < 8" for j
    using that D(2) by (auto simp: nth_list_update)
  have own': "owned heap' (ks[i := k] ! j)" if "j < 8" "owner P (ks[i := k]) j" for j
    using that nth other own grow D(3) by (cases "j = i") auto
  have dist: "rx_buf (ks[i := k] ! j) \<noteq> rx_buf (ks[i := k] ! l)"
    if "j < 8" "l < 8" "j \<noteq> l" "owner P (ks[i := k]) j" "owner P (ks[i := k]) l" for j l
    using that nth [of j] nth [of l] other [of j] other [of l] ne [of j] ne [of l] D(4) [of j l] k(3)
    by (auto split: if_splits)
  show ?thesis
    unfolding table_ok_def using D(2) heap'(1) own' dist by simp
qed

text \<open>A block that no owner has any more is freed.\<close>

lemma table_ok_free:
  assumes "table_ok P ks heap" "heap_inv heap'" "live heap' = live heap - {(unat p, m)}"
    "\<And>j. j < 8 \<Longrightarrow> owner P ks j \<Longrightarrow> rx_buf (ks ! j) \<noteq> p"
  shows "table_ok P ks heap'"
proof -
  note D = table_ok_D [OF assms(1)]
  have "owned heap' (ks ! j)" if "j < 8" "owner P ks j" for j
  proof -
    note own = D(3) [OF that]
    obtain n where n: "n \<ge> 65536" "(unat (rx_buf (ks ! j)), n) \<in> live heap"
      using own by (auto simp: owned_def)
    then have "(unat (rx_buf (ks ! j)), n) \<in> live heap'"
      using assms(4) [OF that] by (simp add: assms(3) word_unat_eq_iff)
    then show ?thesis
      using own n(1) by (auto simp: owned_def)
  qed
  then show ?thesis
    unfolding table_ok_def by (simp add: D(2) D(4) assms(2))
qed

lemma table_ok_heap:
  assumes "table_ok P ks heap" "heap_inv heap'" "live heap \<subseteq> live heap'"
  shows "table_ok P ks heap'"
  using assms unfolding table_ok_def owned_def by blast


section \<open>Steps of the socket layer\<close>

lemma valid_owner: "valid_sock s st \<Longrightarrow> nat s < 8 \<and> 0 \<le> s \<and> owner P (g_sockets st) (nat s)"
  using valid_sock_range [of s st] by (simp add: owner_def sock_def)

text \<open>A call that leaves the buffer of one socket alone.\<close>

lemma net_ok_upd:
  assumes "net_ok st" "valid_sock s st"
    "owned (net_heap st) (sock s st) \<Longrightarrow> sk_in_use k \<Longrightarrow> owned (net_heap st) k \<and> rx_buf k = rx_buf (sock s st)"
  shows "table_ok {} ((g_sockets st)[nat s := k]) (net_heap st)"
proof -
  note v = valid_owner [OF assms(2), of "{}"]
  have "owned (net_heap st) (sock s st)"
    using assms(1) v table_ok_D(3) by (auto simp: net_ok_def sock_def)
  then show ?thesis
    using assms v by (intro table_ok_update [OF assms(1) [unfolded net_ok_def]]) (auto simp: sock_def)
qed

lemma allocate_slot_cases:
  obtains (full) "allocate_socket_slot st = (-1, st)"
    | (slot) i where "0 \<le> i" "i < 8" "\<not> sk_in_use (sock i st)"
        "allocate_socket_slot st = (i, upd_sock i (\<lambda>_. zero_socket\<lparr>sk_in_use := True\<rparr>) st)"
proof (cases "List.find (\<lambda>i. \<not> sk_in_use (sock i st)) [0..NET_MAX_SOCKETS - 1]")
  case None
  then show ?thesis
    using full by (simp add: allocate_socket_slot_def)
next
  case (Some i)
  then have "i \<in> set [0..NET_MAX_SOCKETS - 1]" "\<not> sk_in_use (sock i st)"
    by (auto simp: find_Some_iff in_set_conv_nth)
  then show ?thesis
    using Some slot [of i] by (auto simp: allocate_socket_slot_def NET_MAX_SOCKETS_def)
qed

lemma rx_same_owned:
  assumes "rx_ok k'" "rx_same k k'" "owned heap k"
  shows "owned heap k'"
  using assms(1,3) rx_same_simps [OF assms(2)] by (simp add: owned_def accept_ok_def)

lemma concat_puts: "fold (fold rx_put) q = fold rx_put (concat q)"
  by (induction q) (simp_all only: concat.simps fold_append fold_Cons fold_Nil)

lemma net_ok_received:
  assumes "net_ok st"
  shows "net_ok (snd (tcp_recv_callback api arg pcb p st))"
proof (cases "valid_sock (sock_of_arg arg) st")
  case True
  let ?s = "sock_of_arg arg"
  show ?thesis
  proof (cases p)
    case None
    have "owned heap (sock ?s st\<lparr>sk_state := 4\<rparr>) = owned heap (sock ?s st)" for heap
      by (simp add: owned_def accept_ok_def rx_ok_def)
    then show ?thesis
      using None net_ok_upd [OF assms True, of "sock ?s st\<lparr>sk_state := 4\<rparr>"] True
      by (simp add: tcp_recv_callback_def Let_def net_ok_def g_sockets_upd)
  next
    case (Some pq)
    obtain k mem c where run: "fold (fold rx_put) (snd pq) (sock ?s st, net_mem st, 0) = (k, mem, c)"
      by (metis prod_cases3)
    have "table_ok {} ((g_sockets st)[nat ?s := k]) (net_heap st)"
    proof (rule net_ok_upd [OF assms True])
      assume own: "owned (net_heap st) (sock ?s st)"
      then have "rx_ok k \<and> rx_same (sock ?s st) k"
        using rx_puts [OF _ run [unfolded concat_puts]] by (simp add: owned_def)
      then show "owned (net_heap st) k \<and> rx_buf k = rx_buf (sock ?s st)"
        using rx_same_owned own rx_same_simps(1) by blast
    qed
    then show ?thesis
      using Some True run by (simp add: tcp_recv_callback_def Let_def net_ok_def g_sockets_upd set_mem_def case_prod_beta)
  qed
qed (simp add: tcp_recv_callback_def assms)


lemma upd_upd [simp]:
  "upd_sock s f (upd_sock s g st) = upd_sock s (\<lambda>k. f (if nat s < length (g_sockets st) then g k else k)) st"
  by (cases "nat s < length (g_sockets st)") (simp_all add: upd_sock_def sock_def list_update_beyond not_less)

lemma sock_upd: "nat s < length (g_sockets st) \<Longrightarrow>
    sock r (upd_sock s f st) = (if nat r = nat s then f (sock s st) else sock r st)"
  by (simp add: upd_sock_def sock_def)

lemma upd_heap [simp]: "upd_sock s f (st\<lparr>net_heap := h\<rparr>) = (upd_sock s f st)\<lparr>net_heap := h\<rparr>"
  by (simp add: upd_sock_def sock_def)

lemma g_sockets_heap [simp]: "g_sockets (st\<lparr>net_heap := h\<rparr>) = g_sockets st"
  by simp

lemma fresh_ok: "rx_ok (zero_socket\<lparr>sk_in_use := True, rx_buf := b\<rparr>) \<and> accept_ok (zero_socket\<lparr>sk_in_use := True, rx_buf := b\<rparr>)"
  by (simp add: rx_ok_def accept_ok_def zero_socket_def)

text \<open>Buffers come from the heap: 64 KiB, or nothing.\<close>

lemma buffer_cases:
  assumes "heap_inv heap"
  obtains (none) "kheap_alloc (ucast NET_SOCKET_BUF_SIZE) heap = Some (0, heap)"
    | (block) p m heap' where "kheap_alloc (ucast NET_SOCKET_BUF_SIZE) heap = Some (p, heap')" "p \<noteq> 0"
        "heap_inv heap'" "65536 \<le> m" "live heap' = insert (unat p, m) (live heap)" "unat p \<notin> fst ` live heap"
proof -
  have "unat (ucast NET_SOCKET_BUF_SIZE :: u64) = 65536"
    by (simp add: NET_SOCKET_BUF_SIZE_def)
  then obtain p h where a: "kheap_alloc (ucast NET_SOCKET_BUF_SIZE) heap = Some (p, h)" "heap_inv h"
    "p = 0 \<longrightarrow> h = heap" "p \<noteq> 0 \<longrightarrow> unat p \<notin> fst ` live heap \<and> (\<exists>m\<ge>65536. live h = insert (unat p, m) (live heap))"
    using kernel_heap.alloc_returns [OF assms, of "ucast NET_SOCKET_BUF_SIZE"] by auto
  show thesis
    using a none block [of p h] by (cases "p = 0") auto
qed

lemma call_pair: "call api c st = (fst (api c (lwip st)), st\<lparr>lwip := snd (api c (lwip st))\<rparr>)"
  by (simp add: call_def case_prod_beta)

lemma net_ok_create:
  assumes "net_ok st"
  shows "\<exists>s st'. net_socket_create api ty st = Some (s, st') \<and> net_ok st'"
proof (rule allocate_slot_cases [of st])
  assume "allocate_socket_slot st = (-1, st)"
  then show ?thesis
    using assms by (simp add: net_socket_create_def)
next
  fix i
  assume i: "0 \<le> i" "i < 8" "\<not> sk_in_use (sock i st)"
    and slot: "allocate_socket_slot st = (i, upd_sock i (\<lambda>_. zero_socket\<lparr>sk_in_use := True\<rparr>) st)"
  have ok: "table_ok {} (g_sockets st) (net_heap st)" and len: "nat i < length (g_sockets st)"
    using assms i table_ok_D(2) by (auto simp: net_ok_def)
  have unused: "table_ok {} ((g_sockets st)[nat i := k]) (net_heap st)" if "\<not> sk_in_use k" for k
    using that i by (intro table_ok_update [OF ok]) auto
  show ?thesis
  proof (rule buffer_cases [OF table_ok_D(1) [OF ok]])
    assume a: "kheap_alloc (ucast NET_SOCKET_BUF_SIZE) (net_heap st) = Some (0, net_heap st)"
    then show ?thesis
      using i slot len unused by (simp add: net_socket_create_def Let_def net_ok_def g_sockets_upd)
  next
    fix p m heap'
    assume a: "kheap_alloc (ucast NET_SOCKET_BUF_SIZE) (net_heap st) = Some (p, heap')" "p \<noteq> 0"
      "heap_inv heap'" "65536 \<le> m" "live heap' = insert (unat p, m) (live (net_heap st))"
      "unat p \<notin> fst ` live (net_heap st)"
    obtain heap'' where free: "kheap_free p heap' = Some heap''" "heap_inv heap''" "live heap'' = live (net_heap st)"
      using kernel_heap.alloc_release_live [OF table_ok_D(1) [OF ok] _ a(1,2)] by (auto simp: NET_SOCKET_BUF_SIZE_def)
    define k where "k = zero_socket\<lparr>sk_in_use := True, rx_buf := p, sk_type := ty\<rparr>"
    define c where "c = (if ty = SOCKET_TYPE_TCP then Tcp_New else Udp_New)"
    define pcb where "pcb = fst (api c (lwip st))"
    define k' where "k' = (if ty = SOCKET_TYPE_TCP then k\<lparr>sk_tcp := pcb\<rparr> else k\<lparr>sk_udp := pcb\<rparr>)"
    have create: "net_socket_create api ty st =
        (if pcb = 0
         then Some (-1, upd_sock i (\<lambda>_. k'\<lparr>sk_in_use := False\<rparr>) (st\<lparr>net_heap := heap'', lwip := snd (api c (lwip st))\<rparr>))
         else Some (i, upd_sock i (\<lambda>_. k') (st\<lparr>net_heap := heap', lwip := snd (api c (lwip st))\<rparr>)))"
      using i(1) len a(1,2) free(1)
      by (simp add: net_socket_create_def slot Let_def call_pair upd_sock_def sock_def c_def pcb_def k'_def k_def zero_socket_def)
    have "table_ok {} ((g_sockets st)[nat i := k']) heap'"
      by (rule table_ok_fresh [OF ok _ _ a(3,5,6)])
        (use i a(2,4) in \<open>auto simp: k'_def k_def owner_def sock_def rx_ok_def accept_ok_def zero_socket_def\<close>)
    moreover have "table_ok {} ((g_sockets st)[nat i := k'\<lparr>sk_in_use := False\<rparr>]) heap''"
      by (rule table_ok_heap [OF unused free(2)]) (simp_all add: free(3))
    ultimately show ?thesis
      unfolding create by (auto simp: net_ok_def g_sockets_upd)
  qed
qed


text \<open>Updates that touch neither the ring, the queue nor the use of a socket.\<close>

definition plain :: "(net_socket \<Rightarrow> net_socket) \<Rightarrow> bool" where
  "plain f \<longleftrightarrow> (\<forall>k. sk_in_use (f k) = sk_in_use k \<and> rx_buf (f k) = rx_buf k \<and> rx_ok (f k) = rx_ok k \<and>
     accept_ok (f k) = accept_ok k)"

lemma plain_simps [simp]:
  "plain (sk_state_update g)" "plain (sk_tcp_update g')" "plain (\<lambda>k. k\<lparr>sk_state := a, sk_tcp := b\<rparr>)"
  by (simp_all add: plain_def rx_ok_def accept_ok_def)

lemma net_ok_plain:
  assumes "net_ok st" "plain f"
  shows "net_ok (upd_sock s f st)"
proof (cases "nat s < 8")
  case True
  have "owner {} (g_sockets st) (nat s) \<Longrightarrow> owned (net_heap st) (sock s st)"
    using table_ok_D(3) [OF assms(1) [unfolded net_ok_def] True] by (simp add: sock_def)
  then show ?thesis
    unfolding net_ok_def g_sockets_upd upd_sock_simps
    using assms(2) True
    by (intro table_ok_update [OF assms(1) [unfolded net_ok_def]]) (auto simp: plain_def owner_def owned_def sock_def)
next
  case False
  then have "g_sockets (upd_sock s f st) = g_sockets st"
    using table_ok_D(2) [OF assms(1) [unfolded net_ok_def]] by (simp add: g_sockets_upd list_update_beyond)
  then show ?thesis
    using assms(1) by (simp add: net_ok_def)
qed

lemma net_ok_call [simp]:
  "net_ok (call_do api c st) = net_ok st" "net_ok (snd (call api c st)) = net_ok st"
  "net_ok (st\<lparr>lwip := l\<rparr>) = net_ok st"
  by (simp_all add: net_ok_def)

lemma net_ok_lost: "net_ok st \<Longrightarrow> net_ok (tcp_err_callback arg st)"
  by (simp add: tcp_err_callback_def Let_def net_ok_plain)

lemma net_ok_connected: "net_ok st \<Longrightarrow> net_ok (snd (tcp_connect_callback api arg pcb ok st))"
  by (simp add: tcp_connect_callback_def Let_def net_ok_plain)

lemma enqueue_owned:
  assumes "owned heap k" "\<not> accept_count k \<ge> 4" "0 \<le> c" "c < 8"
  shows "owned heap (enqueue_client c k)"
proof -
  have n: "unat (accept_count k) < 4"
    using assms(2) by (simp add: not_le word_less_nat_alt)
  then have count: "unat (accept_count k + 1) = Suc (unat (accept_count k))"
    by (subst unat_plus_no_wrap) auto
  have tail: "unat (accept_tail k) = (unat (accept_head k) + unat (accept_count k)) mod 4"
    using assms(1) by (simp add: owned_def accept_ok_def)
  then have "unat (accept_tail k + 1) = unat (accept_tail k) + 1"
    by (subst unat_plus_no_wrap) (auto intro: le_less_trans [of _ 4])
  then have "unat ((accept_tail k + 1) mod 4) = (unat (accept_head k) + Suc (unat (accept_count k))) mod 4"
    by (simp add: unat_mod tail mod_simps)
  then show ?thesis
    using assms(1,3,4) count n set_update_subset_insert [of "accept_queue k" "unat (accept_tail k)" c]
    by (auto simp: owned_def accept_ok_def rx_ok_def enqueue_client_def)
qed

lemma net_ok_incoming:
  assumes "net_ok st"
  shows "\<exists>r st'. tcp_accept_callback api arg pcb st = Some (r, st') \<and> net_ok st'"
proof (cases "valid_sock (sock_of_arg arg) st \<and> \<not> accept_count (sock (sock_of_arg arg) st) \<ge> 4")
  case False
  then show ?thesis
    using assms by (auto simp: tcp_accept_callback_def Let_def)
next
  case True
  let ?p = "sock_of_arg arg"
  show ?thesis
  proof (rule allocate_slot_cases [of st])
    assume "allocate_socket_slot st = (-1, st)"
    then show ?thesis
      using assms True by (simp add: tcp_accept_callback_def)
  next
    fix i
    assume i: "0 \<le> i" "i < 8" "\<not> sk_in_use (sock i st)"
      and slot: "allocate_socket_slot st = (i, upd_sock i (\<lambda>_. zero_socket\<lparr>sk_in_use := True\<rparr>) st)"
    have ok: "table_ok {} (g_sockets st) (net_heap st)" and len: "nat i < length (g_sockets st)"
      using assms i table_ok_D(2) by (auto simp: net_ok_def)
    have unused: "table_ok {} ((g_sockets st)[nat i := k]) (net_heap st)" if "\<not> sk_in_use k" for k
      using that i by (intro table_ok_update [OF ok]) auto
    have p: "0 \<le> ?p" "nat ?p < 8" "sk_in_use (sock ?p st)" "nat ?p \<noteq> nat i"
      using True valid_sock_range [of ?p st] i by (auto simp: sock_def)
    show ?thesis
    proof (rule buffer_cases [OF table_ok_D(1) [OF ok]])
      assume a: "kheap_alloc (ucast NET_SOCKET_BUF_SIZE) (net_heap st) = Some (0, net_heap st)"
      then show ?thesis
        using i slot len unused True by (simp add: tcp_accept_callback_def Let_def net_ok_def g_sockets_upd)
    next
      fix b m heap'
      assume a: "kheap_alloc (ucast NET_SOCKET_BUF_SIZE) (net_heap st) = Some (b, heap')" "b \<noteq> 0"
        "heap_inv heap'" "65536 \<le> m" "live heap' = insert (unat b, m) (live (net_heap st))"
        "unat b \<notin> fst ` live (net_heap st)"
      define k where "k = zero_socket\<lparr>sk_in_use := True, rx_buf := b, sk_type := SOCKET_TYPE_TCP, sk_state := 3, sk_tcp := pcb\<rparr>"
      let ?ks = "(g_sockets st)[nat i := k]"
      have ks: "table_ok {} ?ks heap'"
        by (rule table_ok_fresh [OF ok _ _ a(3,5,6)])
          (use i a(2,4) in \<open>auto simp: k_def owner_def sock_def rx_ok_def accept_ok_def zero_socket_def\<close>)
      have "owned heap' (?ks ! nat ?p)" "owner {} ?ks (nat ?p)"
        using table_ok_D(3) [OF ks p(2)] p(3,4) by (auto simp: owner_def sock_def)
      then have "table_ok {} (?ks[nat ?p := enqueue_client i (?ks ! nat ?p)]) heap'"
        using i(1,2) p True
        by (intro table_ok_update [OF ks p(2)] conjI enqueue_owned) (auto simp: sock_def, auto simp: enqueue_client_def)
      moreover have "\<exists>l. tcp_accept_callback api arg pcb st =
          Some (ERR_OK, upd_sock ?p (enqueue_client i) (upd_sock i (\<lambda>_. k) (st\<lparr>net_heap := heap', lwip := l\<rparr>)))"
        using i(1) len a(1,2) True
        by (simp add: tcp_accept_callback_def slot Let_def call_do_def call_pair upd_sock_def sock_def k_def zero_socket_def)
          (rule exI, rule refl)
      ultimately show ?thesis
        using len p(4) by (auto simp: net_ok_def g_sockets_upd sock_def)
    qed
  qed
qed


lemma net_ok_event:
  assumes "net_ok st"
  shows "\<exists>st'. net_event api e st = Some st' \<and> net_ok st'"
proof (cases e)
  case (Incoming arg pcb)
  then show ?thesis
    using net_ok_incoming [OF assms, of api arg pcb] by (auto simp: net_event_def)
qed (auto simp: net_event_def intro: net_ok_received net_ok_lost net_ok_connected assms)

lemma net_ok_poll:
  assumes "net_ok st"
  shows "\<exists>st'. poll_sockets api poll st = Some st' \<and> net_ok st'"
proof -
  have "net_ok st \<Longrightarrow> \<exists>st'. net_events api es st = Some st' \<and> net_ok st'" for es and st :: "'a net"
  proof (induction es arbitrary: st)
    case (Cons e es)
    obtain st1 where "net_event api e st = Some st1" "net_ok st1"
      using net_ok_event [OF Cons.prems] by blast
    then show ?case
      using Cons.IH by simp
  qed simp
  then show ?thesis
    using assms by (simp add: poll_sockets_def case_prod_beta)
qed

lemma net_ok_bind: "net_ok st \<Longrightarrow> net_ok (snd (net_socket_bind api s port st))"
  by (simp add: net_socket_bind_def Let_def call_pair net_ok_plain)

lemma listen_plain: "net_ok st \<Longrightarrow>
    net_ok (upd_sock s (\<lambda>k. k\<lparr>sk_tcp := pcb, sk_state := 2, accept_head := 0, accept_tail := 0, accept_count := 0\<rparr>) st)"
proof -
  assume ok: "net_ok st"
  let ?f = "\<lambda>k. k\<lparr>sk_tcp := pcb, sk_state := 2, accept_head := 0, accept_tail := 0, accept_count := 0\<rparr>"
  show ?thesis
  proof (cases "nat s < 8")
    case True
    have "owned heap k \<Longrightarrow> owned heap (?f k)" for heap k
      by (simp add: owned_def accept_ok_def rx_ok_def)
    then have "table_ok {} ((g_sockets st)[nat s := ?f (sock s st)]) (net_heap st)"
      using table_ok_D(3) [OF ok [unfolded net_ok_def] True] True
      by (intro table_ok_update [OF ok [unfolded net_ok_def]]) (auto simp: sock_def owner_def)
    then show ?thesis
      by (simp add: net_ok_def g_sockets_upd)
  next
    case False
    then show ?thesis
      using ok table_ok_D(2) [OF ok [unfolded net_ok_def]] by (simp add: net_ok_def g_sockets_upd list_update_beyond)
  qed
qed

lemma net_ok_listen: "net_ok st \<Longrightarrow> net_ok (snd (net_socket_listen api s st))"
  by (simp add: net_socket_listen_def Let_def call_pair listen_plain)

lemma dequeue_owned:
  assumes "owned heap k" "accept_count k > 0"
  shows "owned heap (dequeue_client k)"
proof -
  obtain n where n: "unat (accept_count k) = Suc n"
    using assms(2) by (metis not0_implies_Suc unat_eq_zero less_irrefl)
  then have count: "unat (accept_count k - 1) = n"
    using assms(2) by (simp add: unat_minus_one)
  have "unat (accept_head k + 1) = unat (accept_head k) + 1"
    using assms(1) by (subst unat_plus_no_wrap) (auto simp: owned_def accept_ok_def)
  then have "unat ((accept_head k + 1) mod 4) = (unat (accept_head k) + 1) mod 4"
    by (simp add: unat_mod)
  then show ?thesis
    using assms(1) count n by (simp add: owned_def accept_ok_def rx_ok_def dequeue_client_def mod_simps)
qed

lemma net_ok_dequeue:
  assumes "net_ok st" "nat s < 8" "accept_count (sock s st) > 0"
  shows "net_ok (upd_sock s dequeue_client st)"
proof -
  note ok = assms(1) [unfolded net_ok_def]
  have "owner {} (g_sockets st) (nat s) \<Longrightarrow> owned (net_heap st) (sock s st)"
    using table_ok_D(3) [OF ok assms(2)] by (simp add: sock_def)
  then show ?thesis
    unfolding net_ok_def g_sockets_upd upd_sock_simps
    by (intro table_ok_update [OF ok assms(2)])
      (use dequeue_owned assms(3) in \<open>auto simp: owner_def sock_def dequeue_client_def\<close>)
qed

lemma net_ok_accept:
  assumes "net_ok st"
  shows "\<exists>r st'. net_socket_accept api poll s st = Some (r, st') \<and> net_ok st'"
proof -
  obtain st1 where "poll_sockets api poll st = Some st1" "net_ok st1"
    using net_ok_poll [OF assms] by blast
  then show ?thesis
    using assms net_ok_dequeue [of st1 s] valid_sock_range [of s st]
    by (auto simp: net_socket_accept_def Let_def)
qed

lemma net_ok_connect:
  assumes "net_ok st"
  shows "\<exists>r st'. net_socket_connect api poll aton s ip port st = Some (r, st') \<and> net_ok st'"
proof (cases "aton (the ip)")
  case (Some addr)
  have "net_ok (upd_sock s (sk_state_update (\<lambda>_. 5)) st)"
    by (simp only: net_ok_plain plain_simps assms)
  then show ?thesis
    using assms Some by (simp add: net_socket_connect_def Let_def case_prod_beta net_ok_poll net_ok_plain)
qed (use assms in \<open>auto simp: net_socket_connect_def\<close>)

lemma net_ok_send:
  assumes "net_ok st"
  shows "\<exists>r st'. net_socket_send api poll s data len st = Some (r, st') \<and> net_ok st'"
  using assms by (simp add: net_socket_send_def Let_def case_prod_beta net_ok_poll)

lemma rx_same_takes: "rx_same k (fst (fold (rx_take dest) is (k, mem)))" for "is" :: "nat list"
proof (induction "is" arbitrary: k mem)
  case (Cons i "is")
  obtain k1 m1 where "rx_take dest i (k, mem) = (k1, m1)"
    by force
  then show ?case
    using Cons.IH [of k1 m1] rx_same_take [of k dest i mem] by (auto intro: rx_same_trans)
qed simp

lemma rx_takes_ok:
  "rx_ok k \<Longrightarrow> n \<le> unat (rx_count k) \<Longrightarrow> fold (rx_take dest) [0..<n] (k, mem) = (k', mem') \<Longrightarrow>
   rx_ok k' \<and> rx_same k k' \<and> unat (rx_count k') = unat (rx_count k) - n"
proof (induction n arbitrary: k' mem')
  case (Suc n)
  obtain k1 m1 where run1: "fold (rx_take dest) [0..<n] (k, mem) = (k1, m1)"
    by force
  then have IH: "rx_ok k1" "rx_same k k1" "unat (rx_count k1) = unat (rx_count k) - n"
    using Suc by auto
  then have ne: "rx_count k1 \<noteq> 0"
    using Suc.prems(2) by auto
  have k': "k' = fst (rx_take dest n (k1, m1))"
    using Suc.prems(3) run1 by simp
  show ?case
    unfolding k' using rx_ok_take [OF IH(1) ne] rx_same_trans [OF IH(2) rx_same_take] IH(3) ne
    by (simp add: rx_take_def unat_minus_one)
qed simp

lemma net_ok_recv:
  assumes "net_ok st"
  shows "\<exists>r st'. net_socket_recv api poll s buf len st = Some (r, st') \<and> net_ok st'"
proof (cases "\<not> valid_sock s st \<or> buf = 0 \<or> len = 0")
  case True
  then show ?thesis
    using assms by (auto simp: net_socket_recv_def)
next
  case False
  obtain st1 where poll: "poll_sockets api poll st = Some st1" "net_ok st1"
    using net_ok_poll [OF assms] by blast
  define n where "n = (if len > rx_count (sock s st1) then rx_count (sock s st1) else len)"
  obtain k mem where run: "fold (rx_take buf) [0..<unat n] (sock s st1, net_mem st1) = (k, mem)"
    by force
  have s: "nat s < 8"
    using False valid_sock_range by blast
  note ok = poll(2) [unfolded net_ok_def]
  have same: "rx_same (sock s st1) k"
    using rx_same_takes [of "sock s st1" buf "[0..<unat n]" "net_mem st1"] run by simp
  have "unat n \<le> unat (rx_count (sock s st1))"
    by (simp add: n_def word_le_nat_alt [symmetric] not_less)
  then have "rx_ok k" if "owned (net_heap st1) (sock s st1)"
    using rx_takes_ok [OF _ _ run] that by (simp add: owned_def)
  then have "owned (net_heap st1) k" if "owned (net_heap st1) (sock s st1)"
    using rx_same_owned [OF _ same that] that by blast
  then have "table_ok {} ((g_sockets st1)[nat s := k]) (net_heap st1)"
    using table_ok_D(3) [OF ok s] rx_same_simps [OF same] s
    by (intro table_ok_update [OF ok]) (auto simp: owner_def sock_def)
  then have "net_ok (set_mem mem (upd_sock s (\<lambda>_. k) st1))"
    by (simp add: net_ok_def g_sockets_upd set_mem_def)
  then show ?thesis
    using False poll run by (simp add: net_socket_recv_def Let_def n_def)
qed


section \<open>Closing\<close>

text \<open>
  What closing does to the table: the sockets \<open>A\<close>, in use before, are closed and their blocks
  freed; the queue fields of the sockets \<open>X\<close> may change; everything else stays.
\<close>

definition body :: "net_socket \<Rightarrow> net_socket" where
  "body k = k\<lparr>accept_queue := [], accept_head := 0, accept_tail := 0, accept_count := 0\<rparr>"

definition freed :: "nat set \<Rightarrow> net_socket list \<Rightarrow> (nat \<times> nat) set \<Rightarrow> (nat \<times> nat) set" where
  "freed A ks L = {(p, n) \<in> L. p \<notin> (\<lambda>i. unat (rx_buf (ks ! i))) ` A}"

definition closed_sockets :: "nat set \<Rightarrow> nat set \<Rightarrow> 'l net \<Rightarrow> 'l net \<Rightarrow> bool" where
  "closed_sockets X A st st' \<longleftrightarrow>
     A \<subseteq> {i. i < 8 \<and> sk_in_use (g_sockets st ! i)} \<and>
     (\<forall>i\<in>A. \<not> sk_in_use (g_sockets st' ! i)) \<and>
     (\<forall>i<8. i \<notin> A \<longrightarrow> i \<notin> X \<longrightarrow> g_sockets st' ! i = g_sockets st ! i) \<and>
     (\<forall>i\<in>X. i \<notin> A \<longrightarrow> body (g_sockets st' ! i) = body (g_sockets st ! i)) \<and>
     live (net_heap st') = freed A (g_sockets st) (live (net_heap st))"

definition n_used :: "'l net \<Rightarrow> nat" where
  "n_used st = card {i. i < 8 \<and> sk_in_use (g_sockets st ! i)}"

lemma closed_refl: "closed_sockets X {} st st"
  by (simp add: closed_sockets_def freed_def)

lemma body_simps:
  assumes "body k' = body k"
  shows "sk_in_use k' = sk_in_use k" "rx_buf k' = rx_buf k" "sk_type k' = sk_type k" "sk_state k' = sk_state k"
    "rx_ok k' = rx_ok k"
  using assms by (cases k; cases k'; simp add: body_def rx_ok_def)+

lemma closed_trans:
  assumes "closed_sockets X A st st1" "closed_sockets X B st1 st2"
  shows "closed_sockets X (A \<union> B) st st2"
proof -
  have sub: "A \<subseteq> {i. i < 8 \<and> sk_in_use (g_sockets st ! i)}" "B \<subseteq> {i. i < 8 \<and> sk_in_use (g_sockets st1 ! i)}"
    using assms by (simp_all add: closed_sockets_def)
  have B: "i \<notin> A \<and> sk_in_use (g_sockets st ! i) \<and> rx_buf (g_sockets st1 ! i) = rx_buf (g_sockets st ! i)" if "i \<in> B" for i
  proof -
    have "i \<notin> A" "i < 8" "sk_in_use (g_sockets st1 ! i)"
      using assms that by (auto simp: closed_sockets_def)
    moreover have "body (g_sockets st1 ! i) = body (g_sockets st ! i)"
      using assms(1) \<open>i \<notin> A\<close> \<open>i < 8\<close> by (cases "i \<in> X") (simp_all add: closed_sockets_def)
    ultimately show ?thesis
      using body_simps by metis
  qed
  then have "freed (A \<union> B) (g_sockets st) L = freed B (g_sockets st1) (freed A (g_sockets st) L)" for L
    by (auto simp: freed_def image_iff)
  moreover have "\<not> sk_in_use (g_sockets st2 ! i)" if "i \<in> A" for i
  proof -
    have "i \<notin> B" "i < 8" "\<not> sk_in_use (g_sockets st1 ! i)"
      using assms that B by (auto simp: closed_sockets_def)
    moreover from this have "body (g_sockets st2 ! i) = body (g_sockets st1 ! i)"
      using assms(2) by (cases "i \<in> X") (simp_all add: closed_sockets_def)
    ultimately show ?thesis
      using body_simps(1) by metis
  qed
  ultimately show ?thesis
    using assms B by (auto simp: closed_sockets_def)
qed

lemma closed_used: "closed_sockets X A st st' \<Longrightarrow> X \<subseteq> {..<8} \<Longrightarrow> n_used st' \<le> n_used st"
  unfolding n_used_def
proof (rule card_mono)
  assume c: "closed_sockets X A st st'" "X \<subseteq> {..<8}"
  have "sk_in_use (g_sockets st ! i)" if "i < 8" "sk_in_use (g_sockets st' ! i)" for i
  proof -
    have "i \<notin> A"
      using c that by (auto simp: closed_sockets_def)
    then have "body (g_sockets st' ! i) = body (g_sockets st ! i)"
      using c(1) that(1) by (cases "i \<in> X") (simp_all add: closed_sockets_def)
    then show ?thesis
      using that(2) body_simps(1) by metis
  qed
  then show "{i. i < 8 \<and> sk_in_use (g_sockets st' ! i)} \<subseteq> {i. i < 8 \<and> sk_in_use (g_sockets st ! i)}"
    by blast
qed simp

text \<open>The calls into lwIP for the stream of a closing socket.\<close>

definition close_calls :: "'l lwip_api \<Rightarrow> net_socket \<Rightarrow> 'l net \<Rightarrow> 'l net" where
  "close_calls api k st =
     (if sk_tcp k \<noteq> 0
      then call_do api (Tcp_Close (sk_tcp k)) (call_do api (Tcp_Err (sk_tcp k) False)
        (call_do api (Tcp_Recv (sk_tcp k) False) (call_do api (Tcp_Arg (sk_tcp k) 0) st)))
      else st)"

lemma release_spec:
  assumes ok: "table_ok (insert (nat s) P) (g_sockets st) (net_heap st)" and s: "nat s < 8" "nat s \<notin> P"
    and unused: "\<not> sk_in_use (sock s st)"
  shows "\<exists>st'. release_socket api s st = Some st' \<and> table_ok P (g_sockets st') (net_heap st') \<and>
    (\<forall>i<8. i \<noteq> nat s \<longrightarrow> g_sockets st' ! i = g_sockets st ! i) \<and> \<not> sk_in_use (g_sockets st' ! nat s) \<and>
    live (net_heap st') = freed {nat s} (g_sockets st) (live (net_heap st))"
proof -
  note D = table_ok_D [OF ok]
  let ?b = "rx_buf (sock s st)"
  have own: "owned (net_heap st) (sock s st)"
    using D(3) [OF s(1)] by (simp add: owner_def sock_def)
  then obtain m where m: "?b \<noteq> 0" "(unat ?b, m) \<in> live (net_heap st)"
    by (auto simp: owned_def)
  obtain heap' where free: "kheap_free ?b (net_heap st) = Some heap'" "heap_inv heap'"
    "live heap' = live (net_heap st) - {(unat ?b, m)}"
    using kernel_heap.release_live [OF D(1) m(2)] by blast
  have live: "live heap' = freed {nat s} (g_sockets st) (live (net_heap st))"
    using free(3) live_fun [OF m(2)] by (auto simp: freed_def sock_def)
  obtain k' l where rel: "release_socket api s st = Some (upd_sock s (\<lambda>_. k') (st\<lparr>net_heap := heap', lwip := l\<rparr>))"
    "\<not> sk_in_use k'"
  proof
    define k0 where "k0 = sock s st"
    define k1 where "k1 = (if sk_tcp k0 \<noteq> 0 then k0\<lparr>sk_tcp := 0\<rparr> else k0)"
    define k2 where "k2 = (if sk_udp k0 \<noteq> 0 then k1\<lparr>sk_udp := 0\<rparr> else k1)"
    show "\<not> sk_in_use (k2\<lparr>rx_buf := 0\<rparr>)"
      using unused by (simp add: k2_def k1_def k0_def)
    show "release_socket api s st = Some (upd_sock s (\<lambda>_. k2\<lparr>rx_buf := 0\<rparr>)
        (st\<lparr>net_heap := heap', lwip := lwip (if sk_udp k0 \<noteq> 0 then call_do api (Udp_Remove (sk_udp k0)) (close_calls api k0 st)
          else close_calls api k0 st)\<rparr>))"
      using free(1) m(1) s(1) D(2)
      by (simp add: release_socket_def Let_def call_do_def call_pair upd_sock_def sock_def k2_def k1_def k0_def close_calls_def)
  qed
  have "table_ok P ((g_sockets st)[nat s := k']) (net_heap st)"
    using s rel(2) by (intro table_ok_update [OF ok]) auto
  then have "table_ok P ((g_sockets st)[nat s := k']) heap'"
  proof (rule table_ok_free [OF _ free(2,3)])
    fix j
    assume j: "j < 8" "owner P ((g_sockets st)[nat s := k']) j"
    then have "j \<noteq> nat s"
      using rel(2) s D(2) by (auto simp: owner_def)
    moreover from this have "owner (insert (nat s) P) (g_sockets st) j" "owner (insert (nat s) P) (g_sockets st) (nat s)"
      using j by (auto simp: owner_def)
    ultimately show "rx_buf ((g_sockets st)[nat s := k'] ! j) \<noteq> ?b"
      using D(4) [OF j(1) s(1)] by (simp add: sock_def)
  qed
  then show ?thesis
    using rel s D(2) live by (simp add: g_sockets_upd)
qed


definition pending :: "nat set \<Rightarrow> 'l net \<Rightarrow> bool" where
  "pending P st \<longleftrightarrow> table_ok P (g_sockets st) (net_heap st) \<and>
     (\<forall>i\<in>P. i < 8 \<and> \<not> sk_in_use (g_sockets st ! i))"

lemma pending_mark:
  assumes "pending P st" "valid_sock s st"
  shows "pending (insert (nat s) P) (upd_sock s (\<lambda>k. k\<lparr>sk_in_use := False\<rparr>) st)" "nat s \<notin> P"
proof -
  have v: "0 \<le> s" "nat s < 8" "sk_in_use (g_sockets st ! nat s)"
    using valid_sock_range [OF assms(2)] by (simp_all add: sock_def)
  note ok = assms(1) [unfolded pending_def, THEN conjunct1]
  show "nat s \<notin> P"
    using assms(1) v(3) by (auto simp: pending_def)
  have own: "owner P (g_sockets st) (nat s)" "owned (net_heap st) (sock s st)"
    using v table_ok_D(3) [OF ok v(2)] by (auto simp: owner_def sock_def)
  then have "owned (net_heap st) (sock s st\<lparr>sk_in_use := False\<rparr>)"
    by (simp add: owned_def rx_ok_def accept_ok_def)
  then have "table_ok (insert (nat s) P) ((g_sockets st)[nat s := sock s st\<lparr>sk_in_use := False\<rparr>]) (net_heap st)"
    using own v by (intro table_ok_update [OF ok]) (auto simp: sock_def)
  then show "pending (insert (nat s) P) (upd_sock s (\<lambda>k. k\<lparr>sk_in_use := False\<rparr>) st)"
    using assms(1) v table_ok_D(2) [OF ok] by (auto simp: pending_def g_sockets_upd nth_list_update)
qed

lemma used_mark:
  assumes "length (g_sockets st) = 8" "valid_sock s st"
  shows "n_used st = Suc (n_used (upd_sock s (\<lambda>k. k\<lparr>sk_in_use := False\<rparr>) st))"
proof -
  have v: "nat s < 8" "sk_in_use (g_sockets st ! nat s)"
    using valid_sock_range [OF assms(2)] by (simp_all add: sock_def)
  let ?S = "{i. i < 8 \<and> sk_in_use (g_sockets st ! i)}"
  have "{i. i < 8 \<and> sk_in_use (g_sockets (upd_sock s (\<lambda>k. k\<lparr>sk_in_use := False\<rparr>) st) ! i)} = ?S - {nat s}"
    using v assms(1) by (auto simp: g_sockets_upd nth_list_update)
  moreover have "card ?S = Suc (card (?S - {nat s}))"
    using v by (intro card.remove) auto
  ultimately show ?thesis
    by (simp add: n_used_def)
qed

lemma closed_release:
  assumes "closed_sockets {nat s} A st st1" "nat s \<notin> A" "nat s < 8" "valid_sock s st0"
    "g_sockets st = g_sockets (upd_sock s (\<lambda>k. k\<lparr>sk_in_use := False\<rparr>) st0)" "net_heap st = net_heap st0"
    "length (g_sockets st0) = 8"
    "\<forall>i<8. i \<noteq> nat s \<longrightarrow> g_sockets st2 ! i = g_sockets st1 ! i" "\<not> sk_in_use (g_sockets st2 ! nat s)"
    "live (net_heap st2) = freed {nat s} (g_sockets st1) (live (net_heap st1))"
  shows "closed_sockets {} (insert (nat s) A) st0 st2"
proof -
  have v: "sk_in_use (g_sockets st0 ! nat s)"
    using valid_sock_range [OF assms(4)] by (simp add: sock_def)
  have nth: "g_sockets st ! i = (if i = nat s then sock s st0\<lparr>sk_in_use := False\<rparr> else g_sockets st0 ! i)" if "i < 8" for i
    using that assms(3,5,7) by (simp add: g_sockets_upd nth_list_update)
  have A: "i < 8 \<and> i \<noteq> nat s \<and> sk_in_use (g_sockets st0 ! i) \<and> g_sockets st ! i = g_sockets st0 ! i" if "i \<in> A" for i
    using assms(1,2) that nth [of i] by (auto simp: closed_sockets_def split: if_splits)
  have "body (g_sockets st1 ! nat s) = body (g_sockets st ! nat s)"
    using assms(1,2) by (simp add: closed_sockets_def)
  then have buf: "rx_buf (g_sockets st1 ! nat s) = rx_buf (g_sockets st0 ! nat s)"
    using nth [OF assms(3)] body_simps(2) by (metis sock_def net_socket.ext_inject net_socket.surjective net_socket.update_convs(1))
  have live: "live (net_heap st1) = freed A (g_sockets st) (live (net_heap st0))"
    using assms(1,6) by (simp add: closed_sockets_def)
  have "freed {nat s} (g_sockets st1) (freed A (g_sockets st) L) = freed (insert (nat s) A) (g_sockets st0) L" for L
    using A buf by (auto simp: freed_def image_iff)
  moreover have "\<not> sk_in_use (g_sockets st2 ! i)" if "i \<in> A" for i
    using assms(1,8) A [OF that] that by (simp add: closed_sockets_def)
  moreover have "g_sockets st2 ! i = g_sockets st0 ! i" if "i < 8" "i \<noteq> nat s" "i \<notin> A" for i
    using assms(1,8) nth [OF that(1)] that by (simp add: closed_sockets_def)
  ultimately show ?thesis
    using A v assms(3,9,10) live by (auto simp: closed_sockets_def)
qed

lemma closed_mono: "closed_sockets {} A st st' \<Longrightarrow> X \<subseteq> {..<8} \<Longrightarrow> closed_sockets X A st st'"
  by (auto simp: closed_sockets_def)

lemma pending_owned: "pending P st \<Longrightarrow> nat s \<in> P \<Longrightarrow> owned (net_heap st) (sock s st)"
  using table_ok_D(3) [of P "g_sockets st" "net_heap st" "nat s"] by (simp add: pending_def owner_def sock_def)

lemma pending_dequeue:
  assumes "pending P st" "nat s \<in> P" "accept_count (sock s st) > 0"
  shows "pending P (upd_sock s dequeue_client st)" "closed_sockets {nat s} {} st (upd_sock s dequeue_client st)"
    "n_used (upd_sock s dequeue_client st) = n_used st"
proof -
  note ok = assms(1) [unfolded pending_def, THEN conjunct1]
  have s: "nat s < 8" "\<not> sk_in_use (g_sockets st ! nat s)"
    using assms(1,2) by (auto simp: pending_def)
  have "table_ok P ((g_sockets st)[nat s := dequeue_client (sock s st)]) (net_heap st)"
    using dequeue_owned [OF pending_owned [OF assms(1,2)] assms(3)] assms(2) s
    by (intro table_ok_update [OF ok]) (auto simp: owner_def sock_def dequeue_client_def)
  moreover have use: "sk_in_use ((g_sockets st)[nat s := dequeue_client (sock s st)] ! i) = sk_in_use (g_sockets st ! i)" if "i < 8" for i
    using that s(1) table_ok_D(2) [OF ok] by (simp add: nth_list_update sock_def dequeue_client_def)
  ultimately show "pending P (upd_sock s dequeue_client st)"
    using assms(1) by (auto simp: pending_def g_sockets_upd)
  show "closed_sockets {nat s} {} st (upd_sock s dequeue_client st)"
    using table_ok_D(2) [OF ok] s(1)
    by (simp add: closed_sockets_def freed_def g_sockets_upd body_def dequeue_client_def sock_def)
  show "n_used (upd_sock s dequeue_client st) = n_used st"
    using use unfolding n_used_def g_sockets_upd by (intro arg_cong [where f = card]) auto
qed

lemma close_returns:
  "(pending P st \<longrightarrow> 6 * n_used st + 1 \<le> n \<longrightarrow>
     (\<exists>st' A. close_fuel n api s st = Some st' \<and> pending P st' \<and> closed_sockets {} A st st' \<and>
        (valid_sock s st \<longrightarrow> nat s \<in> A))) \<and>
   (pending P st \<longrightarrow> nat s \<in> P \<longrightarrow> unat (accept_count (sock s st)) + 6 * n_used st + 2 \<le> n \<longrightarrow>
     (\<exists>st' A. close_waiting n api s st = Some st' \<and> pending P st' \<and> closed_sockets {nat s} A st st'))"
proof (induction n arbitrary: P s st)
  case 0
  then show ?case by simp
next
  case (Suc n)
  note close = Suc.IH [THEN conjunct1, rule_format] and waiting = Suc.IH [THEN conjunct2, rule_format]
  have "\<exists>st' A. close_fuel (Suc n) api s st = Some st' \<and> pending P st' \<and> closed_sockets {} A st st' \<and>
      (valid_sock s st \<longrightarrow> nat s \<in> A)" if ok: "pending P st" "6 * n_used st + 1 \<le> Suc n"
  proof (cases "valid_sock s st")
    case False
    then show ?thesis
      using ok closed_refl by auto
  next
    case True
    let ?st1 = "upd_sock s (\<lambda>k. k\<lparr>sk_in_use := False\<rparr>) st" and ?P = "insert (nat s) P"
    note mark = pending_mark [OF ok(1) True]
    have len: "length (g_sockets st) = 8" and s: "nat s < 8"
      using ok(1) table_ok_D(2) valid_sock_range [OF True] by (auto simp: pending_def)
    have used: "n_used st = Suc (n_used ?st1)"
      by (rule used_mark [OF len True])
    have "unat (accept_count (sock s ?st1)) \<le> 4"
      using pending_owned [OF mark(1)] by (simp add: owned_def accept_ok_def)
    then have wait: "\<exists>st' A. close_waiting n api s ?st1 = Some st' \<and> pending ?P st' \<and> closed_sockets {nat s} A ?st1 st'"
      using ok(2) used by (intro waiting [OF mark(1)]) auto
    obtain st2 A where inner: "(if sk_type (sock s ?st1) = SOCKET_TYPE_TCP \<and> sk_state (sock s ?st1) = 2
        then close_waiting n api s ?st1 else Some ?st1) = Some st2" "pending ?P st2" "closed_sockets {nat s} A ?st1 st2"
      using wait mark(1) closed_refl by (metis (no_types, lifting))
    have st2: "table_ok ?P (g_sockets st2) (net_heap st2)" "\<not> sk_in_use (sock s st2)"
      using inner(2) by (simp_all add: pending_def sock_def)
    obtain st3 where rel: "release_socket api s st2 = Some st3" "table_ok P (g_sockets st3) (net_heap st3)"
      "\<forall>i<8. i \<noteq> nat s \<longrightarrow> g_sockets st3 ! i = g_sockets st2 ! i" "\<not> sk_in_use (g_sockets st3 ! nat s)"
      "live (net_heap st3) = freed {nat s} (g_sockets st2) (live (net_heap st2))"
      using release_spec [OF st2(1) s mark(2) st2(2)] by blast
    have "\<not> sk_in_use (g_sockets ?st1 ! nat s)"
      using s len by (simp add: g_sockets_upd)
    then have "nat s \<notin> A"
      using inner(3) by (auto simp: closed_sockets_def)
    then have "closed_sockets {} (insert (nat s) A) st st3"
      using closed_release [OF inner(3) _ s True refl _ len rel(3,4,5)] by simp
    moreover have "pending P st3"
      using rel(2,3,4) inner(2) by (auto simp: pending_def)
    moreover have "close_fuel (Suc n) api s st = Some st3"
      using True inner(1) rel(1) by (simp add: Let_def)
    ultimately show ?thesis
      by blast
  qed
  moreover have "\<exists>st' A. close_waiting (Suc n) api s st = Some st' \<and> pending P st' \<and> closed_sockets {nat s} A st st'"
    if ok: "pending P st" "nat s \<in> P" "unat (accept_count (sock s st)) + 6 * n_used st + 2 \<le> Suc n"
  proof (cases "accept_count (sock s st) > 0")
    case False
    then show ?thesis
      using ok closed_refl by auto
  next
    case True
    let ?st1 = "upd_sock s dequeue_client st" and ?c = "accept_queue (sock s st) ! unat (accept_head (sock s st))"
    note deq = pending_dequeue [OF ok(1,2) True]
    have s: "nat s < 8" "length (g_sockets st) = 8"
      using ok(1,2) table_ok_D(2) by (auto simp: pending_def)
    have count: "unat (accept_count (sock s st)) = Suc (unat (accept_count (sock s ?st1)))"
      using True s by (simp add: sock_upd dequeue_client_def unat_minus_one)
        (metis Suc_pred unat_gt_0 word_neq_0_conv)
    have "6 * n_used ?st1 + 1 \<le> n"
      using ok(3) deq(3) count by simp
    then obtain st2 B where c: "close_fuel n api ?c ?st1 = Some st2" "pending P st2" "closed_sockets {} B ?st1 st2"
      using close [OF deq(1), of ?c] by blast
    have "\<not> sk_in_use (g_sockets ?st1 ! nat s)"
      using deq(1) ok(2) by (simp add: pending_def)
    then have "sock s st2 = sock s ?st1"
      using c(3) s(1) by (auto simp: closed_sockets_def sock_def)
    moreover have "n_used st2 \<le> n_used ?st1"
      by (rule closed_used [OF c(3)]) simp
    ultimately have "unat (accept_count (sock s st2)) + 6 * n_used st2 + 2 \<le> n"
      using ok(3) deq(3) count by simp
    then obtain st3 C where w: "close_waiting n api s st2 = Some st3" "pending P st3" "closed_sockets {nat s} C st2 st3"
      using waiting [OF c(2) ok(2)] by blast
    have "closed_sockets {nat s} ({} \<union> B \<union> C) st st3"
      using s(1) by (intro closed_trans [OF closed_trans [OF deq(2) closed_mono [OF c(3)]] w(3)]) simp
    then show ?thesis
      using True c(1) w(1,2) by (auto simp: Let_def)
  qed
  ultimately show ?case
    by blast
qed

lemma net_ok_close:
  assumes "net_ok st"
  obtains st' A where "net_socket_close api s st = Some st'" "net_ok st'" "closed_sockets {} A st st'"
    "valid_sock s st \<Longrightarrow> nat s \<in> A"
proof -
  have "n_used st \<le> card {..<8::nat}"
    unfolding n_used_def by (rule card_mono) auto
  then have "6 * n_used st + 1 \<le> CLOSE_FUEL"
    by (simp add: CLOSE_FUEL_def)
  then show ?thesis
    using close_returns [THEN conjunct1, rule_format, of "{}" st CLOSE_FUEL api s] assms that
    by (auto simp: pending_def net_ok_def net_socket_close_def)
qed

end
