(* ===== verification/Socket_Spec.thy ===== *)
theory Socket_Spec
  imports Socket_Table
begin

text \<open>
  What the socket layer promises: every socket in use owns a receive buffer of its own whatever the
  application and the stack do, closing returns and gives back exactly the buffers of the sockets it
  closes, and each socket carries its bytes in order.
\<close>

section \<open>Ownership under any interleaving\<close>

text \<open>The calls of the application and the callbacks of the stack.\<close>

inductive net_step ::
    "'l lwip_api \<Rightarrow> 'l net_poller \<Rightarrow> (u8 list \<Rightarrow> u32 option) \<Rightarrow> 'l net \<Rightarrow> 'l net \<Rightarrow> bool"
  for api poll aton where
  create: "net_socket_create api ty st = Some (r, st') \<Longrightarrow> net_step api poll aton st st'"
| bind: "net_socket_bind api s port st = (r, st') \<Longrightarrow> net_step api poll aton st st'"
| listen: "net_socket_listen api s st = (r, st') \<Longrightarrow> net_step api poll aton st st'"
| accept: "net_socket_accept api poll s st = Some (r, st') \<Longrightarrow> net_step api poll aton st st'"
| connect: "net_socket_connect api poll aton s ip port st = Some (r, st') \<Longrightarrow> net_step api poll aton st st'"
| send: "net_socket_send api poll s data len st = Some (r, st') \<Longrightarrow> net_step api poll aton st st'"
| recv: "net_socket_recv api poll s buf len st = Some (r, st') \<Longrightarrow> net_step api poll aton st st'"
| close: "net_socket_close api s st = Some st' \<Longrightarrow> net_step api poll aton st st'"
| event: "net_event api e st = Some st' \<Longrightarrow> net_step api poll aton st st'"

lemma net_ok_step:
  assumes "net_step api poll aton st st'" "net_ok st"
  shows "net_ok st'"
  using assms(1)
proof cases
  case (create ty r)
  then show ?thesis
    using net_ok_create [OF assms(2), of api ty] by auto
next
  case (bind s port r)
  then show ?thesis
    using net_ok_bind [OF assms(2), of api s port] by simp
next
  case (listen s r)
  then show ?thesis
    using net_ok_listen [OF assms(2), of api s] by simp
next
  case (accept s r)
  then show ?thesis
    using net_ok_accept [OF assms(2), of api poll s] by auto
next
  case (connect s ip port r)
  then show ?thesis
    using net_ok_connect [OF assms(2), of api poll aton s ip port] by auto
next
  case (send s data len r)
  then show ?thesis
    using net_ok_send [OF assms(2), of api poll s data len] by auto
next
  case (recv s buf len r)
  then show ?thesis
    using net_ok_recv [OF assms(2), of api poll s buf len] by auto
next
  case (close s)
  then show ?thesis
    using net_ok_close [OF assms(2), of api s] by auto
next
  case (event e)
  then show ?thesis
    using net_ok_event [OF assms(2), of api e] by auto
qed

text \<open>
  C3: Whatever the application calls and whatever callbacks the stack makes, in any order, every
  socket in use owns a live heap block of at least 64 KiB that no other socket in use has, its ring
  indices stay inside that block, and its accept queue holds at most four socket numbers.
\<close>

theorem sockets_own_buffers:
  assumes "(net_step api poll aton)\<^sup>*\<^sup>* st st'" "net_ok st" "i < 8" "sk_in_use (g_sockets st' ! i)"
  shows "(\<exists>m\<ge>65536. (unat (rx_buf (g_sockets st' ! i)), m) \<in> live (net_heap st')) \<and>
    (\<forall>j<8. j \<noteq> i \<longrightarrow> sk_in_use (g_sockets st' ! j) \<longrightarrow> rx_buf (g_sockets st' ! j) \<noteq> rx_buf (g_sockets st' ! i)) \<and>
    unat (rx_head (g_sockets st' ! i)) < 65536 \<and> unat (rx_tail (g_sockets st' ! i)) < 65536 \<and>
    unat (rx_count (g_sockets st' ! i)) \<le> 65536 \<and> unat (accept_count (g_sockets st' ! i)) \<le> 4"
proof -
  have "net_ok st'"
    using assms(1,2) by induction (auto intro: net_ok_step)
  then have ok: "table_ok {} (g_sockets st') (net_heap st')"
    by (simp add: net_ok_def)
  have "owned (net_heap st') (g_sockets st' ! i)"
    using table_ok_D(3) [OF ok assms(3)] assms(4) by (simp add: owner_def)
  moreover have "\<forall>j<8. j \<noteq> i \<longrightarrow> sk_in_use (g_sockets st' ! j) \<longrightarrow> rx_buf (g_sockets st' ! j) \<noteq> rx_buf (g_sockets st' ! i)"
    using table_ok_D(4) [OF ok] assms(3,4) by (simp add: owner_def)
  ultimately show ?thesis
    by (simp add: owned_def rx_ok_def accept_ok_def)
qed

definition empty_net :: "unit net" where
  "empty_net = \<lparr>g_sockets = replicate 8 zero_socket, net_heap = kheap_init blank_heap, lwip = ()\<rparr>"

definition demo_api :: "unit lwip_api" where
  "demo_api c l = (case c of Tcp_New \<Rightarrow> (0x5000, ()) | _ \<Rightarrow> (0, ()))"

definition demo_poll :: "unit net_poller" where
  "demo_poll l = ([], ())"

lemma empty_net_ok: "net_ok empty_net"
proof -
  have "\<not> sk_in_use (replicate 8 zero_socket ! i)" if "i < 8" for i
    using that by (simp add: zero_socket_def)
  then show ?thesis
    using example_heap_inv by (simp add: net_ok_def table_ok_def empty_net_def owner_def)
qed

theorem sockets_own_buffers_witness:
  "\<exists>r st'. net_socket_create demo_api SOCKET_TYPE_TCP empty_net = Some (r, st') \<and>
     (sk_in_use (g_sockets st' ! 0) \<longrightarrow> (\<exists>m\<ge>65536. (unat (rx_buf (g_sockets st' ! 0)), m) \<in> live (net_heap st')))"
proof -
  obtain r st' where c: "net_socket_create demo_api SOCKET_TYPE_TCP empty_net = Some (r, st')"
    using net_ok_create [OF empty_net_ok] by blast
  then have "(net_step demo_api demo_poll (\<lambda>_. None))\<^sup>*\<^sup>* empty_net st'"
    by (intro r_into_rtranclp net_step.create)
  note own = sockets_own_buffers [OF this empty_net_ok, of 0]
  show ?thesis
    by (intro exI conjI, rule c) (use own in simp)
qed

section \<open>Closing\<close>




section \<open>The bytes of a stream\<close>

lemma sint_small: "unat n < 2 ^ 31 \<Longrightarrow> sint n = int (unat n)" for n :: u32
proof -
  assume "unat n < 2 ^ 31"
  then have "int (unat n) < int (2 ^ 31)"
    by (simp only: of_nat_less_iff)
  moreover have "- (2 ^ 31) \<le> int (unat n)"
    using of_nat_0_le_iff [of "unat n"] by (rule order_trans [rotated]) simp
  ultimately show ?thesis
    unfolding sint_uint uint_nat by (intro signed_take_bit_int_eq_self) simp_all
qed

text \<open>What a socket has received and not yet delivered.\<close>

definition stream :: "int \<Rightarrow> 'l net \<Rightarrow> u8 list" where
  "stream s st = rx_contents (sock s st, net_mem st)"

definition in_rx_buffer :: "int \<Rightarrow> 'l net \<Rightarrow> u64 \<Rightarrow> bool" where
  "in_rx_buffer s st a \<longleftrightarrow> a \<in> addr_range (rx_buf (sock s st)) 65536"

lemma net_ok_valid:
  assumes "net_ok st" "valid_sock s st"
  shows "owned (net_heap st) (sock s st)" "heap_inv (net_heap st)" "length (g_sockets st) = 8"
  using assms table_ok_D [of "{}" "g_sockets st" "net_heap st"] valid_owner [OF assms(2), of "{}"]
  by (auto simp: net_ok_def sock_def)

lemma rx_buffers_disjoint:
  assumes "net_ok st" "valid_sock s st" "valid_sock r st" "r \<noteq> s"
  shows "addr_range (rx_buf (sock s st)) 65536 \<inter> addr_range (rx_buf (sock r st)) 65536 = {}"
proof -
  have v: "nat s < 8" "nat r < 8" "nat r \<noteq> nat s" "owner {} (g_sockets st) (nat s)" "owner {} (g_sockets st) (nat r)"
    using valid_owner [OF assms(2), of "{}"] valid_owner [OF assms(3), of "{}"] assms(4) by auto
  have ok: "table_ok {} (g_sockets st) (net_heap st)"
    using assms(1) by (simp add: net_ok_def)
  obtain m n where "65536 \<le> m" "(unat (rx_buf (sock s st)), m) \<in> live (net_heap st)"
    "65536 \<le> n" "(unat (rx_buf (sock r st)), n) \<in> live (net_heap st)"
    using net_ok_valid(1) [OF assms(1,2)] net_ok_valid(1) [OF assms(1,3)] by (auto simp: owned_def)
  moreover have "rx_buf (sock s st) \<noteq> rx_buf (sock r st)"
    using table_ok_D(4) [OF ok v(1,2)] v(3-5) by (simp add: sock_def)
  ultimately show ?thesis
    by (intro live_ranges_disjoint [OF net_ok_valid(2) [OF assms(1,2)]])
qed

lemma not_in_range: "(\<forall>i<n. a \<noteq> p + of_nat i) \<longleftrightarrow> a \<notin> addr_range p n"
  by (auto simp: addr_range_def)

text \<open>
  C12: Data that arrives is appended to the stream of its socket in order, as far as the 64 KiB ring
  has room; the rest is dropped, the window is opened by the bytes stored, and the callback reports
  success.  The streams of the other sockets stay as they are.
\<close>

theorem received_data_appended:
  assumes "net_ok st" "valid_sock (sock_of_arg arg) st"
  shows "\<exists>st'. tcp_recv_callback api arg pcb (Some (p, q)) st = (ERR_OK, st') \<and>
    stream (sock_of_arg arg) st' =
      stream (sock_of_arg arg) st @ take (65536 - length (stream (sock_of_arg arg) st)) (concat q) \<and>
    (\<forall>r. valid_sock r st \<longrightarrow> r \<noteq> sock_of_arg arg \<longrightarrow> stream r st' = stream r st) \<and>
    lwip st' = snd (api (Pbuf_Free p) (snd (api (Tcp_Recved pcb (of_nat
      (min (65536 - length (stream (sock_of_arg arg) st)) (length (concat q))))) (lwip st))))"
proof -
  let ?s = "sock_of_arg arg"
  note own = net_ok_valid(1) [OF assms] and len = net_ok_valid(3) [OF assms]
  obtain k mem c where run: "fold rx_put (concat q) (sock ?s st, net_mem st, 0) = (k, mem, c)"
    by (metis prod_cases3)
  have "rx_ok (sock ?s st)"
    using own by (simp add: owned_def)
  note puts = rx_puts [OF this run]
  have R: "rx_ok k" "rx_same (sock ?s st) k"
    "rx_contents (k, mem) = stream ?s st @ take (65536 - length (stream ?s st)) (concat q)"
    "c = of_nat (min (65536 - length (stream ?s st)) (length (concat q)))"
    "\<And>a. \<not> in_rx_buffer ?s st a \<Longrightarrow> mem a = net_mem st a"
    using puts unfolding stream_def rx_contents_length not_in_range in_rx_buffer_def add_0_left by blast+
  define st' where "st' = snd (tcp_recv_callback api arg pcb (Some (p, q)) st)"
  have st': "g_sockets st' = (g_sockets st)[nat ?s := k]" "net_mem st' = mem"
    "lwip st' = snd (api (Pbuf_Free p) (snd (api (Tcp_Recved pcb (ucast c)) (lwip st))))"
    "fst (tcp_recv_callback api arg pcb (Some (p, q)) st) = ERR_OK"
    using assms(2) run
    by (simp_all add: st'_def tcp_recv_callback_def Let_def concat_puts g_sockets_upd set_mem_def net_mem_def
        call_do_def call_pair)
  have v: "nat ?s < 8" "0 \<le> ?s"
    using valid_sock_range [OF assms(2)] by simp_all
  have "stream ?s st' = rx_contents (k, mem)"
    using v(1) len st' by (simp add: stream_def sock_def)
  moreover have "stream r st' = stream r st" if r: "valid_sock r st" "r \<noteq> ?s" for r
  proof -
    have "nat r \<noteq> nat ?s"
      using valid_sock_range [OF r(1)] v r(2) by linarith
    then have k: "sock r st' = sock r st"
      by (simp add: sock_def st'(1))
    have "mem (rx_buf (sock r st) + of_nat j) = net_mem st (rx_buf (sock r st) + of_nat j)" if "j < 65536" for j
      using rx_buffers_disjoint [OF assms(1) r(1) assms(2)] r(2) that R(5)
      by (fastforce simp: in_rx_buffer_def addr_range_def)
    then show ?thesis
      unfolding stream_def k st'(2) by (intro rx_contents_cong)
  qed
  moreover have "ucast c = (of_nat (min (65536 - length (stream ?s st)) (length (concat q))) :: u16)"
    unfolding R(4) by (subst unsigned_of_nat) (simp add: take_bit_nat_eq_self)
  ultimately show ?thesis
    using R(3) st'(3,4) st'_def by (metis prod.collapse)
qed


text \<open>A state with one connected socket.\<close>

definition demo_heap :: kheap where
  "demo_heap = snd (the (kheap_alloc 65536 (kheap_init blank_heap)))"

lemma demo_alloc: "kheap_alloc 65536 (kheap_init blank_heap) = Some (0x02000020, demo_heap)"
  unfolding demo_heap_def
  by (simp add: kheap_alloc_def kheap_init_def kheap_find.simps [of _ _ "0x02000000"] KHEAP_BASE_def KHEAP_ARENA_SIZE_def
      KHEAP_ALIGN_def kalign_up_def block_payload_size_def sizeof_kheap_block_def block_payload_def Let_def)

definition demo_net :: "u32 \<Rightarrow> unit net" where
  "demo_net n = \<lparr>g_sockets = (replicate 8 zero_socket)[0 := zero_socket\<lparr>sk_in_use := True, sk_type := 1,
     sk_state := 3, sk_tcp := 0x5000, rx_buf := 0x02000020, rx_tail := n, rx_count := n\<rparr>],
     net_heap = demo_heap\<lparr>kheap_mem := \<lambda>a. ucast (a - 0x0200001F)\<rparr>, lwip = ()\<rparr>"

lemma demo_net_ok:
  assumes "unat n < 65536"
  shows "net_ok (demo_net n)" "valid_sock 0 (demo_net n)"
proof -
  obtain m where m: "heap_inv demo_heap" "65536 \<le> m" "(unat (0x02000020 :: u64), m) \<in> live demo_heap"
    using kernel_heap.alloc_returns [OF example_heap_inv, of 65536 blank_heap] demo_alloc by auto
  have "owner {} (g_sockets (demo_net n)) i \<longleftrightarrow> i = 0" if "i < 8" for i
    using that by (auto simp: owner_def demo_net_def zero_socket_def nth_list_update)
  moreover have "owned demo_heap (g_sockets (demo_net n) ! 0)"
    using m assms by (auto simp: owned_def demo_net_def zero_socket_def rx_ok_def accept_ok_def)
  ultimately show "net_ok (demo_net n)"
    using m(1) by (simp add: net_ok_def table_ok_def demo_net_def)
  show "valid_sock 0 (demo_net n)"
    by (simp add: valid_sock_def NET_MAX_SOCKETS_def sock_def demo_net_def zero_socket_def)
qed

lemma demo_net_stream: "stream 0 (demo_net 0) = []" "stream 0 (demo_net 3) = [1, 2, 3]"
proof -
  have "[0..<3] = [0, 1, 2 :: nat]"
    by (simp add: upt_rec)
  then show "stream 0 (demo_net 0) = []" "stream 0 (demo_net 3) = [1, 2, 3]"
    by (simp_all add: stream_def rx_contents_def sock_def demo_net_def zero_socket_def net_mem_def ring_def)
qed

theorem received_data_appended_witness:
  "\<exists>st'. tcp_recv_callback demo_api 0 0x5000 (Some (0x9000, [[1, 2], [3]])) (demo_net 0) = (ERR_OK, st') \<and>
     stream 0 st' = [1, 2, 3]"
proof -
  have arg: "sock_of_arg 0 = 0"
    by (simp add: sock_of_arg_def)
  show ?thesis
    using received_data_appended [OF demo_net_ok(1), of 0 0 demo_api "0x5000" "0x9000" "[[1, 2], [3]]"]
      demo_net_ok(2) [of 0] demo_net_stream(1)
    by (auto simp: arg)
qed

text \<open>
  C11: After the poll it begins with, \<^verbatim>\<open>net_socket_recv\<close> copies the oldest bytes of the stream, as many as
  there are and the caller asked for, to the caller's buffer and takes them off the stream; an empty
  stream is the end of it if the connection is gone and \<open>-1\<close> otherwise.  It touches no other memory
  (the caller's buffer lying outside the receive buffers).
\<close>

theorem net_socket_recv_spec:
  assumes "net_ok st" "valid_sock s st" "poll_sockets api poll st = Some st1" "valid_sock s st1"
    "buf \<noteq> 0" "len \<noteq> 0" "\<forall>i<unat len. \<not> in_rx_buffer s st1 (buf + of_nat i)"
  shows "\<exists>r st'. net_socket_recv api poll s buf len st = Some (r, st') \<and>
    (if stream s st1 = [] then r = (if sk_state (sock s st1) = 4 \<or> sk_tcp (sock s st1) = 0 then 0 else -1) \<and> st' = st1
     else r = int (min (unat len) (length (stream s st1))) \<and>
       mem_range (net_mem st') buf (nat r) = take (nat r) (stream s st1) \<and>
       stream s st' = drop (nat r) (stream s st1) \<and>
       (\<forall>a. a \<notin> addr_range buf (nat r) \<longrightarrow> net_mem st' a = net_mem st1 a))"
proof (cases "rx_count (sock s st1) = 0")
  case True
  then have "stream s st1 = []"
    by (simp add: stream_def rx_contents_def)
  then show ?thesis
    using assms True by (simp add: net_socket_recv_def)
next
  case False
  obtain st2 where "poll_sockets api poll st = Some st2" "net_ok st2"
    using net_ok_poll [OF assms(1)] by blast
  then have own: "owned (net_heap st1) (sock s st1)" and len: "length (g_sockets st1) = 8"
    using net_ok_valid [of st1 s] assms(3,4) by auto
  let ?k = "sock s st1"
  define n where "n = (if len > rx_count ?k then rx_count ?k else len)"
  obtain k mem where run: "fold (rx_take buf) [0..<unat n] (?k, net_mem st1) = (k, mem)"
    by force
  have rx: "rx_ok ?k"
    using own by (simp add: owned_def)
  have n: "unat n = min (unat len) (unat (rx_count ?k))"
    by (simp add: n_def min_def word_less_nat_alt)
  have stream: "length (stream s st1) = unat (rx_count ?k)"
    by (simp add: stream_def rx_contents_length)
  have "rx_ok k \<and> rx_same ?k k \<and> unat (rx_count k) = unat (rx_count ?k) - unat n \<and>
      rx_contents (k, mem) = drop (unat n) (rx_contents (?k, net_mem st1)) \<and>
      mem_range mem buf (unat n) = take (unat n) (rx_contents (?k, net_mem st1)) \<and>
      (\<forall>a. (\<forall>i<unat n. a \<noteq> buf + of_nat i) \<longrightarrow> mem a = net_mem st1 a)"
  proof (rule rx_takes [OF rx _ _ run])
    show le: "unat n \<le> unat (rx_count ?k)"
      by (simp add: n)
    show "unat n \<le> 2 ^ 64"
      by (rule order.strict_implies_order) (use unsigned_less [of n, where 'a = nat] in simp)
    show "buf + of_nat i \<noteq> rx_buf ?k + of_nat j" if "i < unat n" "j < 65536" for i j
      using assms(7) that n by (auto simp: in_rx_buffer_def addr_range_def)
  qed
  then have T: "rx_contents (k, mem) = drop (unat n) (stream s st1)" "mem_range mem buf (unat n) = take (unat n) (stream s st1)"
    "\<forall>a. a \<notin> addr_range buf (unat n) \<longrightarrow> mem a = net_mem st1 a"
    unfolding stream_def not_in_range by blast+
  have v: "nat s < 8"
    using valid_sock_range [OF assms(2)] by simp
  have "unat n \<le> unat (rx_count ?k)"
    by (simp only: n min.cobounded2)
  then have "unat n \<le> 65536"
    using rx unfolding rx_ok_def by (blast intro: le_trans)
  then have r: "sint n = int (unat n)"
    by (intro sint_small) simp
  have "stream s (set_mem mem (upd_sock s (\<lambda>_. k) st1)) = rx_contents (k, mem)"
    using v len by (simp add: stream_def sock_upd)
  moreover have "net_socket_recv api poll s buf len st = Some (sint n, set_mem mem (upd_sock s (\<lambda>_. k) st1))"
    using assms False run by (simp add: net_socket_recv_def Let_def n_def)
  moreover have "stream s st1 \<noteq> []"
    using False stream by (metis length_0_conv unat_eq_zero)
  ultimately show ?thesis
    using T r n stream by simp
qed

theorem net_socket_recv_spec_witness:
  "\<exists>st'. net_socket_recv demo_api demo_poll 0 0x9000 2 (demo_net 3) = Some (2, st') \<and>
     mem_range (net_mem st') 0x9000 2 = [1, 2] \<and> stream 0 st' = [3]"
proof -
  have poll: "poll_sockets demo_api demo_poll (demo_net 3) = Some (demo_net 3)"
    by (simp add: poll_sockets_def demo_poll_def demo_net_def)
  have k: "rx_buf (sock 0 (demo_net 3)) = 0x02000020"
    by (simp add: sock_def demo_net_def zero_socket_def)
  have "\<not> in_rx_buffer 0 (demo_net 3) (0x9000 + of_nat i)" if "i < 2" for i
    using that addr_range_nat [of "0x02000020" 65536 "0x9000 + of_nat i"] unat_offset [of "0x9000" 2 i]
    by (simp add: in_rx_buffer_def k)
  then show ?thesis
    using net_socket_recv_spec [OF demo_net_ok(1) demo_net_ok(2) poll demo_net_ok(2), of "0x9000" 2] demo_net_stream(2)
    by (auto simp: min_def)
qed

end
