(* ===== verification/Http.thy ===== *)
theory Http
  imports Lib_Format
begin

text \<open>
  The HTTP client of \<^verbatim>\<open>net.c\<close> (the parsing in it): finding a string and a header, deciding whether a
  response is complete, removing the chunked transfer encoding in place, and taking a URL apart.  A
  pointer into a buffer is its offset from the start of the buffer.  A C string is the list of its
  bytes before the terminator.
\<close>

definition byte_at :: "memory \<Rightarrow> u64 \<Rightarrow> nat \<Rightarrow> u8" where
  "byte_at mem p i = mem (p + of_nat i)"

section \<open>Strings\<close>

text \<open>\<^verbatim>\<open>p[k]\<close> of the string \<^verbatim>\<open>p\<close>; \<open>k\<close> is at most the place of the terminator.\<close>

definition peek :: "u8 list \<Rightarrow> nat \<Rightarrow> u8" where
  "peek p k = (if k < length p then p ! k else 0)"

text \<open>The inner loop of \<^verbatim>\<open>find_substr\<close>: the needle is found when its end is reached.\<close>

fun match_here :: "u8 list \<Rightarrow> u8 list \<Rightarrow> bool" where
  "match_here h [] = True"
| "match_here [] (n # ns) = False"
| "match_here (c # h) (n # ns) = (c = n \<and> match_here h ns)"

fun find_substr :: "u8 list \<Rightarrow> u8 list \<Rightarrow> u8 list option" where
  "find_substr h [] = Some h"
| "find_substr [] (n # ns) = None"
| "find_substr (c # h) (n # ns) =
     (if c = n \<and> match_here (c # h) (n # ns) then Some (c # h) else find_substr h (n # ns))"

definition to_lower :: "u8 \<Rightarrow> u8" where
  "to_lower c = (if c \<ge> 65 \<and> c \<le> 90 then c + 32 else c)"

text \<open>The comparison of \<^verbatim>\<open>nlen\<close> characters; a string that ends before the name has its terminator there.\<close>

fun match_case :: "u8 list \<Rightarrow> u8 list \<Rightarrow> bool" where
  "match_case p [] = True"
| "match_case [] (n # ns) = False"
| "match_case (c # p) (n # ns) = (to_lower c = to_lower n \<and> match_case p ns)"

text \<open>To the character after the next newline.\<close>

fun next_line :: "u8 list \<Rightarrow> u8 list" where
  "next_line [] = []"
| "next_line (c # p) = (if c = 10 then p else next_line p)"

lemma next_line_le: "length (next_line p) \<le> length p"
  by (induction p) auto

lemma next_line_shorter: "p \<noteq> [] \<Longrightarrow> length (next_line p) < length p"
  by (cases p) (auto simp: next_line_le less_Suc_eq_le)

function find_case_header :: "u8 list \<Rightarrow> u8 list \<Rightarrow> u8 list option" where
  "find_case_header p name =
     (if p = [] then None
      else if match_case p name then Some (drop (length name) p)
      else find_case_header (next_line p) name)"
  by pat_completeness auto
termination
  by (relation "measure (\<lambda>(p, name). length p)") (auto simp: next_line_shorter)

declare find_case_header.simps [simp del]

section \<open>Characters\<close>

text \<open>Characters: \<^verbatim>\<open>'\t'\<close>, \<^verbatim>\<open>'\n'\<close>, \<^verbatim>\<open>'\r'\<close>, space, colon and slash by their codes.\<close>

definition is_blank :: "u8 \<Rightarrow> bool" where
  "is_blank c \<longleftrightarrow> c = 13 \<or> c = 10 \<or> c = 32 \<or> c = 9"

definition hex_val :: "u8 \<Rightarrow> u32 option" where
  "hex_val c =
     (if c \<ge> 48 \<and> c \<le> 57 then Some (ucast (c - 48))
      else if c \<ge> 97 \<and> c \<le> 102 then Some (ucast (c - 97 + 10))
      else if c \<ge> 65 \<and> c \<le> 70 then Some (ucast (c - 65 + 10))
      else None)"

section \<open>The chunked transfer encoding\<close>

text \<open>\<^verbatim>\<open>while (src < end && P(*src)) src++\<close>.\<close>

function scan :: "(u8 \<Rightarrow> bool) \<Rightarrow> memory \<Rightarrow> u64 \<Rightarrow> nat \<Rightarrow> nat \<Rightarrow> nat" where
  "scan P mem body end src =
     (if src < end \<and> P (byte_at mem body src) then scan P mem body end (src + 1) else src)"
  by pat_completeness auto
termination
  by (relation "measure (\<lambda>(P, mem, body, end, src). end - src)") auto

function chunk_size :: "memory \<Rightarrow> u64 \<Rightarrow> nat \<Rightarrow> nat \<Rightarrow> u32 \<Rightarrow> bool \<Rightarrow> nat \<times> u32 \<times> bool" where
  "chunk_size mem body end src sz digits =
     (if src < end then
        (case hex_val (byte_at mem body src) of
           None \<Rightarrow> (src, sz, digits)
         | Some v \<Rightarrow> chunk_size mem body end (src + 1) (push_bit 4 sz OR v) True)
      else (src, sz, digits))"
  by pat_completeness auto
termination
  by (relation "measure (\<lambda>(mem, body, end, src, sz, digits). end - src)") auto

text \<open>Stepping over one given character.\<close>

definition skip_char :: "u8 \<Rightarrow> memory \<Rightarrow> u64 \<Rightarrow> nat \<Rightarrow> nat \<Rightarrow> nat" where
  "skip_char c mem body end src = (if src < end \<and> byte_at mem body src = c then src + 1 else src)"

declare scan.simps [simp del] chunk_size.simps [simp del]

lemma scan_ge: "src \<le> scan P mem body end src"
proof (induction P mem body "end" src rule: scan.induct)
  case (1 P mem body "end" src)
  then show ?case
    by (subst scan.simps) auto
qed

lemma skip_char_ge: "src \<le> skip_char c mem body end src"
  by (simp add: skip_char_def)

lemma chunk_size_ge:
  "chunk_size mem body end src sz digits = (src', sz', digits') \<Longrightarrow> src \<le> src' \<and> (digits' \<and> \<not> digits \<longrightarrow> src < src')"
proof (induction mem body "end" src sz digits rule: chunk_size.induct)
  case (1 mem body "end" src sz digits)
  show ?case
  proof (cases "src < end \<and> hex_val (byte_at mem body src) \<noteq> None")
    case True
    then obtain v where "chunk_size mem body end (src + 1) (push_bit 4 sz OR v) True = (src', sz', digits')"
      "hex_val (byte_at mem body src) = Some v"
      using "1.prems" by (subst (asm) chunk_size.simps) auto
    then show ?thesis
      using "1.IH" True by fastforce
  next
    case False
    then have "(src', sz', digits') = (src, sz, digits)"
      using "1.prems" by (subst (asm) chunk_size.simps) (auto split: if_splits)
    then show ?thesis
      by simp
  qed
qed

text \<open>The part of a round of the loop that finds where the chunk begins: its start and size.\<close>

definition chunk_header :: "memory \<Rightarrow> u64 \<Rightarrow> nat \<Rightarrow> nat \<Rightarrow> (nat \<times> u32) option" where
  "chunk_header mem body end src =
     (let src = scan is_blank mem body end src in
      if src \<ge> end then None
      else
        let (src, sz, digits) = chunk_size mem body end src 0 False in
        if \<not> digits then None
        else
          let src = scan (\<lambda>c. c \<noteq> 10) mem body end src;
              src = skip_char 10 mem body end src in
          if sz = 0 then None else Some (src, sz))"

lemma chunk_header_gt: "chunk_header mem body end src = Some (src', sz) \<Longrightarrow> src < src'"
proof -
  assume h: "chunk_header mem body end src = Some (src', sz)"
  let ?a = "scan is_blank mem body end src"
  obtain b sz' digits where size: "chunk_size mem body end ?a 0 False = (b, sz', digits)"
    by (metis prod_cases3)
  let ?c = "scan (\<lambda>c. c \<noteq> 10) mem body end b"
  have "digits" "src' = skip_char 10 mem body end ?c"
    using h size by (auto simp: chunk_header_def Let_def split: if_splits)
  moreover have "src \<le> ?a" "b \<le> ?c" "?c \<le> skip_char 10 mem body end ?c"
    by (rule scan_ge skip_char_ge)+
  ultimately show ?thesis
    using chunk_size_ge [OF size] by (metis le_less_trans less_le_trans)
qed

function unchunk_loop :: "u64 \<Rightarrow> nat \<Rightarrow> memory \<Rightarrow> nat \<Rightarrow> nat \<Rightarrow> memory \<times> nat" where
  "unchunk_loop body end mem src dst =
     (if src < end then
        (case chunk_header mem body end src of
           None \<Rightarrow> (mem, dst)
         | Some (src, chunk_sz) \<Rightarrow>
             let to_copy = (if of_nat (end - src) < chunk_sz then of_nat (end - src) else chunk_sz);
                 mem = (if dst \<noteq> src then memmove (body + of_nat dst) (body + of_nat src) (ucast to_copy) mem else mem);
                 dst = dst + unat to_copy; src = src + unat to_copy;
                 src = skip_char 13 mem body end src;
                 src = skip_char 10 mem body end src in
             unchunk_loop body end mem src dst)
      else (mem, dst))"
  by pat_completeness auto
termination
proof (relation "measure (\<lambda>(body, end, mem, src, dst). end - src)", goal_cases)
  case (2 body "end" mem src dst p src1 sz n mem1 dst1 src2 src3 src4)
  have "src < src1"
    using 2(2) unfolding 2(3) [symmetric] by (rule chunk_header_gt)
  also have "src1 \<le> src2"
    using 2 by simp
  also have "src2 \<le> src3"
    using 2 skip_char_ge by blast
  also have "src3 \<le> src4"
    using 2 skip_char_ge by blast
  finally show ?case
    using 2(1) by simp
qed simp

declare unchunk_loop.simps [simp del]

definition http_unchunk :: "u64 \<Rightarrow> u32 \<Rightarrow> memory \<Rightarrow> u32 \<times> memory" where
  "http_unchunk body body_len mem =
     (if body = 0 \<or> body_len = 0 then (0, mem)
      else
        let (mem, dst) = unchunk_loop body (unat body_len) mem 0 0 in
        (of_nat dst, mem(body + of_nat dst := 0)))"

section \<open>Is the response complete?\<close>

text \<open>The first place the blank line that ends the header stands; 0 when there is none.\<close>

definition header_end :: "memory \<Rightarrow> u64 \<Rightarrow> nat \<Rightarrow> nat" where
  "header_end mem buf scan_limit =
     (case List.find (\<lambda>i. byte_at mem buf i = 13 \<and> byte_at mem buf (i + 1) = 10 \<and>
                          byte_at mem buf (i + 2) = 13 \<and> byte_at mem buf (i + 3) = 10)
             [0..<scan_limit - 3] of
        None \<Rightarrow> 0
      | Some i \<Rightarrow> i + 4)"

definition name_at :: "u8 list \<Rightarrow> memory \<Rightarrow> u64 \<Rightarrow> nat \<Rightarrow> bool" where
  "name_at name mem buf i = list_all (\<lambda>k. to_lower (byte_at mem buf (i + k)) = name ! k) [0..<length name]"

definition find_header :: "u8 list \<Rightarrow> memory \<Rightarrow> u64 \<Rightarrow> nat \<Rightarrow> nat option" where
  "find_header name mem buf header_len =
     List.find (\<lambda>i. (i = 0 \<or> byte_at mem buf (i - 1) = 10) \<and> name_at name mem buf i)
       [0..<header_len - length name]"

definition is_space :: "u8 \<Rightarrow> bool" where
  "is_space c \<longleftrightarrow> c = 32 \<or> c = 9"

function decimal :: "memory \<Rightarrow> u64 \<Rightarrow> nat \<Rightarrow> nat \<Rightarrow> u32 \<Rightarrow> bool \<Rightarrow> u32 \<times> bool" where
  "decimal mem buf end p val found =
     (if p < end \<and> is_digit (byte_at mem buf p)
      then decimal mem buf end (p + 1) (val * 10 + ucast (byte_at mem buf p - 48)) True
      else (val, found))"
  by pat_completeness auto
termination
  by (relation "measure (\<lambda>(mem, buf, end, p, val, found). end - p)") auto

function chunked_value :: "memory \<Rightarrow> u64 \<Rightarrow> nat \<Rightarrow> nat \<Rightarrow> bool" where
  "chunked_value mem buf end p =
     (if p + 7 \<le> end \<and> byte_at mem buf p \<noteq> 13 \<and> byte_at mem buf p \<noteq> 10
      then name_at (lit ''chunked'') mem buf p \<or> chunked_value mem buf end (p + 1)
      else False)"
  by pat_completeness auto
termination
  by (relation "measure (\<lambda>(mem, buf, end, p). end - p)") auto

declare decimal.simps [simp del] chunked_value.simps [simp del]

definition content_length :: "memory \<Rightarrow> u64 \<Rightarrow> nat \<Rightarrow> u32 \<times> bool" where
  "content_length mem buf header_len =
     (case find_header (lit ''content-length:'') mem buf header_len of
        None \<Rightarrow> (0, False)
      | Some i \<Rightarrow> decimal mem buf header_len (scan is_space mem buf header_len (i + 15)) 0 False)"

definition is_chunked_header :: "memory \<Rightarrow> u64 \<Rightarrow> nat \<Rightarrow> bool" where
  "is_chunked_header mem buf header_len =
     (case find_header (lit ''transfer-encoding:'') mem buf header_len of
        None \<Rightarrow> False
      | Some i \<Rightarrow> chunked_value mem buf header_len (i + 18))"

definition ends_with :: "u8 list \<Rightarrow> memory \<Rightarrow> u64 \<Rightarrow> nat \<Rightarrow> bool" where
  "ends_with xs mem buf n = list_all (\<lambda>k. byte_at mem buf (n - length xs + k) = xs ! k) [0..<length xs]"

definition check_http_response_complete :: "memory \<Rightarrow> u64 \<Rightarrow> u32 \<Rightarrow> bool" where
  "check_http_response_complete mem buf total_rx =
     (if total_rx < 4 then False
      else
        let scan_limit = (if total_rx < 8192 then unat total_rx else 8192);
            header_len = header_end mem buf scan_limit in
        if header_len = 0 then False
        else
          let (cl_val, cl_found) = content_length mem buf header_len in
          if cl_found then total_rx \<ge> of_nat header_len + cl_val
          else if is_chunked_header mem buf header_len then
            (if total_rx \<ge> of_nat header_len + 5 then
               (if ends_with [48, 13, 10, 13, 10] mem buf (unat total_rx) then True
                else if total_rx \<ge> of_nat header_len + 7 then
                  ends_with [13, 10, 48, 13, 10, 13, 10] mem buf (unat total_rx)
                else False)
             else False)
          else False)"

section \<open>The body of a response\<close>

text \<open>The string at a buffer of \<open>n\<close> bytes followed by a terminator.\<close>

definition c_text :: "memory \<Rightarrow> u64 \<Rightarrow> nat \<Rightarrow> u8 list" where
  "c_text mem buf n = takeWhile (\<lambda>c. c \<noteq> 0) (map (byte_at mem buf) [0..<n])"

definition says_chunked :: "u8 list \<Rightarrow> bool" where
  "says_chunked text =
     (case find_case_header text (lit ''transfer-encoding:'') of
        None \<Rightarrow> False
      | Some te \<Rightarrow>
          let te = dropWhile is_space te in
          find_substr te (lit ''chunked'') \<noteq> None \<or> find_substr te (lit ''CHUNKED'') \<noteq> None)"

definition find_body :: "u8 list \<Rightarrow> u8 list option" where
  "find_body text =
     (case find_substr text [13, 10, 13, 10] of
        Some body \<Rightarrow> Some (drop 4 body)
      | None \<Rightarrow> (case find_substr text [10, 10] of
                   Some body \<Rightarrow> Some (drop 2 body)
                 | None \<Rightarrow> None))"

definition looks_chunked :: "u8 list \<Rightarrow> bool" where
  "looks_chunked body =
     (let hex_cnt = length (takeWhile (\<lambda>c. hex_val c \<noteq> None) body); p = drop hex_cnt body in
      hex_cnt \<ge> 1 \<and> hex_cnt \<le> 8 \<and> peek p 0 = 13 \<and> peek p 1 = 10)"

text \<open>The end of \<^verbatim>\<open>net_http_fetch_single\<close>, from the search for a transfer encoding on.\<close>

definition http_body :: "u64 \<Rightarrow> u32 \<Rightarrow> memory \<Rightarrow> u32 \<times> memory" where
  "http_body out_buf total_rx mem =
     (let text = c_text mem out_buf (unat total_rx); is_chunked = says_chunked text in
      case find_body text of
        None \<Rightarrow> (total_rx, mem)
      | Some rest \<Rightarrow>
          let hdr_len = of_nat (length text - length rest);
              body = out_buf + ucast hdr_len;
              body_len = (if total_rx > hdr_len then total_rx - hdr_len else 0);
              is_chunked = (is_chunked \<or> body_len > 4 \<and> looks_chunked rest);
              (body_len, mem) = (if is_chunked then http_unchunk body body_len mem else (body_len, mem));
              mem = memmove out_buf body (ucast body_len) mem in
          (body_len, mem(out_buf + ucast body_len := 0)))"

section \<open>URLs\<close>

record url_parts =
  url_https :: bool
  url_had_scheme :: bool
  url_host :: "u8 list"
  url_port :: u16
  url_path :: "u8 list"

text \<open>The scheme, and what follows it.\<close>

definition parse_scheme :: "u8 list \<Rightarrow> bool \<times> bool \<times> u8 list" where
  "parse_scheme p =
     (let sep = (\<lambda>c. c = 32 \<or> c = 47 \<or> c = 58) in
      if match_here p (lit ''https://'') then (True, True, drop 8 p)
      else if match_here p (lit ''http://'') then (False, True, drop 7 p)
      else if match_here p (lit ''https'') \<and> (peek p 5 = 32 \<or> peek p 5 = 58)
        then (True, True, dropWhile sep (drop 5 p))
      else if match_here p (lit ''http'') \<and> (peek p 4 = 32 \<or> peek p 4 = 58)
        then (False, True, dropWhile sep (drop 4 p))
      else (True, False, p))"

text \<open>The port after the host: a number out of range leaves the default.\<close>

definition parse_port :: "bool \<Rightarrow> u8 list \<Rightarrow> u16 \<times> u8 list" where
  "parse_port is_https p =
     (let port = (if is_https then 443 else 80) in
      if peek p 0 = 58 then
        let p = drop 1 p;
            p_val = foldl (\<lambda>v d. v * 10 + ucast (d - 48)) (0 :: u32) (takeWhile is_digit p) in
        (if p_val > 0 \<and> p_val \<le> 65535 then ucast p_val else port, dropWhile is_digit p)
      else (port, p))"

definition parse_url :: "u8 list \<Rightarrow> u32 \<Rightarrow> url_parts option" where
  "parse_url url host_sz =
     (if host_sz < 4 then None
      else
        let p = dropWhile is_space url in
        if p = [] then None
        else
          let (is_https, had_scheme, p) = parse_scheme p;
              host = takeWhile (\<lambda>c. c \<noteq> 58 \<and> c \<noteq> 47 \<and> c \<noteq> 32) (take (unat host_sz - 1) p);
              p = drop (length host) p in
          if host = [] then None
          else
            let (port, p) = parse_port is_https p;
                p = dropWhile (\<lambda>c. c = 32) p in
            Some \<lparr>url_https = is_https, url_had_scheme = had_scheme, url_host = host, url_port = port,
                  url_path = (if peek p 0 = 47 then p else [47])\<rparr>)"

end
