(* ===== verification/Http_Spec.thy ===== *)
theory Http_Spec
  imports Http
begin

text \<open>
  What the parsing of HTTP responses and URLs promises: a chunked body is decoded in place to the data
  that was encoded, a response with a content length is complete exactly when its body has arrived, the
  body of a response is moved to the front of the buffer, and a URL is taken apart into what it was put
  together from.
\<close>

section \<open>Decoding what was encoded\<close>

definition rest :: "memory \<Rightarrow> u64 \<Rightarrow> nat \<Rightarrow> nat \<Rightarrow> u8 list" where
  "rest mem body end src = map (byte_at mem body) [src..<end]"

lemma rest_step:
  "rest mem body end src = c # ws \<longleftrightarrow> src < end \<and> byte_at mem body src = c \<and> rest mem body end (src + 1) = ws"
  by (cases "src < end") (auto simp: rest_def upt_conv_Cons)

lemma rest_append: "rest mem body end src = us @ ws \<Longrightarrow> rest mem body end (src + length us) = ws"
proof (induction us arbitrary: src)
  case (Cons u us)
  then show ?case
    using rest_step [of mem body "end" src u "us @ ws"] Cons.IH [of "Suc src"] by simp
qed simp

lemma rest_length: "length (rest mem body end src) = end - src"
  by (simp add: rest_def)

lemma rest_Nil: "rest mem body end src = [] \<longleftrightarrow> end \<le> src"
  by (auto simp: rest_def)

lemma scan_rest:
  "rest mem body end src = us @ ws \<Longrightarrow> \<forall>u\<in>set us. P u \<Longrightarrow> ws = [] \<or> \<not> P (hd ws) \<Longrightarrow>
   scan P mem body end src = src + length us"
proof (induction us arbitrary: src)
  case Nil
  then show ?case
    using rest_step [of mem body "end" src] rest_Nil [of mem body "end" src]
    by (subst scan.simps) (cases ws; auto)
next
  case (Cons u us)
  then show ?case
    using rest_step [of mem body "end" src u "us @ ws"] Cons.IH [of "src + 1"]
    by (subst scan.simps) simp
qed

lemma chunk_size_rest:
  "rest mem body end src = ds @ ws \<Longrightarrow> \<forall>d\<in>set ds. hex_val d \<noteq> None \<Longrightarrow> ws = [] \<or> hex_val (hd ws) = None \<Longrightarrow>
   chunk_size mem body end src sz digits =
     (src + length ds, foldl (\<lambda>s d. push_bit 4 s OR the (hex_val d)) sz ds, digits \<or> ds \<noteq> [])"
proof (induction ds arbitrary: src sz digits)
  case Nil
  then show ?case
    using rest_step [of mem body "end" src] rest_Nil [of mem body "end" src]
    by (subst chunk_size.simps) (cases ws; auto)
next
  case (Cons d ds)
  then show ?case
    using rest_step [of mem body "end" src d "ds @ ws"] Cons.IH [of "src + 1"]
    by (subst chunk_size.simps) auto
qed

lemma skip_char_rest: "rest mem body end src = c # ws \<Longrightarrow> skip_char c mem body end src = src + 1"
  by (simp add: rest_step skip_char_def)

text \<open>The number a run of hexadecimal digits denotes.\<close>

definition is_hex :: "u8 \<Rightarrow> bool" where
  "is_hex d \<longleftrightarrow> is_digit d \<or> 97 \<le> d \<and> d \<le> 102 \<or> 65 \<le> d \<and> d \<le> 70"

definition digit_of :: "u8 \<Rightarrow> nat" where
  "digit_of d = (if is_digit d then unat d - 48 else unat (to_lower d) - 87)"

definition hex_number :: "u8 list \<Rightarrow> nat" where
  "hex_number = foldl (\<lambda>n d. 16 * n + digit_of d) 0"

lemma hex_val_is_hex: "hex_val d \<noteq> None \<longleftrightarrow> is_hex d"
  by (auto simp: hex_val_def is_hex_def is_digit_def)

lemma hex_val_digit_of:
  assumes "is_hex d"
  shows "unat (the (hex_val d)) = digit_of d"
proof -
  have up: "unat (ucast x :: u32) = unat x" for x :: u8
    by (simp add: unat_ucast_up)
  have letter: "unat (d - k + 10) = unat d - unat k + 10" if "k \<le> d" "unat d - unat k \<le> 5" for k
    using that unat_sub_le [OF that(1)] by (subst unat_plus_no_wrap) simp_all
  consider "is_digit d" | "97 \<le> d" "d \<le> 102" "\<not> is_digit d" | "65 \<le> d" "d \<le> 70" "\<not> is_digit d"
    using assms by (auto simp: is_hex_def)
  then show ?thesis
  proof cases
    case 1
    then show ?thesis
      using unat_sub_le [of 48 d] by (simp add: is_digit_def hex_val_def digit_of_def up)
  next
    case 2
    then have "hex_val d = Some (ucast (d - 97 + 10))" "to_lower d = d"
      by (auto simp: is_digit_def hex_val_def to_lower_def word_le_nat_alt)
    then show ?thesis
      using 2 letter [of 97] by (simp add: digit_of_def up word_le_nat_alt)
  next
    case 3
    then have "hex_val d = Some (ucast (d - 65 + 10))" "to_lower d = d + 32" "unat (d + 32) = unat d + 32"
      by (auto simp: is_digit_def hex_val_def to_lower_def word_le_nat_alt unat_plus_no_wrap)
    then show ?thesis
      using 3 letter [of 65] by (simp add: digit_of_def up word_le_nat_alt)
  qed
qed

lemma hex_val_less: "hex_val d = Some v \<Longrightarrow> unat v < 16"
proof -
  assume v: "hex_val d = Some v"
  have "unat (d - 48) \<le> 9" if "48 \<le> d" "d \<le> 57"
    using that unat_sub_le [OF that(1)] by (simp add: word_le_nat_alt)
  moreover have "unat (d - 97 + 10) \<le> 15" if "97 \<le> d" "d \<le> 102"
  proof -
    have "unat (d - 97) \<le> 5"
      using that unat_sub_le [OF that(1)] by (simp add: word_le_nat_alt)
    then show ?thesis
      by (subst unat_plus_no_wrap) auto
  qed
  moreover have "unat (d - 65 + 10) \<le> 15" if "65 \<le> d" "d \<le> 70"
  proof -
    have "unat (d - 65) \<le> 5"
      using that unat_sub_le [OF that(1)] by (simp add: word_le_nat_alt)
    then show ?thesis
      by (subst unat_plus_no_wrap) auto
  qed
  moreover have "unat (ucast x :: u32) = unat x" for x :: u8
    by (simp add: unat_ucast_up)
  ultimately show ?thesis
    using v by (fastforce simp: hex_val_def split: if_splits)
qed

lemma push_bit_and_mask_0: "push_bit n w AND mask n = 0" for w :: "'a::len word"
  by (rule bit_word_eqI) (auto simp: bit_simps)

lemma hex_step: "unat v < 16 \<Longrightarrow> push_bit 4 s OR v = 16 * s + v" for s v :: u32
proof -
  assume "unat v < 16"
  then have "v = v AND mask 4"
    by (simp add: less_mask_eq word_less_nat_alt)
  then have "push_bit 4 s AND v = push_bit 4 s AND (v AND mask 4)"
    by simp
  also have "... = v AND (push_bit 4 s AND mask 4)"
    by (simp only: ac_simps)
  also have "... = 0"
    by (simp only: push_bit_and_mask_0 and_zero_eq)
  finally have "push_bit 4 s AND v = 0" .
  then have "push_bit 4 s OR v = push_bit 4 s + v"
    using word_plus_and_or [of "push_bit 4 s" v] by simp
  then show ?thesis
    by (simp add: push_bit_eq_mult mult.commute)
qed

lemma hex_fold:
  "\<forall>d\<in>set ds. hex_val d \<noteq> None \<Longrightarrow>
   foldl (\<lambda>s d. push_bit 4 s OR the (hex_val d)) (of_nat n) ds = (of_nat (foldl (\<lambda>n d. 16 * n + unat (the (hex_val d))) n ds) :: u32)"
proof (induction ds arbitrary: n)
  case (Cons d ds)
  then obtain v where "hex_val d = Some v"
    by auto
  then have "push_bit 4 (of_nat n) OR the (hex_val d) = (of_nat (16 * n + unat (the (hex_val d))) :: u32)"
    using hex_step [OF hex_val_less] by simp
  then show ?case
    using Cons.IH [of "16 * n + unat (the (hex_val d))"] Cons.prems by simp
qed simp

text \<open>A chunk: its size in hexadecimal, what else the line carries, and the data.\<close>

type_synonym chunk = "u8 list \<times> u8 list \<times> u8 list"

definition size_line :: "u8 list \<Rightarrow> u8 list \<Rightarrow> u8 list" where
  "size_line ds ext = ds @ ext @ [13, 10]"

definition line_ok :: "u8 list \<Rightarrow> u8 list \<Rightarrow> nat \<Rightarrow> bool" where
  "line_ok ds ext n \<longleftrightarrow> ds \<noteq> [] \<and> (\<forall>d\<in>set ds. is_hex d) \<and> hex_number ds = n \<and>
     (ext = [] \<or> \<not> is_hex (hd ext)) \<and> 10 \<notin> set ext"

definition chunk_text :: "chunk \<Rightarrow> u8 list" where
  "chunk_text = (\<lambda>(ds, ext, data). size_line ds ext @ data @ [13, 10])"

definition chunk_ok :: "chunk \<Rightarrow> bool" where
  "chunk_ok = (\<lambda>(ds, ext, data). line_ok ds ext (length data) \<and> data \<noteq> [])"

definition chunk_data :: "chunk \<Rightarrow> u8 list" where
  "chunk_data = (\<lambda>(ds, ext, data). data)"

lemma hex_not_blank: "hex_val d \<noteq> None \<Longrightarrow> \<not> is_blank d"
  by (auto simp: hex_val_def is_blank_def)

lemma chunk_header_rest:
  assumes "rest mem body end src = size_line ds ext @ ws" "line_ok ds ext n"
  shows "chunk_header mem body end src =
    (if (of_nat n :: u32) = 0 then None else Some (src + length (size_line ds ext), of_nat n))"
proof -
  have hex: "\<forall>d\<in>set ds. is_hex d"
    using assms(2) by (simp add: line_ok_def)
  have ds: "ds \<noteq> []" "\<forall>d\<in>set ds. hex_val d \<noteq> None" "hex_number ds = n" "ext = [] \<or> hex_val (hd ext) = None" "10 \<notin> set ext"
    using assms(2) by (simp_all only: line_ok_def hex_val_is_hex) (auto simp flip: hex_val_is_hex)
  then obtain d ds' where d: "ds = d # ds'" "hex_val d \<noteq> None"
    by (cases ds) auto
  have number: "foldl (\<lambda>n d. 16 * n + unat (the (hex_val d))) 0 ds = hex_number ds"
    unfolding hex_number_def using hex by (intro foldl_cong) (simp_all add: hex_val_digit_of)
  have r: "rest mem body end src = ds @ (ext @ [13]) @ 10 # ws"
    using assms(1) by (simp add: size_line_def)
  have "scan is_blank mem body end src = src"
    using scan_rest [of mem body "end" src "[]" "ds @ ext @ 13 # 10 # ws" is_blank] r d hex_not_blank [OF d(2)] by simp
  moreover have "src < end"
    using rest_length [of mem body "end" src] r d(1) by (cases "end - src") auto
  moreover have "chunk_size mem body end src 0 False = (src + length ds, of_nat n, True)"
    using chunk_size_rest [of mem body "end" src ds "ext @ 13 # 10 # ws" 0 False] hex_fold [OF ds(2), of 0] r ds number
    by (cases ext) (auto simp: hex_val_def)
  moreover have "scan (\<lambda>c. c \<noteq> 10) mem body end (src + length ds) = src + length ds + length (ext @ [13])"
    using ds(5) rest_append [OF r] by (intro scan_rest) auto
  moreover have "skip_char 10 mem body end (src + length ds + length (ext @ [13])) = src + length (size_line ds ext)"
    using rest_append [OF rest_append [OF r]] skip_char_rest by (simp add: size_line_def)
  ultimately show ?thesis
    by (simp add: chunk_header_def Let_def)
qed

lemma mem_range_bytes: "mem_range mem (body + of_nat a) n = map (byte_at mem body) [a..<a + n]"
  by (rule nth_equalityI) (simp_all add: mem_range_def byte_at_def add.assoc)

lemma byte_outside:
  "i < a \<or> a + n \<le> i \<Longrightarrow> i < 2 ^ 64 \<Longrightarrow> a + n \<le> 2 ^ 64 \<Longrightarrow>
   body + of_nat i \<notin> addr_range (body + of_nat a) n"
  by (auto simp: addr_range_def of_nat_u64_inject simp flip: of_nat_add)

lemma rest_cong: "(\<And>i. src \<le> i \<Longrightarrow> i < end \<Longrightarrow> byte_at mem' body i = byte_at mem body i) \<Longrightarrow>
  rest mem' body end src = rest mem body end src"
  by (simp add: rest_def)

lemmas bytes_cong = rest_cong [unfolded rest_def]

text \<open>One chunk: its data is moved down, what follows it is not touched.\<close>

lemma chunk_step:
  assumes r: "rest mem body end src = chunk_text c @ ws" and ok: "chunk_ok c" and dst: "dst \<le> src"
    and fits: "unat body + end \<le> 2 ^ 64" "end < 2 ^ 32"
  defines "n \<equiv> length (chunk_data c)"
  obtains mem' where "unchunk_loop body end mem src dst = unchunk_loop body end mem' (src + length (chunk_text c)) (dst + n)"
    "rest mem' body end (src + length (chunk_text c)) = ws"
    "map (byte_at mem' body) [dst..<dst + n] = chunk_data c"
    "\<And>a. a \<notin> addr_range (body + of_nat dst) n \<Longrightarrow> mem' a = mem a"
proof -
  obtain ds ext data where c: "c = (ds, ext, data)"
    by (cases c)
  have line: "line_ok ds ext (length data)" and data: "data \<noteq> []" "n = length data" "chunk_data c = data"
    using ok by (simp_all add: c chunk_ok_def chunk_data_def n_def)
  define src1 where "src1 = src + length (size_line ds ext)"
  define mem' where "mem' = memmove (body + of_nat dst) (body + of_nat src1) (of_nat n) mem"
  have r0: "rest mem body end src = size_line ds ext @ data @ 13 # 10 # ws"
    using r by (simp add: c chunk_text_def)
  have r1: "rest mem body end src1 = data @ 13 # 10 # ws" and r2: "rest mem body end (src1 + n) = 13 # 10 # ws"
    using rest_append [OF r0] rest_append [of mem body "end" src1 data] by (simp_all add: src1_def data)
  have len: "end - src1 = n + 2 + length ws"
    using rest_length [of mem body "end" src1] r1 by (simp add: data)
  then have bounds: "src < src1" "src1 + n < end" "n < 2 ^ 32" "n < 2 ^ 64" "0 < n"
    using fits(2) data by (simp_all add: src1_def size_line_def)
  have small0: "unat (of_nat n :: u32) = n" "unat (of_nat n :: u64) = n"
    using bounds by (simp_all add: unat_of_nat_small)
  moreover have "unat (ucast (of_nat n :: u32) :: u64) = n"
    using small0(1) by (simp add: unat_ucast_up)
  ultimately have small: "unat (of_nat n :: u32) = n" "unat (of_nat n :: u64) = n"
    "(ucast (of_nat n :: u32) :: u64) = of_nat n"
    by (simp_all only: word_unat_eq_iff)
  have at: "unat (body + of_nat i) = unat body + i" if "i < end" for i
    using unat_offset [OF fits(1)] that by simp
  have moved: "mem_range mem' (body + of_nat dst) n = mem_range mem (body + of_nat src1) n"
    and other: "a \<notin> addr_range (body + of_nat dst) n \<Longrightarrow> mem' a = mem a" for a
    unfolding mem'_def using memmove_range [of "body + of_nat dst" "of_nat n" "body + of_nat src1"]
      at [of dst] at [of src1] bounds dst fits by (simp_all add: small)
  have "[src1..<end] = [src1..<src1 + n] @ [src1 + n..<end]"
    using bounds upt_add_eq_append [of src1 "src1 + n" "end - (src1 + n)"] by simp
  then have "map (byte_at mem body) [src1..<src1 + n] = data"
    using r1 by (simp add: rest_def data append_eq_append_conv)
  then have copied: "map (byte_at mem' body) [dst..<dst + n] = chunk_data c"
    using moved by (simp add: mem_range_bytes data)
  have "byte_at mem' body i = byte_at mem body i" if "src1 + n \<le> i" "i < end" for i
    unfolding byte_at_def using that bounds dst fits by (intro other byte_outside) simp_all
  then have "rest mem' body end (src1 + n) = 13 # 10 # ws"
    using rest_cong [of "src1 + n" "end" mem' body mem] r2 by simp
  then have skip: "skip_char 13 mem' body end (src1 + n) = src1 + n + 1"
    "skip_char 10 mem' body end (src1 + n + 1) = src1 + n + 2" "rest mem' body end (src1 + n + 2) = ws"
    by (simp_all add: rest_step skip_char_def)
  have "(of_nat n :: u32) \<noteq> 0"
    using small bounds by (metis less_irrefl unat_0)
  then have head: "chunk_header mem body end src = Some (src1, of_nat n)"
    using chunk_header_rest [OF r0 line] by (simp add: data src1_def)
  have "\<not> (of_nat (end - src1) :: u32) < of_nat n"
  proof -
    have "unat (of_nat (end - src1) :: u32) = end - src1"
      using fits by (intro unat_of_nat_small) simp
    then show ?thesis
      using len by (simp only: word_less_nat_alt small)
  qed
  then have "unchunk_loop body end mem src dst = unchunk_loop body end mem' (src1 + n + 2) (dst + n)"
    using head bounds dst skip(1,2)
    by (subst unchunk_loop.simps) (simp add: Let_def small mem'_def [symmetric] del: of_nat_diff)
  moreover have "src + length (chunk_text c) = src1 + n + 2"
    by (simp add: src1_def c chunk_text_def data)
  ultimately show thesis
    using that skip(3) copied other by simp
qed

lemma unchunk_chunks:
  assumes "rest mem body end src = concat (map chunk_text cs) @ size_line zs ext @ ws" "line_ok zs ext 0"
    "\<forall>c\<in>set cs. chunk_ok c" "dst \<le> src" "unat body + end \<le> 2 ^ 64" "end < 2 ^ 32"
  defines "data \<equiv> concat (map chunk_data cs)"
  shows "\<exists>mem'. unchunk_loop body end mem src dst = (mem', dst + length data) \<and>
    map (byte_at mem' body) [dst..<dst + length data] = data \<and> dst + length data < end \<and>
    (\<forall>a. a \<notin> addr_range (body + of_nat dst) (length data) \<longrightarrow> mem' a = mem a)"
  using assms(1,3,4) unfolding data_def
proof (induction cs arbitrary: mem src dst)
  case Nil
  then have r: "rest mem body end src = size_line zs ext @ ws"
    by simp
  have "src < end"
    using rest_length [of mem body "end" src] r by (simp add: size_line_def)
  then show ?case
    using chunk_header_rest [OF r assms(2)] Nil.prems by (subst unchunk_loop.simps) simp
next
  case (Cons c cs)
  let ?n = "length (chunk_data c)" and ?rest = "concat (map chunk_data cs)"
  let ?src = "src + length (chunk_text c)"
  have r: "rest mem body end src = chunk_text c @ concat (map chunk_text cs) @ size_line zs ext @ ws" and ok: "chunk_ok c"
    using Cons.prems by simp_all
  obtain mem1 where loop: "unchunk_loop body end mem src dst = unchunk_loop body end mem1 ?src (dst + ?n)"
    and rest1: "rest mem1 body end ?src = concat (map chunk_text cs) @ size_line zs ext @ ws"
    and copied: "map (byte_at mem1 body) [dst..<dst + ?n] = chunk_data c"
    and same1: "\<And>a. a \<notin> addr_range (body + of_nat dst) ?n \<Longrightarrow> mem1 a = mem a"
    by (rule chunk_step [OF r ok Cons.prems(3) assms(5,6)]) (rule that)
  have "?n \<le> length (chunk_text c)"
    by (cases c) (simp add: chunk_data_def chunk_text_def)
  then have le: "dst + ?n \<le> ?src"
    using Cons.prems(3) by simp
  obtain mem2 where loop2: "unchunk_loop body end mem1 ?src (dst + ?n) = (mem2, dst + ?n + length ?rest)"
    and copied2: "map (byte_at mem2 body) [dst + ?n..<dst + ?n + length ?rest] = ?rest"
    and small: "dst + ?n + length ?rest < end"
    and same2: "\<And>a. a \<notin> addr_range (body + of_nat (dst + ?n)) (length ?rest) \<Longrightarrow> mem2 a = mem1 a"
    using Cons.IH [OF rest1 _ le] Cons.prems(2) by auto
  have "byte_at mem2 body i = byte_at mem1 body i" if "dst \<le> i" "i < dst + ?n" for i
    unfolding byte_at_def using that small assms(6) by (intro same2 byte_outside) simp_all
  then have first: "map (byte_at mem2 body) [dst..<dst + ?n] = chunk_data c"
    using copied bytes_cong [of dst "dst + ?n" mem2 body mem1] by simp
  have "addr_range (body + of_nat dst) (length (chunk_data c @ ?rest)) =
      addr_range (body + of_nat dst) ?n \<union> addr_range (body + of_nat (dst + ?n)) (length ?rest)"
    by (simp add: addr_range_append add.assoc)
  then have "\<forall>a. a \<notin> addr_range (body + of_nat dst) (length (chunk_data c @ ?rest)) \<longrightarrow> mem2 a = mem a"
    using same1 same2 by simp
  moreover have "map (byte_at mem2 body) [dst..<dst + length (chunk_data c @ ?rest)] = chunk_data c @ ?rest"
    using first copied2 upt_add_eq_append [of dst "dst + ?n" "length ?rest"] by (simp add: add.assoc)
  ultimately show ?case
    using loop loop2 small by (intro exI [of _ mem2]) (simp add: add.assoc)
qed

lemma http_unchunk_result:
  assumes "rest mem body (unat body_len) 0 = concat (map chunk_text cs) @ size_line zs ext @ trailer"
    "\<forall>c\<in>set cs. chunk_ok c" "line_ok zs ext 0"
    "body \<noteq> 0" "unat body + unat body_len \<le> 2 ^ 64"
  defines "data \<equiv> concat (map chunk_data cs)"
  shows "\<exists>mem'. http_unchunk body body_len mem = (of_nat (length data), mem') \<and>
    map (byte_at mem' body) [0..<Suc (length data)] = data @ [0] \<and> length data < unat body_len \<and>
    (\<forall>a. a \<notin> addr_range body (unat body_len) \<longrightarrow> mem' a = mem a)"
proof -
  have "unat body_len < 2 ^ 32"
    using unsigned_less [of body_len, where 'a = nat] by simp
  then obtain mem1 where loop: "unchunk_loop body (unat body_len) mem 0 0 = (mem1, length data)"
    and copied: "map (byte_at mem1 body) [0..<length data] = data" and small: "length data < unat body_len"
    and same: "\<forall>a. a \<notin> addr_range body (length data) \<longrightarrow> mem1 a = mem a"
    using unchunk_chunks [OF assms(1,3,2) _ assms(5)] by (auto simp: data_def)
  let ?mem = "mem1(body + of_nat (length data) := 0)"
  have n: "length data < 2 ^ 64"
    using small \<open>unat body_len < 2 ^ 32\<close> by simp
  have "body_len \<noteq> 0"
    using small by auto
  then have result: "http_unchunk body body_len mem = (of_nat (length data), ?mem)"
    using loop assms(4) by (simp add: http_unchunk_def)
  have "byte_at ?mem body i = byte_at mem1 body i" if "i < length data" for i
  proof -
    have "(of_nat i :: u64) \<noteq> of_nat (length data)"
      using that n of_nat_u64_inject [of i "length data"] by simp
    then show ?thesis
      by (simp add: byte_at_def)
  qed
  then have "map (byte_at ?mem body) [0..<length data] = data"
    using copied bytes_cong [of 0 "length data" ?mem body mem1] by simp
  then have bytes: "map (byte_at ?mem body) [0..<Suc (length data)] = data @ [0]"
    by (simp add: byte_at_def)
  have "?mem a = mem a" if "a \<notin> addr_range body (unat body_len)" for a
  proof -
    have "addr_range body (length data) \<subseteq> addr_range body (unat body_len)"
      using small by (auto simp: addr_range_def)
    moreover have "body + of_nat (length data) \<in> addr_range body (unat body_len)"
      using small by (auto simp: addr_range_def)
    ultimately show ?thesis
      using that same by auto
  qed
  then show ?thesis
    using result bytes small by blast
qed

text \<open>
  C31: A body in the chunked transfer encoding (chunks with sizes in hexadecimal of either case, with
  or without an extension, then the chunk of size zero and anything after it) is decoded in place:
  \<^verbatim>\<open>http_unchunk\<close> returns the number of bytes of the data, the buffer then holds the data followed by a
  terminator, and no byte outside the body changes.
\<close>

theorem http_unchunk_decodes:
  assumes "rest mem body (unat body_len) 0 = concat (map chunk_text cs) @ size_line zs ext @ trailer"
    "\<forall>c\<in>set cs. chunk_ok c" "line_ok zs ext 0"
    "body \<noteq> 0" "unat body + unat body_len \<le> 2 ^ 64"
  shows "let (len, mem') = http_unchunk body body_len mem; data = concat (map chunk_data cs) in
    unat len = length data \<and> mem_range mem' body (Suc (length data)) = data @ [0] \<and>
    (\<forall>a. a \<notin> addr_range body (unat body_len) \<longrightarrow> mem' a = mem a)"
proof -
  obtain mem' where "http_unchunk body body_len mem = (of_nat (length (concat (map chunk_data cs))), mem')"
    "map (byte_at mem' body) [0..<Suc (length (concat (map chunk_data cs)))] = concat (map chunk_data cs) @ [0]"
    "length (concat (map chunk_data cs)) < unat body_len"
    "\<forall>a. a \<notin> addr_range body (unat body_len) \<longrightarrow> mem' a = mem a"
    using http_unchunk_result [OF assms] by metis
  moreover from this(3) have "length (concat (map chunk_data cs)) < 2 ^ 32"
    using unsigned_less [of body_len, where 'a = nat] by simp
  ultimately show ?thesis
    using mem_range_bytes [of mem' body 0] by (simp add: Let_def unat_of_nat_small del: upt_Suc)
qed

text \<open>A text placed in an otherwise zero memory.\<close>

definition text_memory :: "u64 \<Rightarrow> u8 list \<Rightarrow> memory" where
  "text_memory p xs a = (if unat (a - p) < length xs then xs ! unat (a - p) else 0)"

lemma byte_at_text: "i < 2 ^ 64 \<Longrightarrow> byte_at (text_memory p xs) p i = (if i < length xs then xs ! i else 0)"
  by (simp add: byte_at_def text_memory_def unat_of_nat_small)

lemma rest_text: "length xs \<le> 2 ^ 64 \<Longrightarrow> rest (text_memory p xs) p (length xs) 0 = xs"
  unfolding rest_def by (rule nth_equalityI) (simp_all add: byte_at_text)

theorem http_unchunk_decodes_witness:
  "let body = lit ''4'' @ [13, 10] @ lit ''Wiki'' @ [13, 10] @ lit ''5;x'' @ [13, 10] @ lit ''pedia'' @ [13, 10] @ lit ''0'' @ [13, 10, 13, 10];
       (len, mem') = http_unchunk 0x1000 (of_nat (length body)) (text_memory 0x1000 body) in
   unat len = 9 \<and> mem_range mem' 0x1000 10 = lit ''Wikipedia'' @ [0]"
proof -
  let ?cs = "[(lit ''4'', [], lit ''Wiki''), (lit ''5'', lit '';x'', lit ''pedia'')]"
  let ?body = "concat (map chunk_text ?cs) @ size_line (lit ''0'') [] @ [13, 10]"
  have "let (len, mem') = http_unchunk 0x1000 (of_nat (length ?body)) (text_memory 0x1000 ?body); data = concat (map chunk_data ?cs) in
    unat len = length data \<and> mem_range mem' 0x1000 (Suc (length data)) = data @ [0] \<and>
    (\<forall>a. a \<notin> addr_range 0x1000 (unat (of_nat (length ?body) :: u32)) \<longrightarrow> mem' a = text_memory 0x1000 ?body a)"
  proof (rule http_unchunk_decodes)
    have len: "unat (of_nat (length ?body) :: u32) = length ?body"
      by (rule unat_of_nat_small) (simp add: chunk_text_def size_line_def lit_def)
    have le: "length ?body \<le> 2 ^ 64"
      by (simp add: chunk_text_def size_line_def lit_def)
    show "rest (text_memory 0x1000 ?body) 0x1000 (unat (of_nat (length ?body) :: u32)) 0 = ?body"
      unfolding len by (rule rest_text [OF le])
  qed (simp_all add: chunk_ok_def line_ok_def lit_def is_hex_def is_digit_def digit_of_def to_lower_def hex_number_def chunk_text_def size_line_def)
  then show ?thesis
    by (simp add: chunk_text_def size_line_def lit_def chunk_data_def Let_def split_beta eval_nat_numeral)
qed

section \<open>When a response is complete\<close>

text \<open>A header: lines, and the empty line at the end.\<close>

definition lines_text :: "u8 list list \<Rightarrow> u8 list" where
  "lines_text ls = concat (map (\<lambda>l. l @ [13, 10]) ls)"

definition field_ok :: "u8 list \<Rightarrow> bool" where
  "field_ok l \<longleftrightarrow> l \<noteq> [] \<and> 10 \<notin> set l \<and> 13 \<notin> set l"

definition has_name :: "u8 list \<Rightarrow> u8 list \<Rightarrow> bool" where
  "has_name name l \<longleftrightarrow> map to_lower (take (length name) l) = name"

lemma lines_text_simps [simp]:
  "lines_text [] = []" "lines_text (l # ls) = l @ [13, 10] @ lines_text ls"
  "lines_text (ls @ ls') = lines_text ls @ lines_text ls'"
  by (simp_all add: lines_text_def)

text \<open>A position behind a newline is the start of a line.\<close>

lemma line_start:
  assumes "\<forall>l\<in>set ls. field_ok l" "i < length (lines_text ls)" "i = 0 \<or> (lines_text ls @ ys) ! (i - 1) = 10"
  shows "\<exists>l\<in>set ls. \<exists>zs. drop i (lines_text ls @ ys) = l @ 13 # 10 # zs"
  using assms
proof (induction ls arbitrary: i)
  case (Cons l ls)
  let ?xs = "lines_text (l # ls) @ ys"
  consider "i = 0" | "0 < i" "i \<le> length l" | "i = length l + 1" | "length l + 2 \<le> i"
    by linarith
  then show ?case
  proof cases
    case 2
    then have "i - 1 < length l"
      by simp
    then have "?xs ! (i - 1) \<in> set l"
      by (simp add: nth_append)
    then show ?thesis
      using 2 Cons.prems by (auto simp: field_ok_def)
  next
    case 4
    define j where "j = i - (length l + 2)"
    have i: "i = j + (length l + 2)"
      using 4 by (simp add: j_def)
    have "j = 0 \<or> (lines_text ls @ ys) ! (j - 1) = 10"
      using Cons.prems(3) by (cases j) (simp_all add: i nth_append)
    then have "\<exists>l\<in>set ls. \<exists>zs. drop j (lines_text ls @ ys) = l @ 13 # 10 # zs"
      using Cons by (simp add: i)
    then show ?thesis
      by (simp add: i)
  qed (use Cons.prems in \<open>auto simp: nth_append\<close>)
qed simp

lemma to_lower_fixed: "c < 65 \<Longrightarrow> to_lower c = c"
  by (auto simp: to_lower_def)

lemma has_name_line:
  assumes "13 \<notin> set name"
  shows "has_name name (l @ 13 # zs) \<longleftrightarrow> has_name name l"
proof (cases "length name \<le> length l")
  case False
  have "\<not> has_name name (l @ 13 # zs)"
  proof
    assume "has_name name (l @ 13 # zs)"
    then have "name ! length l = to_lower 13"
      using False nth_map [of "length l" "take (length name) (l @ 13 # zs)" to_lower]
      by (simp add: has_name_def nth_append)
    then show False
      using assms False nth_mem [of "length l" name] by (simp add: to_lower_fixed)
  qed
  moreover have "\<not> has_name name l"
    using False by (auto simp: has_name_def dest: arg_cong [where f = length])
  ultimately show ?thesis
    by simp
qed (simp add: has_name_def)

lemma find_least: "P c \<Longrightarrow> c < n \<Longrightarrow> (\<And>i. i < c \<Longrightarrow> \<not> P i) \<Longrightarrow> List.find P [0..<n] = Some c"
  by (auto simp: find_Some_iff intro!: exI [of _ c])

lemma byte_at_rest: "rest mem buf end 0 = xs \<Longrightarrow> i < length xs \<Longrightarrow> byte_at mem buf i = xs ! i"
  using rest_length [of mem buf "end" 0] by (auto simp: rest_def)

lemma rest_drop: "rest mem buf end 0 = xs \<Longrightarrow> rest mem buf end i = drop i xs"
  by (auto simp: rest_def drop_map)

lemma rest_take: "rest mem buf end 0 = xs \<Longrightarrow> n \<le> length xs \<Longrightarrow> rest mem buf n 0 = take n xs"
  by (auto simp: rest_def take_map)

lemma name_at_rest:
  assumes "rest mem buf end 0 = xs" "i + length name \<le> length xs"
  shows "name_at name mem buf i \<longleftrightarrow> has_name name (drop i xs)"
proof -
  have "byte_at mem buf (i + k) = xs ! (i + k)" if "k < length name" for k
    using byte_at_rest [OF assms(1), of "i + k"] that assms(2) by simp
  then have "name_at name mem buf i \<longleftrightarrow> (\<forall>k<length name. to_lower (xs ! (i + k)) = name ! k)"
    by (simp add: name_at_def list_all_length)
  moreover have "has_name name (drop i xs) \<longleftrightarrow> (\<forall>k<length name. to_lower (xs ! (i + k)) = name ! k)"
    using assms(2) by (simp add: has_name_def list_eq_iff_nth_eq)
  ultimately show ?thesis
    by simp
qed

lemma digit_step: "is_digit d \<Longrightarrow> (of_nat v * 10 + ucast (d - 48) :: u32) = of_nat (v * 10 + (unat d - 48))"
proof -
  assume "is_digit d"
  then have "unat (d - 48) = unat d - 48"
    using unat_sub_le [of 48 d] by (simp add: is_digit_def)
  then have "(of_nat (unat d - 48) :: u32) = of_nat (unat (d - 48))"
    by (simp only:)
  also have "... = ucast (d - 48)"
    by simp
  finally show ?thesis
    by (simp only: of_nat_add of_nat_mult of_nat_numeral)
qed

lemma decimal_rest:
  "rest mem buf end p = ds @ ws \<Longrightarrow> \<forall>d\<in>set ds. is_digit d \<Longrightarrow> ws = [] \<or> \<not> is_digit (hd ws) \<Longrightarrow>
   decimal mem buf end p (of_nat v) found = (of_nat (dec_value v ds), found \<or> ds \<noteq> [])"
proof (induction ds arbitrary: p v found)
  case Nil
  then show ?case
    using rest_step [of mem buf "end" p] rest_Nil [of mem buf "end" p]
    by (subst decimal.simps) (cases ws; auto simp: dec_value_def)
next
  case (Cons d ds)
  then have d: "is_digit d"
    by simp
  then have "(of_nat v * 10 + ucast (d - 48) :: u32) = of_nat (v * 10 + (unat d - 48))"
    by (rule digit_step)
  then show ?case
    using Cons.prems rest_step [of mem buf "end" p d "ds @ ws"] Cons.IH [of "p + 1" "v * 10 + (unat d - 48)" True]
    by (subst decimal.simps) (simp add: dec_value_def)
qed

lemma nth_line_start:
  "drop i xs = l @ 13 # 10 # zs \<Longrightarrow> field_ok l \<Longrightarrow> xs ! i \<noteq> 13"
  by (cases l; cases "drop i xs") (auto simp: field_ok_def nth_via_drop)

lemma header_end_lines:
  assumes r: "rest mem buf end 0 = lines_text ls @ [13, 10] @ ys" and ok: "\<forall>l\<in>set ls. field_ok l" "ls \<noteq> []"
    and limit: "length (lines_text ls) + 2 \<le> limit"
  shows "header_end mem buf limit = length (lines_text ls) + 2"
proof -
  let ?xs = "lines_text ls @ [13, 10] @ ys" and ?n = "length (lines_text ls)"
  obtain ls' l where ls: "ls = ls' @ [l]"
    using ok(2) by (cases ls rule: rev_cases) auto
  define T where "T = lines_text ls' @ l"
  have T: "?xs = T @ 13 # 10 # 13 # 10 # ys" "?n = length T + 2"
    by (simp_all add: ls T_def)
  have bytes: "byte_at mem buf i = ?xs ! i" if "i < ?n + 2" for i
    using byte_at_rest [OF r, of i] that by simp
  have "List.find (\<lambda>i. byte_at mem buf i = 13 \<and> byte_at mem buf (i + 1) = 10 \<and>
      byte_at mem buf (i + 2) = 13 \<and> byte_at mem buf (i + 3) = 10) [0..<limit - 3] = Some (?n - 2)"
  proof (rule find_least)
    show "byte_at mem buf (?n - 2) = 13 \<and> byte_at mem buf (?n - 2 + 1) = 10 \<and>
      byte_at mem buf (?n - 2 + 2) = 13 \<and> byte_at mem buf (?n - 2 + 3) = 10"
      unfolding T(2) using bytes unfolding T by (simp add: nth_append)
    show "?n - 2 < limit - 3"
      using limit unfolding T(2) by simp
  next
    fix i
    assume i: "i < ?n - 2"
    show "\<not> (byte_at mem buf i = 13 \<and> byte_at mem buf (i + 1) = 10 \<and>
      byte_at mem buf (i + 2) = 13 \<and> byte_at mem buf (i + 3) = 10)"
    proof
      assume b: "byte_at mem buf i = 13 \<and> byte_at mem buf (i + 1) = 10 \<and>
        byte_at mem buf (i + 2) = 13 \<and> byte_at mem buf (i + 3) = 10"
      then have "?xs ! (i + 2 - 1) = 10" "?xs ! (i + 2) = 13"
        using bytes [of "i + 1"] bytes [of "i + 2"] i by simp_all
      then obtain l zs where "l \<in> set ls" "drop (i + 2) ?xs = l @ 13 # 10 # zs"
        using line_start [OF ok(1), of "i + 2"] i by fastforce
      then show False
        using nth_line_start [of "i + 2" ?xs l zs] ok(1) \<open>?xs ! (i + 2) = 13\<close> by blast
    qed
  qed
  then show ?thesis
    unfolding header_end_def using T(2) by simp
qed

lemma find_header_lines:
  assumes r: "rest mem buf end 0 = lines_text ls @ l @ 13 # ys" and ok: "\<forall>l\<in>set ls. field_ok l"
    and first: "\<forall>l\<in>set ls. \<not> has_name name l" and name: "has_name name l" "13 \<notin> set name"
    and limit: "length (lines_text ls) + length name < limit"
  shows "find_header name mem buf limit = Some (length (lines_text ls))"
  unfolding find_header_def
proof (rule find_least)
  let ?xs = "lines_text ls @ l @ 13 # ys" and ?n = "length (lines_text ls)"
  have len: "length name \<le> length l"
    using name(1) by (auto simp: has_name_def dest: arg_cong [where f = length])
  have "?n = 0 \<or> ?xs ! (?n - 1) = 10"
  proof (cases ls rule: rev_cases)
    case (snoc ls' k)
    then show ?thesis
      by (simp add: nth_append)
  qed simp
  moreover have "byte_at mem buf (?n - 1) = ?xs ! (?n - 1)"
    using byte_at_rest [OF r, of "?n - 1"] by simp
  moreover have "name_at name mem buf ?n"
    using name_at_rest [OF r, of ?n name] has_name_line [OF name(2)] name(1) len by simp
  ultimately show "(?n = 0 \<or> byte_at mem buf (?n - 1) = 10) \<and> name_at name mem buf ?n"
    by auto
  show "?n < limit - length name"
    using limit by simp
next
  let ?xs = "lines_text ls @ l @ 13 # ys" and ?n = "length (lines_text ls)"
  fix i
  assume i: "i < ?n"
  have len: "length name \<le> length l"
    using name(1) by (auto simp: has_name_def dest: arg_cong [where f = length])
  show "\<not> ((i = 0 \<or> byte_at mem buf (i - 1) = 10) \<and> name_at name mem buf i)"
  proof
    assume start: "(i = 0 \<or> byte_at mem buf (i - 1) = 10) \<and> name_at name mem buf i"
    then have "i = 0 \<or> ?xs ! (i - 1) = 10"
      using byte_at_rest [OF r, of "i - 1"] i by auto
    then obtain k zs where k: "k \<in> set ls" "drop i ?xs = k @ 13 # 10 # zs"
      using line_start [OF ok i, of "l @ 13 # ys"] by auto
    then show False
      using start name_at_rest [OF r, of i name] has_name_line [OF name(2)] first i len by simp
  qed
qed

text \<open>What \<^verbatim>\<open>check_http_response_complete\<close> computes for a response with a content length.\<close>

lemma complete_content_length:
  fixes ls1 ls2 field blanks ds body
  defines "line \<equiv> field @ blanks @ ds"
  defines "header \<equiv> lines_text (ls1 @ [line] @ ls2) @ [13, 10]"
  assumes r: "rest mem buf (unat total_rx) 0 = header @ body"
    and ok: "\<forall>l\<in>set (ls1 @ [line] @ ls2). field_ok l"
    and first: "\<forall>l\<in>set ls1. \<not> has_name (lit ''content-length:'') l"
    and field: "map to_lower field = lit ''content-length:''" and blanks: "\<forall>c\<in>set blanks. is_space c"
    and ds: "ds \<noteq> []" "\<forall>d\<in>set ds. is_digit d" and fits: "length header \<le> 8192"
  shows "check_http_response_complete mem buf total_rx \<longleftrightarrow>
    total_rx \<ge> of_nat (length header) + of_nat (dec_value 0 ds)"
proof -
  let ?cl = "lit ''content-length:''" and ?n = "length (lines_text ls1)" and ?h = "length header"
  have name: "length ?cl = 15" "13 \<notin> set ?cl" "length field = 15"
    using arg_cong [OF field, of length] by (simp_all add: lit_def)
  have total: "unat total_rx = ?h + length body"
    using arg_cong [OF r, of length] by (simp add: rest_length)
  have h: "?n + 15 < ?h" "4 \<le> ?h"
    using name(3) by (simp_all add: header_def line_def)
  have "header_end mem buf (if total_rx < 8192 then unat total_rx else 8192) = ?h"
    using header_end_lines [of mem buf "unat total_rx" "ls1 @ [line] @ ls2" body] r ok total fits
    by (simp add: header_def)
  moreover have "content_length mem buf ?h = (of_nat (dec_value 0 ds), True)"
  proof -
    define tail where "tail = 13 # 10 # lines_text ls2 @ [13, 10]"
    have hdr: "header = lines_text ls1 @ line @ tail"
      by (simp add: header_def tail_def)
    have "rest mem buf (unat total_rx) 0 = lines_text ls1 @ line @ 13 # (10 # lines_text ls2 @ [13, 10] @ body)"
      using r by (simp add: header_def)
    then have "find_header ?cl mem buf ?h = Some ?n"
      by (rule find_header_lines) (use h(1) ok first field name in \<open>auto simp: has_name_def line_def\<close>)
    moreover have r1: "rest mem buf ?h 0 = lines_text ls1 @ field @ blanks @ ds @ tail"
      using rest_take [OF r, of ?h] by (simp add: hdr line_def)
    have r2: "rest mem buf ?h (?n + 15) = blanks @ ds @ tail"
      using rest_drop [OF r1, of "?n + 15"] name(3) by simp
    moreover have "\<not> is_space (hd ds)"
      using ds by (cases ds) (auto simp: is_digit_def is_space_def)
    then have "scan is_space mem buf ?h (?n + 15) = ?n + 15 + length blanks"
      using scan_rest [OF r2 blanks] ds(1) by (simp add: hd_append)
    moreover have "decimal mem buf ?h (?n + 15 + length blanks) (of_nat 0) False = (of_nat (dec_value 0 ds), False \<or> ds \<noteq> [])"
      using ds(2) by (rule decimal_rest [OF rest_append [OF r2]]) (simp add: tail_def is_digit_def)
    ultimately show ?thesis
      using ds(1) by (simp add: content_length_def)
  qed
  moreover have "\<not> total_rx < 4"
    using total h(2) by (simp add: word_less_nat_alt)
  ultimately show ?thesis
    using h(2) by (auto simp: check_http_response_complete_def Let_def)
qed



text \<open>
  Without that bound the sum wraps: a content length of \<open>2^32 - 6\<close> makes the response complete as soon
  as its header has arrived.
\<close>

lemma content_length_wraps:
  "check_http_response_complete
     (text_memory 0x1000 (lit ''HTTP/1.1 200 OK'' @ [13, 10] @ lit ''Content-Length: 4294967290'' @ [13, 10, 13, 10]))
     0x1000 47"
proof -
  let ?field = "lit ''Content-Length:''" and ?ls = "[lit ''HTTP/1.1 200 OK'']" and ?ds = "lit ''4294967290''"
  let ?header = "lines_text (?ls @ [?field @ lit '' '' @ ?ds] @ []) @ [13, 10]"
  have "rest (text_memory 0x1000 ?header) 0x1000 (length ?header) 0 = ?header"
    by (rule rest_text) (simp add: lit_def)
  then have "rest (text_memory 0x1000 ?header) 0x1000 47 0 = ?header @ []"
    by (simp add: lit_def eval_nat_numeral)
  then have "check_http_response_complete (text_memory 0x1000 ?header) 0x1000 47 \<longleftrightarrow>
    (47 :: u32) \<ge> of_nat (length ?header) + of_nat (dec_value 0 ?ds)"
    by (intro complete_content_length)
      (simp_all add: lit_def field_ok_def has_name_def to_lower_def is_space_def is_digit_def)
  then show ?thesis
    by (simp add: lit_def dec_value_def)
qed

section \<open>The body of a response\<close>

lemma find_substr_skip: "n \<notin> set xs \<Longrightarrow> find_substr (xs @ ys) (n # ns) = find_substr ys (n # ns)"
  by (induction xs) auto

lemma find_body_lines:
  assumes "\<forall>l\<in>set ls. field_ok l" "ls \<noteq> []"
  shows "find_body (lines_text ls @ [13, 10] @ ys) = Some ys"
proof -
  have "find_substr (lines_text ls @ [13, 10] @ ys) [13, 10, 13, 10] = Some ([13, 10, 13, 10] @ ys)"
    using assms
  proof (induction ls)
    case (Cons l ls)
    have l: "find_substr (lines_text (l # ls) @ [13, 10] @ ys) [13, 10, 13, 10] =
        find_substr ([13, 10] @ lines_text ls @ [13, 10] @ ys) [13, 10, 13, 10]"
      using Cons.prems(1) find_substr_skip [of 13 l "[13, 10] @ lines_text ls @ [13, 10] @ ys"]
      by (simp add: field_ok_def)
    show ?case
    proof (cases ls)
      case (Cons k ks)
      then obtain c k' where "k = c # k'" "c \<noteq> 13"
        using \<open>\<forall>l\<in>set (_ # ls). field_ok l\<close> by (cases k) (auto simp: field_ok_def)
      then show ?thesis
        using l Cons Cons.IH Cons.prems by simp
    qed (use l in simp)
  qed simp
  then show ?thesis
    by (simp add: find_body_def)
qed

lemma c_text_header:
  assumes "rest mem buf n 0 = header @ body" "0 \<notin> set header"
  shows "c_text mem buf n = header @ takeWhile (\<lambda>c. c \<noteq> 0) body"
  using assms unfolding c_text_def rest_def by (simp only:) (subst takeWhile_append2; auto)

text \<open>The last step: the body moved to the front, with a terminator.\<close>

lemma moved_to_front:
  assumes "mem_range mem b n = data" "n < 2 ^ 32" "unat b + n \<le> 2 ^ 64" "unat p + n < 2 ^ 64" "len = of_nat n"
  shows "mem_range ((memmove p b (ucast (len :: u32)) mem)(p + ucast len := 0)) p (Suc n) = data @ [0]"
proof -
  have len: "(ucast len :: u64) = of_nat n" "unat (of_nat n :: u64) = n"
    using assms(2,5) by (simp_all add: word_unat_eq_iff unat_ucast_up unat_of_nat_small)
  have "mem_range (memmove p b (of_nat n) mem) p n = data"
    using memmove_range [of p "of_nat n" b] assms(1,3,4) len(2) by simp
  moreover have "p + of_nat i \<noteq> p + of_nat n" if "i < n" for i
    using that assms(2) of_nat_u64_inject [of i n] by simp
  ultimately show ?thesis
    unfolding len(1) by (auto simp: mem_range_def)
qed

text \<open>
  C33: The end of \<^verbatim>\<open>net_http_fetch_single\<close>: of a response that announces a chunked transfer encoding
  anywhere in its text, header and body are separated at the first empty line, the body is decoded, and
  the buffer holds the decoded data from its start, with a terminator; the number of its bytes is returned.
\<close>

theorem http_body_chunked:
  fixes out_buf :: u64
  assumes "rest mem out_buf (unat total_rx) 0 =
      lines_text ls @ [13, 10] @ concat (map chunk_text cs) @ size_line zs ext @ trailer"
    "ls \<noteq> []" "\<forall>l\<in>set ls. field_ok l \<and> 0 \<notin> set l" "says_chunked (c_text mem out_buf (unat total_rx))"
    "\<forall>c\<in>set cs. chunk_ok c" "line_ok zs ext 0" "unat out_buf + unat total_rx \<le> 2 ^ 64"
  shows "let (len, mem') = http_body out_buf total_rx mem; data = concat (map chunk_data cs) in
    unat len = length data \<and> mem_range mem' out_buf (Suc (length data)) = data @ [0]"
proof -
  let ?body = "concat (map chunk_text cs) @ size_line zs ext @ trailer" and ?data = "concat (map chunk_data cs)"
  define h where "h = length (lines_text ls) + 2"
  define b where "b = out_buf + of_nat h"
  define n where "n = total_rx - of_nat h"
  let ?text = "c_text mem out_buf (unat total_rx)"
  have total: "unat total_rx = h + length ?body" "unat total_rx < 2 ^ 32"
    using arg_cong [OF assms(1), of length] unsigned_less [of total_rx, where 'a = nat]
    by (simp_all add: rest_length h_def)
  have h: "0 < h" "h < 2 ^ 32" "h < unat total_rx"
    using total by (simp_all add: h_def size_line_def)
  then have hw: "unat (of_nat h :: u32) = h" "(ucast (of_nat h :: u32) :: u64) = of_nat h"
    by (simp_all add: word_unat_eq_iff unat_ucast_up unat_of_nat_small)
  have "0 \<notin> set (lines_text ls @ [13, 10])"
    using assms(3) by (auto simp: lines_text_def)
  then have text_eq: "?text = lines_text ls @ [13, 10] @ takeWhile (\<lambda>c. c \<noteq> 0) ?body"
    using c_text_header [of mem out_buf "unat total_rx" "lines_text ls @ [13, 10]" ?body] assms(1) by simp
  then have body: "find_body ?text = Some (takeWhile (\<lambda>c. c \<noteq> 0) ?body)"
    using find_body_lines assms(2,3) by simp
  have hdr: "length ?text - length (takeWhile (\<lambda>c. c \<noteq> 0) ?body) = h"
    by (simp add: text_eq h_def)
  have gt: "of_nat h < total_rx"
    using h(3) hw(1) by (simp add: word_less_nat_alt)
  then have n: "unat n = length ?body"
    using total hw(1) unat_sub_le [of "of_nat h" total_rx] by (simp add: n_def)
  have b: "unat b = unat out_buf + h" "b \<noteq> 0"
    using unat_offset [OF assms(7) h(3)] h(1) by (auto simp: b_def)
  have "rest mem b (unat n) 0 = ?body"
  proof -
    have "map (byte_at mem b) [0..<unat n] = mem_range mem (out_buf + of_nat h) (unat n)"
      by (simp add: mem_range_def byte_at_def b_def)
    also have "... = rest mem out_buf (unat total_rx) h"
      using total n by (simp add: mem_range_bytes rest_def)
    also have "... = ?body"
      using rest_drop [OF assms(1), of h] by (simp add: h_def)
    finally show ?thesis
      by (simp add: rest_def)
  qed
  moreover have "unat b + unat n \<le> 2 ^ 64"
    using assms(7) total b n by simp
  ultimately obtain mem1 where un: "http_unchunk b n mem = (of_nat (length ?data), mem1)"
    and bytes: "map (byte_at mem1 b) [0..<Suc (length ?data)] = ?data @ [0]" and small: "length ?data < unat n"
    using http_unchunk_result [OF _ assms(5,6) b(2)] by metis
  have "mem_range mem1 b (length ?data) = ?data"
    using bytes mem_range_bytes [of mem1 b 0 "length ?data"] by simp
  then have "mem_range ((memmove out_buf b (ucast (of_nat (length ?data) :: u32)) mem1)(out_buf + ucast (of_nat (length ?data) :: u32) := 0))
      out_buf (Suc (length ?data)) = ?data @ [0]"
    using small total b n assms(7) by (intro moved_to_front) simp_all
  moreover have "unat (of_nat (length ?data) :: u32) = length ?data"
    using small total n by (intro unat_of_nat_small) simp
  moreover have "http_body out_buf total_rx mem =
      (of_nat (length ?data), (memmove out_buf b (ucast (of_nat (length ?data) :: u32)) mem1)(out_buf + ucast (of_nat (length ?data) :: u32) := 0))"
    using body hdr gt assms(4) un hw(2) by (simp add: http_body_def Let_def b_def n_def)
  ultimately show ?thesis
    by (simp add: Let_def)
qed

theorem http_body_chunked_witness:
  "let response = lit ''HTTP/1.1 200 OK'' @ [13, 10] @ lit ''Transfer-Encoding: chunked'' @ [13, 10, 13, 10] @
         lit ''5'' @ [13, 10] @ lit ''hello'' @ [13, 10] @ lit ''0'' @ [13, 10, 13, 10];
       (len, mem') = http_body 0x1000 (of_nat (length response)) (text_memory 0x1000 response) in
   unat len = 5 \<and> mem_range mem' 0x1000 6 = lit ''hello'' @ [0]"
proof -
  let ?ls = "[lit ''HTTP/1.1 200 OK'', lit ''Transfer-Encoding: chunked'']" and ?cs = "[(lit ''5'', [], lit ''hello'')]"
  let ?text = "lines_text ?ls @ [13, 10] @ concat (map chunk_text ?cs) @ size_line (lit ''0'') [] @ [13, 10]"
  have len: "unat (of_nat (length ?text) :: u32) = length ?text"
    by (rule unat_of_nat_small) (simp add: chunk_text_def size_line_def lit_def)
  have rest: "rest (text_memory 0x1000 ?text) 0x1000 (unat (of_nat (length ?text) :: u32)) 0 = ?text"
    unfolding len by (rule rest_text) (simp add: chunk_text_def size_line_def lit_def)
  have "c_text (text_memory 0x1000 ?text) 0x1000 (unat (of_nat (length ?text) :: u32)) = ?text @ takeWhile (\<lambda>c. c \<noteq> 0) []"
    by (rule c_text_header) (use rest in \<open>simp_all add: chunk_text_def size_line_def lit_def\<close>)
  then have "says_chunked (c_text (text_memory 0x1000 ?text) 0x1000 (unat (of_nat (length ?text) :: u32)))"
    by (simp add: says_chunked_def chunk_text_def size_line_def lit_def find_case_header.simps to_lower_def is_space_def)
  then have "let (len, mem') = http_body 0x1000 (of_nat (length ?text)) (text_memory 0x1000 ?text); data = concat (map chunk_data ?cs) in
    unat len = length data \<and> mem_range mem' 0x1000 (Suc (length data)) = data @ [0]"
    by (intro http_body_chunked [OF rest])
      (simp_all add: field_ok_def chunk_ok_def line_ok_def lit_def is_hex_def is_digit_def digit_of_def to_lower_def hex_number_def chunk_text_def size_line_def)
  then show ?thesis
    by (simp add: chunk_text_def size_line_def lit_def chunk_data_def Let_def split_beta eval_nat_numeral)
qed

section \<open>URLs\<close>

definition url_text :: "bool \<Rightarrow> u8 list \<Rightarrow> u16 \<Rightarrow> u8 list \<Rightarrow> u8 list" where
  "url_text is_https host port path =
     lit (if is_https then ''https://'' else ''http://'') @ host @ [58] @ unsigned_text (ucast port) @ path"

lemma digits_fold:
  "\<forall>d\<in>set ds. is_digit d \<Longrightarrow>
   foldl (\<lambda>v d. v * 10 + ucast (d - 48)) (of_nat v) ds = (of_nat (dec_value v ds) :: u32)"
proof (induction ds arbitrary: v)
  case (Cons d ds)
  then show ?case
    using digit_step [of d v] Cons.IH [of "v * 10 + (unat d - 48)"] by (simp add: dec_value_def)
qed (simp add: dec_value_def)

lemma takeWhile_end: "\<forall>x\<in>set xs. P x \<Longrightarrow> ys = [] \<or> \<not> P (hd ys) \<Longrightarrow> takeWhile P (xs @ ys) = xs"
  by (cases ys) (simp_all add: takeWhile_tail)

lemma dropWhile_end: "\<forall>x\<in>set xs. P x \<Longrightarrow> ys = [] \<or> \<not> P (hd ys) \<Longrightarrow> dropWhile P (xs @ ys) = ys"
  by (cases ys) simp_all

text \<open>
  C34: \<^verbatim>\<open>parse_url\<close> inverts writing a URL: from scheme, host, port and path (with blanks in front) it gives
  back the same scheme, host, port and path, for every port but 0 and every host that fits its buffer.
\<close>

theorem parse_url_print:
  assumes "host \<noteq> []" "\<forall>c\<in>set host. c \<noteq> 58 \<and> c \<noteq> 47 \<and> c \<noteq> 32" "length host < unat host_sz" "4 \<le> host_sz"
    "port \<noteq> 0" "\<forall>c\<in>set blanks. is_space c"
  shows "parse_url (blanks @ url_text is_https host port (47 # path)) host_sz =
    Some \<lparr>url_https = is_https, url_had_scheme = True, url_host = host, url_port = port, url_path = 47 # path\<rparr>"
proof -
  let ?scheme = "lit (if is_https then ''https://'' else ''http://'')" and ?ds = "unsigned_text (ucast port)"
  let ?after = "58 # ?ds @ 47 # path"
  have "dropWhile is_space (blanks @ url_text is_https host port (47 # path)) = ?scheme @ host @ ?after"
    using assms(6) by (subst dropWhile_end) (simp_all add: url_text_def lit_def is_space_def)
  moreover have "parse_scheme (?scheme @ host @ ?after) = (is_https, True, host @ ?after)"
    by (simp add: parse_scheme_def lit_def Let_def)
  moreover have "takeWhile (\<lambda>c. c \<noteq> 58 \<and> c \<noteq> 47 \<and> c \<noteq> 32) (take (unat host_sz - 1) (host @ ?after)) = host"
    using assms(2,3) by (cases "unat host_sz - 1 - length host") (auto simp: takeWhile_tail)
  moreover have "parse_port is_https ?after = (port, 47 # path)"
  proof -
    have digits: "\<forall>d\<in>set ?ds. is_digit d"
      using unsigned_text(1) by (simp add: list_all_iff)
    have "unat port < 2 ^ 16" "unat port \<noteq> 0"
      using unsigned_less [of port, where 'a = nat] assms(5) by (simp_all add: unat_eq_zero)
    moreover have "dec_value 0 ?ds = unat port"
      by (simp add: unsigned_text(2) unat_ucast_up)
    then have "foldl (\<lambda>v d. v * 10 + ucast (d - 48)) (0 :: u32) ?ds = of_nat (unat port)"
      using digits_fold [OF digits, of 0] by simp
    moreover have "takeWhile is_digit (?ds @ 47 # path) = ?ds" "dropWhile is_digit (?ds @ 47 # path) = 47 # path"
      using digits by (simp_all add: takeWhile_end dropWhile_end is_digit_def)
    moreover have "(ucast (of_nat (unat port) :: u32) :: u16) = port"
      by (rule bit_word_eqI) (auto simp: bit_simps)
    ultimately show ?thesis
      by (simp add: parse_port_def peek_def Let_def word_less_nat_alt word_le_nat_alt unat_ucast_up)
  qed
  ultimately show ?thesis
    using assms(1,4) by (simp add: parse_url_def Let_def peek_def lit_def)
qed

theorem parse_url_print_witness:
  "parse_url (lit '' http://10.0.2.2:8080/index.html'') 64 =
     Some \<lparr>url_https = False, url_had_scheme = True, url_host = lit ''10.0.2.2'', url_port = 8080, url_path = lit ''/index.html''\<rparr>"
proof -
  have "unsigned_text (ucast (8080 :: u16)) = lit ''8080''"
    by (simp add: unsigned_text_def dec_digits.simps lit_def)
  then show ?thesis
    using parse_url_print [of "lit ''10.0.2.2''" 64 8080 "lit '' ''" False "lit ''index.html''"]
    by (simp add: lit_def url_text_def is_space_def)
qed

end
