(* ===== verification/Pci.thy ===== *)
theory Pci
  imports Lib_Mem
begin

text \<open>
  The PCI configuration space, \<^verbatim>\<open>pci.c\<close>, through its address and data ports, and the searches for a
  device over all buses, slots and functions.  The hardware is a record of what the I/O instructions do in
  a state \<^typ>\<open>'d\<close>; memory-mapped registers may also transfer data to and from memory.
\<close>

record 'd hardware =
  hw_inb :: "u16 \<Rightarrow> 'd \<Rightarrow> u8 \<times> 'd"
  hw_inw :: "u16 \<Rightarrow> 'd \<Rightarrow> u16 \<times> 'd"
  hw_inl :: "u16 \<Rightarrow> 'd \<Rightarrow> u32 \<times> 'd"
  hw_outb :: "u16 \<Rightarrow> u8 \<Rightarrow> 'd \<Rightarrow> 'd"
  hw_outw :: "u16 \<Rightarrow> u16 \<Rightarrow> 'd \<Rightarrow> 'd"
  hw_outl :: "u16 \<Rightarrow> u32 \<Rightarrow> 'd \<Rightarrow> 'd"
  hw_load :: "u64 \<Rightarrow> 'd \<times> memory \<Rightarrow> u32 \<times> 'd \<times> memory"
  hw_store :: "u64 \<Rightarrow> u32 \<Rightarrow> 'd \<times> memory \<Rightarrow> 'd \<times> memory"

definition PCI_CONFIG_ADDRESS_PORT :: u16 where "PCI_CONFIG_ADDRESS_PORT = 0xCF8"
definition PCI_CONFIG_DATA_PORT :: u16 where "PCI_CONFIG_DATA_PORT = 0xCFC"

record pci_device_info =
  pci_bus :: u8
  pci_slot :: u8
  pci_func :: u8
  vendor_id :: u16
  device_id :: u16
  class_code :: u8
  dev_subclass :: u8
  prog_if :: u8
  header_type :: u8
  bars :: "u32 list"

definition pci_address :: "u8 \<Rightarrow> u8 \<Rightarrow> u8 \<Rightarrow> u8 \<Rightarrow> u32" where
  "pci_address bus slot func offset =
     0x80000000 OR push_bit 16 (ucast bus) OR push_bit 11 (ucast slot) OR push_bit 8 (ucast func)
     OR ucast (offset AND 0xFC)"

definition pci_read_config_dword :: "'d hardware \<Rightarrow> u8 \<Rightarrow> u8 \<Rightarrow> u8 \<Rightarrow> u8 \<Rightarrow> 'd \<Rightarrow> u32 \<times> 'd" where
  "pci_read_config_dword hw bus slot func offset d =
     hw_inl hw PCI_CONFIG_DATA_PORT (hw_outl hw PCI_CONFIG_ADDRESS_PORT (pci_address bus slot func offset) d)"

definition pci_write_config_dword :: "'d hardware \<Rightarrow> u8 \<Rightarrow> u8 \<Rightarrow> u8 \<Rightarrow> u8 \<Rightarrow> u32 \<Rightarrow> 'd \<Rightarrow> 'd" where
  "pci_write_config_dword hw bus slot func offset value d =
     hw_outl hw PCI_CONFIG_DATA_PORT value
       (hw_outl hw PCI_CONFIG_ADDRESS_PORT (pci_address bus slot func offset) d)"

definition pci_write_config_word :: "'d hardware \<Rightarrow> u8 \<Rightarrow> u8 \<Rightarrow> u8 \<Rightarrow> u8 \<Rightarrow> u16 \<Rightarrow> 'd \<Rightarrow> 'd" where
  "pci_write_config_word hw bus slot func offset value d =
     hw_outw hw (PCI_CONFIG_DATA_PORT + ucast (offset AND 2)) value
       (hw_outl hw PCI_CONFIG_ADDRESS_PORT (pci_address bus slot func offset) d)"

definition pci_vendor_id :: "'d hardware \<Rightarrow> u8 \<Rightarrow> u8 \<Rightarrow> u8 \<Rightarrow> 'd \<Rightarrow> u16 \<times> 'd" where
  "pci_vendor_id hw bus slot func d =
     (let (id, d) = pci_read_config_dword hw bus slot func 0 d in (ucast (id AND 0xFFFF), d))"

text \<open>The six base address registers, in the order they are read.\<close>

fun read_bars :: "'d hardware \<Rightarrow> u8 \<Rightarrow> u8 \<Rightarrow> u8 \<Rightarrow> nat list \<Rightarrow> 'd \<Rightarrow> u32 list \<times> 'd" where
  "read_bars hw bus slot func [] d = ([], d)"
| "read_bars hw bus slot func (bar # rest) d =
     (let (v, d) = pci_read_config_dword hw bus slot func (0x10 + of_nat bar * 4) d;
          (vs, d) = read_bars hw bus slot func rest d in
      (v # vs, d))"

definition pci_fill_device_info :: "'d hardware \<Rightarrow> u8 \<Rightarrow> u8 \<Rightarrow> u8 \<Rightarrow> 'd \<Rightarrow> pci_device_info \<times> 'd" where
  "pci_fill_device_info hw bus slot func d =
     (let (idv, d) = pci_read_config_dword hw bus slot func 0 d;
          (class_reg, d) = pci_read_config_dword hw bus slot func 0x08 d;
          (header_reg, d) = pci_read_config_dword hw bus slot func 0x0C d;
          (bs, d) = read_bars hw bus slot func [0..<6] d in
      (\<lparr>pci_bus = bus, pci_slot = slot, pci_func = func,
        vendor_id = ucast (idv AND 0xFFFF), device_id = ucast (drop_bit 16 idv AND 0xFFFF),
        class_code = ucast (drop_bit 24 class_reg AND 0xFF), dev_subclass = ucast (drop_bit 16 class_reg AND 0xFF),
        prog_if = ucast (drop_bit 8 class_reg AND 0xFF), header_type = ucast (drop_bit 16 header_reg AND 0xFF),
        bars = bs\<rparr>, d))"

text \<open>
  The three searches have the same loops.  \<open>test\<close> is what a search does with a function that is present:
  further reads, and whether it is the one.  The loop over the functions of a slot stops at function 0
  when that is absent; the answer \<^term>\<open>Some (b, s, f)\<close> is the place of the device.
\<close>

type_synonym 'd pci_test = "u8 \<Rightarrow> u8 \<Rightarrow> u8 \<Rightarrow> u16 \<Rightarrow> 'd \<Rightarrow> bool \<times> 'd"

fun scan_funcs :: "'d hardware \<Rightarrow> 'd pci_test \<Rightarrow> u8 \<Rightarrow> u8 \<Rightarrow> nat list \<Rightarrow> 'd \<Rightarrow> (u8 \<times> u8 \<times> u8) option \<times> 'd" where
  "scan_funcs hw test bus slot [] d = (None, d)"
| "scan_funcs hw test bus slot (f # fs) d =
     (let func = of_nat f; (vendor, d) = pci_vendor_id hw bus slot func d in
      if vendor = 0xFFFF then
        (if func = 0 then (None, d) else scan_funcs hw test bus slot fs d)
      else
        let (found, d) = test bus slot func vendor d in
        if found then (Some (bus, slot, func), d) else scan_funcs hw test bus slot fs d)"

fun scan_slots :: "'d hardware \<Rightarrow> 'd pci_test \<Rightarrow> u8 \<Rightarrow> nat list \<Rightarrow> 'd \<Rightarrow> (u8 \<times> u8 \<times> u8) option \<times> 'd" where
  "scan_slots hw test bus [] d = (None, d)"
| "scan_slots hw test bus (s # ss) d =
     (case scan_funcs hw test bus (of_nat s) [0..<8] d of
        (Some p, d) \<Rightarrow> (Some p, d)
      | (None, d) \<Rightarrow> scan_slots hw test bus ss d)"

fun scan_buses :: "'d hardware \<Rightarrow> 'd pci_test \<Rightarrow> nat list \<Rightarrow> 'd \<Rightarrow> (u8 \<times> u8 \<times> u8) option \<times> 'd" where
  "scan_buses hw test [] d = (None, d)"
| "scan_buses hw test (b # bs) d =
     (case scan_slots hw test (of_nat b) [0..<32] d of
        (Some p, d) \<Rightarrow> (Some p, d)
      | (None, d) \<Rightarrow> scan_buses hw test bs d)"

definition pci_find :: "'d hardware \<Rightarrow> 'd pci_test \<Rightarrow> 'd \<Rightarrow> pci_device_info option \<times> 'd" where
  "pci_find hw test d =
     (case scan_buses hw test [0..<256] d of
        (None, d) \<Rightarrow> (None, d)
      | (Some (bus, slot, func), d) \<Rightarrow>
          let (info, d) = pci_fill_device_info hw bus slot func d in (Some info, d))"

definition pci_find_device_by_id :: "'d hardware \<Rightarrow> u16 \<Rightarrow> u16 \<Rightarrow> 'd \<Rightarrow> pci_device_info option \<times> 'd" where
  "pci_find_device_by_id hw vid did =
     pci_find hw (\<lambda>bus slot func vendor d.
       let (idv, d) = pci_read_config_dword hw bus slot func 0 d;
           device = (ucast (drop_bit 16 idv AND 0xFFFF) :: u16) in
       (vendor = vid \<and> device = did, d))"

definition pci_find_storage_controller :: "'d hardware \<Rightarrow> u8 \<Rightarrow> u8 \<Rightarrow> 'd \<Rightarrow> pci_device_info option \<times> 'd" where
  "pci_find_storage_controller hw subcl progif =
     pci_find hw (\<lambda>bus slot func vendor d.
       let (class_reg, d) = pci_read_config_dword hw bus slot func 0x08 d;
           cc = (ucast (drop_bit 24 class_reg AND 0xFF) :: u8);
           sub = (ucast (drop_bit 16 class_reg AND 0xFF) :: u8);
           pif = (ucast (drop_bit 8 class_reg AND 0xFF) :: u8) in
       (cc = 0x01 \<and> sub = subcl \<and> (progif = 0xFF \<or> pif = progif), d))"

definition pci_find_display_controller :: "'d hardware \<Rightarrow> u16 \<Rightarrow> 'd \<Rightarrow> pci_device_info option \<times> 'd" where
  "pci_find_display_controller hw vid =
     pci_find hw (\<lambda>bus slot func vendor d.
       let (class_reg, d) = pci_read_config_dword hw bus slot func 0x08 d;
           cc = (ucast (drop_bit 24 class_reg AND 0xFF) :: u8);
           sub = (ucast (drop_bit 16 class_reg AND 0xFF) :: u8) in
       (vendor = vid \<and> cc = 0x03 \<and> sub = 0x00, d))"

section \<open>The search against a configuration space\<close>

text \<open>
  Configuration mechanism 1: after an address is written to the address port, the data port returns the
  register of the configuration space at that address, and reading it changes nothing.
\<close>

definition config_space :: "'d hardware \<Rightarrow> (u32 \<Rightarrow> u32) \<Rightarrow> 'd set \<Rightarrow> bool" where
  "config_space hw cfg D \<longleftrightarrow>
     (\<forall>d\<in>D. \<forall>a. hw_outl hw PCI_CONFIG_ADDRESS_PORT a d \<in> D \<and>
        fst (hw_inl hw PCI_CONFIG_DATA_PORT (hw_outl hw PCI_CONFIG_ADDRESS_PORT a d)) = cfg a \<and>
        snd (hw_inl hw PCI_CONFIG_DATA_PORT (hw_outl hw PCI_CONFIG_ADDRESS_PORT a d)) \<in> D)"

definition vendor_at :: "(u32 \<Rightarrow> u32) \<Rightarrow> u8 \<times> u8 \<times> u8 \<Rightarrow> u16" where
  "vendor_at cfg = (\<lambda>(bus, slot, func). ucast (cfg (pci_address bus slot func 0) AND 0xFFFF))"

definition class_at :: "(u32 \<Rightarrow> u32) \<Rightarrow> u8 \<times> u8 \<times> u8 \<Rightarrow> u32" where
  "class_at cfg = (\<lambda>(bus, slot, func). cfg (pci_address bus slot func 8))"

text \<open>A function answers when it and function 0 of its slot are present.\<close>

definition answers :: "(u32 \<Rightarrow> u32) \<Rightarrow> u8 \<times> u8 \<times> u8 \<Rightarrow> bool" where
  "answers cfg = (\<lambda>(bus, slot, func). vendor_at cfg (bus, slot, 0) \<noteq> 0xFFFF \<and> vendor_at cfg (bus, slot, func) \<noteq> 0xFFFF)"

definition pci_places :: "(u8 \<times> u8 \<times> u8) list" where
  "pci_places = concat (map (\<lambda>b. concat (map (\<lambda>s. map (\<lambda>f. (of_nat b, of_nat s, of_nat f)) [0..<8]) [0..<32])) [0..<256])"

lemma pci_read:
  assumes "config_space hw cfg D" "d \<in> D"
  shows "\<exists>d'\<in>D. pci_read_config_dword hw bus slot func offset d = (cfg (pci_address bus slot func offset), d')"
  using assms unfolding config_space_def pci_read_config_dword_def by (metis prod.collapse)

lemma pci_vendor:
  assumes "config_space hw cfg D" "d \<in> D"
  shows "\<exists>d'\<in>D. pci_vendor_id hw bus slot func d = (vendor_at cfg (bus, slot, func), d')"
  using pci_read [OF assms, of bus slot func 0] by (auto simp: pci_vendor_id_def vendor_at_def)

text \<open>A test that only reads, and decides \<open>P\<close>.\<close>

definition decides :: "'d pci_test \<Rightarrow> (u8 \<times> u8 \<times> u8 \<Rightarrow> bool) \<Rightarrow> (u32 \<Rightarrow> u32) \<Rightarrow> 'd set \<Rightarrow> bool" where
  "decides test P cfg D \<longleftrightarrow>
     (\<forall>b s f. \<forall>d\<in>D. \<exists>d'\<in>D. test b s f (vendor_at cfg (b, s, f)) d = (P (b, s, f), d'))"

lemma scan_funcs_find:
  assumes c: "config_space hw cfg D" and t: "decides test P cfg D" and "d \<in> D" "sorted fs" "distinct fs" "\<forall>f\<in>set fs. f < 256"
    "vendor_at cfg (bus, slot, 0) \<noteq> 0xFFFF \<or> fs = [] \<or> hd fs = 0"
  shows "\<exists>d'\<in>D. scan_funcs hw test bus slot fs d =
    (List.find (\<lambda>p. answers cfg p \<and> P p) (map (\<lambda>f. (bus, slot, of_nat f)) fs), d')"
  using assms(3-)
proof (induction fs arbitrary: d)
  case (Cons f fs)
  obtain d1 where d1: "d1 \<in> D" "pci_vendor_id hw bus slot (of_nat f) d = (vendor_at cfg (bus, slot, of_nat f), d1)"
    using pci_vendor [OF c Cons.prems(1)] by blast
  have zero: "(of_nat f :: u8) = 0 \<longleftrightarrow> f = 0"
    using Cons.prems(4) by (auto simp: word_of_nat_eq_0_iff dest: dvd_imp_le)
  show ?case
  proof (cases "vendor_at cfg (bus, slot, of_nat f) = 0xFFFF")
    case True
    show ?thesis
    proof (cases "f = 0")
      case True
      then have "\<forall>g\<in>set fs. \<not> answers cfg (bus, slot, of_nat g)"
        using \<open>vendor_at cfg (bus, slot, of_nat f) = 0xFFFF\<close> by (simp add: answers_def)
      then have "List.find (\<lambda>p. answers cfg p \<and> P p) (map (\<lambda>f. (bus, slot, of_nat f)) (f # fs)) = None"
        using \<open>vendor_at cfg (bus, slot, of_nat f) = 0xFFFF\<close> by (auto simp: find_None_iff answers_def)
      then show ?thesis
        using d1 True \<open>vendor_at cfg (bus, slot, of_nat f) = 0xFFFF\<close> by (simp add: Let_def)
    next
      case False
      then show ?thesis
        using d1 True zero Cons.IH [OF d1(1)] Cons.prems by (auto simp: Let_def answers_def)
    qed
  next
    case False
    obtain d2 where d2: "d2 \<in> D" "test bus slot (of_nat f) (vendor_at cfg (bus, slot, of_nat f)) d1 = (P (bus, slot, of_nat f), d2)"
      using t d1(1) unfolding decides_def by blast
    have "vendor_at cfg (bus, slot, 0) \<noteq> 0xFFFF"
      using Cons.prems(5) False by auto
    then show ?thesis
      using d1 d2 False Cons.IH [OF d2(1)] Cons.prems by (auto simp: Let_def answers_def)
  qed
qed auto

lemma find_append: "List.find P (xs @ ys) = (case List.find P xs of None \<Rightarrow> List.find P ys | Some x \<Rightarrow> Some x)"
  by (induction xs) auto

lemma scan_slots_find:
  assumes "config_space hw cfg D" "decides test P cfg D" "d \<in> D"
  shows "\<exists>d'\<in>D. scan_slots hw test bus ss d =
    (List.find (\<lambda>p. answers cfg p \<and> P p) (concat (map (\<lambda>s. map (\<lambda>f. (bus, of_nat s, of_nat f)) [0..<8]) ss)), d')"
  using assms(3)
proof (induction ss arbitrary: d)
  case (Cons s ss)
  obtain d1 where "d1 \<in> D" "scan_funcs hw test bus (of_nat s) [0..<8] d =
      (List.find (\<lambda>p. answers cfg p \<and> P p) (map (\<lambda>f. (bus, of_nat s, of_nat f)) [0..<8]), d1)"
    using scan_funcs_find [OF assms(1,2) Cons.prems, of "[0..<8]" bus "of_nat s"] by auto
  then show ?case
    using Cons.IH [of d1] by (auto simp: find_append split: option.split)
qed auto

lemma scan_buses_find:
  assumes "config_space hw cfg D" "decides test P cfg D" "d \<in> D"
  shows "\<exists>d'\<in>D. scan_buses hw test bs d =
    (List.find (\<lambda>p. answers cfg p \<and> P p)
      (concat (map (\<lambda>b. concat (map (\<lambda>s. map (\<lambda>f. (of_nat b, of_nat s, of_nat f)) [0..<8]) [0..<32])) bs)), d')"
  using assms(3)
proof (induction bs arbitrary: d)
  case (Cons b bs)
  obtain d1 where "d1 \<in> D" "scan_slots hw test (of_nat b) [0..<32] d =
      (List.find (\<lambda>p. answers cfg p \<and> P p) (concat (map (\<lambda>s. map (\<lambda>f. (of_nat b, of_nat s, of_nat f)) [0..<8]) [0..<32])), d1)"
    using scan_slots_find [OF assms(1,2) Cons.prems, of "of_nat b" "[0..<32]"] by blast
  then show ?case
    using Cons.IH [of d1] by (auto simp: find_append split: option.split)
qed auto

text \<open>The record a search returns, as the configuration space has it.\<close>

definition info_at :: "(u32 \<Rightarrow> u32) \<Rightarrow> u8 \<times> u8 \<times> u8 \<Rightarrow> pci_device_info" where
  "info_at cfg = (\<lambda>(bus, slot, func).
     let reg = (\<lambda>offset. cfg (pci_address bus slot func offset)) in
     \<lparr>pci_bus = bus, pci_slot = slot, pci_func = func,
      vendor_id = ucast (reg 0 AND 0xFFFF), device_id = ucast (drop_bit 16 (reg 0) AND 0xFFFF),
      class_code = ucast (drop_bit 24 (reg 8) AND 0xFF), dev_subclass = ucast (drop_bit 16 (reg 8) AND 0xFF),
      prog_if = ucast (drop_bit 8 (reg 8) AND 0xFF), header_type = ucast (drop_bit 16 (reg 0x0C) AND 0xFF),
      bars = map reg [0x10, 0x14, 0x18, 0x1C, 0x20, 0x24]\<rparr>)"

lemma read_bars_at:
  assumes "config_space hw cfg D" "d \<in> D"
  shows "\<exists>d'\<in>D. read_bars hw bus slot func is d = (map (\<lambda>i. cfg (pci_address bus slot func (0x10 + of_nat i * 4))) is, d')"
  using assms(2)
proof (induction "is" arbitrary: d)
  case (Cons i "is")
  obtain d1 where "d1 \<in> D" "pci_read_config_dword hw bus slot func (0x10 + of_nat i * 4) d =
      (cfg (pci_address bus slot func (0x10 + of_nat i * 4)), d1)"
    using pci_read [OF assms(1) Cons.prems, of bus slot func "0x10 + of_nat i * 4"] by blast
  then show ?case
    using Cons.IH [of d1] by auto
qed auto

lemma pci_fill_at:
  assumes c: "config_space hw cfg D" and "d \<in> D"
  shows "\<exists>d'\<in>D. pci_fill_device_info hw bus slot func d = (info_at cfg (bus, slot, func), d')"
proof -
  obtain d1 where d1: "d1 \<in> D" "pci_read_config_dword hw bus slot func 0 d = (cfg (pci_address bus slot func 0), d1)"
    using pci_read [OF c assms(2)] by blast
  obtain d2 where d2: "d2 \<in> D" "pci_read_config_dword hw bus slot func 8 d1 = (cfg (pci_address bus slot func 8), d2)"
    using pci_read [OF c d1(1)] by blast
  obtain d3 where d3: "d3 \<in> D" "pci_read_config_dword hw bus slot func 0x0C d2 = (cfg (pci_address bus slot func 0x0C), d3)"
    using pci_read [OF c d2(1)] by blast
  have upt: "[0..<6] = [0, 1, 2, 3, 4, 5 :: nat]"
    by (simp add: upt_rec)
  obtain d4 where "d4 \<in> D" "read_bars hw bus slot func [0..<6] d3 =
      (map (\<lambda>i. cfg (pci_address bus slot func (0x10 + of_nat i * 4))) [0..<6], d4)"
    using read_bars_at [OF c d3(1)] by blast
  then show ?thesis
    using d1 d2 d3 by (simp add: pci_fill_device_info_def info_at_def Let_def upt)
qed

lemma pci_find_at:
  assumes c: "config_space hw cfg D" "decides test P cfg D" "d \<in> D"
  shows "fst (pci_find hw test d) = map_option (info_at cfg) (List.find (\<lambda>p. answers cfg p \<and> P p) pci_places)"
proof -
  obtain d1 where d1: "d1 \<in> D" "scan_buses hw test [0..<256] d = (List.find (\<lambda>p. answers cfg p \<and> P p) pci_places, d1)"
    using scan_buses_find [OF c] unfolding pci_places_def by blast
  show ?thesis
  proof (cases "List.find (\<lambda>p. answers cfg p \<and> P p) pci_places")
    case (Some p)
    obtain bus slot func where "p = (bus, slot, func)"
      by (cases p)
    moreover obtain d2 where "pci_fill_device_info hw bus slot func d1 = (info_at cfg (bus, slot, func), d2)"
      using pci_fill_at [OF c(1) d1(1)] by blast
    ultimately show ?thesis
      using d1(2) Some by (simp add: pci_find_def)
  qed (use d1(2) in \<open>simp add: pci_find_def\<close>)
qed

lemma decides_class:
  assumes "config_space hw cfg D"
  shows "decides (\<lambda>bus slot func vendor d. let (class_reg, d) = pci_read_config_dword hw bus slot func 8 d in (Q vendor class_reg, d))
    (\<lambda>p. Q (vendor_at cfg p) (class_at cfg p)) cfg D"
  unfolding decides_def
proof (intro allI ballI)
  fix b s f d
  assume "d \<in> D"
  then obtain d' where "d' \<in> D" "pci_read_config_dword hw b s f 8 d = (cfg (pci_address b s f 8), d')"
    using pci_read [OF assms] by blast
  then show "\<exists>d'\<in>D. (let (class_reg, d) = pci_read_config_dword hw b s f 8 d in (Q (vendor_at cfg (b, s, f)) class_reg, d)) =
      (Q (vendor_at cfg (b, s, f)) (class_at cfg (b, s, f)), d')"
    by (auto simp: class_at_def)
qed

text \<open>
  C35: On hardware with a configuration space the search for a storage controller is complete and finds
  the first one: it returns the record of the first function, in the order of bus, slot and function, that
  is present (its slot has a function 0) and has the class, subclass and programming interface asked for,
  and NULL when there is none.
\<close>

theorem pci_find_storage_controller_spec:
  assumes "config_space hw cfg D" "d \<in> D"
  shows "fst (pci_find_storage_controller hw subcl progif d) =
    map_option (info_at cfg)
      (List.find (\<lambda>p. answers cfg p \<and>
          (let info = info_at cfg p in
           class_code info = 1 \<and> dev_subclass info = subcl \<and> (progif = 0xFF \<or> prog_if info = progif))) pci_places)"
proof -
  let ?Q = "\<lambda>(vendor :: u16) class_reg. (ucast (drop_bit 24 class_reg AND 0xFF :: u32) :: u8) = 1 \<and>
    ucast (drop_bit 16 class_reg AND 0xFF) = subcl \<and> (progif = 0xFF \<or> ucast (drop_bit 8 class_reg AND 0xFF) = progif)"
  have "?Q (vendor_at cfg p) (class_at cfg p) =
    (let info = info_at cfg p in
     class_code info = 1 \<and> dev_subclass info = subcl \<and> (progif = 0xFF \<or> prog_if info = progif))" for p
    by (cases p) (simp add: class_at_def info_at_def Let_def)
  then show ?thesis
    using pci_find_at [OF assms(1) decides_class [OF assms(1), of ?Q] assms(2)]
    by (simp add: pci_find_storage_controller_def Let_def)
qed

text \<open>A machine whose data port answers from a table at the address last written.\<close>

definition table_hardware :: "(u32 \<Rightarrow> u32) \<Rightarrow> u32 hardware" where
  "table_hardware cfg =
     \<lparr>hw_inb = (\<lambda>p d. (0, d)), hw_inw = (\<lambda>p d. (0, d)), hw_inl = (\<lambda>p d. (cfg d, d)),
      hw_outb = (\<lambda>p v d. d), hw_outw = (\<lambda>p v d. d), hw_outl = (\<lambda>p v d. v),
      hw_load = (\<lambda>a s. (0, s)), hw_store = (\<lambda>a v s. s)\<rparr>"

lemma table_config_space: "config_space (table_hardware cfg) cfg UNIV"
  by (simp add: config_space_def table_hardware_def)

definition example_config :: "u32 \<Rightarrow> u32" where
  "example_config a =
     (if a = 0x80000000 then 0x12378086 else if a = 0x80000100 then 0x29228086
      else if a = 0x80000108 then 0x01060100 else if a = 0x80000124 then 0xFEBF1000 else 0xFFFFFFFF)"

lemma pci_places_first: "\<exists>ps. pci_places = (0, 0, 0) # (0, 0, 1) # ps"
proof -
  have "[0..<256] = 0 # [Suc 0..<256 :: nat]" "[0..<32] = 0 # [Suc 0..<32 :: nat]" "[0..<8] = 0 # Suc 0 # [Suc (Suc 0)..<8 :: nat]"
    by (subst upt_conv_Cons, simp, rule refl)+ (subst upt_conv_Cons, simp, subst upt_conv_Cons, simp, rule refl)
  note lists = this
  show ?thesis
    unfolding pci_places_def lists list.map concat.simps append_Cons
    by (simp only: semiring_1_class.of_nat_0 semiring_1_class.of_nat_1 One_nat_def [symmetric]) (rule exI, rule refl)
qed

theorem pci_find_storage_controller_spec_witness:
  "map_option (\<lambda>info. (pci_bus info, pci_slot info, pci_func info, bars info ! 5))
     (fst (pci_find_storage_controller (table_hardware example_config) 6 1 0)) = Some (0, 0, 1, 0xFEBF1000)"
proof -
  obtain ps where ps: "pci_places = (0, 0, 0) # (0, 0, 1) # ps"
    using pci_places_first by blast
  have found: "List.find (\<lambda>p. answers example_config p \<and> (let info = info_at example_config p in
      class_code info = 1 \<and> dev_subclass info = 6 \<and> ((1 :: u8) = 0xFF \<or> prog_if info = 1))) pci_places = Some (0, 0, 1)"
    by (simp add: ps answers_def vendor_at_def info_at_def pci_address_def example_config_def Let_def)
  show ?thesis
    using pci_find_storage_controller_spec [OF table_config_space, of 0 example_config 6 1]
    unfolding found by (simp add: info_at_def pci_address_def example_config_def Let_def)
qed

end
