(* ===== verification/Ahci.thy ===== *)
theory Ahci
  imports Pci Pmm
begin

text \<open>
  The AHCI driver, \<^verbatim>\<open>drivers/ahci.c\<close>: finding the controller and a disk, the structures a port works
  with, and the transfer of sectors through a DMA buffer of one page.  The controller is the hardware
  record: its registers are loaded and stored at their addresses, and it may change memory when they are.
  The command list, the command table and the DMA buffer lie in the byte memory, with the field offsets
  of the packed structures.  Registers that are read only to be logged are left out.
\<close>

definition ATA_CMD_READ_DMA_EXT :: u8 where "ATA_CMD_READ_DMA_EXT = 0x25"
definition ATA_CMD_WRITE_DMA_EXT :: u8 where "ATA_CMD_WRITE_DMA_EXT = 0x35"
definition SATA_SIG_ATA :: u32 where "SATA_SIG_ATA = 0x101"
definition FIS_TYPE_REG_H2D :: u8 where "FIS_TYPE_REG_H2D = 0x27"
definition STORAGE_SECTOR_SIZE :: u32 where "STORAGE_SECTOR_SIZE = 512"

text \<open>Offsets of the registers of a port, and of the controller.\<close>

definition PORT_CLB :: u64 where "PORT_CLB = 0x00"
definition PORT_CLBU :: u64 where "PORT_CLBU = 0x04"
definition PORT_FB :: u64 where "PORT_FB = 0x08"
definition PORT_FBU :: u64 where "PORT_FBU = 0x0C"
definition PORT_IS :: u64 where "PORT_IS = 0x10"
definition PORT_CMD :: u64 where "PORT_CMD = 0x18"
definition PORT_TFD :: u64 where "PORT_TFD = 0x20"
definition PORT_SIG :: u64 where "PORT_SIG = 0x24"
definition PORT_SSTS :: u64 where "PORT_SSTS = 0x28"
definition PORT_SERR :: u64 where "PORT_SERR = 0x30"
definition PORT_CI :: u64 where "PORT_CI = 0x38"
definition HBA_GHC :: u64 where "HBA_GHC = 0x04"
definition HBA_PI :: u64 where "HBA_PI = 0x0C"
definition HBA_CAP2 :: u64 where "HBA_CAP2 = 0x24"
definition HBA_BOHC :: u64 where "HBA_BOHC = 0x28"

definition hba_port :: "u64 \<Rightarrow> nat \<Rightarrow> u64" where
  "hba_port hba i = hba + 0x100 + of_nat i * 0x80"

record 'd ahci =
  ah_dev :: 'd
  ah_mem :: memory
  ah_pmm :: pmm
  g_ahci_active :: bool
  g_hba :: u64
  g_active_port :: u64
  g_active_port_idx :: u32
  g_ahci_page :: u64
  g_dma_buf :: u64

definition reg_load :: "'d hardware \<Rightarrow> u64 \<Rightarrow> 'd ahci \<Rightarrow> u32 \<times> 'd ahci" where
  "reg_load hw a st =
     (let (v, d, mem) = hw_load hw a (ah_dev st, ah_mem st) in (v, st\<lparr>ah_dev := d, ah_mem := mem\<rparr>))"

definition reg_store :: "'d hardware \<Rightarrow> u64 \<Rightarrow> u32 \<Rightarrow> 'd ahci \<Rightarrow> 'd ahci" where
  "reg_store hw a v st =
     (let (d, mem) = hw_store hw a v (ah_dev st, ah_mem st) in st\<lparr>ah_dev := d, ah_mem := mem\<rparr>)"

definition reg_update :: "'d hardware \<Rightarrow> u64 \<Rightarrow> (u32 \<Rightarrow> u32) \<Rightarrow> 'd ahci \<Rightarrow> 'd ahci" where
  "reg_update hw a f st = (let (v, st) = reg_load hw a st in reg_store hw a (f v) st)"

text \<open>A bounded wait until \<open>bits\<close> are clear.\<close>

fun wait_clear :: "'d hardware \<Rightarrow> u64 \<Rightarrow> u32 \<Rightarrow> nat \<Rightarrow> 'd ahci \<Rightarrow> 'd ahci" where
  "wait_clear hw a bits 0 st = st"
| "wait_clear hw a bits (Suc n) st =
     (let (v, st) = reg_load hw a st in
      if v AND bits = 0 then st else wait_clear hw a bits n st)"

definition poke16 :: "u64 \<Rightarrow> u16 \<Rightarrow> memory \<Rightarrow> memory" where
  "poke16 a v mem = mem(a := ucast v, a + 1 := ucast (drop_bit 8 v))"

definition poke32 :: "u64 \<Rightarrow> u32 \<Rightarrow> memory \<Rightarrow> memory" where
  "poke32 a v mem =
     mem(a := ucast v, a + 1 := ucast (drop_bit 8 v), a + 2 := ucast (drop_bit 16 v), a + 3 := ucast (drop_bit 24 v))"

definition peek32 :: "u64 \<Rightarrow> memory \<Rightarrow> u32" where
  "peek32 a mem =
     ucast (mem a) OR push_bit 8 (ucast (mem (a + 1))) OR push_bit 16 (ucast (mem (a + 2))) OR push_bit 24 (ucast (mem (a + 3)))"

definition upd_mem :: "(memory \<Rightarrow> memory) \<Rightarrow> 'd ahci \<Rightarrow> 'd ahci" where
  "upd_mem f st = st\<lparr>ah_mem := f (ah_mem st)\<rparr>"

definition ahci_stop_port :: "'d hardware \<Rightarrow> u64 \<Rightarrow> 'd ahci \<Rightarrow> 'd ahci" where
  "ahci_stop_port hw port st =
     (let st = reg_update hw (port + PORT_CMD) (\<lambda>v. v AND NOT 1) st;
          st = reg_update hw (port + PORT_CMD) (\<lambda>v. v AND NOT (push_bit 4 1)) st in
      wait_clear hw (port + PORT_CMD) (push_bit 14 1 OR push_bit 15 1) 100000 st)"

definition ahci_start_port :: "'d hardware \<Rightarrow> u64 \<Rightarrow> 'd ahci \<Rightarrow> 'd ahci" where
  "ahci_start_port hw port st =
     (let st = wait_clear hw (port + PORT_CMD) (push_bit 15 1) 100000 st;
          st = reg_update hw (port + PORT_CMD) (\<lambda>v. v OR push_bit 4 1) st in
      reg_update hw (port + PORT_CMD) (\<lambda>v. v OR 1) st)"

definition init_cmd_header :: "u64 \<Rightarrow> u64 \<Rightarrow> nat \<Rightarrow> memory \<Rightarrow> memory" where
  "init_cmd_header base_phys cmd_tbl_phys i mem =
     (let h = base_phys + of_nat i * 32 in
      poke32 (h + 12) (ucast (drop_bit 32 cmd_tbl_phys)) (poke32 (h + 8) (ucast cmd_tbl_phys) (poke16 (h + 2) 1 mem)))"

definition ahci_port_rebase :: "'d hardware \<Rightarrow> u64 \<Rightarrow> 'd ahci \<Rightarrow> 'd ahci" where
  "ahci_port_rebase hw port st =
     (let st = ahci_stop_port hw port st;
          base_phys = g_ahci_page st;
          st = reg_store hw (port + PORT_CLB) (ucast base_phys) st;
          st = reg_store hw (port + PORT_CLBU) (ucast (drop_bit 32 base_phys)) st;
          st = upd_mem (memset base_phys 0 1024) st;
          fis_phys = base_phys + 0x400;
          st = reg_store hw (port + PORT_FB) (ucast fis_phys) st;
          st = reg_store hw (port + PORT_FBU) (ucast (drop_bit 32 fis_phys)) st;
          st = upd_mem (memset fis_phys 0 256) st;
          cmd_tbl_phys = base_phys + 0x500;
          st = upd_mem (fold (init_cmd_header base_phys cmd_tbl_phys) [0..<32]) st;
          st = upd_mem (memset cmd_tbl_phys 0 256) st;
          st = reg_update hw (port + PORT_SERR) (\<lambda>v. v) st;
          st = reg_update hw (port + PORT_IS) (\<lambda>v. v) st in
      ahci_start_port hw port st)"

text \<open>The search among the implemented ports; the answer is whether a disk was found.\<close>

fun find_disk :: "'d hardware \<Rightarrow> u64 \<Rightarrow> u32 \<Rightarrow> nat list \<Rightarrow> 'd ahci \<Rightarrow> bool \<times> 'd ahci" where
  "find_disk hw hba pi [] st = (False, st)"
| "find_disk hw hba pi (i # rest) st =
     (if pi AND push_bit i 1 \<noteq> 0 then
        let port = hba_port hba i; (ssts, st) = reg_load hw (port + PORT_SSTS) st;
            ipm = drop_bit 8 ssts AND 0x0F; det = ssts AND 0x0F in
        if det = 3 \<and> ipm = 1 then
          let (sig, st) = reg_load hw (port + PORT_SIG) st in
          if sig = SATA_SIG_ATA then
            (True, (ahci_port_rebase hw port (st\<lparr>g_active_port := port, g_active_port_idx := of_nat i\<rparr>))\<lparr>g_ahci_active := True\<rparr>)
          else find_disk hw hba pi rest st
        else find_disk hw hba pi rest st
      else find_disk hw hba pi rest st)"

definition ahci_pages :: "'d ahci \<Rightarrow> 'd ahci" where
  "ahci_pages st =
     (let st = (if g_ahci_page st = 0 then
                  let (p, pm) = pmm_alloc_page (ah_pmm st) in st\<lparr>g_ahci_page := p, ah_pmm := pm\<rparr> else st) in
      if g_dma_buf st = 0 then
        let (p, pm) = pmm_alloc_page (ah_pmm st) in st\<lparr>g_dma_buf := p, ah_pmm := pm\<rparr>
      else st)"

definition ahci_init :: "'d hardware \<Rightarrow> 'd ahci \<Rightarrow> bool \<times> 'd ahci" where
  "ahci_init hw st =
     (let st = st\<lparr>g_ahci_active := False, g_hba := 0, g_active_port := 0\<rparr>;
          (info, d) = pci_find_storage_controller hw 0x06 0x01 (ah_dev st);
          st = st\<lparr>ah_dev := d\<rparr> in
      case info of
        None \<Rightarrow> (False, st)
      | Some pci \<Rightarrow>
          let (cmd, d) = pci_read_config_dword hw (pci_bus pci) (pci_slot pci) (pci_func pci) 0x04 (ah_dev st);
              cmd = cmd OR (push_bit 1 1 OR push_bit 2 1);
              d = pci_write_config_dword hw (pci_bus pci) (pci_slot pci) (pci_func pci) 0x04 cmd d;
              st = st\<lparr>ah_dev := d\<rparr>;
              abar_phys = ucast (bars pci ! 5) AND NOT 0xFFF in
          if abar_phys = 0 then (False, st)
          else
            let hba = abar_phys;
                st = st\<lparr>g_hba := hba\<rparr>;
                (cap2, st) = reg_load hw (hba + HBA_CAP2) st;
                st = (if cap2 AND 1 \<noteq> 0 then
                        wait_clear hw (hba + HBA_BOHC) 1 100000
                          (reg_update hw (hba + HBA_BOHC) (\<lambda>v. v OR push_bit 1 1) st)
                      else st);
                st = reg_update hw (hba + HBA_GHC) (\<lambda>v. v OR push_bit 31 1) st;
                st = ahci_pages st in
            if g_ahci_page st = 0 \<or> g_dma_buf st = 0 then (False, st)
            else
              let (pi, st) = reg_load hw (hba + HBA_PI) st in
              find_disk hw hba pi [0..<32] st)"

definition ahci_is_active :: "'d ahci \<Rightarrow> bool" where
  "ahci_is_active st = g_ahci_active st"

section \<open>Transfers\<close>

text \<open>The command header of slot 0, the physical region and the register FIS of a command.\<close>

definition build_command :: "u64 \<Rightarrow> u64 \<Rightarrow> bool \<Rightarrow> u32 \<Rightarrow> u8 \<Rightarrow> memory \<Rightarrow> memory" where
  "build_command base_phys dma_phys is_write lba count mem =
     (let mem = mem(base_phys := (mem base_phys AND NOT 0x1F) OR 5);
          mem = mem(base_phys := (mem base_phys AND NOT 0x40) OR (if is_write then 0x40 else 0));
          mem = poke16 (base_phys + 2) 1 mem;
          mem = poke32 (base_phys + 4) 0 mem;
          tbl = base_phys + 0x500;
          mem = memset tbl 0 144 mem;
          mem = poke32 (tbl + 128) (ucast dma_phys) mem;
          mem = poke32 (tbl + 132) (ucast (drop_bit 32 dma_phys)) mem;
          mem = poke32 (tbl + 140) ((peek32 (tbl + 140) mem AND NOT (mask 22)) OR
                  ((ucast count * STORAGE_SECTOR_SIZE - 1) AND mask 22)) mem;
          mem = poke32 (tbl + 140) (peek32 (tbl + 140) mem OR push_bit 31 1) mem in
      mem(tbl := FIS_TYPE_REG_H2D,
          tbl + 1 := (mem (tbl + 1) AND 0x7F) OR 0x80,
          tbl + 2 := (if is_write then ATA_CMD_WRITE_DMA_EXT else ATA_CMD_READ_DMA_EXT),
          tbl + 4 := ucast (lba AND 0xFF),
          tbl + 5 := ucast (drop_bit 8 lba AND 0xFF),
          tbl + 6 := ucast (drop_bit 16 lba AND 0xFF),
          tbl + 7 := push_bit 6 1,
          tbl + 8 := ucast (drop_bit 24 lba AND 0xFF),
          tbl + 9 := 0,
          tbl + 10 := 0,
          tbl + 12 := count AND 0xFF,
          tbl + 13 := drop_bit 8 count AND 0xFF))"

text \<open>Spinning until the command has completed; \<^const>\<open>False\<close> is a task file error meanwhile.\<close>

fun wait_command :: "'d hardware \<Rightarrow> u64 \<Rightarrow> nat \<Rightarrow> 'd ahci \<Rightarrow> bool \<times> 'd ahci" where
  "wait_command hw port 0 st = (True, st)"
| "wait_command hw port (Suc n) st =
     (let (ci, st) = reg_load hw (port + PORT_CI) st in
      if ci AND 1 = 0 then (True, st)
      else
        let (status, st) = reg_load hw (port + PORT_IS) st in
        if status AND push_bit 30 1 \<noteq> 0 then (False, st) else wait_command hw port n st)"

definition ahci_rw_sectors :: "'d hardware \<Rightarrow> u32 \<Rightarrow> u8 \<Rightarrow> u64 \<Rightarrow> bool \<Rightarrow> 'd ahci \<Rightarrow> bool \<times> 'd ahci" where
  "ahci_rw_sectors hw lba count buf is_write st =
     (if g_active_port st = 0 \<or> g_ahci_page st = 0 \<or> g_dma_buf st = 0 \<or> count = 0 then (False, st)
      else
        let port = g_active_port st;
            st = wait_clear hw (port + PORT_TFD) (0x80 OR 0x08) 100000 st;
            (tfd, st) = reg_load hw (port + PORT_TFD) st in
        if tfd AND (0x80 OR 0x08) \<noteq> 0 then (False, st)
        else
          let st = reg_update hw (port + PORT_IS) (\<lambda>v. v) st;
              st = upd_mem (build_command (g_ahci_page st) (g_dma_buf st) is_write lba count) st;
              len = ucast (ucast count * STORAGE_SECTOR_SIZE);
              st = (if is_write then upd_mem (memcpy (g_dma_buf st) buf len) st else st);
              st = reg_store hw (port + PORT_CI) 1 st;
              (ok, st) = wait_command hw port 1000000 st in
          if \<not> ok then (False, st)
          else
            let (ci, st) = reg_load hw (port + PORT_CI) st in
            if ci AND 1 \<noteq> 0 then (False, st)
            else
              let (status, st) = reg_load hw (port + PORT_IS) st in
              if status AND push_bit 30 1 \<noteq> 0 then (False, st)
              else
                (True, if is_write then st else upd_mem (memcpy buf (g_dma_buf st) len) st))"

text \<open>The loop of the two transfers: at most eight sectors, one page, at a time.\<close>

function ahci_chunks :: "'d hardware \<Rightarrow> u32 \<Rightarrow> u8 \<Rightarrow> u64 \<Rightarrow> bool \<Rightarrow> 'd ahci \<Rightarrow> bool \<times> 'd ahci" where
  "ahci_chunks hw cur_lba remaining buf is_write st =
     (if remaining > 0 then
        let chunk = (if remaining > 8 then 8 else remaining);
            (ok, st) = ahci_rw_sectors hw cur_lba chunk buf is_write st in
        if \<not> ok then (False, st)
        else ahci_chunks hw (cur_lba + ucast chunk) (remaining - chunk)
               (buf + ucast (ucast chunk * STORAGE_SECTOR_SIZE)) is_write st
      else (True, st))"
  by pat_completeness auto
termination
proof (relation "measure (\<lambda>(hw, cur_lba, remaining, buf, is_write, st). unat remaining)", goal_cases)
  case (2 hw cur_lba remaining buf is_write st chunk p ok st')
  have "chunk \<le> remaining" "0 < chunk"
    using 2 by (auto split: if_splits)
  then show ?case
    using unat_sub_le [of chunk remaining] by (simp add: word_less_nat_alt word_le_nat_alt)
qed simp

declare ahci_chunks.simps [simp del]

definition ahci_read_sectors :: "'d hardware \<Rightarrow> u32 \<Rightarrow> u8 \<Rightarrow> u64 \<Rightarrow> 'd ahci \<Rightarrow> bool \<times> 'd ahci" where
  "ahci_read_sectors hw lba sector_count buffer st = ahci_chunks hw lba sector_count buffer False st"

definition ahci_write_sectors :: "'d hardware \<Rightarrow> u32 \<Rightarrow> u8 \<Rightarrow> u64 \<Rightarrow> 'd ahci \<Rightarrow> bool \<times> 'd ahci" where
  "ahci_write_sectors hw lba sector_count buffer st = ahci_chunks hw lba sector_count buffer True st"

end
