(* ===== verification/Storage.thy ===== *)
theory Storage
  imports Ahci
begin

text \<open>
  Sector storage, \<^verbatim>\<open>storage.c\<close>, which uses the AHCI driver or programmed I/O on the legacy ATA ports, and
  the functions FatFs calls on it, \<^verbatim>\<open>diskio.c\<close>.  Device and memory are those of the AHCI state; the delay
  of \<^verbatim>\<open>io_wait\<close> has no counterpart.
\<close>

definition ATA_REG_DATA :: u16 where "ATA_REG_DATA = 0x1F0"
definition ATA_REG_SECTOR_COUNT :: u16 where "ATA_REG_SECTOR_COUNT = 0x1F2"
definition ATA_REG_LBA_LOW :: u16 where "ATA_REG_LBA_LOW = 0x1F3"
definition ATA_REG_LBA_MID :: u16 where "ATA_REG_LBA_MID = 0x1F4"
definition ATA_REG_LBA_HIGH :: u16 where "ATA_REG_LBA_HIGH = 0x1F5"
definition ATA_REG_DRIVE_HEAD :: u16 where "ATA_REG_DRIVE_HEAD = 0x1F6"
definition ATA_REG_STATUS :: u16 where "ATA_REG_STATUS = 0x1F7"
definition ATA_REG_COMMAND :: u16 where "ATA_REG_COMMAND = 0x1F7"
definition ATA_REG_ALT_STATUS :: u16 where "ATA_REG_ALT_STATUS = 0x3F6"
definition ATA_REG_DEVICE_CONTROL :: u16 where "ATA_REG_DEVICE_CONTROL = 0x3F6"
definition ATA_CMD_READ_SECTORS :: u8 where "ATA_CMD_READ_SECTORS = 0x20"
definition ATA_CMD_WRITE_SECTORS :: u8 where "ATA_CMD_WRITE_SECTORS = 0x30"
definition ATA_CMD_FLUSH :: u8 where "ATA_CMD_FLUSH = 0xE7"
definition ATA_DH_LBA_MASTER :: u8 where "ATA_DH_LBA_MASTER = 0xE0"
definition ATA_CTRL_NIEN :: u8 where "ATA_CTRL_NIEN = 0x02"
definition ATA_STATUS_ERR :: u8 where "ATA_STATUS_ERR = 0x01"
definition ATA_STATUS_DRQ :: u8 where "ATA_STATUS_DRQ = 0x08"
definition ATA_STATUS_DF :: u8 where "ATA_STATUS_DF = 0x20"
definition ATA_STATUS_DRDY :: u8 where "ATA_STATUS_DRDY = 0x40"
definition ATA_STATUS_BSY :: u8 where "ATA_STATUS_BSY = 0x80"

datatype storage_type = STORAGE_TYPE_NONE | STORAGE_TYPE_AHCI | STORAGE_TYPE_ATA_PIO

record 'd storage =
  st_ahci :: "'d ahci"
  g_storage_ready :: bool
  g_storage_type :: storage_type
  g_last_read_ok :: bool
  g_boot_signature_valid :: bool
  g_last_lba :: u32
  g_boot_sector :: u64
  g_fat_start_lba :: u32

section \<open>Programmed I/O\<close>

fun wait_not_busy :: "'d hardware \<Rightarrow> nat \<Rightarrow> 'd \<Rightarrow> bool \<times> 'd" where
  "wait_not_busy hw 0 d = (False, d)"
| "wait_not_busy hw (Suc n) d =
     (let (status, d) = hw_inb hw ATA_REG_ALT_STATUS d in
      if status AND ATA_STATUS_BSY = 0 then (True, d) else wait_not_busy hw n d)"

definition ata_wait_not_busy :: "'d hardware \<Rightarrow> 'd \<Rightarrow> bool \<times> 'd" where
  "ata_wait_not_busy hw = wait_not_busy hw 100000"

fun wait_drq :: "'d hardware \<Rightarrow> nat \<Rightarrow> 'd \<Rightarrow> bool \<times> 'd" where
  "wait_drq hw 0 d = (False, d)"
| "wait_drq hw (Suc n) d =
     (let (status, d) = hw_inb hw ATA_REG_STATUS d in
      if status AND (ATA_STATUS_ERR OR ATA_STATUS_DF) \<noteq> 0 then (False, d)
      else if status AND ATA_STATUS_BSY = 0 \<and> status AND ATA_STATUS_DRQ \<noteq> 0 then (True, d)
      else wait_drq hw n d)"

definition ata_wait_drq :: "'d hardware \<Rightarrow> 'd \<Rightarrow> bool \<times> 'd" where
  "ata_wait_drq hw = wait_drq hw 100000"

text \<open>The registers of a transfer, ended by its command.\<close>

definition ata_setup :: "'d hardware \<Rightarrow> u32 \<Rightarrow> u8 \<Rightarrow> u8 \<Rightarrow> 'd \<Rightarrow> 'd" where
  "ata_setup hw lba sector_count command d =
     (let d = hw_outb hw ATA_REG_DEVICE_CONTROL ATA_CTRL_NIEN d;
          d = hw_outb hw ATA_REG_DRIVE_HEAD (ucast (ucast ATA_DH_LBA_MASTER OR (drop_bit 24 lba AND 0x0F))) d;
          d = hw_outb hw ATA_REG_SECTOR_COUNT sector_count d;
          d = hw_outb hw ATA_REG_LBA_LOW (ucast (lba AND 0xFF)) d;
          d = hw_outb hw ATA_REG_LBA_MID (ucast (drop_bit 8 lba AND 0xFF)) d;
          d = hw_outb hw ATA_REG_LBA_HIGH (ucast (drop_bit 16 lba AND 0xFF)) d in
      hw_outb hw ATA_REG_COMMAND command d)"

text \<open>The words of one sector: \<open>words\<close> is the address of the sector in the caller's buffer.\<close>

definition read_word :: "'d hardware \<Rightarrow> u64 \<Rightarrow> nat \<Rightarrow> 'd \<times> memory \<Rightarrow> 'd \<times> memory" where
  "read_word hw words w = (\<lambda>(d, mem).
     let (v, d) = hw_inw hw ATA_REG_DATA d in (d, poke16 (words + 2 * of_nat w) v mem))"

definition write_word :: "'d hardware \<Rightarrow> u64 \<Rightarrow> memory \<Rightarrow> nat \<Rightarrow> 'd \<Rightarrow> 'd" where
  "write_word hw words mem w =
     hw_outw hw ATA_REG_DATA (ucast (mem (words + 2 * of_nat w)) OR push_bit 8 (ucast (mem (words + 2 * of_nat w + 1))))"

text \<open>The sectors one by one; the index of the sector the wait failed for, if one did.\<close>

fun read_sectors :: "'d hardware \<Rightarrow> u64 \<Rightarrow> nat list \<Rightarrow> 'd \<times> memory \<Rightarrow> nat option \<times> 'd \<times> memory" where
  "read_sectors hw buffer [] s = (None, s)"
| "read_sectors hw buffer (sector # rest) s =
     (let (ok, d) = ata_wait_drq hw (fst s) in
      if \<not> ok then (Some sector, d, snd s)
      else read_sectors hw buffer rest (fold (read_word hw (buffer + 512 * of_nat sector)) [0..<256] (d, snd s)))"

fun send_sectors :: "'d hardware \<Rightarrow> u64 \<Rightarrow> memory \<Rightarrow> nat list \<Rightarrow> 'd \<Rightarrow> bool \<times> 'd" where
  "send_sectors hw buffer mem [] d = (True, d)"
| "send_sectors hw buffer mem (sector # rest) d =
     (let (ok, d) = ata_wait_drq hw d in
      if \<not> ok then (False, d)
      else send_sectors hw buffer mem rest (fold (write_word hw (buffer + 512 * of_nat sector) mem) [0..<256] d))"

definition upd_dev :: "'d \<Rightarrow> 'd storage \<Rightarrow> 'd storage" where
  "upd_dev d st = st\<lparr>st_ahci := (st_ahci st)\<lparr>ah_dev := d\<rparr>\<rparr>"

definition ata_pio_read_sectors :: "'d hardware \<Rightarrow> u32 \<Rightarrow> u8 \<Rightarrow> u64 \<Rightarrow> 'd storage \<Rightarrow> bool \<times> 'd storage" where
  "ata_pio_read_sectors hw lba sector_count buffer st =
     (if sector_count = 0 \<or> buffer = 0 \<or> lba > 0x0FFFFFFF then (False, st\<lparr>g_last_read_ok := False\<rparr>)
      else
        let (ok, d) = ata_wait_not_busy hw (ah_dev (st_ahci st)) in
        if \<not> ok then (False, (upd_dev d st)\<lparr>g_last_read_ok := False\<rparr>)
        else
          let d = ata_setup hw lba sector_count ATA_CMD_READ_SECTORS d;
              (failed, d, mem) = read_sectors hw buffer [0..<unat sector_count] (d, ah_mem (st_ahci st));
              st = st\<lparr>st_ahci := (st_ahci st)\<lparr>ah_dev := d, ah_mem := mem\<rparr>\<rparr> in
          case failed of
            Some sector \<Rightarrow> (False, st\<lparr>g_last_read_ok := False, g_last_lba := lba + of_nat sector\<rparr>)
          | None \<Rightarrow> (True, st\<lparr>g_last_lba := lba + ucast sector_count - 1, g_last_read_ok := True\<rparr>))"

definition ata_pio_write_sectors :: "'d hardware \<Rightarrow> u32 \<Rightarrow> u8 \<Rightarrow> u64 \<Rightarrow> 'd storage \<Rightarrow> bool \<times> 'd storage" where
  "ata_pio_write_sectors hw lba sector_count buffer st =
     (if sector_count = 0 \<or> buffer = 0 \<or> lba > 0x0FFFFFFF then (False, st)
      else
        let (ok, d) = ata_wait_not_busy hw (ah_dev (st_ahci st)) in
        if \<not> ok then (False, upd_dev d st)
        else
          let d = ata_setup hw lba sector_count ATA_CMD_WRITE_SECTORS d;
              (ok, d) = send_sectors hw buffer (ah_mem (st_ahci st)) [0..<unat sector_count] d in
          if \<not> ok then (False, upd_dev d st)
          else
            let d = hw_outb hw ATA_REG_COMMAND ATA_CMD_FLUSH d;
                (ok, d) = ata_wait_not_busy hw d in
            (ok, upd_dev d st))"

section \<open>The storage interface\<close>

definition storage_read_sectors :: "'d hardware \<Rightarrow> u32 \<Rightarrow> u8 \<Rightarrow> u64 \<Rightarrow> 'd storage \<Rightarrow> bool \<times> 'd storage" where
  "storage_read_sectors hw lba sector_count buffer st =
     (case g_storage_type st of
        STORAGE_TYPE_AHCI \<Rightarrow>
          let (ok, ahci) = ahci_read_sectors hw lba sector_count buffer (st_ahci st);
              st = st\<lparr>st_ahci := ahci, g_last_read_ok := ok\<rparr> in
          (ok, if ok then st\<lparr>g_last_lba := lba + ucast sector_count - 1\<rparr> else st)
      | STORAGE_TYPE_ATA_PIO \<Rightarrow> ata_pio_read_sectors hw lba sector_count buffer st
      | STORAGE_TYPE_NONE \<Rightarrow> (False, st))"

definition storage_write_sectors :: "'d hardware \<Rightarrow> u32 \<Rightarrow> u8 \<Rightarrow> u64 \<Rightarrow> 'd storage \<Rightarrow> bool \<times> 'd storage" where
  "storage_write_sectors hw lba sector_count buffer st =
     (case g_storage_type st of
        STORAGE_TYPE_AHCI \<Rightarrow>
          let (ok, ahci) = ahci_write_sectors hw lba sector_count buffer (st_ahci st) in (ok, st\<lparr>st_ahci := ahci\<rparr>)
      | STORAGE_TYPE_ATA_PIO \<Rightarrow> ata_pio_write_sectors hw lba sector_count buffer st
      | STORAGE_TYPE_NONE \<Rightarrow> (False, st))"

definition boot_signature :: "'d storage \<Rightarrow> bool" where
  "boot_signature st \<longleftrightarrow>
     ah_mem (st_ahci st) (g_boot_sector st + 510) = 0x55 \<and> ah_mem (st_ahci st) (g_boot_sector st + 511) = 0xAA"

text \<open>The fallback to programmed I/O, the second half of \<^verbatim>\<open>storage_init\<close>.\<close>

definition storage_init_pio :: "'d hardware \<Rightarrow> 'd storage \<Rightarrow> 'd storage" where
  "storage_init_pio hw st =
     (let st = st\<lparr>g_storage_type := STORAGE_TYPE_ATA_PIO\<rparr>;
          d = hw_outb hw ATA_REG_DEVICE_CONTROL ATA_CTRL_NIEN (ah_dev (st_ahci st));
          d = hw_outb hw ATA_REG_DRIVE_HEAD ATA_DH_LBA_MASTER d;
          (status, d) = hw_inb hw ATA_REG_STATUS d in
      if status = 0x00 \<or> status = 0xFF then (upd_dev d st)\<lparr>g_storage_type := STORAGE_TYPE_NONE\<rparr>
      else
        let (ok, d) = (if status AND (ATA_STATUS_BSY OR ATA_STATUS_DRDY) = ATA_STATUS_BSY
                       then ata_wait_not_busy hw d else (True, d));
            st = upd_dev d st in
        if \<not> ok then st\<lparr>g_storage_type := STORAGE_TYPE_NONE\<rparr>
        else
          let (ok, st) = storage_read_sectors hw 0 1 (g_boot_sector st) st in
          if \<not> ok then st\<lparr>g_storage_type := STORAGE_TYPE_NONE\<rparr>
          else st\<lparr>g_boot_signature_valid := boot_signature st, g_storage_ready := True\<rparr>)"

definition storage_init :: "'d hardware \<Rightarrow> 'd storage \<Rightarrow> 'd storage" where
  "storage_init hw st =
     (let st = st\<lparr>g_storage_ready := False, g_last_read_ok := False, g_boot_signature_valid := False,
                  g_last_lba := 0, g_storage_type := STORAGE_TYPE_NONE\<rparr>;
          (found, ahci) = ahci_init hw (st_ahci st);
          st = st\<lparr>st_ahci := ahci\<rparr> in
      if found then
        let st = st\<lparr>g_storage_type := STORAGE_TYPE_AHCI\<rparr>;
            (ok, st) = storage_read_sectors hw 0 1 (g_boot_sector st) st in
        if ok then st\<lparr>g_boot_signature_valid := boot_signature st, g_storage_ready := True\<rparr>
        else storage_init_pio hw st
      else storage_init_pio hw st)"

section \<open>The disk interface of the file system\<close>

datatype dresult = RES_OK | RES_ERROR | RES_PARERR

definition STA_NOINIT :: u8 where "STA_NOINIT = 1"

definition disk_status :: "u8 \<Rightarrow> 'd storage \<Rightarrow> u8" where
  "disk_status pdrv st = (if pdrv \<noteq> 0 then STA_NOINIT else if g_storage_ready st then 0 else STA_NOINIT)"

definition disk_initialize :: "'d hardware \<Rightarrow> u8 \<Rightarrow> 'd storage \<Rightarrow> u8 \<times> 'd storage" where
  "disk_initialize hw pdrv st =
     (if pdrv \<noteq> 0 then (STA_NOINIT, st)
      else if g_storage_ready st then (0, st)
      else let st = storage_init hw st in (if g_storage_ready st then 0 else STA_NOINIT, st))"

text \<open>The loops of \<^verbatim>\<open>disk_read\<close> and \<^verbatim>\<open>disk_write\<close>; \<open>transfer\<close> is the storage function.\<close>

function disk_chunks :: "(u32 \<Rightarrow> u8 \<Rightarrow> u64 \<Rightarrow> 'd storage \<Rightarrow> bool \<times> 'd storage) \<Rightarrow> u32 \<Rightarrow> u32 \<Rightarrow> u64 \<Rightarrow> 'd storage \<Rightarrow> dresult \<times> 'd storage" where
  "disk_chunks transfer cur remaining ptr st =
     (if remaining > 0 then
        let chunk = (if remaining > 128 then 128 else remaining);
            (ok, st) = transfer (g_fat_start_lba st + cur) (ucast chunk) ptr st in
        if \<not> ok then (RES_ERROR, st)
        else disk_chunks transfer (cur + chunk) (remaining - chunk) (ptr + ucast (chunk * 512)) st
      else (RES_OK, st))"
  by pat_completeness auto
termination
proof (relation "measure (\<lambda>(transfer, cur, remaining, ptr, st). unat remaining)", goal_cases)
  case (2 transfer cur remaining ptr st chunk p ok st')
  have "chunk \<le> remaining" "0 < chunk"
    using 2 by (auto split: if_splits)
  then show ?case
    using unat_sub_le [of chunk remaining] by (simp add: word_less_nat_alt word_le_nat_alt)
qed simp

declare disk_chunks.simps [simp del]

definition disk_read :: "'d hardware \<Rightarrow> u8 \<Rightarrow> u64 \<Rightarrow> u32 \<Rightarrow> u32 \<Rightarrow> 'd storage \<Rightarrow> dresult \<times> 'd storage" where
  "disk_read hw pdrv buff sector count st =
     (if pdrv \<noteq> 0 \<or> count = 0 then (RES_PARERR, st)
      else disk_chunks (storage_read_sectors hw) sector count buff st)"

definition disk_write :: "'d hardware \<Rightarrow> u8 \<Rightarrow> u64 \<Rightarrow> u32 \<Rightarrow> u32 \<Rightarrow> 'd storage \<Rightarrow> dresult \<times> 'd storage" where
  "disk_write hw pdrv buff sector count st =
     (if pdrv \<noteq> 0 \<or> count = 0 then (RES_PARERR, st)
      else disk_chunks (storage_write_sectors hw) sector count buff st)"

definition disk_ioctl :: "u8 \<Rightarrow> u8 \<Rightarrow> u64 \<Rightarrow> memory \<Rightarrow> dresult \<times> memory" where
  "disk_ioctl pdrv cmd buff mem =
     (if pdrv \<noteq> 0 then (RES_PARERR, mem)
      else if cmd = 0 then (RES_OK, mem)
      else if cmd = 1 then (if buff = 0 then (RES_PARERR, mem) else (RES_OK, poke32 buff 131072 mem))
      else if cmd = 2 then (if buff = 0 then (RES_PARERR, mem) else (RES_OK, poke16 buff 512 mem))
      else if cmd = 3 then (if buff = 0 then (RES_PARERR, mem) else (RES_OK, poke32 buff 1 mem))
      else (RES_PARERR, mem))"

definition get_fattime :: u32 where
  "get_fattime = push_bit 25 (2026 - 1980) OR push_bit 21 6 OR push_bit 16 29"

end
