(* ===== verification/Vfs.thy ===== *)
theory Vfs
  imports Sockets Storage
begin

text \<open>
  The file layer, \<^verbatim>\<open>vfs.c\<close>: 32 handles for files, directories and sockets.  FatFs is a parameter: a
  record of its functions on a state \<^typ>\<open>'fs\<close> (the volume and its disk), with file and directory objects of types \<^typ>\<open>'fil\<close> and
  \<^typ>\<open>'dir\<close>; a result is an \<^verbatim>\<open>FRESULT\<close>, \<open>0\<close> when all is well.  A string is the list of its bytes, \<^const>\<open>None\<close>
  stands for a null pointer.  A call runs with interrupts off, a call to the sockets follows it; both are one step.
\<close>

record filinfo =
  fname :: "u8 list"
  fattrib :: u8
  fsize :: u32

record ('fs, 'fil, 'dir) fatfs =
  f_mount :: "'fs \<Rightarrow> u32 \<times> 'fs"
  f_open :: "u8 list \<Rightarrow> u8 \<Rightarrow> 'fs \<Rightarrow> u32 \<times> 'fil \<times> 'fs"
  f_opendir :: "u8 list \<Rightarrow> 'fs \<Rightarrow> u32 \<times> 'dir \<times> 'fs"
  f_read :: "'fil \<Rightarrow> u32 \<Rightarrow> 'fs \<Rightarrow> u32 \<times> u8 list \<times> 'fil \<times> 'fs"
  f_write :: "'fil \<Rightarrow> u8 list \<Rightarrow> 'fs \<Rightarrow> u32 \<times> u32 \<times> 'fil \<times> 'fs"
  f_lseek :: "'fil \<Rightarrow> u32 \<Rightarrow> 'fs \<Rightarrow> u32 \<times> 'fil \<times> 'fs"
  f_truncate :: "'fil \<Rightarrow> 'fs \<Rightarrow> u32 \<times> 'fil \<times> 'fs"
  f_sync :: "'fil \<Rightarrow> 'fs \<Rightarrow> u32 \<times> 'fil \<times> 'fs"
  f_close :: "'fil \<Rightarrow> 'fs \<Rightarrow> 'fs"
  f_tell :: "'fil \<Rightarrow> u32"
  f_size :: "'fil \<Rightarrow> u32"
  f_readdir :: "'dir \<Rightarrow> 'fs \<Rightarrow> u32 \<times> filinfo \<times> 'dir \<times> 'fs"
  f_closedir :: "'dir \<Rightarrow> 'fs \<Rightarrow> 'fs"
  f_stat :: "u8 list \<Rightarrow> 'fs \<Rightarrow> u32 \<times> filinfo \<times> 'fs"
  f_mkdir :: "u8 list \<Rightarrow> 'fs \<Rightarrow> u32 \<times> 'fs"
  f_unlink :: "u8 list \<Rightarrow> 'fs \<Rightarrow> u32 \<times> 'fs"
  f_rename :: "u8 list \<Rightarrow> u8 list \<Rightarrow> 'fs \<Rightarrow> u32 \<times> 'fs"

definition FR_OK :: u32 where "FR_OK = 0"
definition FA_READ :: u8 where "FA_READ = 0x01"
definition FA_WRITE :: u8 where "FA_WRITE = 0x02"
definition FA_OPEN_EXISTING :: u8 where "FA_OPEN_EXISTING = 0x00"
definition FA_CREATE_ALWAYS :: u8 where "FA_CREATE_ALWAYS = 0x08"
definition FA_OPEN_ALWAYS :: u8 where "FA_OPEN_ALWAYS = 0x10"
definition AM_DIR :: u8 where "AM_DIR = 0x10"

definition VFS_MODE_READ :: u8 where "VFS_MODE_READ = 0x01"
definition VFS_MODE_WRITE :: u8 where "VFS_MODE_WRITE = 0x02"
definition VFS_MODE_CREATE :: u8 where "VFS_MODE_CREATE = 0x04"
definition VFS_MODE_TRUNC :: u8 where "VFS_MODE_TRUNC = 0x08"
definition VFS_HANDLE_FILE :: u8 where "VFS_HANDLE_FILE = 0"
definition VFS_HANDLE_DIR :: u8 where "VFS_HANDLE_DIR = 1"
definition VFS_HANDLE_SOCKET :: u8 where "VFS_HANDLE_SOCKET = 2"
definition VFS_MAX_HANDLES :: nat where "VFS_MAX_HANDLES = 32"
definition VFS_BOOT_SECTORS :: u32 where "VFS_BOOT_SECTORS = 1"

record vfs_dirent =
  de_name :: "u8 list"
  de_is_dir :: bool
  de_size :: u32

record ('fil, 'dir) vfs_handle =
  h_in_use :: bool
  h_type :: u8
  h_fil :: 'fil
  h_dir :: 'dir
  h_socket_id :: int

record ('fs, 'fil, 'dir, 'l) vfs =
  g_vfs_ready :: bool
  g_fatfs :: 'fs
  g_handles :: "('fil, 'dir) vfs_handle list"
  vfs_net :: "'l net"

definition copy_string :: "u8 list \<Rightarrow> nat \<Rightarrow> u8 list" where
  "copy_string src capacity = take (capacity - 1) src"

section \<open>Mounting\<close>

definition is_fat_boot_sector :: "(nat \<Rightarrow> u8) \<Rightarrow> bool" where
  "is_fat_boot_sector b \<longleftrightarrow>
     b 0 = 0xEB \<and> b 2 = 0x90 \<and> b 510 = 0x55 \<and> b 511 = 0xAA \<and>
     (b 82 = 70 \<and> b 83 = 65 \<and> b 84 = 84 \<or> b 54 = 70 \<and> b 55 = 65 \<and> b 56 = 84)"

text \<open>\<open>sector_buf\<close> is the address of the buffer on the stack.\<close>

fun find_fat :: "'d hardware \<Rightarrow> u64 \<Rightarrow> nat list \<Rightarrow> 'd storage \<Rightarrow> u32 option \<times> 'd storage" where
  "find_fat hw sector_buf [] st = (None, st)"
| "find_fat hw sector_buf (lba # rest) st =
     (let (ok, st) = storage_read_sectors hw (of_nat lba) 1 sector_buf st in
      if ok \<and> is_fat_boot_sector (\<lambda>i. ah_mem (st_ahci st) (sector_buf + of_nat i))
      then (Some (of_nat lba), st) else find_fat hw sector_buf rest st)"

text \<open>FatFs reads and writes the disk through \<^verbatim>\<open>diskio.c\<close>, from \<open>g_fat_start_lba\<close> on: its state is the pair of its
  own and that of the storage layer, which \<open>vfs_init\<close> uses before it mounts the volume.\<close>

definition vfs_init ::
    "('fs \<times> 'd storage, 'fil, 'dir) fatfs \<Rightarrow> 'd hardware \<Rightarrow> u64 \<Rightarrow> ('fs \<times> 'd storage, 'fil, 'dir, 'l) vfs \<Rightarrow>
     ('fs \<times> 'd storage, 'fil, 'dir, 'l) vfs" where
  "vfs_init fat hw sector_buf st =
     (let (fs, disk) = g_fatfs st; disk = disk\<lparr>g_fat_start_lba := VFS_BOOT_SECTORS\<rparr>;
          st = st\<lparr>g_vfs_ready := False, g_fatfs := (fs, disk),
                  g_handles := map (\<lambda>h. h\<lparr>h_in_use := False\<rparr>) (g_handles st)\<rparr> in
      if \<not> g_storage_ready disk then st
      else
        let (found, disk) = find_fat hw sector_buf [400..<4000] disk in
        case found of
          None \<Rightarrow> st\<lparr>g_fatfs := (fs, disk)\<rparr>
        | Some lba \<Rightarrow>
            let (res, fs) = f_mount fat (fs, disk\<lparr>g_fat_start_lba := lba\<rparr>) in
            if res \<noteq> FR_OK then st\<lparr>g_fatfs := fs\<rparr>
            else
              let fs = snd (f_mkdir fat (lit ''/DESKTOP'') fs); fs = snd (f_mkdir fat (lit ''/RECYCLE'') fs) in
              st\<lparr>g_vfs_ready := True, g_fatfs := fs\<rparr>)"

section \<open>The handle table\<close>

definition handle :: "int \<Rightarrow> ('fs, 'fil, 'dir, 'l) vfs \<Rightarrow> ('fil, 'dir) vfs_handle" where
  "handle h st = g_handles st ! nat h"

definition upd_handle ::
    "int \<Rightarrow> (('fil, 'dir) vfs_handle \<Rightarrow> ('fil, 'dir) vfs_handle) \<Rightarrow> ('fs, 'fil, 'dir, 'l) vfs \<Rightarrow> ('fs, 'fil, 'dir, 'l) vfs" where
  "upd_handle h f st = st\<lparr>g_handles := (g_handles st)[nat h := f (handle h st)]\<rparr>"

definition handle_range :: "int \<Rightarrow> bool" where
  "handle_range h \<longleftrightarrow> 0 \<le> h \<and> h < int VFS_MAX_HANDLES"

definition allocate_handle :: "('fs, 'fil, 'dir, 'l) vfs \<Rightarrow> int \<times> ('fs, 'fil, 'dir, 'l) vfs" where
  "allocate_handle st =
     (case List.find (\<lambda>i. \<not> h_in_use (g_handles st ! i)) [0..<VFS_MAX_HANDLES] of
        None \<Rightarrow> (-1, st)
      | Some i \<Rightarrow>
          (int i, upd_handle (int i) (\<lambda>h. h\<lparr>h_in_use := True, h_type := VFS_HANDLE_FILE, h_socket_id := -1\<rparr>) st))"

definition vfs_create_socket_handle :: "int \<Rightarrow> ('fs, 'fil, 'dir, 'l) vfs \<Rightarrow> int \<times> ('fs, 'fil, 'dir, 'l) vfs" where
  "vfs_create_socket_handle socket_id st =
     (let (h, st) = allocate_handle st in
      if h < 0 then (-1, st)
      else (h, upd_handle h (\<lambda>k. k\<lparr>h_type := VFS_HANDLE_SOCKET, h_socket_id := socket_id\<rparr>) st))"

definition vfs_get_socket_id :: "int \<Rightarrow> ('fs, 'fil, 'dir, 'l) vfs \<Rightarrow> int" where
  "vfs_get_socket_id h st =
     (if \<not> handle_range h then -1
      else if \<not> h_in_use (handle h st) \<or> h_type (handle h st) \<noteq> VFS_HANDLE_SOCKET then -1
      else h_socket_id (handle h st))"

definition fat_mode :: "u8 \<Rightarrow> u8" where
  "fat_mode mode =
     (if mode AND VFS_MODE_READ \<noteq> 0 then FA_READ else 0) OR (if mode AND VFS_MODE_WRITE \<noteq> 0 then FA_WRITE else 0) OR
     (if mode AND VFS_MODE_CREATE \<noteq> 0
      then (if mode AND VFS_MODE_TRUNC \<noteq> 0 then FA_CREATE_ALWAYS else FA_OPEN_ALWAYS)
      else (if mode AND VFS_MODE_TRUNC \<noteq> 0 then FA_CREATE_ALWAYS else FA_OPEN_EXISTING))"

definition open_dir ::
    "('fs, 'fil, 'dir) fatfs \<Rightarrow> int \<Rightarrow> u8 list \<Rightarrow> ('fs, 'fil, 'dir, 'l) vfs \<Rightarrow> int \<times> ('fs, 'fil, 'dir, 'l) vfs" where
  "open_dir fat h path st =
     (let (res, dir, fs) = f_opendir fat path (g_fatfs st);
          st = upd_handle h (\<lambda>k. k\<lparr>h_dir := dir\<rparr>) (st\<lparr>g_fatfs := fs\<rparr>) in
      if res = FR_OK then (h, upd_handle h (\<lambda>k. k\<lparr>h_type := VFS_HANDLE_DIR\<rparr>) st)
      else (-1, upd_handle h (\<lambda>k. k\<lparr>h_in_use := False\<rparr>) st))"

definition vfs_open ::
    "('fs, 'fil, 'dir) fatfs \<Rightarrow> u8 list option \<Rightarrow> u8 \<Rightarrow> ('fs, 'fil, 'dir, 'l) vfs \<Rightarrow> int \<times> ('fs, 'fil, 'dir, 'l) vfs" where
  "vfs_open fat path mode st =
     (case path of
        None \<Rightarrow> (-1, st)
      | Some path \<Rightarrow>
          if \<not> g_vfs_ready st then (-1, st)
          else
            let (h, st) = allocate_handle st in
            if h < 0 then (-1, st)
            else if path = [47] then open_dir fat h path st
            else
              let (res, fil, fs) = f_open fat path (fat_mode mode) (g_fatfs st);
                  st = upd_handle h (\<lambda>k. k\<lparr>h_fil := fil\<rparr>) (st\<lparr>g_fatfs := fs\<rparr>) in
              if res = FR_OK then (h, upd_handle h (\<lambda>k. k\<lparr>h_type := VFS_HANDLE_FILE\<rparr>) st)
              else open_dir fat h path st)"

section \<open>Operations on a handle\<close>

text \<open>What every operation on an open file checks; \<^verbatim>\<open>h->in_use\<close> and \<^verbatim>\<open>h->type\<close>.\<close>

definition is_open :: "int \<Rightarrow> u8 \<Rightarrow> ('fs, 'fil, 'dir, 'l) vfs \<Rightarrow> bool" where
  "is_open h ty st \<longleftrightarrow> handle_range h \<and> h_in_use (handle h st) \<and> h_type (handle h st) = ty"

definition set_file :: "int \<Rightarrow> 'fil \<Rightarrow> 'fs \<Rightarrow> ('fs, 'fil, 'dir, 'l) vfs \<Rightarrow> ('fs, 'fil, 'dir, 'l) vfs" where
  "set_file h fil fs st = upd_handle h (\<lambda>k. k\<lparr>h_fil := fil\<rparr>) (st\<lparr>g_fatfs := fs\<rparr>)"

definition vfs_read ::
    "('fs, 'fil, 'dir) fatfs \<Rightarrow> 'l lwip_api \<Rightarrow> 'l net_poller \<Rightarrow> int \<Rightarrow> u64 \<Rightarrow> u32 \<Rightarrow> ('fs, 'fil, 'dir, 'l) vfs \<Rightarrow>
     (u32 \<times> ('fs, 'fil, 'dir, 'l) vfs) option" where
  "vfs_read fat api poll h buffer bytes st =
     (if \<not> g_vfs_ready st \<or> buffer = 0 \<or> bytes = 0 \<or> \<not> handle_range h then Some (0, st)
      else if is_open h VFS_HANDLE_SOCKET st then
        (case net_socket_recv api poll (h_socket_id (handle h st)) buffer bytes (vfs_net st) of
           None \<Rightarrow> None
         | Some (res, net) \<Rightarrow> Some (if res < 0 then 0 else of_int res, st\<lparr>vfs_net := net\<rparr>))
      else if is_open h VFS_HANDLE_FILE st then
        (let (res, data, fil, fs) = f_read fat (h_fil (handle h st)) bytes (g_fatfs st);
             mem = fold (\<lambda>i m. m(buffer + of_nat i := data ! i)) [0..<length data] (net_mem (vfs_net st));
             st = set_file h fil fs (st\<lparr>vfs_net := set_mem mem (vfs_net st)\<rparr>) in
         Some (if res = FR_OK then of_nat (length data) else 0, st))
      else Some (0, st))"

definition vfs_write ::
    "('fs, 'fil, 'dir) fatfs \<Rightarrow> 'l lwip_api \<Rightarrow> 'l net_poller \<Rightarrow> int \<Rightarrow> u64 \<Rightarrow> u32 \<Rightarrow> ('fs, 'fil, 'dir, 'l) vfs \<Rightarrow>
     (u32 \<times> ('fs, 'fil, 'dir, 'l) vfs) option" where
  "vfs_write fat api poll h buffer bytes st =
     (if \<not> g_vfs_ready st \<or> buffer = 0 \<or> bytes = 0 \<or> \<not> handle_range h then Some (0, st)
      else
        let data = mem_range (net_mem (vfs_net st)) buffer (unat bytes) in
        if is_open h VFS_HANDLE_SOCKET st then
          (case net_socket_send api poll (h_socket_id (handle h st)) (Some data) bytes (vfs_net st) of
             None \<Rightarrow> None
           | Some (res, net) \<Rightarrow> Some (if res < 0 then 0 else of_int res, st\<lparr>vfs_net := net\<rparr>))
        else if is_open h VFS_HANDLE_FILE st then
          (let (res, bw, fil, fs) = f_write fat (h_fil (handle h st)) data (g_fatfs st) in
           Some (if res = FR_OK then bw else 0, set_file h fil fs st))
        else Some (0, st))"

definition vfs_seek ::
    "('fs, 'fil, 'dir) fatfs \<Rightarrow> int \<Rightarrow> u32 \<Rightarrow> ('fs, 'fil, 'dir, 'l) vfs \<Rightarrow> int \<times> ('fs, 'fil, 'dir, 'l) vfs" where
  "vfs_seek fat h offset st =
     (if \<not> g_vfs_ready st \<or> \<not> is_open h VFS_HANDLE_FILE st then (-1, st)
      else
        let (res, fil, fs) = f_lseek fat (h_fil (handle h st)) offset (g_fatfs st) in
        (if res = FR_OK then 0 else -1, set_file h fil fs st))"

definition vfs_tell :: "('fs, 'fil, 'dir) fatfs \<Rightarrow> int \<Rightarrow> ('fs, 'fil, 'dir, 'l) vfs \<Rightarrow> u32" where
  "vfs_tell fat h st =
     (if \<not> g_vfs_ready st \<or> \<not> is_open h VFS_HANDLE_FILE st then 0 else f_tell fat (h_fil (handle h st)))"

definition vfs_size :: "('fs, 'fil, 'dir) fatfs \<Rightarrow> int \<Rightarrow> ('fs, 'fil, 'dir, 'l) vfs \<Rightarrow> u32" where
  "vfs_size fat h st =
     (if \<not> g_vfs_ready st \<or> \<not> is_open h VFS_HANDLE_FILE st then 0 else f_size fat (h_fil (handle h st)))"

definition dirent_of :: "filinfo \<Rightarrow> vfs_dirent" where
  "dirent_of fno =
     \<lparr>de_name = copy_string (fname fno) 24, de_is_dir = (fattrib fno AND AM_DIR \<noteq> 0), de_size = fsize fno\<rparr>"

text \<open>The entry at the out pointer, where the call writes one.\<close>

definition vfs_readdir ::
    "('fs, 'fil, 'dir) fatfs \<Rightarrow> int \<Rightarrow> vfs_dirent option \<Rightarrow> ('fs, 'fil, 'dir, 'l) vfs \<Rightarrow>
     int \<times> vfs_dirent option \<times> ('fs, 'fil, 'dir, 'l) vfs" where
  "vfs_readdir fat h out_entry st =
     (if \<not> g_vfs_ready st \<or> out_entry = None \<or> \<not> is_open h VFS_HANDLE_DIR st then (-1, out_entry, st)
      else
        let (res, fno, dir, fs) = f_readdir fat (h_dir (handle h st)) (g_fatfs st);
            st = upd_handle h (\<lambda>k. k\<lparr>h_dir := dir\<rparr>) (st\<lparr>g_fatfs := fs\<rparr>) in
        if res \<noteq> FR_OK \<or> fname fno = [] then (0, out_entry, st)
        else (1, Some (dirent_of fno), st))"

definition vfs_close ::
    "('fs, 'fil, 'dir) fatfs \<Rightarrow> 'l lwip_api \<Rightarrow> int \<Rightarrow> ('fs, 'fil, 'dir, 'l) vfs \<Rightarrow> ('fs, 'fil, 'dir, 'l) vfs option" where
  "vfs_close fat api h st =
     (if \<not> handle_range h \<or> \<not> h_in_use (handle h st) then Some st
      else
        let k = handle h st;
            free = upd_handle h (\<lambda>k. k\<lparr>h_in_use := False, h_type := VFS_HANDLE_FILE, h_socket_id := -1\<rparr>) in
        if h_type k = VFS_HANDLE_SOCKET then
          map_option (\<lambda>net. (free st)\<lparr>vfs_net := net\<rparr>) (net_socket_close api (h_socket_id k) (vfs_net st))
        else if h_type k = VFS_HANDLE_DIR then Some (free (st\<lparr>g_fatfs := f_closedir fat (h_dir k) (g_fatfs st)\<rparr>))
        else Some (free (st\<lparr>g_fatfs := f_close fat (h_fil k) (g_fatfs st)\<rparr>)))"

definition vfs_get_handle_type :: "int \<Rightarrow> ('fs, 'fil, 'dir, 'l) vfs \<Rightarrow> int" where
  "vfs_get_handle_type h st =
     (if \<not> handle_range h \<or> \<not> h_in_use (handle h st) then -1 else uint (h_type (handle h st)))"

definition vfs_fstat ::
    "('fs, 'fil, 'dir) fatfs \<Rightarrow> int \<Rightarrow> vfs_dirent option \<Rightarrow> ('fs, 'fil, 'dir, 'l) vfs \<Rightarrow> int \<times> vfs_dirent option" where
  "vfs_fstat fat h out_stat st =
     (if \<not> g_vfs_ready st \<or> out_stat = None \<or> \<not> handle_range h \<or> \<not> h_in_use (handle h st) then (-1, out_stat)
      else
        let k = handle h st in
        (0, Some (if h_type k = VFS_HANDLE_DIR then \<lparr>de_name = [], de_is_dir = True, de_size = 0\<rparr>
                  else if h_type k = VFS_HANDLE_SOCKET then \<lparr>de_name = [], de_is_dir = False, de_size = 0\<rparr>
                  else \<lparr>de_name = [], de_is_dir = False, de_size = f_size fat (h_fil k)\<rparr>)))"

definition vfs_truncate ::
    "('fs, 'fil, 'dir) fatfs \<Rightarrow> int \<Rightarrow> u32 \<Rightarrow> ('fs, 'fil, 'dir, 'l) vfs \<Rightarrow> int \<times> ('fs, 'fil, 'dir, 'l) vfs" where
  "vfs_truncate fat h len st =
     (if \<not> g_vfs_ready st \<or> \<not> is_open h VFS_HANDLE_FILE st then (-1, st)
      else
        let (res, fil, fs) = f_lseek fat (h_fil (handle h st)) len (g_fatfs st); st = set_file h fil fs st in
        if res \<noteq> FR_OK then (-1, st)
        else
          let (res, fil, fs) = f_truncate fat (h_fil (handle h st)) (g_fatfs st) in
          (if res \<noteq> FR_OK then -1 else 0, set_file h fil fs st))"

definition vfs_sync ::
    "('fs, 'fil, 'dir) fatfs \<Rightarrow> int \<Rightarrow> ('fs, 'fil, 'dir, 'l) vfs \<Rightarrow> int \<times> ('fs, 'fil, 'dir, 'l) vfs" where
  "vfs_sync fat h st =
     (if \<not> g_vfs_ready st \<or> \<not> is_open h VFS_HANDLE_FILE st then (-1, st)
      else
        let (res, fil, fs) = f_sync fat (h_fil (handle h st)) (g_fatfs st) in
        (if res = FR_OK then 0 else -1, set_file h fil fs st))"

section \<open>Operations on a path\<close>

definition vfs_stat ::
    "('fs, 'fil, 'dir) fatfs \<Rightarrow> u8 list option \<Rightarrow> vfs_dirent option \<Rightarrow> ('fs, 'fil, 'dir, 'l) vfs \<Rightarrow>
     int \<times> vfs_dirent option \<times> ('fs, 'fil, 'dir, 'l) vfs" where
  "vfs_stat fat path out_stat st =
     (if \<not> g_vfs_ready st \<or> path = None \<or> out_stat = None then (-1, out_stat, st)
      else
        let (res, fno, fs) = f_stat fat (the path) (g_fatfs st); st = st\<lparr>g_fatfs := fs\<rparr> in
        if res \<noteq> FR_OK then (-1, out_stat, st) else (0, Some (dirent_of fno), st))"

text \<open>\<^verbatim>\<open>vfs_mkdir\<close>, \<^verbatim>\<open>vfs_unlink\<close> and \<^verbatim>\<open>vfs_rename\<close> hand the call on and return 0 or -1.\<close>

definition on_paths ::
    "('fs \<Rightarrow> u32 \<times> 'fs) \<Rightarrow> bool \<Rightarrow> ('fs, 'fil, 'dir, 'l) vfs \<Rightarrow> int \<times> ('fs, 'fil, 'dir, 'l) vfs" where
  "on_paths f paths st =
     (if \<not> g_vfs_ready st \<or> \<not> paths then (-1, st)
      else let (res, fs) = f (g_fatfs st) in (if res = FR_OK then 0 else -1, st\<lparr>g_fatfs := fs\<rparr>))"

definition vfs_mkdir ::
    "('fs, 'fil, 'dir) fatfs \<Rightarrow> u8 list option \<Rightarrow> ('fs, 'fil, 'dir, 'l) vfs \<Rightarrow> int \<times> ('fs, 'fil, 'dir, 'l) vfs" where
  "vfs_mkdir fat path = on_paths (f_mkdir fat (the path)) (path \<noteq> None)"

definition vfs_unlink ::
    "('fs, 'fil, 'dir) fatfs \<Rightarrow> u8 list option \<Rightarrow> ('fs, 'fil, 'dir, 'l) vfs \<Rightarrow> int \<times> ('fs, 'fil, 'dir, 'l) vfs" where
  "vfs_unlink fat path = on_paths (f_unlink fat (the path)) (path \<noteq> None)"

definition vfs_rename ::
    "('fs, 'fil, 'dir) fatfs \<Rightarrow> u8 list option \<Rightarrow> u8 list option \<Rightarrow> ('fs, 'fil, 'dir, 'l) vfs \<Rightarrow>
     int \<times> ('fs, 'fil, 'dir, 'l) vfs" where
  "vfs_rename fat old_path new_path =
     on_paths (f_rename fat (the old_path) (the new_path)) (old_path \<noteq> None \<and> new_path \<noteq> None)"

end
