(* ===== verification/Disk.thy ===== *)
theory Disk
  imports Ahci
begin

text \<open>
  What the AHCI driver does to a disk that obeys its commands: the contract of the hardware, and the
  transfers of any number of sectors built from transfers of at most eight.
\<close>

section \<open>The contract of the controller\<close>

text \<open>A command as it lies in memory: its header, its register FIS and its physical region.\<close>

definition command_posted :: "u64 \<Rightarrow> u64 \<Rightarrow> bool \<Rightarrow> u32 \<Rightarrow> u8 \<Rightarrow> memory \<Rightarrow> bool" where
  "command_posted page buf is_write lba n mem \<longleftrightarrow>
     mem page AND 0x5F = 5 OR (if is_write then 0x40 else 0) \<and>
     mem (page + 2) = 1 \<and> mem (page + 3) = 0 \<and>
     mem (page + 0x500) = 0x27 \<and> mem (page + 0x501) = 0x80 \<and>
     mem (page + 0x502) = (if is_write then 0x35 else 0x25) \<and>
     mem (page + 0x504) = ucast lba \<and> mem (page + 0x505) = ucast (drop_bit 8 lba) \<and>
     mem (page + 0x506) = ucast (drop_bit 16 lba) \<and> mem (page + 0x508) = ucast (drop_bit 24 lba) \<and>
     mem (page + 0x509) = 0 \<and> mem (page + 0x50A) = 0 \<and> mem (page + 0x507) = 0x40 \<and>
     mem (page + 0x50C) = n \<and> mem (page + 0x50D) = 0 \<and>
     peek32 (page + 0x580) mem = ucast buf \<and> peek32 (page + 0x584) mem = ucast (drop_bit 32 buf) \<and>
     peek32 (page + 0x58C) mem AND mask 22 = (ucast n * 512 - 1) AND mask 22"

lemma peek_poke: "peek32 a (poke32 a v mem) = v"
proof -
  have "(ucast (ucast v :: u8) :: u32) OR push_bit 8 (ucast (ucast (drop_bit 8 v) :: u8)) OR
      push_bit 16 (ucast (ucast (drop_bit 16 v) :: u8)) OR push_bit 24 (ucast (ucast (drop_bit 24 v) :: u8)) = v"
    by (simp add: word_bits_eq all_less_numeral bit_simps)
  then show ?thesis
    by (simp add: peek32_def poke32_def or.assoc)
qed

lemma peek_other:
  "a \<notin> addr_range b 4 \<Longrightarrow> a + 1 \<notin> addr_range b 4 \<Longrightarrow> a + 2 \<notin> addr_range b 4 \<Longrightarrow> a + 3 \<notin> addr_range b 4 \<Longrightarrow>
   (\<And>x. x \<notin> addr_range b 4 \<Longrightarrow> mem' x = mem x) \<Longrightarrow> peek32 a mem' = peek32 a mem"
  by (simp add: peek32_def)

lemma byte_of_and: "(ucast (v AND 0xFF) :: u8) = ucast v" for v :: u32
  by (simp add: word_bits_eq all_less_numeral bit_simps)

lemma and_255: "n AND 0xFF = n" for n :: u8
  by (simp add: word_bits_eq all_less_numeral bit_simps)

lemma zero_table:
  assumes "n < 144"
  shows "memset tbl 0 144 mem (tbl + of_nat n) = 0"
proof -
  have "mem_range (memset tbl 0 144 mem) tbl 144 ! n = 0"
    using memset_range(1) [of tbl 0 144 mem] assms by simp
  then show ?thesis
    using assms by (simp add: mem_range_def)
qed

lemma low_numeral: "(a :: u64) + numeral k = a + of_nat (numeral k)"
  by simp

lemma posted_header_byte:
  "((x AND NOT 0x1F OR 5) AND NOT 0x40 OR y) AND 0x5F = 5 OR y" if "y = 0 \<or> y = 0x40" for x y :: u8
  using that by (auto simp: word_bits_eq all_less_numeral bit_simps)

lemma join_bytes:
  "(ucast (ucast v :: u8) :: u32) OR push_bit 8 (ucast (ucast (drop_bit 8 v) :: u8)) OR
      push_bit 16 (ucast (ucast (drop_bit 16 v) :: u8)) OR push_bit 24 (ucast (ucast (drop_bit 24 v) :: u8)) = v"
  using peek_poke [of 0 v undefined] by (simp add: peek32_def poke32_def)

text \<open>The command as updates of the cleared table.\<close>

definition command_updates :: "u64 \<Rightarrow> u32 \<Rightarrow> u32 \<Rightarrow> u32 \<Rightarrow> bool \<Rightarrow> u32 \<Rightarrow> u8 \<Rightarrow> memory \<Rightarrow> memory" where
  "command_updates page lo hi dbc is_write lba n mem =
     (poke32 (page + 0x58C) dbc (poke32 (page + 0x584) hi (poke32 (page + 0x580) lo mem)))
       (page + 0x500 := 0x27, page + 0x501 := 0x80, page + 0x502 := (if is_write then 0x35 else 0x25),
        page + 0x504 := ucast lba, page + 0x505 := ucast (drop_bit 8 lba), page + 0x506 := ucast (drop_bit 16 lba),
        page + 0x507 := 0x40, page + 0x508 := ucast (drop_bit 24 lba), page + 0x509 := 0, page + 0x50A := 0,
        page + 0x50C := n, page + 0x50D := 0)"

definition header_updates :: "u64 \<Rightarrow> bool \<Rightarrow> memory \<Rightarrow> memory" where
  "header_updates page is_write mem =
     poke32 (page + 4) 0 (poke16 (page + 2) 1
       (mem(page := ((mem page AND NOT 0x1F OR 5) AND NOT 0x40) OR (if is_write then 0x40 else 0))))"

lemma poke_poke: "poke32 a v (poke32 a w mem) = poke32 a v mem"
  by (rule ext) (simp add: poke32_def)

lemma build_command_updates:
  "\<exists>dbc. dbc AND mask 22 = (ucast n * 512 - 1) AND mask 22 \<and>
     build_command page buf is_write lba n mem =
       command_updates page (ucast buf) (ucast (drop_bit 32 buf)) dbc is_write lba n
         (memset (page + 0x500) 0 144 (header_updates page is_write mem))"
proof -
  define m5 where "m5 = memset (page + 0x500) 0 144 (header_updates page is_write mem)"
  have z: "m5 (page + 0x501) = 0" "m5 (page + 0x58C) = 0" "m5 (page + 0x58D) = 0" "m5 (page + 0x58E) = 0" "m5 (page + 0x58F) = 0"
    using zero_table [of 1 "page + 0x500" "header_updates page is_write mem"]
      zero_table [of 140 "page + 0x500" "header_updates page is_write mem"]
      zero_table [of 141 "page + 0x500" "header_updates page is_write mem"]
      zero_table [of 142 "page + 0x500" "header_updates page is_write mem"]
      zero_table [of 143 "page + 0x500" "header_updates page is_write mem"]
    by (simp_all add: m5_def add.assoc)
  let ?lo = "ucast buf :: u32" and ?hi = "ucast (drop_bit 32 buf) :: u32"
  define m7 where "m7 = poke32 (page + 0x584) ?hi (poke32 (page + 0x580) ?lo m5)"
  have p0: "peek32 (page + 0x58C) m7 = 0"
    by (simp add: m7_def peek32_def poke32_def z add.assoc)
  have p1: "m7 (page + 0x501) = 0"
    by (simp add: m7_def poke32_def z add.assoc)
  define w :: u32 where "w = (ucast n * 512 - 1) AND mask 22"
  have "build_command page buf is_write lba n mem = command_updates page ?lo ?hi (w OR push_bit 31 1) is_write lba n m5"
  proof -
    have tbl: "page + 0x500 + k = page + (0x500 + k)" for k
      by (simp add: add.assoc)
    have m5: "memset (page + 0x500) 0 144 (poke32 (page + 4) 0 (poke16 (page + 2) 1
        (mem(page := mem page AND NOT 0x1F OR 5, page := (mem(page := mem page AND NOT 0x1F OR 5)) page AND NOT 0x40 OR
          (if is_write then 0x40 else 0))))) = m5"
      by (simp add: m5_def header_updates_def)
    have m8: "poke32 (page + 0x58C) (peek32 (page + 0x58C) (poke32 (page + 0x58C) w m7) OR push_bit 31 1) (poke32 (page + 0x58C) w m7) =
        poke32 (page + 0x58C) (w OR push_bit 31 1) m7"
      by (simp only: peek_poke poke_poke)
    have "poke32 (page + 0x58C) v m7 (page + 0x501) = 0" for v
      using p1 by (simp add: poke32_def add.assoc)
    moreover have "(0 :: u32) AND NOT (mask 22) OR x = x" for x
      by simp
    ultimately show ?thesis
      unfolding build_command_def Let_def m5 tbl
      by (simp only: arith_simps m7_def [symmetric] p0 STORAGE_SECTOR_SIZE_def w_def [symmetric] m8)
        (simp add: command_updates_def m7_def FIS_TYPE_REG_H2D_def ATA_CMD_WRITE_DMA_EXT_def ATA_CMD_READ_DMA_EXT_def byte_of_and and_255)
  qed
  moreover have "(w OR push_bit 31 1) AND mask 22 = w"
    by (simp add: w_def word_bits_eq all_less_numeral bit_simps)
  ultimately show ?thesis
    unfolding m5_def w_def by blast
qed

lemma command_updates_fields:
  fixes page :: u64 and lo hi dbc lba :: u32 and is_write :: bool and n :: u8 and mem :: memory
  defines "m \<equiv> command_updates page lo hi dbc is_write lba n mem"
  shows "m (page + 0x500) = 0x27" "m (page + 0x501) = 0x80" "m (page + 0x502) = (if is_write then 0x35 else 0x25)"
    "m (page + 0x504) = ucast lba" "m (page + 0x505) = ucast (drop_bit 8 lba)" "m (page + 0x506) = ucast (drop_bit 16 lba)"
    "m (page + 0x507) = 0x40" "m (page + 0x508) = ucast (drop_bit 24 lba)" "m (page + 0x509) = 0" "m (page + 0x50A) = 0"
    "m (page + 0x50C) = n" "m (page + 0x50D) = 0"
    "peek32 (page + 0x580) m = lo" "peek32 (page + 0x584) m = hi" "peek32 (page + 0x58C) m = dbc"
    "m page = mem page" "m (page + 2) = mem (page + 2)" "m (page + 3) = mem (page + 3)"
  by (simp_all add: m_def command_updates_def peek32_def poke32_def join_bytes add.assoc or.assoc)

lemma below_table:
  assumes "unat k < 0x500"
  shows "memset (page + 0x500) 0 144 mem (page + k) = mem (page + k)"
proof (rule memset_range(2))
  have "k \<noteq> 0x500 + of_nat i" if "i < 144" for i
  proof -
    have "unat (0x500 + of_nat i :: u64) = 0x500 + i"
      using that by (subst unat_plus_no_wrap) (simp_all add: unat_of_nat_small)
    then show ?thesis
      using assms by auto
  qed
  then show "page + k \<notin> addr_range (page + 0x500) (unat (144 :: u64))"
    by (auto simp: addr_range_def add.assoc)
qed

lemma build_command_posted:
  "command_posted page buf is_write lba n (build_command page buf is_write lba n mem)"
proof -
  define m5 where "m5 = memset (page + 0x500) 0 144 (header_updates page is_write mem)"
  obtain dbc where dbc: "dbc AND mask 22 = (ucast n * 512 - 1) AND mask 22"
    and build: "build_command page buf is_write lba n mem =
      command_updates page (ucast buf) (ucast (drop_bit 32 buf)) dbc is_write lba n m5"
    using build_command_updates unfolding m5_def by blast
  have "m5 page = header_updates page is_write mem page" "m5 (page + 2) = header_updates page is_write mem (page + 2)"
    "m5 (page + 3) = header_updates page is_write mem (page + 3)"
    using below_table [of 0 page] below_table [of 2 page] below_table [of 3 page] by (simp_all add: m5_def)
  then have head: "m5 page AND 0x5F = 5 OR (if is_write then 0x40 else 0)" "m5 (page + 2) = 1" "m5 (page + 3) = 0"
    using posted_header_byte [of "if is_write then 0x40 else 0" "mem page"]
    by (simp_all add: header_updates_def poke16_def poke32_def add.assoc)
  then show ?thesis
    unfolding command_posted_def build command_updates_fields using dbc by blast
qed

lemma build_command_other:
  assumes "\<And>i. i < 4096 \<Longrightarrow> a \<noteq> page + of_nat i"
  shows "build_command page buf is_write lba n mem a = mem a"
proof -
  obtain dbc where build: "build_command page buf is_write lba n mem =
      command_updates page (ucast buf) (ucast (drop_bit 32 buf)) dbc is_write lba n
        (memset (page + 0x500) 0 144 (header_updates page is_write mem))"
    using build_command_updates by blast
  have k: "a \<noteq> page + k" if "unat k < 4096" for k
    using assms [OF that] by simp
  have "a \<notin> addr_range (page + 0x500) (unat (144 :: u64))"
  proof
    assume "a \<in> addr_range (page + 0x500) (unat (144 :: u64))"
    then obtain i where "i < 144" "a = page + of_nat (0x500 + i)"
      by (auto simp: addr_range_def add.assoc)
    then show False
      using assms [of "0x500 + i"] by simp
  qed
  then show ?thesis
    unfolding build command_updates_def poke32_def header_updates_def poke16_def
    using k [of 0] memset_range(2) by (simp add: add.assoc k)
qed

section \<open>A disk that obeys\<close>

text \<open>
  Polled \<open>k\<close> times the controller reports a command in progress without error; the next poll finds
  it done, in the state \<open>(d', mem')\<close>.
\<close>

fun completes :: "'d hardware \<Rightarrow> u64 \<Rightarrow> nat \<Rightarrow> 'd \<times> memory \<Rightarrow> 'd \<times> memory \<Rightarrow> bool" where
  "completes hw port 0 s s' \<longleftrightarrow>
     (case hw_load hw (port + PORT_CI) s of (ci, s1) \<Rightarrow> ci AND 1 = 0 \<and> s1 = s')"
| "completes hw port (Suc k) s s' \<longleftrightarrow>
     (case hw_load hw (port + PORT_CI) s of (ci, s1) \<Rightarrow> ci AND 1 \<noteq> 0 \<and>
        (case hw_load hw (port + PORT_IS) s1 of (status, s2) \<Rightarrow>
           status AND push_bit 30 1 = 0 \<and> completes hw port k s2 s'))"

text \<open>The content of \<open>n\<close> consecutive sectors, and a disk on which such a run has been replaced.\<close>

definition sectors_from :: "(u32 \<Rightarrow> u8 list) \<Rightarrow> u32 \<Rightarrow> nat \<Rightarrow> u8 list" where
  "sectors_from disk lba n = concat (map (\<lambda>i. disk (lba + of_nat i)) [0..<n])"

definition write_sectors :: "memory \<Rightarrow> u64 \<Rightarrow> u32 \<Rightarrow> nat \<Rightarrow> (u32 \<Rightarrow> u8 list) \<Rightarrow> u32 \<Rightarrow> u8 list" where
  "write_sectors mem src lba n disk =
     fold (\<lambda>i disk. disk(lba + of_nat i := mem_range mem (src + of_nat (512 * i)) 512)) [0..<n] disk"

text \<open>
  The contract, for the idle states \<open>I\<close> of a controller with a disk \<open>disk d\<close>: loading the status
  registers of an idle port finds it ready, and neither that nor acknowledging its interrupts changes
  the disk or memory; a command that lies in memory when bit 0 of the command issue register is stored
  is carried out within the time the driver waits.  A read fills the DMA buffer with the sectors, a
  write puts the content of the buffer on the disk; besides the buffer only the page of the command
  structures may change.
\<close>

definition quiet :: "'d hardware \<Rightarrow> u64 \<Rightarrow> (u32 \<Rightarrow> bool) \<Rightarrow> 'd set \<Rightarrow> ('d \<Rightarrow> u32 \<Rightarrow> u8 list) \<Rightarrow> bool" where
  "quiet hw a ok I disk \<longleftrightarrow>
     (\<forall>d\<in>I. \<forall>mem. \<exists>v. \<exists>d'\<in>I. hw_load hw a (d, mem) = (v, d', mem) \<and> disk d' = disk d \<and> ok v)"

definition carries_out :: "'d hardware \<Rightarrow> u64 \<Rightarrow> u64 \<Rightarrow> u64 \<Rightarrow> 'd set \<Rightarrow> ('d \<Rightarrow> u32 \<Rightarrow> u8 list) \<Rightarrow> bool" where
  "carries_out hw port page buf I disk \<longleftrightarrow>
     (\<forall>d\<in>I. \<forall>mem is_write lba n. command_posted page buf is_write lba n mem \<longrightarrow> 0 < n \<longrightarrow> n \<le> 8 \<longrightarrow>
        (\<exists>k<1000000. \<exists>d'\<in>I. \<exists>mem'. completes hw port k (hw_store hw (port + PORT_CI) 1 (d, mem)) (d', mem') \<and>
           (\<forall>a. a \<notin> addr_range page 4096 \<longrightarrow> a \<notin> addr_range buf 4096 \<longrightarrow> mem' a = mem a) \<and>
           disk d' = (if is_write then write_sectors mem buf lba (unat n) (disk d) else disk d) \<and>
           (\<not> is_write \<longrightarrow> mem_range mem' buf (512 * unat n) = sectors_from (disk d) lba (unat n))))"

definition obeys :: "'d hardware \<Rightarrow> u64 \<Rightarrow> u64 \<Rightarrow> u64 \<Rightarrow> 'd set \<Rightarrow> ('d \<Rightarrow> u32 \<Rightarrow> u8 list) \<Rightarrow> bool" where
  "obeys hw port page buf I disk \<longleftrightarrow>
     (\<forall>d\<in>I. \<forall>l. length (disk d l) = 512) \<and>
     quiet hw (port + PORT_TFD) (\<lambda>v. v AND (0x80 OR 0x08) = 0) I disk \<and>
     quiet hw (port + PORT_IS) (\<lambda>v. v AND push_bit 30 1 = 0) I disk \<and>
     quiet hw (port + PORT_CI) (\<lambda>v. v AND 1 = 0) I disk \<and>
     (\<forall>d\<in>I. \<forall>mem v. \<exists>d'\<in>I. hw_store hw (port + PORT_IS) v (d, mem) = (d', mem) \<and> disk d' = disk d) \<and>
     carries_out hw port page buf I disk"

text \<open>The driver is set up for that port.\<close>

definition port_ready :: "u64 \<Rightarrow> u64 \<Rightarrow> u64 \<Rightarrow> 'd set \<Rightarrow> 'd ahci \<Rightarrow> bool" where
  "port_ready port page buf I st \<longleftrightarrow>
     g_active_port st = port \<and> g_ahci_page st = page \<and> g_dma_buf st = buf \<and> port \<noteq> 0 \<and> page \<noteq> 0 \<and> buf \<noteq> 0 \<and>
     ah_dev st \<in> I \<and> addr_range page 4096 \<inter> addr_range buf 4096 = {}"

lemma reg_load_quiet:
  assumes "quiet hw a ok I disk" "ah_dev st \<in> I"
  obtains v d' where "reg_load hw a st = (v, st\<lparr>ah_dev := d'\<rparr>)" "d' \<in> I" "disk d' = disk (ah_dev st)" "ok v"
proof -
  obtain v d' where "hw_load hw a (ah_dev st, ah_mem st) = (v, d', ah_mem st)" "d' \<in> I" "disk d' = disk (ah_dev st)" "ok v"
    using assms unfolding quiet_def by blast
  then show thesis
    using that [of v d'] by (cases st) (simp add: reg_load_def)
qed

lemma wait_command_completes:
  "completes hw port k (ah_dev st, ah_mem st) (d', mem') \<Longrightarrow> k < n \<Longrightarrow>
   wait_command hw port n st = (True, st\<lparr>ah_dev := d', ah_mem := mem'\<rparr>)"
proof (induction k arbitrary: n st)
  case 0
  then show ?case
    by (cases n) (auto simp: reg_load_def Let_def split: prod.splits)
next
  case (Suc k)
  obtain m where n: "n = Suc m" "k < m"
    using Suc.prems(2) by (cases n) auto
  obtain ci d1 mem1 where ci: "hw_load hw (port + PORT_CI) (ah_dev st, ah_mem st) = (ci, d1, mem1)"
    by (metis prod_cases3)
  obtain status d2 mem2 where status: "hw_load hw (port + PORT_IS) (d1, mem1) = (status, d2, mem2)"
    by (metis prod_cases3)
  have "completes hw port k (d2, mem2) (d', mem')" "ci AND 1 \<noteq> 0" "status AND push_bit 30 1 = 0"
    using Suc.prems(1) ci status by simp_all
  then show ?case
    using Suc.IH [of "st\<lparr>ah_dev := d2, ah_mem := mem2\<rparr>" m] n ci status by (simp add: reg_load_def)
qed

text \<open>One command: at most eight sectors, between the disk and memory outside the page and the buffer.\<close>

lemma obeys_D:
  assumes "obeys hw port page buf I disk"
  shows "d \<in> I \<Longrightarrow> length (disk d l) = 512"
    "quiet hw (port + PORT_TFD) (\<lambda>v. v AND (0x80 OR 0x08) = 0) I disk"
    "quiet hw (port + PORT_IS) (\<lambda>v. v AND push_bit 30 1 = 0) I disk"
    "quiet hw (port + PORT_CI) (\<lambda>v. v AND 1 = 0) I disk"
    "d \<in> I \<Longrightarrow> \<exists>d'\<in>I. hw_store hw (port + PORT_IS) v (d, mem) = (d', mem) \<and> disk d' = disk d"
    "carries_out hw port page buf I disk"
  using assms unfolding obeys_def by blast+

lemma wait_clear_quiet:
  assumes "quiet hw a (\<lambda>v. v AND bits = 0) I disk" "ah_dev st \<in> I"
  shows "\<exists>d'\<in>I. wait_clear hw a bits (Suc n) st = st\<lparr>ah_dev := d'\<rparr> \<and> disk d' = disk (ah_dev st)"
proof -
  obtain v d' where "reg_load hw a st = (v, st\<lparr>ah_dev := d'\<rparr>)" "d' \<in> I" "disk d' = disk (ah_dev st)" "v AND bits = 0"
    by (rule reg_load_quiet [OF assms])
  then show ?thesis
    by auto
qed

lemma dev_mem: "st\<lparr>ah_mem := m, ah_dev := d\<rparr> = st\<lparr>ah_dev := d, ah_mem := m\<rparr>"
  by (cases st) simp

lemma upd_mem_simps [simp]:
  "ah_mem (upd_mem f st) = f (ah_mem st)" "ah_dev (upd_mem f st) = ah_dev st"
  "g_active_port (upd_mem f st) = g_active_port st" "g_ahci_page (upd_mem f st) = g_ahci_page st"
  "g_dma_buf (upd_mem f st) = g_dma_buf st"
  by (simp_all add: upd_mem_def)

lemma rw_command:
  fixes lba :: u32 and src :: u64 and is_write :: bool
  assumes o: "obeys hw port page buf I disk" and r: "port_ready port page buf I st" and n: "0 < n" "n \<le> 8"
  defines "len \<equiv> ucast (ucast n * STORAGE_SECTOR_SIZE :: u32) :: u64"
  defines "mem \<equiv> (let m = build_command page buf is_write lba n (ah_mem st) in if is_write then memcpy buf src len m else m)"
  assumes posted: "command_posted page buf is_write lba n mem"
  obtains d' mem' where
    "ahci_rw_sectors hw lba n src is_write st =
       (True, st\<lparr>ah_dev := d', ah_mem := (if is_write then mem' else memcpy src buf len mem')\<rparr>)"
    "d' \<in> I" "\<And>a. a \<notin> addr_range page 4096 \<Longrightarrow> a \<notin> addr_range buf 4096 \<Longrightarrow> mem' a = mem a"
    "disk d' = (if is_write then write_sectors mem buf lba (unat n) (disk (ah_dev st)) else disk (ah_dev st))"
    "\<not> is_write \<Longrightarrow> mem_range mem' buf (512 * unat n) = sectors_from (disk (ah_dev st)) lba (unat n)"
proof -
  note q = obeys_D [OF o]
  have ptr: "g_active_port st = port" "g_ahci_page st = page" "g_dma_buf st = buf" "port \<noteq> 0" "page \<noteq> 0" "buf \<noteq> 0" "ah_dev st \<in> I"
    using r by (simp_all add: port_ready_def)
  obtain d1 where d1: "d1 \<in> I" "disk d1 = disk (ah_dev st)"
    "wait_clear hw (port + PORT_TFD) (0x80 OR 0x08) 100000 st = st\<lparr>ah_dev := d1\<rparr>"
    using wait_clear_quiet [OF q(2) ptr(7), of 99999] by auto
  obtain v2 d2 where d2: "reg_load hw (port + PORT_TFD) (st\<lparr>ah_dev := d1\<rparr>) = (v2, st\<lparr>ah_dev := d2\<rparr>)"
    "d2 \<in> I" "disk d2 = disk d1" "v2 AND (0x80 OR 0x08) = 0"
    by (rule reg_load_quiet [OF q(2), of "st\<lparr>ah_dev := d1\<rparr>"]) (use d1 in auto)
  obtain v3 d3 where d3: "reg_load hw (port + PORT_IS) (st\<lparr>ah_dev := d2\<rparr>) = (v3, st\<lparr>ah_dev := d3\<rparr>)" "d3 \<in> I" "disk d3 = disk d2"
    by (rule reg_load_quiet [OF q(3), of "st\<lparr>ah_dev := d2\<rparr>"]) (use d2 in auto)
  obtain d4 where d4: "hw_store hw (port + PORT_IS) v3 (d3, ah_mem st) = (d4, ah_mem st)" "d4 \<in> I" "disk d4 = disk d3"
    using q(5) [OF d3(2)] by blast
  have ack: "reg_update hw (port + PORT_IS) (\<lambda>v. v) (st\<lparr>ah_dev := d2\<rparr>) = st\<lparr>ah_dev := d4\<rparr>"
    using d3(1) d4(1) by (cases st) (simp add: reg_update_def reg_store_def)
  obtain d5 m5 where issue: "hw_store hw (port + PORT_CI) 1 (d4, mem) = (d5, m5)"
    by (cases "hw_store hw (port + PORT_CI) 1 (d4, mem)")
  obtain k d6 mem' where k: "k < 1000000" "completes hw port k (d5, m5) (d6, mem')" and d6: "d6 \<in> I"
    and same: "\<forall>a. a \<notin> addr_range page 4096 \<longrightarrow> a \<notin> addr_range buf 4096 \<longrightarrow> mem' a = mem a"
    and disk6: "disk d6 = (if is_write then write_sectors mem buf lba (unat n) (disk d4) else disk d4)"
    and data: "\<not> is_write \<longrightarrow> mem_range mem' buf (512 * unat n) = sectors_from (disk d4) lba (unat n)"
    using q(6) d4(2) posted n unfolding carries_out_def issue [symmetric] by blast
  have waited: "wait_command hw port 1000000 (st\<lparr>ah_dev := d5, ah_mem := m5\<rparr>) = (True, st\<lparr>ah_dev := d6, ah_mem := mem'\<rparr>)"
    using wait_command_completes [of hw port k "st\<lparr>ah_dev := d5, ah_mem := m5\<rparr>" d6 mem' 1000000] k by simp
  obtain v7 d7 where d7: "reg_load hw (port + PORT_CI) (st\<lparr>ah_dev := d6, ah_mem := mem'\<rparr>) = (v7, st\<lparr>ah_dev := d7, ah_mem := mem'\<rparr>)"
    "d7 \<in> I" "disk d7 = disk d6" "v7 AND 1 = 0"
    by (rule reg_load_quiet [OF q(4), of "st\<lparr>ah_dev := d6, ah_mem := mem'\<rparr>"]) (use d6 in \<open>auto simp: dev_mem\<close>)
  obtain v8 d8 where d8: "reg_load hw (port + PORT_IS) (st\<lparr>ah_dev := d7, ah_mem := mem'\<rparr>) = (v8, st\<lparr>ah_dev := d8, ah_mem := mem'\<rparr>)"
    "d8 \<in> I" "disk d8 = disk d7" "v8 AND push_bit 30 1 = 0"
    by (rule reg_load_quiet [OF q(3), of "st\<lparr>ah_dev := d7, ah_mem := mem'\<rparr>"]) (use d7 in \<open>auto simp: dev_mem\<close>)
  have store: "reg_store hw (port + PORT_CI) 1 (st\<lparr>ah_dev := d4, ah_mem := mem\<rparr>) = st\<lparr>ah_dev := d5, ah_mem := m5\<rparr>"
    using issue by (cases st) (simp add: reg_store_def)
  have "n \<noteq> 0"
    using n(1) by auto
  then have "ahci_rw_sectors hw lba n src is_write st =
      (True, st\<lparr>ah_dev := d8, ah_mem := (if is_write then mem' else memcpy src buf len mem')\<rparr>)"
    unfolding ahci_rw_sectors_def
    using ptr d1(3) d2(1,4) ack store waited d7(1,4) d8(1,4)
    by (cases is_write) (simp_all add: Let_def len_def [symmetric] upd_mem_def mem_def)
  then show thesis
    using that [where d' = d8 and mem' = mem'] d8 d7 d6 same disk6 data d4 d3 d2 d1 by simp
qed

section \<open>Transfers of any number of sectors\<close>

lemma sectors_from_append:
  "sectors_from disk lba (m + n) = sectors_from disk lba m @ sectors_from disk (lba + of_nat m) n"
proof -
  have "map (\<lambda>i. disk (lba + of_nat i)) [0..<m + n] =
      map (\<lambda>i. disk (lba + of_nat i)) [0..<m] @ map (\<lambda>i. disk (lba + of_nat m + of_nat i)) [0..<n]"
    by (rule nth_equalityI) (auto simp: nth_append add.assoc simp flip: of_nat_add)
  then show ?thesis
    by (simp add: sectors_from_def)
qed

lemma write_sectors_append:
  "write_sectors mem src lba (m + n) disk =
   write_sectors mem (src + of_nat (512 * m)) (lba + of_nat m) n (write_sectors mem src lba m disk)"
proof (induction n)
  case (Suc n)
  then show ?case
    by (simp add: write_sectors_def add.assoc distrib_left)
qed (simp add: write_sectors_def)

lemma write_sectors_cong:
  assumes "mem_range mem' src' (512 * n) = mem_range mem src (512 * n)"
  shows "write_sectors mem' src' lba n disk = write_sectors mem src lba n disk"
proof -
  have "mem_range mem' (src' + of_nat (512 * i)) 512 = mem_range mem (src + of_nat (512 * i)) 512" if "i < n" for i
  proof -
    have "512 * n = 512 * i + (512 + 512 * (n - Suc i))"
      using that by (simp add: algebra_simps)
    then show ?thesis
      using assms by (simp only: mem_range_append append_eq_append_conv length_append) (simp add: mem_range_def)
  qed
  then show ?thesis
    unfolding write_sectors_def by (intro fold_cong) simp_all
qed

text \<open>The memory a transfer leaves alone, and the two transfers.\<close>

definition others_kept :: "u64 \<Rightarrow> u64 \<Rightarrow> u64 set \<Rightarrow> memory \<Rightarrow> memory \<Rightarrow> bool" where
  "others_kept page buf A mem mem' \<longleftrightarrow>
     (\<forall>a. a \<notin> addr_range page 4096 \<longrightarrow> a \<notin> addr_range buf 4096 \<longrightarrow> a \<notin> A \<longrightarrow> mem' a = mem a)"

definition driver_apart :: "u64 \<Rightarrow> u64 \<Rightarrow> u64 \<Rightarrow> nat \<Rightarrow> bool" where
  "driver_apart page buf p n \<longleftrightarrow>
     addr_range p n \<inter> addr_range page 4096 = {} \<and> addr_range p n \<inter> addr_range buf 4096 = {} \<and> unat p + n \<le> 2 ^ 64"

definition has_read :: "u64 \<Rightarrow> u64 \<Rightarrow> u64 \<Rightarrow> 'd set \<Rightarrow> ('d \<Rightarrow> u32 \<Rightarrow> u8 list) \<Rightarrow> u32 \<Rightarrow> nat \<Rightarrow> u64 \<Rightarrow> 'd ahci \<Rightarrow> 'd ahci \<Rightarrow> bool" where
  "has_read port page buf I disk lba n dst st st' \<longleftrightarrow>
     port_ready port page buf I st' \<and> disk (ah_dev st') = disk (ah_dev st) \<and>
     mem_range (ah_mem st') dst (512 * n) = sectors_from (disk (ah_dev st)) lba n \<and>
     others_kept page buf (addr_range dst (512 * n)) (ah_mem st) (ah_mem st')"

definition has_written :: "u64 \<Rightarrow> u64 \<Rightarrow> u64 \<Rightarrow> 'd set \<Rightarrow> ('d \<Rightarrow> u32 \<Rightarrow> u8 list) \<Rightarrow> u32 \<Rightarrow> nat \<Rightarrow> u64 \<Rightarrow> 'd ahci \<Rightarrow> 'd ahci \<Rightarrow> bool" where
  "has_written port page buf I disk lba n src st st' \<longleftrightarrow>
     port_ready port page buf I st' \<and> disk (ah_dev st') = write_sectors (ah_mem st) src lba n (disk (ah_dev st)) \<and>
     others_kept page buf {} (ah_mem st) (ah_mem st')"

lemma driver_apart_parts:
  assumes "driver_apart page buf p (m + n)"
  shows "driver_apart page buf p m" "driver_apart page buf (p + of_nat m) n \<or> n = 0"
proof -
  show "driver_apart page buf p m"
    using assms addr_range_append [of p m n] by (auto simp: driver_apart_def)
  have "unat (p + of_nat m) + n \<le> 2 ^ 64 \<or> n = 0"
    using assms unat_offset [of p "m + n" m] by (cases "n = 0") (simp_all add: driver_apart_def)
  then show "driver_apart page buf (p + of_nat m) n \<or> n = 0"
    using assms addr_range_append [of p m n] by (auto simp: driver_apart_def)
qed

lemma has_read_append:
  assumes "has_read port page buf I disk lba m dst st st1"
    "has_read port page buf I disk (lba + of_nat m) n (dst + of_nat (512 * m)) st1 st2"
    "driver_apart page buf dst (512 * (m + n))"
  shows "has_read port page buf I disk lba (m + n) dst st st2"
proof -
  let ?dst = "dst + of_nat (512 * m)"
  have "512 * m + 512 * n \<le> 2 ^ 64"
    using assms(3) by (simp add: driver_apart_def)
  then have apart: "addr_range dst (512 * m) \<inter> addr_range ?dst (512 * n) = {}"
    by (rule addr_range_split_disjoint)
  have "mem_range (ah_mem st2) dst (512 * m) = mem_range (ah_mem st1) dst (512 * m)"
  proof (rule mem_range_cong)
    fix a
    assume "a \<in> addr_range dst (512 * m)"
    moreover from this have "a \<notin> addr_range page 4096" "a \<notin> addr_range buf 4096"
      using assms(3) addr_range_mono [of "512 * m" "512 * (m + n)" dst] by (auto simp: driver_apart_def)
    ultimately show "ah_mem st2 a = ah_mem st1 a"
      using assms(2) apart unfolding has_read_def others_kept_def by blast
  qed
  then have "mem_range (ah_mem st2) dst (512 * (m + n)) = sectors_from (disk (ah_dev st)) lba (m + n)"
    using assms(1,2) by (simp add: has_read_def distrib_left mem_range_append sectors_from_append)
  moreover have "addr_range dst (512 * (m + n)) = addr_range dst (512 * m) \<union> addr_range ?dst (512 * n)"
    by (simp add: distrib_left addr_range_append)
  ultimately show ?thesis
    using assms(1,2) by (simp add: has_read_def others_kept_def)
qed

lemma has_written_append:
  assumes "has_written port page buf I disk lba m src st st1"
    "has_written port page buf I disk (lba + of_nat m) n (src + of_nat (512 * m)) st1 st2"
    "driver_apart page buf src (512 * (m + n))"
  shows "has_written port page buf I disk lba (m + n) src st st2"
proof -
  have "mem_range (ah_mem st1) (src + of_nat (512 * m)) (512 * n) = mem_range (ah_mem st) (src + of_nat (512 * m)) (512 * n)"
  proof (rule mem_range_cong)
    fix a
    assume "a \<in> addr_range (src + of_nat (512 * m)) (512 * n)"
    then have "a \<in> addr_range src (512 * (m + n))"
      by (simp add: distrib_left addr_range_append)
    then show "ah_mem st1 a = ah_mem st a"
      using assms(1,3) unfolding has_written_def others_kept_def driver_apart_def by blast
  qed
  then have "write_sectors (ah_mem st1) (src + of_nat (512 * m)) (lba + of_nat m) n d =
      write_sectors (ah_mem st) (src + of_nat (512 * m)) (lba + of_nat m) n d" for d
    by (rule write_sectors_cong)
  then show ?thesis
    using assms(1,2) by (simp add: has_written_def others_kept_def write_sectors_append)
qed

lemma command_length:
  assumes "n \<le> (8 :: u8)"
  shows "unat (ucast (ucast n * STORAGE_SECTOR_SIZE :: u32) :: u64) = 512 * unat n" "512 * unat n \<le> 4096"
proof -
  have small: "unat n \<le> 8"
    using assms by (simp add: word_le_nat_alt)
  have "unat (ucast n * STORAGE_SECTOR_SIZE :: u32) = unat (ucast n :: u32) * unat (512 :: u32)"
    unfolding STORAGE_SECTOR_SIZE_def using small by (intro unat_mult_no_wrap) (simp add: unat_ucast_up)
  then show "unat (ucast (ucast n * STORAGE_SECTOR_SIZE :: u32) :: u64) = 512 * unat n"
    by (simp add: unat_ucast_up)
  show "512 * unat n \<le> 4096"
    using small by simp
qed

lemma command_posted_cong:
  assumes "\<And>a. a \<in> addr_range page 4096 \<Longrightarrow> mem' a = mem a"
  shows "command_posted page buf w lba n mem' \<longleftrightarrow> command_posted page buf w lba n mem"
proof -
  have k: "mem' (page + k) = mem (page + k)" if "unat k < 4096" for k
  proof (rule assms)
    show "page + k \<in> addr_range page 4096"
      using that unfolding addr_range_def by (intro image_eqI [of _ _ "unat k"]) simp_all
  qed
  have "mem' page = mem page"
    using k [of 0] by simp
  then show ?thesis
    by (simp add: command_posted_def peek32_def add.assoc k)
qed

lemma build_others:
  "a \<notin> addr_range page 4096 \<Longrightarrow> build_command page buf w lba n mem a = mem a"
  by (rule build_command_other) (auto simp: addr_range_def)

lemma read_command:
  assumes o: "obeys hw port page buf I disk" and r: "port_ready port page buf I st" and n: "0 < n" "n \<le> 8"
    and apart: "driver_apart page buf dst (512 * unat n)"
  shows "\<exists>st'. ahci_rw_sectors hw lba n dst False st = (True, st') \<and> has_read port page buf I disk lba (unat n) dst st st'"
proof -
  let ?len = "ucast (ucast n * STORAGE_SECTOR_SIZE :: u32) :: u64"
  note len = command_length [OF n(2)]
  obtain d' mem' where rw: "ahci_rw_sectors hw lba n dst False st = (True, st\<lparr>ah_dev := d', ah_mem := memcpy dst buf ?len mem'\<rparr>)"
    and d': "d' \<in> I" "disk d' = disk (ah_dev st)"
    and same: "\<And>a. a \<notin> addr_range page 4096 \<Longrightarrow> a \<notin> addr_range buf 4096 \<Longrightarrow>
      mem' a = build_command page buf False lba n (ah_mem st) a"
    and data: "mem_range mem' buf (512 * unat n) = sectors_from (disk (ah_dev st)) lba (unat n)"
    by (rule rw_command [OF o r n, of False lba dst]) (simp_all add: build_command_posted)
  have "addr_range dst (512 * unat n) \<inter> addr_range buf (512 * unat n) = {}"
    using apart addr_range_mono [OF len(2), of buf] by (auto simp: driver_apart_def)
  then have "mem_range (memcpy dst buf ?len mem') dst (512 * unat n) = sectors_from (disk (ah_dev st)) lba (unat n)"
    using memcpy_range(1) [of dst ?len buf mem'] data by (simp add: len)
  moreover have "others_kept page buf (addr_range dst (512 * unat n)) (ah_mem st) (memcpy dst buf ?len mem')"
    using memcpy_range(2) [of dst ?len buf] \<open>addr_range dst (512 * unat n) \<inter> _ = {}\<close> same build_others
    by (simp add: others_kept_def len)
  ultimately show ?thesis
    using rw r d' by (simp add: has_read_def port_ready_def)
qed

lemma write_command:
  assumes o: "obeys hw port page buf I disk" and r: "port_ready port page buf I st" and n: "0 < n" "n \<le> 8"
    and apart: "driver_apart page buf src (512 * unat n)"
  shows "\<exists>st'. ahci_rw_sectors hw lba n src True st = (True, st') \<and> has_written port page buf I disk lba (unat n) src st st'"
proof -
  let ?len = "ucast (ucast n * STORAGE_SECTOR_SIZE :: u32) :: u64" and ?m = "build_command page buf True lba n (ah_mem st)"
  note len = command_length [OF n(2)]
  have disjoint: "addr_range buf (512 * unat n) \<inter> addr_range src (512 * unat n) = {}"
    "addr_range buf (512 * unat n) \<inter> addr_range page 4096 = {}"
    using apart r addr_range_mono [OF len(2), of buf] by (auto simp: driver_apart_def port_ready_def)
  have copy: "mem_range (memcpy buf src ?len ?m) buf (512 * unat n) = mem_range ?m src (512 * unat n)"
    and other: "\<And>a. a \<notin> addr_range buf (512 * unat n) \<Longrightarrow> memcpy buf src ?len ?m a = ?m a"
    using memcpy_range [of buf ?len src] disjoint(1) by (simp_all add: len)
  have "command_posted page buf True lba n (memcpy buf src ?len ?m) \<longleftrightarrow> command_posted page buf True lba n ?m"
    using disjoint(2) by (intro command_posted_cong other) auto
  then have posted: "command_posted page buf True lba n (memcpy buf src ?len ?m)"
    by (simp add: build_command_posted)
  obtain d' mem' where rw: "ahci_rw_sectors hw lba n src True st = (True, st\<lparr>ah_dev := d', ah_mem := mem'\<rparr>)"
    and d': "d' \<in> I" "disk d' = write_sectors (memcpy buf src ?len ?m) buf lba (unat n) (disk (ah_dev st))"
    and same: "\<And>a. a \<notin> addr_range page 4096 \<Longrightarrow> a \<notin> addr_range buf 4096 \<Longrightarrow> mem' a = memcpy buf src ?len ?m a"
    by (rule rw_command [OF o r n, of True lba src]) (simp_all add: posted)
  have "mem_range ?m src (512 * unat n) = mem_range (ah_mem st) src (512 * unat n)"
    using apart by (intro mem_range_cong build_others) (auto simp: driver_apart_def)
  then have "disk d' = write_sectors (ah_mem st) src lba (unat n) (disk (ah_dev st))"
    using d'(2) copy by (metis write_sectors_cong)
  moreover have "others_kept page buf {} (ah_mem st) mem'"
    unfolding others_kept_def
  proof (intro allI impI)
    fix a
    assume a: "a \<notin> addr_range page 4096" "a \<notin> addr_range buf 4096"
    then have "a \<notin> addr_range buf (512 * unat n)"
      using addr_range_mono [OF len(2), of buf] by blast
    then show "mem' a = ah_mem st a"
      using same [OF a] other [of a] build_others [OF a(1)] by simp
  qed
  ultimately show ?thesis
    using rw r d'(1) by (simp add: has_written_def port_ready_def)
qed

text \<open>The loops, eight sectors at a time.\<close>

lemma ahci_chunks_step:
  fixes remaining :: u8
  assumes "0 < remaining"
  defines "chunk \<equiv> if remaining > 8 then 8 else remaining"
  shows "0 < chunk" "chunk \<le> 8" "unat (remaining - chunk) < unat remaining"
    "unat remaining = unat chunk + unat (remaining - chunk)"
    "ucast (ucast chunk * STORAGE_SECTOR_SIZE :: u32) = (of_nat (512 * unat chunk) :: u64)"
    "ucast chunk = (of_nat (unat chunk) :: u32)"
proof -
  have "chunk \<le> remaining"
    by (auto simp: chunk_def)
  then have sub: "unat (remaining - chunk) = unat remaining - unat chunk" "unat chunk \<le> unat remaining"
    using unat_sub_le by (auto simp: word_le_nat_alt)
  show c: "0 < chunk" "chunk \<le> 8"
    using assms(1) by (auto simp: chunk_def)
  then have "0 < unat chunk"
    by (simp add: word_less_nat_alt)
  then show "unat (remaining - chunk) < unat remaining" "unat remaining = unat chunk + unat (remaining - chunk)"
    using sub by simp_all
  show "ucast (ucast chunk * STORAGE_SECTOR_SIZE :: u32) = (of_nat (512 * unat chunk) :: u64)"
  proof -
    have "unat (of_nat (512 * unat chunk) :: u64) = 512 * unat chunk"
      using command_length(2) [OF c(2)] by (intro unat_of_nat_small) simp
    then show ?thesis
      unfolding word_unat_eq_iff command_length(1) [OF c(2)] by (rule sym)
  qed
  show "ucast chunk = (of_nat (unat chunk) :: u32)"
    by simp
qed

lemma ahci_read_chunks:
  assumes o: "obeys hw port page buf I disk"
  shows "port_ready port page buf I st \<Longrightarrow> driver_apart page buf dst (512 * unat remaining) \<Longrightarrow>
    \<exists>st'. ahci_chunks hw lba remaining dst False st = (True, st') \<and>
      has_read port page buf I disk lba (unat remaining) dst st st'"
proof (induction "unat remaining" arbitrary: lba remaining dst st rule: less_induct)
  case less
  show ?case
  proof (cases "0 < remaining")
    case True
    define chunk where "chunk = (if remaining > 8 then 8 else remaining)"
    note c = ahci_chunks_step [OF True, folded chunk_def]
    have apart: "driver_apart page buf dst (512 * unat chunk + 512 * unat (remaining - chunk))"
      using less.prems(2) by (simp only: distrib_left [symmetric] c(4) [symmetric])
    obtain st1 where st1: "ahci_rw_sectors hw lba chunk dst False st = (True, st1)"
      "has_read port page buf I disk lba (unat chunk) dst st st1"
      using read_command [OF o less.prems(1) c(1,2) driver_apart_parts(1) [OF apart], of lba] by blast
    let ?lba = "lba + of_nat (unat chunk)" and ?dst = "dst + of_nat (512 * unat chunk)"
    have "\<exists>st'. ahci_chunks hw ?lba (remaining - chunk) ?dst False st1 = (True, st') \<and>
      has_read port page buf I disk ?lba (unat (remaining - chunk)) ?dst st1 st'"
    proof (cases "unat (remaining - chunk) = 0")
      case False
      then show ?thesis
        using less.hyps [OF c(3), of st1 ?dst ?lba] st1(2) driver_apart_parts(2) [OF apart] by (auto simp: has_read_def)
    next
      case True
      then have "\<not> 0 < remaining - chunk"
        by (simp add: word_less_nat_alt)
      then show ?thesis
        using st1(2) True by (subst ahci_chunks.simps)
          (simp add: has_read_def sectors_from_def mem_range_def others_kept_def)
    qed
    then obtain st2 where st2: "ahci_chunks hw ?lba (remaining - chunk) ?dst False st1 = (True, st2)"
      "has_read port page buf I disk ?lba (unat (remaining - chunk)) ?dst st1 st2"
      by blast
    have "ahci_chunks hw lba remaining dst False st = (True, st2)"
      by (subst ahci_chunks.simps)
        (simp only: Let_def chunk_def [symmetric] True if_True c(5), simp only: c(6) st1(1) st2(1) prod.case not_True_eq_False if_False)
    moreover have "has_read port page buf I disk lba (unat remaining) dst st st2"
      using has_read_append [OF st1(2) st2(2)] less.prems(2) by (simp only: c(4) [symmetric])
    ultimately show ?thesis
      by blast
  next
    case False
    then show ?thesis
      using less.prems by (subst ahci_chunks.simps)
        (simp add: has_read_def sectors_from_def mem_range_def others_kept_def word_less_nat_alt)
  qed
qed

lemma ahci_write_chunks:
  assumes o: "obeys hw port page buf I disk"
  shows "port_ready port page buf I st \<Longrightarrow> driver_apart page buf src (512 * unat remaining) \<Longrightarrow>
    \<exists>st'. ahci_chunks hw lba remaining src True st = (True, st') \<and>
      has_written port page buf I disk lba (unat remaining) src st st'"
proof (induction "unat remaining" arbitrary: lba remaining src st rule: less_induct)
  case less
  show ?case
  proof (cases "0 < remaining")
    case True
    define chunk where "chunk = (if remaining > 8 then 8 else remaining)"
    note c = ahci_chunks_step [OF True, folded chunk_def]
    have apart: "driver_apart page buf src (512 * unat chunk + 512 * unat (remaining - chunk))"
      using less.prems(2) by (simp only: distrib_left [symmetric] c(4) [symmetric])
    obtain st1 where st1: "ahci_rw_sectors hw lba chunk src True st = (True, st1)"
      "has_written port page buf I disk lba (unat chunk) src st st1"
      using write_command [OF o less.prems(1) c(1,2) driver_apart_parts(1) [OF apart], of lba] by blast
    let ?lba = "lba + of_nat (unat chunk)" and ?src = "src + of_nat (512 * unat chunk)"
    have "\<exists>st'. ahci_chunks hw ?lba (remaining - chunk) ?src True st1 = (True, st') \<and>
      has_written port page buf I disk ?lba (unat (remaining - chunk)) ?src st1 st'"
    proof (cases "unat (remaining - chunk) = 0")
      case False
      then show ?thesis
        using less.hyps [OF c(3), of st1 ?src ?lba] st1(2) driver_apart_parts(2) [OF apart] by (auto simp: has_written_def)
    next
      case True
      then have "\<not> 0 < remaining - chunk"
        by (simp add: word_less_nat_alt)
      then show ?thesis
        using st1(2) True by (subst ahci_chunks.simps)
          (simp add: has_written_def write_sectors_def others_kept_def)
    qed
    then obtain st2 where st2: "ahci_chunks hw ?lba (remaining - chunk) ?src True st1 = (True, st2)"
      "has_written port page buf I disk ?lba (unat (remaining - chunk)) ?src st1 st2"
      by blast
    have "ahci_chunks hw lba remaining src True st = (True, st2)"
      by (subst ahci_chunks.simps)
        (simp only: Let_def chunk_def [symmetric] True if_True c(5), simp only: c(6) st1(1) st2(1) prod.case not_True_eq_False if_False)
    moreover have "has_written port page buf I disk lba (unat remaining) src st st2"
      using has_written_append [OF st1(2) st2(2)] less.prems(2) by (simp only: c(4) [symmetric])
    ultimately show ?thesis
      by blast
  next
    case False
    then show ?thesis
      using less.prems by (subst ahci_chunks.simps)
        (simp add: has_written_def write_sectors_def others_kept_def word_less_nat_alt)
  qed
qed

end
