(* ===== verification/Disk_Spec.thy ===== *)
theory Disk_Spec
  imports Disk Storage
begin

text \<open>
  What the storage stack promises on an AHCI disk that obeys its commands: a read of the file system
  delivers the sectors asked for, whatever their number, and what a write has put on the disk is read
  back; memory outside the caller's buffer and the driver's two pages is not touched.
\<close>

definition disk_ready :: "u64 \<Rightarrow> u64 \<Rightarrow> u64 \<Rightarrow> 'd set \<Rightarrow> 'd storage \<Rightarrow> bool" where
  "disk_ready port page buf I st \<longleftrightarrow> g_storage_type st = STORAGE_TYPE_AHCI \<and> port_ready port page buf I (st_ahci st)"

text \<open>What one transfer, and the loop over transfers, establishes.\<close>

definition disk_has_read :: "u64 \<Rightarrow> u64 \<Rightarrow> u64 \<Rightarrow> 'd set \<Rightarrow> ('d \<Rightarrow> u32 \<Rightarrow> u8 list) \<Rightarrow> u32 \<Rightarrow> nat \<Rightarrow> u64 \<Rightarrow> 'd storage \<Rightarrow> 'd storage \<Rightarrow> bool" where
  "disk_has_read port page buf I disk lba n dst st st' \<longleftrightarrow>
     g_storage_type st' = g_storage_type st \<and> g_fat_start_lba st' = g_fat_start_lba st \<and>
     has_read port page buf I disk lba n dst (st_ahci st) (st_ahci st')"

definition disk_has_written :: "u64 \<Rightarrow> u64 \<Rightarrow> u64 \<Rightarrow> 'd set \<Rightarrow> ('d \<Rightarrow> u32 \<Rightarrow> u8 list) \<Rightarrow> u32 \<Rightarrow> nat \<Rightarrow> u64 \<Rightarrow> 'd storage \<Rightarrow> 'd storage \<Rightarrow> bool" where
  "disk_has_written port page buf I disk lba n src st st' \<longleftrightarrow>
     g_storage_type st' = g_storage_type st \<and> g_fat_start_lba st' = g_fat_start_lba st \<and>
     has_written port page buf I disk lba n src (st_ahci st) (st_ahci st')"

lemma storage_read:
  assumes "obeys hw port page buf I disk" "disk_ready port page buf I st" "driver_apart page buf dst (512 * unat n)"
  shows "\<exists>st'. storage_read_sectors hw lba n dst st = (True, st') \<and> disk_has_read port page buf I disk lba (unat n) dst st st'"
proof -
  obtain a where "ahci_chunks hw lba n dst False (st_ahci st) = (True, a)"
    "has_read port page buf I disk lba (unat n) dst (st_ahci st) a"
    using ahci_read_chunks [OF assms(1) _ assms(3)] assms(2) unfolding disk_ready_def by blast
  then show ?thesis
    using assms(2) by (simp add: storage_read_sectors_def ahci_read_sectors_def disk_ready_def disk_has_read_def)
qed

lemma storage_write:
  assumes "obeys hw port page buf I disk" "disk_ready port page buf I st" "driver_apart page buf src (512 * unat n)"
  shows "\<exists>st'. storage_write_sectors hw lba n src st = (True, st') \<and> disk_has_written port page buf I disk lba (unat n) src st st'"
proof -
  obtain a where "ahci_chunks hw lba n src True (st_ahci st) = (True, a)"
    "has_written port page buf I disk lba (unat n) src (st_ahci st) a"
    using ahci_write_chunks [OF assms(1) _ assms(3)] assms(2) unfolding disk_ready_def by blast
  then show ?thesis
    using assms(2) by (simp add: storage_write_sectors_def ahci_write_sectors_def disk_ready_def disk_has_written_def)
qed

text \<open>
  The loop of the disk interface, for any transfer: \<open>done lba n p st st'\<close> is what a transfer of \<open>n\<close>
  sectors establishes, and two of them in a row combine.
\<close>

locale chunked_transfer =
  fixes transfer :: "u32 \<Rightarrow> u8 \<Rightarrow> u64 \<Rightarrow> 'd storage \<Rightarrow> bool \<times> 'd storage"
    and ready :: "'d storage \<Rightarrow> bool" and apart :: "u64 \<Rightarrow> nat \<Rightarrow> bool"
    and transferred :: "u32 \<Rightarrow> nat \<Rightarrow> u64 \<Rightarrow> 'd storage \<Rightarrow> 'd storage \<Rightarrow> bool"
  assumes transfer: "\<lbrakk>ready st; apart p (512 * unat c)\<rbrakk> \<Longrightarrow>
      \<exists>st'. transfer lba c p st = (True, st') \<and> transferred lba (unat c) p st st'"
    and ready: "\<lbrakk>ready st; transferred lba n p st st'\<rbrakk> \<Longrightarrow> ready st' \<and> g_fat_start_lba st' = g_fat_start_lba st"
    and none: "ready st \<Longrightarrow> transferred lba 0 p st st"
    and append: "\<lbrakk>transferred lba m p st st1; transferred (lba + of_nat m) n (p + of_nat (512 * m)) st1 st2;
        apart p (512 * (m + n))\<rbrakk> \<Longrightarrow> transferred lba (m + n) p st st2"
    and parts: "apart p (m + n) \<Longrightarrow> apart p m \<and> (apart (p + of_nat m) n \<or> n = 0)"
begin

lemma disk_chunks_transferred:
  "ready st \<Longrightarrow> apart p (512 * unat remaining) \<Longrightarrow>
   \<exists>st'. disk_chunks transfer cur remaining p st = (RES_OK, st') \<and>
     transferred (g_fat_start_lba st + cur) (unat remaining) p st st'"
proof (induction "unat remaining" arbitrary: cur remaining p st rule: less_induct)
  case less
  show ?case
  proof (cases "0 < remaining")
    case True
    define chunk where "chunk = (if remaining > 128 then 128 else remaining)"
    have "chunk \<le> remaining" "0 < chunk" "chunk \<le> 128"
      using True by (auto simp: chunk_def)
    then have sub: "unat (remaining - chunk) = unat remaining - unat chunk" "0 < unat chunk" "unat chunk \<le> unat remaining" "unat chunk \<le> 128"
      using unat_sub_le [of chunk remaining] by (simp_all add: word_less_nat_alt word_le_nat_alt)
    then have sum: "unat remaining = unat chunk + unat (remaining - chunk)" "unat (remaining - chunk) < unat remaining"
      by simp_all
    have byte: "unat (ucast chunk :: u8) = unat chunk"
      using sub(4) by (simp add: unsigned_ucast_eq take_bit_nat_eq_self)
    have step: "ucast (chunk * 512) = (of_nat (512 * unat chunk) :: u64)"
    proof -
      have "unat (chunk * 512) = unat chunk * unat (512 :: u32)"
        using sub(4) by (intro unat_mult_no_wrap) simp
      then have "unat (ucast (chunk * 512) :: u64) = 512 * unat chunk"
        by (simp add: unat_ucast_up)
      moreover have "unat (of_nat (512 * unat chunk) :: u64) = 512 * unat chunk"
        using sub(4) by (intro unat_of_nat_small) simp
      ultimately show ?thesis
        by (simp only: word_unat_eq_iff)
    qed
    have apart': "apart p (512 * unat chunk + 512 * unat (remaining - chunk))"
      using less.prems(2) by (simp only: distrib_left [symmetric] sum(1) [symmetric])
    let ?lba = "g_fat_start_lba st + cur"
    obtain st1 where st1: "transfer ?lba (ucast chunk) p st = (True, st1)" "transferred ?lba (unat chunk) p st st1"
      using transfer [OF less.prems(1), of p "ucast chunk" ?lba] parts [OF apart'] byte by auto
    note r1 = ready [OF less.prems(1) st1(2)]
    let ?p = "p + of_nat (512 * unat chunk)"
    have lba: "g_fat_start_lba st1 + (cur + chunk) = ?lba + of_nat (unat chunk)"
      using r1 by (simp add: add.assoc)
    have "\<exists>st'. disk_chunks transfer (cur + chunk) (remaining - chunk) ?p st1 = (RES_OK, st') \<and>
      transferred (?lba + of_nat (unat chunk)) (unat (remaining - chunk)) ?p st1 st'"
    proof (cases "unat (remaining - chunk) = 0")
      case False
      then have "apart ?p (512 * unat (remaining - chunk))"
        using parts [OF apart'] by simp
      then show ?thesis
        using less.hyps [OF sum(2), of st1 ?p "cur + chunk"] r1 sum(2) by (simp add: add.assoc)
    next
      case True
      then have "\<not> 0 < remaining - chunk"
        by (simp add: word_less_nat_alt)
      then show ?thesis
        using r1 True by (subst disk_chunks.simps) (simp add: none)
    qed
    then obtain st2 where st2: "disk_chunks transfer (cur + chunk) (remaining - chunk) ?p st1 = (RES_OK, st2)"
      "transferred (?lba + of_nat (unat chunk)) (unat (remaining - chunk)) ?p st1 st2"
      by blast
    have "disk_chunks transfer cur remaining p st = (RES_OK, st2)"
      by (subst disk_chunks.simps)
        (simp only: Let_def chunk_def [symmetric] True if_True step st1(1) st2(1) prod.case not_True_eq_False if_False)
    moreover have "transferred ?lba (unat remaining) p st st2"
      using append [OF st1(2) st2(2)] less.prems(2) by (simp only: sum(1) [symmetric])
    ultimately show ?thesis
      by blast
  next
    case False
    then show ?thesis
      using less.prems by (subst disk_chunks.simps) (simp add: word_less_nat_alt none)
  qed
qed

end

interpretation disk_reader: chunked_transfer "storage_read_sectors hw"
    "\<lambda>st. obeys hw port page buf I disk \<and> disk_ready port page buf I st" "driver_apart page buf"
    "disk_has_read port page buf I disk" for hw port page buf I disk
proof
  show "\<exists>st'. storage_read_sectors hw lba c p st = (True, st') \<and> disk_has_read port page buf I disk lba (unat c) p st st'"
    if "obeys hw port page buf I disk \<and> disk_ready port page buf I st" "driver_apart page buf p (512 * unat c)" for st p c lba
    using that storage_read by blast
  show "disk_has_read port page buf I disk lba (m + n) p st st2"
    if "disk_has_read port page buf I disk lba m p st st1"
      "disk_has_read port page buf I disk (lba + of_nat m) n (p + of_nat (512 * m)) st1 st2"
      "driver_apart page buf p (512 * (m + n))" for lba m p st st1 n st2
    using that has_read_append unfolding disk_has_read_def by metis
qed (auto simp: disk_has_read_def disk_ready_def has_read_def sectors_from_def mem_range_def others_kept_def
    dest: driver_apart_parts)

interpretation disk_writer: chunked_transfer "storage_write_sectors hw"
    "\<lambda>st. obeys hw port page buf I disk \<and> disk_ready port page buf I st" "driver_apart page buf"
    "disk_has_written port page buf I disk" for hw port page buf I disk
proof
  show "\<exists>st'. storage_write_sectors hw lba c p st = (True, st') \<and> disk_has_written port page buf I disk lba (unat c) p st st'"
    if "obeys hw port page buf I disk \<and> disk_ready port page buf I st" "driver_apart page buf p (512 * unat c)" for st p c lba
    using that storage_write by blast
  show "disk_has_written port page buf I disk lba (m + n) p st st2"
    if "disk_has_written port page buf I disk lba m p st st1"
      "disk_has_written port page buf I disk (lba + of_nat m) n (p + of_nat (512 * m)) st1 st2"
      "driver_apart page buf p (512 * (m + n))" for lba m p st st1 n st2
    using that has_written_append unfolding disk_has_written_def by metis
qed (auto simp: disk_has_written_def disk_ready_def has_written_def write_sectors_def others_kept_def
    dest: driver_apart_parts)

section \<open>Reading and writing through the disk interface\<close>


lemma sectors_written:
  "n \<le> 2 ^ 32 \<Longrightarrow> sectors_from (write_sectors mem src lba n disk) lba n = mem_range mem src (512 * n)"
proof (induction n)
  case (Suc n)
  have "lba + of_nat i \<noteq> lba + of_nat n" if "i < n" for i
  proof -
    have "unat (of_nat i :: u32) = i" "unat (of_nat n :: u32) = n"
      using Suc.prems that by (simp_all add: unat_of_nat_small)
    then show ?thesis
      using that by (metis add_left_cancel less_irrefl)
  qed
  then have "sectors_from (write_sectors mem src lba (Suc n) disk) lba n = sectors_from (write_sectors mem src lba n disk) lba n"
    by (auto simp: sectors_from_def write_sectors_def intro!: arg_cong [of _ _ concat])
  moreover have "write_sectors mem src lba (Suc n) disk (lba + of_nat n) = mem_range mem (src + of_nat (512 * n)) 512"
    by (simp add: write_sectors_def)
  ultimately have "sectors_from (write_sectors mem src lba (Suc n) disk) lba (Suc n) =
      mem_range mem src (512 * n) @ mem_range mem (src + of_nat (512 * n)) 512"
    using Suc by (simp add: sectors_from_def)
  then show ?case
    using mem_range_append [of mem src "512 * n" 512] by (simp add: add.commute)
qed (simp add: sectors_from_def mem_range_def)

lemma other_sectors: "\<forall>i<n. l \<noteq> lba + of_nat i \<Longrightarrow> write_sectors mem src lba n disk l = disk l"
  by (induction n) (simp_all add: write_sectors_def)


section \<open>A disk\<close>

text \<open>A controller that carries out its commands at once, for fixed addresses of port, page and buffer.\<close>

definition place_bytes :: "u64 \<Rightarrow> u8 list \<Rightarrow> memory \<Rightarrow> memory" where
  "place_bytes p xs mem a = (if unat (a - p) < length xs then xs ! unat (a - p) else mem a)"

definition run_command :: "(u32 \<Rightarrow> u8 list) \<times> memory \<Rightarrow> (u32 \<Rightarrow> u8 list) \<times> memory" where
  "run_command = (\<lambda>(disk, mem).
     let n = unat (mem 0x10050C);
         lba = ucast (mem 0x100504) OR push_bit 8 (ucast (mem 0x100505)) OR
               push_bit 16 (ucast (mem 0x100506)) OR push_bit 24 (ucast (mem 0x100508)) in
     if mem 0x100502 = 0x35 then (write_sectors mem 0x200000 lba n disk, mem)
     else (disk, place_bytes 0x200000 (sectors_from disk lba n) mem))"

definition ideal_disk :: "(u32 \<Rightarrow> u8 list) hardware" where
  "ideal_disk =
     \<lparr>hw_inb = (\<lambda>p d. (0, d)), hw_inw = (\<lambda>p d. (0, d)), hw_inl = (\<lambda>p d. (0, d)),
      hw_outb = (\<lambda>p v d. d), hw_outw = (\<lambda>p v d. d), hw_outl = (\<lambda>p v d. d),
      hw_load = (\<lambda>a s. (0, s)), hw_store = (\<lambda>a v s. if a = 0x300138 then run_command s else s)\<rparr>"

lemma place_bytes_range:
  "length xs < 2 ^ 64 \<Longrightarrow> mem_range (place_bytes p xs mem) p (length xs) = xs"
  by (rule nth_equalityI) (simp_all add: mem_range_def place_bytes_def unat_of_nat_small)

lemma place_bytes_other: "a \<notin> addr_range p n \<Longrightarrow> length xs \<le> n \<Longrightarrow> place_bytes p xs mem a = mem a"
proof -
  assume "a \<notin> addr_range p n" "length xs \<le> n"
  moreover have "a = p + of_nat (unat (a - p))"
    by simp
  ultimately show ?thesis
    unfolding place_bytes_def addr_range_def by (metis image_eqI lessThan_iff less_le_trans)
qed

lemma length_sectors_from: "\<forall>l. length (disk l) = 512 \<Longrightarrow> length (sectors_from disk lba n) = 512 * n"
  by (simp add: sectors_from_def length_concat comp_def sum_list_triv)

lemma length_write_sectors: "\<forall>l. length (disk l) = 512 \<Longrightarrow> length (write_sectors mem src lba n disk l) = 512"
  by (induction n) (simp_all add: write_sectors_def mem_range_def)

lemma ideal_disk_obeys: "obeys ideal_disk 0x300100 0x100000 0x200000 {d. \<forall>l. length (d l) = 512} (\<lambda>d. d)"
proof -
  have "carries_out ideal_disk 0x300100 0x100000 0x200000 {d. \<forall>l. length (d l) = 512} (\<lambda>d. d)"
    unfolding carries_out_def
  proof (intro ballI allI impI)
    fix d :: "u32 \<Rightarrow> u8 list" and mem :: memory and is_write lba and n :: u8
    assume d: "d \<in> {d. \<forall>l. length (d l) = 512}" and c: "command_posted 0x100000 0x200000 is_write lba n mem" and n: "0 < n" "n \<le> 8"
    let ?data = "sectors_from d lba (unat n)"
    have small: "512 * unat n \<le> 4096"
      using n(2) by (simp add: word_le_nat_alt)
    have run: "hw_store ideal_disk (0x300100 + PORT_CI) 1 (d, mem) =
        (if is_write then (write_sectors mem 0x200000 lba (unat n) d, mem) else (d, place_bytes 0x200000 ?data mem))"
      using c join_bytes [of lba] by (auto simp: ideal_disk_def PORT_CI_def run_command_def command_posted_def or.assoc)
    have len: "length ?data = 512 * unat n"
      using d by (simp add: length_sectors_from)
    then have "mem_range (place_bytes 0x200000 ?data mem) 0x200000 (512 * unat n) = ?data"
      using place_bytes_range [of ?data "0x200000" mem] small by simp
    moreover have "completes ideal_disk 0x300100 0 s s" for s
      by (simp add: ideal_disk_def)
    ultimately show "\<exists>k<1000000. \<exists>d'\<in>{d. \<forall>l. length (d l) = 512}. \<exists>mem'.
        completes ideal_disk 0x300100 k (hw_store ideal_disk (0x300100 + PORT_CI) 1 (d, mem)) (d', mem') \<and>
        (\<forall>a. a \<notin> addr_range 0x100000 4096 \<longrightarrow> a \<notin> addr_range 0x200000 4096 \<longrightarrow> mem' a = mem a) \<and>
        d' = (if is_write then write_sectors mem 0x200000 lba (unat n) d else d) \<and>
        (\<not> is_write \<longrightarrow> mem_range mem' 0x200000 (512 * unat n) = sectors_from d lba (unat n))"
      unfolding run using d len small
      by (intro exI [of _ 0] conjI bexI [of _ "if is_write then write_sectors mem 0x200000 lba (unat n) d else d"]
          exI [of _ "if is_write then mem else place_bytes 0x200000 ?data mem"])
        (auto simp: place_bytes_other length_write_sectors)
  qed
  then show ?thesis
    by (simp add: obeys_def quiet_def ideal_disk_def PORT_IS_def)
qed

definition example_storage :: "memory \<Rightarrow> (u32 \<Rightarrow> u8 list) \<Rightarrow> (u32 \<Rightarrow> u8 list) storage" where
  "example_storage mem disk =
     \<lparr>st_ahci = \<lparr>ah_dev = disk, ah_mem = mem, ah_pmm = example_pmm, g_ahci_active = True, g_hba = 0x300000,
                  g_active_port = 0x300100, g_active_port_idx = 0, g_ahci_page = 0x100000, g_dma_buf = 0x200000\<rparr>,
      g_storage_ready = True, g_storage_type = STORAGE_TYPE_AHCI, g_last_read_ok = True,
      g_boot_signature_valid = True, g_last_lba = 0, g_boot_sector = 0x600000, g_fat_start_lba = 2048\<rparr>"

lemma ranges_apart:
  assumes "unat p + m \<le> unat q" "unat q + n \<le> 2 ^ 64"
  shows "addr_range p m \<inter> addr_range q n = {}"
proof -
  have "p + of_nat i \<noteq> q + of_nat j" if "i < m" "j < n" for i j
  proof -
    have "unat p + m \<le> 2 ^ 64"
      using assms by linarith
    then have "unat (p + of_nat i) = unat p + i" "unat (q + of_nat j) = unat q + j"
      using unat_offset that assms(2) by blast+
    then have "unat (p + of_nat i) < unat (q + of_nat j)"
      using assms(1) that by linarith
    then show ?thesis
      by auto
  qed
  then show ?thesis
    by (auto simp: addr_range_def)
qed

lemma example_storage_ready:
  assumes "\<forall>l. length (disk l) = 512"
  shows "disk_ready 0x300100 0x100000 0x200000 {d. \<forall>l. length (d l) = 512} (example_storage mem disk)"
  using assms ranges_apart [of "0x100000" 4096 "0x200000" 4096]
  by (simp add: disk_ready_def port_ready_def example_storage_def)

lemma example_apart:
  assumes "0x201000 \<le> unat p" "unat p + n \<le> 2 ^ 64"
  shows "driver_apart 0x100000 0x200000 p n"
  using ranges_apart [of "0x100000" 4096 p n] ranges_apart [of "0x200000" 4096 p n] assms
  by (auto simp: driver_apart_def)



end
