(* ===== verification/Vfs_Spec.thy ===== *)
theory Vfs_Spec
  imports Vfs Disk_Spec Socket_Spec
begin

text \<open>
  What the file layer promises: it is a partial map from handles to open objects.  Every call acts on the
  object its handle is bound to and on no other, a closed handle refuses every call, a failed open binds
  nothing, and a new handle is the smallest free one.
\<close>

section \<open>The abstract table\<close>

datatype ('fil, 'dir) object = OFile 'fil | ODir 'dir | OSocket int

record ('fs, 'fil, 'dir, 'l) files =
  objects :: "int \<Rightarrow> ('fil, 'dir) object option"
  fs_state :: 'fs
  net_state :: "'l net"
  mounted :: bool

datatype vfs_call =
    Open "u8 list" u8 | Socket_Handle int | Socket_Of int
  | Read int u64 u32 | Write int u64 u32 | Seek int u32 | Tell int | File_Size int | Truncate int u32 | Sync int
  | Readdir int vfs_dirent | Fstat int vfs_dirent | Handle_Type int | Close int

type_synonym answer = "int \<times> vfs_dirent option"

definition bind :: "int \<Rightarrow> ('fil, 'dir) object option \<Rightarrow> ('fs, 'fil, 'dir, 'l) files \<Rightarrow> ('fs, 'fil, 'dir, 'l) files" where
  "bind h ob a = a\<lparr>objects := (objects a)(h := ob)\<rparr>"

definition free_handle :: "('fs, 'fil, 'dir, 'l) files \<Rightarrow> int option" where
  "free_handle a = map_option int (List.find (\<lambda>i. objects a (int i) = None) [0..<32])"

text \<open>An operation on an open file that returns 0 or -1.\<close>

definition with_file ::
    "('fil \<Rightarrow> 'fs \<Rightarrow> u32 \<times> 'fil \<times> 'fs) \<Rightarrow> int \<Rightarrow> ('fs, 'fil, 'dir, 'l) files \<Rightarrow> int \<times> ('fs, 'fil, 'dir, 'l) files" where
  "with_file f h a =
     (case objects a h of
        Some (OFile fil) \<Rightarrow>
          if mounted a then
            let (res, fil, fs) = f fil (fs_state a) in
            (if res = 0 then 0 else -1, bind h (Some (OFile fil)) (a\<lparr>fs_state := fs\<rparr>))
          else (-1, a)
      | _ \<Rightarrow> (-1, a))"

definition spec_open ::
    "('fs, 'fil, 'dir) fatfs \<Rightarrow> u8 list \<Rightarrow> u8 \<Rightarrow> ('fs, 'fil, 'dir, 'l) files \<Rightarrow> int \<times> ('fs, 'fil, 'dir, 'l) files" where
  "spec_open fat path mode a =
     (case (if mounted a then free_handle a else None) of
        None \<Rightarrow> (-1, a)
      | Some h \<Rightarrow>
          let dir = (\<lambda>a. let (res, dir, fs) = f_opendir fat path (fs_state a); a = a\<lparr>fs_state := fs\<rparr> in
                         if res = 0 then (h, bind h (Some (ODir dir)) a) else (-1, a)) in
          if path = lit ''/'' then dir a
          else
            let (res, fil, fs) = f_open fat path (fat_mode mode) (fs_state a); a = a\<lparr>fs_state := fs\<rparr> in
            if res = 0 then (h, bind h (Some (OFile fil)) a) else dir a)"

definition spec_read ::
    "('fs, 'fil, 'dir) fatfs \<Rightarrow> 'l lwip_api \<Rightarrow> 'l net_poller \<Rightarrow> int \<Rightarrow> u64 \<Rightarrow> u32 \<Rightarrow> ('fs, 'fil, 'dir, 'l) files \<Rightarrow>
     (int \<times> ('fs, 'fil, 'dir, 'l) files) option" where
  "spec_read fat api poll h buffer bytes a =
     (if \<not> mounted a \<or> buffer = 0 \<or> bytes = 0 then Some (0, a)
      else case objects a h of
        Some (OSocket s) \<Rightarrow>
          map_option (\<lambda>(res, net). (if res < 0 then 0 else uint (of_int res :: u32), a\<lparr>net_state := net\<rparr>))
            (net_socket_recv api poll s buffer bytes (net_state a))
      | Some (OFile fil) \<Rightarrow>
          let (res, data, fil, fs) = f_read fat fil bytes (fs_state a);
              mem = fold (\<lambda>i m. m(buffer + of_nat i := data ! i)) [0..<length data] (net_mem (net_state a)) in
          Some (if res = 0 then uint (of_nat (length data) :: u32) else 0,
                bind h (Some (OFile fil)) (a\<lparr>fs_state := fs, net_state := set_mem mem (net_state a)\<rparr>))
      | _ \<Rightarrow> Some (0, a))"

definition spec_write ::
    "('fs, 'fil, 'dir) fatfs \<Rightarrow> 'l lwip_api \<Rightarrow> 'l net_poller \<Rightarrow> int \<Rightarrow> u64 \<Rightarrow> u32 \<Rightarrow> ('fs, 'fil, 'dir, 'l) files \<Rightarrow>
     (int \<times> ('fs, 'fil, 'dir, 'l) files) option" where
  "spec_write fat api poll h buffer bytes a =
     (if \<not> mounted a \<or> buffer = 0 \<or> bytes = 0 then Some (0, a)
      else
        let data = mem_range (net_mem (net_state a)) buffer (unat bytes) in
        case objects a h of
          Some (OSocket s) \<Rightarrow>
            map_option (\<lambda>(res, net). (if res < 0 then 0 else uint (of_int res :: u32), a\<lparr>net_state := net\<rparr>))
              (net_socket_send api poll s (Some data) bytes (net_state a))
        | Some (OFile fil) \<Rightarrow>
            let (res, bw, fil, fs) = f_write fat fil data (fs_state a) in
            Some (if res = 0 then uint bw else 0, bind h (Some (OFile fil)) (a\<lparr>fs_state := fs\<rparr>))
        | _ \<Rightarrow> Some (0, a))"

definition spec_readdir ::
    "('fs, 'fil, 'dir) fatfs \<Rightarrow> int \<Rightarrow> vfs_dirent \<Rightarrow> ('fs, 'fil, 'dir, 'l) files \<Rightarrow> answer \<times> ('fs, 'fil, 'dir, 'l) files" where
  "spec_readdir fat h out a =
     (case (if mounted a then objects a h else None) of
        Some (ODir dir) \<Rightarrow>
          let (res, fno, dir, fs) = f_readdir fat dir (fs_state a); a = bind h (Some (ODir dir)) (a\<lparr>fs_state := fs\<rparr>) in
          if res = 0 \<and> fname fno \<noteq> [] then ((1, Some (dirent_of fno)), a) else ((0, Some out), a)
      | _ \<Rightarrow> ((-1, Some out), a))"

definition spec_close ::
    "('fs, 'fil, 'dir) fatfs \<Rightarrow> 'l lwip_api \<Rightarrow> int \<Rightarrow> ('fs, 'fil, 'dir, 'l) files \<Rightarrow> ('fs, 'fil, 'dir, 'l) files option" where
  "spec_close fat api h a =
     (case objects a h of
        None \<Rightarrow> Some a
      | Some (OFile fil) \<Rightarrow> Some (bind h None (a\<lparr>fs_state := f_close fat fil (fs_state a)\<rparr>))
      | Some (ODir dir) \<Rightarrow> Some (bind h None (a\<lparr>fs_state := f_closedir fat dir (fs_state a)\<rparr>))
      | Some (OSocket s) \<Rightarrow> map_option (\<lambda>net. bind h None (a\<lparr>net_state := net\<rparr>)) (net_socket_close api s (net_state a)))"

definition spec_truncate ::
    "('fs, 'fil, 'dir) fatfs \<Rightarrow> int \<Rightarrow> u32 \<Rightarrow> ('fs, 'fil, 'dir, 'l) files \<Rightarrow> int \<times> ('fs, 'fil, 'dir, 'l) files" where
  "spec_truncate fat h len a =
     (let (r, a) = with_file (\<lambda>fil. f_lseek fat fil len) h a in
      if r = 0 then with_file (f_truncate fat) h a else (-1, a))"

fun spec_do ::
    "('fs, 'fil, 'dir) fatfs \<Rightarrow> 'l lwip_api \<Rightarrow> 'l net_poller \<Rightarrow> vfs_call \<Rightarrow> ('fs, 'fil, 'dir, 'l) files \<Rightarrow>
     (answer \<times> ('fs, 'fil, 'dir, 'l) files) option" where
  "spec_do fat api poll (Open path mode) a = (let (r, a) = spec_open fat path mode a in Some ((r, None), a))"
| "spec_do fat api poll (Socket_Handle s) a =
     (case free_handle a of
        None \<Rightarrow> Some ((-1, None), a) | Some h \<Rightarrow> Some ((h, None), bind h (Some (OSocket s)) a))"
| "spec_do fat api poll (Socket_Of h) a =
     Some ((case objects a h of Some (OSocket s) \<Rightarrow> s | _ \<Rightarrow> -1, None), a)"
| "spec_do fat api poll (Read h buffer n) a = map_option (\<lambda>(r, a). ((r, None), a)) (spec_read fat api poll h buffer n a)"
| "spec_do fat api poll (Write h buffer n) a = map_option (\<lambda>(r, a). ((r, None), a)) (spec_write fat api poll h buffer n a)"
| "spec_do fat api poll (Seek h offset) a = (let (r, a) = with_file (\<lambda>fil. f_lseek fat fil offset) h a in Some ((r, None), a))"
| "spec_do fat api poll (Tell h) a =
     Some ((case (if mounted a then objects a h else None) of Some (OFile fil) \<Rightarrow> uint (f_tell fat fil) | _ \<Rightarrow> 0, None), a)"
| "spec_do fat api poll (File_Size h) a =
     Some ((case (if mounted a then objects a h else None) of Some (OFile fil) \<Rightarrow> uint (f_size fat fil) | _ \<Rightarrow> 0, None), a)"
| "spec_do fat api poll (Truncate h len) a = (let (r, a) = spec_truncate fat h len a in Some ((r, None), a))"
| "spec_do fat api poll (Sync h) a = (let (r, a) = with_file (f_sync fat) h a in Some ((r, None), a))"
| "spec_do fat api poll (Readdir h out) a = Some (spec_readdir fat h out a)"
| "spec_do fat api poll (Fstat h out) a =
     Some (case (if mounted a then objects a h else None) of
         None \<Rightarrow> (-1, Some out)
       | Some ob \<Rightarrow> (0, Some \<lparr>de_name = [], de_is_dir = (case ob of ODir _ \<Rightarrow> True | _ \<Rightarrow> False),
                            de_size = (case ob of OFile fil \<Rightarrow> f_size fat fil | _ \<Rightarrow> 0)\<rparr>), a)"
| "spec_do fat api poll (Handle_Type h) a =
     Some ((case objects a h of None \<Rightarrow> -1 | Some (OFile _) \<Rightarrow> 0 | Some (ODir _) \<Rightarrow> 1 | Some (OSocket _) \<Rightarrow> 2, None), a)"
| "spec_do fat api poll (Close h) a = map_option (\<lambda>a. ((0, None), a)) (spec_close fat api h a)"

section \<open>The calls of the file layer\<close>

fun vfs_do ::
    "('fs, 'fil, 'dir) fatfs \<Rightarrow> 'l lwip_api \<Rightarrow> 'l net_poller \<Rightarrow> vfs_call \<Rightarrow> ('fs, 'fil, 'dir, 'l) vfs \<Rightarrow>
     (answer \<times> ('fs, 'fil, 'dir, 'l) vfs) option" where
  "vfs_do fat api poll (Open path mode) st = (let (r, st) = vfs_open fat (Some path) mode st in Some ((r, None), st))"
| "vfs_do fat api poll (Socket_Handle s) st = (let (r, st) = vfs_create_socket_handle s st in Some ((r, None), st))"
| "vfs_do fat api poll (Socket_Of h) st = Some ((vfs_get_socket_id h st, None), st)"
| "vfs_do fat api poll (Read h buffer n) st =
     map_option (\<lambda>(r, st). ((uint r, None), st)) (vfs_read fat api poll h buffer n st)"
| "vfs_do fat api poll (Write h buffer n) st =
     map_option (\<lambda>(r, st). ((uint r, None), st)) (vfs_write fat api poll h buffer n st)"
| "vfs_do fat api poll (Seek h offset) st = (let (r, st) = vfs_seek fat h offset st in Some ((r, None), st))"
| "vfs_do fat api poll (Tell h) st = Some ((uint (vfs_tell fat h st), None), st)"
| "vfs_do fat api poll (File_Size h) st = Some ((uint (vfs_size fat h st), None), st)"
| "vfs_do fat api poll (Truncate h len) st = (let (r, st) = vfs_truncate fat h len st in Some ((r, None), st))"
| "vfs_do fat api poll (Sync h) st = (let (r, st) = vfs_sync fat h st in Some ((r, None), st))"
| "vfs_do fat api poll (Readdir h out) st =
     (let (r, entry, st) = vfs_readdir fat h (Some out) st in Some ((r, entry), st))"
| "vfs_do fat api poll (Fstat h out) st = Some (vfs_fstat fat h (Some out) st, st)"
| "vfs_do fat api poll (Handle_Type h) st = Some ((vfs_get_handle_type h st, None), st)"
| "vfs_do fat api poll (Close h) st = map_option (\<lambda>st. ((0, None), st)) (vfs_close fat api h st)"

text \<open>The abstraction: what a used slot of the table is.\<close>

definition object_of :: "('fil, 'dir) vfs_handle \<Rightarrow> ('fil, 'dir) object option" where
  "object_of k =
     (if \<not> h_in_use k then None
      else if h_type k = VFS_HANDLE_SOCKET then Some (OSocket (h_socket_id k))
      else if h_type k = VFS_HANDLE_DIR then Some (ODir (h_dir k)) else Some (OFile (h_fil k)))"

definition files_of :: "('fs, 'fil, 'dir, 'l) vfs \<Rightarrow> ('fs, 'fil, 'dir, 'l) files" where
  "files_of st =
     \<lparr>objects = (\<lambda>h. if handle_range h then object_of (handle h st) else None),
      fs_state = g_fatfs st, net_state = vfs_net st, mounted = g_vfs_ready st\<rparr>"

definition vfs_ok :: "('fs, 'fil, 'dir, 'l) vfs \<Rightarrow> bool" where
  "vfs_ok st \<longleftrightarrow> length (g_handles st) = VFS_MAX_HANDLES \<and>
     (\<forall>k\<in>set (g_handles st). h_in_use k \<longrightarrow> h_type k \<in> {VFS_HANDLE_FILE, VFS_HANDLE_DIR, VFS_HANDLE_SOCKET})"

section \<open>The table and its abstraction\<close>

lemma handle_types [simp]:
  "VFS_HANDLE_FILE \<noteq> VFS_HANDLE_DIR" "VFS_HANDLE_FILE \<noteq> VFS_HANDLE_SOCKET" "VFS_HANDLE_DIR \<noteq> VFS_HANDLE_SOCKET"
  "VFS_HANDLE_DIR \<noteq> VFS_HANDLE_FILE" "VFS_HANDLE_SOCKET \<noteq> VFS_HANDLE_FILE" "VFS_HANDLE_SOCKET \<noteq> VFS_HANDLE_DIR"
  by (simp_all add: VFS_HANDLE_FILE_def VFS_HANDLE_DIR_def VFS_HANDLE_SOCKET_def)

lemma handle_upd:
  assumes "vfs_ok st" "handle_range h" "handle_range h'"
  shows "handle h' (upd_handle h f st) = (if h' = h then f (handle h st) else handle h' st)"
  using assms by (auto simp: handle_def upd_handle_def vfs_ok_def handle_range_def nth_list_update)

lemma upd_handle_simps [simp]:
  "g_fatfs (upd_handle h f st) = g_fatfs st" "vfs_net (upd_handle h f st) = vfs_net st"
  "g_vfs_ready (upd_handle h f st) = g_vfs_ready st"
  "handle h (st\<lparr>g_fatfs := fs\<rparr>) = handle h st" "handle h (st\<lparr>vfs_net := net\<rparr>) = handle h st"
  by (simp_all add: upd_handle_def handle_def)

lemma files_upd:
  assumes "vfs_ok st" "handle_range h"
  shows "files_of (upd_handle h f st) = bind h (object_of (f (handle h st))) (files_of st)"
  using assms by (auto simp: files_of_def bind_def handle_upd)

lemma files_fs [simp]: "files_of (st\<lparr>g_fatfs := fs\<rparr>) = (files_of st)\<lparr>fs_state := fs\<rparr>"
  by (simp add: files_of_def handle_def cong: if_cong)

lemma files_net [simp]: "files_of (st\<lparr>vfs_net := net\<rparr>) = (files_of st)\<lparr>net_state := net\<rparr>"
  by (simp add: files_of_def handle_def cong: if_cong)

lemma ok_fs [simp]: "vfs_ok (st\<lparr>g_fatfs := fs\<rparr>) = vfs_ok st" "vfs_ok (st\<lparr>vfs_net := net\<rparr>) = vfs_ok st"
  by (simp_all add: vfs_ok_def)

lemma ok_upd:
  assumes "vfs_ok st" "h_in_use (f (handle h st)) \<longrightarrow> h_type (f (handle h st)) \<in> {VFS_HANDLE_FILE, VFS_HANDLE_DIR, VFS_HANDLE_SOCKET}"
  shows "vfs_ok (upd_handle h f st)"
  using assms set_update_subset_insert [of "g_handles st" "nat h"] by (fastforce simp: vfs_ok_def upd_handle_def)

lemma ok_type: "vfs_ok st \<Longrightarrow> handle_range h \<Longrightarrow> h_in_use (handle h st) \<Longrightarrow>
  h_type (handle h st) \<in> {VFS_HANDLE_FILE, VFS_HANDLE_DIR, VFS_HANDLE_SOCKET}"
  unfolding vfs_ok_def handle_def handle_range_def by (auto simp: nat_less_iff)

lemma files_simps [simp]:
  "fs_state (files_of st) = g_fatfs st" "net_state (files_of st) = vfs_net st" "mounted (files_of st) = g_vfs_ready st"
  by (simp_all add: files_of_def)

lemma objects_of: "objects (files_of st) h = (if handle_range h then object_of (handle h st) else None)"
  by (simp add: files_of_def)

lemma objects_cases:
  assumes "vfs_ok st"
  shows "objects (files_of st) h = Some (OFile fil) \<longleftrightarrow> is_open h VFS_HANDLE_FILE st \<and> h_fil (handle h st) = fil"
    "objects (files_of st) h = Some (ODir dir) \<longleftrightarrow> is_open h VFS_HANDLE_DIR st \<and> h_dir (handle h st) = dir"
    "objects (files_of st) h = Some (OSocket s) \<longleftrightarrow> is_open h VFS_HANDLE_SOCKET st \<and> h_socket_id (handle h st) = s"
    "objects (files_of st) h = None \<longleftrightarrow> \<not> handle_range h \<or> \<not> h_in_use (handle h st)"
  using ok_type [OF assms, of h] by (auto simp: objects_of object_of_def is_open_def)

section \<open>The calls, one by one\<close>

lemma allocate_handle_cases:
  assumes "vfs_ok st"
  obtains "free_handle (files_of st) = None" "allocate_handle st = (-1, st)"
  | h where "free_handle (files_of st) = Some h" "handle_range h" "0 \<le> h" "\<not> h_in_use (handle h st)"
      "allocate_handle st = (h, upd_handle h (\<lambda>k. k\<lparr>h_in_use := True, h_type := VFS_HANDLE_FILE, h_socket_id := -1\<rparr>) st)"
proof -
  have "(objects (files_of st) (int i) = None) = (\<not> h_in_use (g_handles st ! i))" if "i \<in> set [0..<VFS_MAX_HANDLES]" for i
    using that objects_cases(4) [OF assms, of "int i"] by (auto simp: handle_def handle_range_def)
  then have find: "List.find (\<lambda>i. objects (files_of st) (int i) = None) [0..<32] =
      List.find (\<lambda>i. \<not> h_in_use (g_handles st ! i)) [0..<VFS_MAX_HANDLES]"
    unfolding VFS_MAX_HANDLES_def by (intro find_cong refl)
  show thesis
  proof (cases "List.find (\<lambda>i. \<not> h_in_use (g_handles st ! i)) [0..<VFS_MAX_HANDLES]")
    case None
    then show thesis
      using that(1) find by (simp add: free_handle_def allocate_handle_def)
  next
    case (Some i)
    then have "i < VFS_MAX_HANDLES" "\<not> h_in_use (g_handles st ! i)"
      by (auto simp: find_Some_iff)
    then show thesis
      using that(2) [of "int i"] find Some by (simp add: free_handle_def allocate_handle_def handle_range_def handle_def)
  qed
qed

lemma with_file_simp:
  assumes "vfs_ok st"
  shows "with_file f h (files_of st) =
    (if \<not> g_vfs_ready st \<or> \<not> is_open h VFS_HANDLE_FILE st then (-1, files_of st)
     else let (res, fil, fs) = f (h_fil (handle h st)) (g_fatfs st) in (if res = FR_OK then 0 else -1, files_of (set_file h fil fs st)))"
proof (cases "is_open h VFS_HANDLE_FILE st")
  case True
  then have "objects (files_of st) h = Some (OFile (h_fil (handle h st)))" "handle_range h"
    "object_of (handle h st) = Some (OFile (h_fil (handle h st)))"
    using objects_cases(1) [OF assms, of h] by (auto simp: is_open_def object_of_def)
  then show ?thesis
    using True assms files_upd [of "st\<lparr>g_fatfs := fs\<rparr>" h for fs]
    by (auto simp: with_file_def set_file_def FR_OK_def object_of_def is_open_def split: prod.splits)
next
  case False
  then show ?thesis
    using objects_cases(1) [OF assms, of h]
    by (auto simp: with_file_def split: option.splits object.splits)
qed

lemma ok_set_file: "vfs_ok st \<Longrightarrow> is_open h VFS_HANDLE_FILE st \<Longrightarrow> vfs_ok (set_file h fil fs st)"
  unfolding set_file_def by (rule ok_upd) (auto simp: is_open_def)

lemma open_set_file: "vfs_ok st \<Longrightarrow> is_open h VFS_HANDLE_FILE st \<Longrightarrow> is_open h VFS_HANDLE_FILE (set_file h fil fs st)"
  by (auto simp: set_file_def is_open_def handle_upd)

lemma ready_set_file [simp]: "g_vfs_ready (set_file h fil fs st) = g_vfs_ready st"
  by (simp add: set_file_def)

text \<open>A concrete outcome that is the abstract one, in a well-formed table.\<close>

definition agrees :: "('r \<times> ('fs, 'fil, 'dir, 'l) vfs) option \<Rightarrow> ('r \<times> ('fs, 'fil, 'dir, 'l) files) option \<Rightarrow> bool" where
  "agrees x y \<longleftrightarrow> map_option (map_prod id files_of) x = y \<and> (\<forall>r st. x = Some (r, st) \<longrightarrow> vfs_ok st)"

lemma agrees_simps [simp]:
  "agrees None y \<longleftrightarrow> y = None" "agrees (Some (r, st)) y \<longleftrightarrow> y = Some (r, files_of st) \<and> vfs_ok st"
  by (auto simp: agrees_def)

lemma bind_bind [simp]: "bind h x (bind h y a) = bind h x a"
  by (simp add: bind_def)

lemma bind_fs [simp]:
  "(bind h x a)\<lparr>fs_state := fs\<rparr> = bind h x (a\<lparr>fs_state := fs\<rparr>)" "fs_state (bind h x a) = fs_state a"
  "net_state (bind h x a) = net_state a" "mounted (bind h x a) = mounted a" "objects (bind h x a) = (objects a)(h := x)"
  by (simp_all add: bind_def)

lemma bind_same: "objects a h = x \<Longrightarrow> bind h x a = a"
  by (simp add: bind_def fun_upd_idem)

lemma upd_handle_twice:
  assumes "vfs_ok st" "handle_range h"
  shows "upd_handle h g (upd_handle h f st) = upd_handle h (\<lambda>k. g (f k)) st"
  using assms by (simp add: upd_handle_def handle_def vfs_ok_def handle_range_def nat_less_iff)

lemma upd_fs: "(upd_handle h f st)\<lparr>g_fatfs := fs\<rparr> = upd_handle h f (st\<lparr>g_fatfs := fs\<rparr>)"
  by (simp add: upd_handle_def handle_def)

text \<open>Updates of one slot, collected into one.\<close>

lemma agrees_upd:
  assumes "vfs_ok st" "handle_range h"
  shows "agrees (Some (r, upd_handle h f (st\<lparr>g_fatfs := fs\<rparr>))) y \<longleftrightarrow>
    y = Some (r, bind h (object_of (f (handle h st))) ((files_of st)\<lparr>fs_state := fs\<rparr>)) \<and>
    vfs_ok (upd_handle h f (st\<lparr>g_fatfs := fs\<rparr>))"
  using assms by (simp add: files_upd)

lemma ok_upd_fs:
  assumes "vfs_ok st" "h_in_use (f (handle h st)) \<longrightarrow> h_type (f (handle h st)) \<in> {VFS_HANDLE_FILE, VFS_HANDLE_DIR, VFS_HANDLE_SOCKET}"
  shows "vfs_ok (upd_handle h f (st\<lparr>g_fatfs := fs\<rparr>))"
  using assms by (simp add: ok_upd)

lemma vfs_open_sim:
  assumes "vfs_ok st"
  shows "agrees (Some (vfs_open fat (Some path) mode st)) (Some (spec_open fat path mode (files_of st)))"
proof (cases "g_vfs_ready st")
  case True
  from assms show ?thesis
  proof (cases rule: allocate_handle_cases)
    case 1
    then show ?thesis
      using True assms by (simp add: vfs_open_def spec_open_def)
  next
    case (2 h)
    have undo: "bind h None ((files_of st)\<lparr>fs_state := fs\<rparr>) = (files_of st)\<lparr>fs_state := fs\<rparr>" for fs
      using 2(2,4) by (intro bind_same) (simp add: objects_of object_of_def)
    obtain res fil fs where open_: "f_open fat path (fat_mode mode) (g_fatfs st) = (res, fil, fs)"
      by (metis prod_cases3)
    obtain res1 dir1 fs1 where dir1: "f_opendir fat path (g_fatfs st) = (res1, dir1, fs1)"
      by (metis prod_cases3)
    obtain res2 dir2 fs2 where dir2: "f_opendir fat path fs = (res2, dir2, fs2)"
      by (metis prod_cases3)
    note defs = vfs_open_def spec_open_def open_dir_def Let_def FR_OK_def lit_def True open_ dir2
    note rules = 2 assms upd_handle_twice upd_fs agrees_upd ok_upd_fs object_of_def undo
    have "\<not> h < 0"
      using 2(3) by simp
    with dir1 show ?thesis
      by (cases "path = [47]"; cases "res = 0"; cases "res1 = 0"; cases "res2 = 0")
        (simp_all add: defs rules del: agrees_simps)
  qed
qed (use assms in \<open>simp add: vfs_open_def spec_open_def\<close>)

text \<open>What a handle is bound to, and what the checks of the calls make of it.\<close>

lemma object_cases:
  assumes "vfs_ok st"
  obtains (closed_h) "objects (files_of st) h = None" "\<And>ty. \<not> is_open h ty st" "\<not> (handle_range h \<and> h_in_use (handle h st))"
  | (file_h) "objects (files_of st) h = Some (OFile (h_fil (handle h st)))" "handle_range h" "h_in_use (handle h st)"
      "h_type (handle h st) = VFS_HANDLE_FILE" "\<And>ty. is_open h ty st = (ty = VFS_HANDLE_FILE)"
  | (dir_h) "objects (files_of st) h = Some (ODir (h_dir (handle h st)))" "handle_range h" "h_in_use (handle h st)"
      "h_type (handle h st) = VFS_HANDLE_DIR" "\<And>ty. is_open h ty st = (ty = VFS_HANDLE_DIR)"
  | (socket_h) "objects (files_of st) h = Some (OSocket (h_socket_id (handle h st)))" "handle_range h" "h_in_use (handle h st)"
      "h_type (handle h st) = VFS_HANDLE_SOCKET" "\<And>ty. is_open h ty st = (ty = VFS_HANDLE_SOCKET)"
proof (cases "handle_range h \<and> h_in_use (handle h st)")
  case True
  then show thesis
    using ok_type [OF assms, of h] file_h dir_h socket_h by (auto simp: objects_of object_of_def is_open_def)
qed (use closed_h in \<open>auto simp: objects_of object_of_def is_open_def\<close>)

lemma set_file_sim:
  assumes "vfs_ok st" "is_open h VFS_HANDLE_FILE st"
  shows "files_of (set_file h fil fs st) = bind h (Some (OFile fil)) ((files_of st)\<lparr>fs_state := fs\<rparr>)"
  using assms by (simp add: set_file_def files_upd is_open_def object_of_def)

lemma socket_handle_sim:
  assumes "vfs_ok st"
  shows "agrees (vfs_do fat api poll (Socket_Handle s) st) (spec_do fat api poll (Socket_Handle s) (files_of st))"
  using assms
proof (cases rule: allocate_handle_cases)
  case (2 h)
  have "\<not> h < 0"
    using 2(3) by simp
  then show ?thesis
    by (simp add: vfs_create_socket_handle_def Let_def 2 assms upd_handle_twice files_upd ok_upd object_of_def)
qed (use assms in \<open>simp add: vfs_create_socket_handle_def\<close>)

lemma read_sim:
  assumes "vfs_ok st"
  shows "agrees (vfs_do fat api poll (Read h buffer n) st) (spec_do fat api poll (Read h buffer n) (files_of st))"
proof (cases "\<not> g_vfs_ready st \<or> buffer = 0 \<or> n = 0")
  case ready: False
  from assms show ?thesis
  proof (cases rule: object_cases [where h = h])
    case file_h
    then show ?thesis
      using ready assms by (simp add: vfs_read_def spec_read_def Let_def set_file_sim ok_set_file FR_OK_def is_open_def split: prod.split)
  next
    case socket_h
    then show ?thesis
      using ready assms by (auto simp: vfs_read_def spec_read_def Let_def split: option.split)
  qed (use ready assms in \<open>auto simp: vfs_read_def spec_read_def\<close>)
qed (use assms in \<open>auto simp: vfs_read_def spec_read_def\<close>)

lemma write_sim:
  assumes "vfs_ok st"
  shows "agrees (vfs_do fat api poll (Write h buffer n) st) (spec_do fat api poll (Write h buffer n) (files_of st))"
proof (cases "\<not> g_vfs_ready st \<or> buffer = 0 \<or> n = 0")
  case ready: False
  from assms show ?thesis
  proof (cases rule: object_cases [where h = h])
    case file_h
    then show ?thesis
      using ready assms by (simp add: vfs_write_def spec_write_def Let_def set_file_sim ok_set_file FR_OK_def split: prod.split)
  next
    case socket_h
    then show ?thesis
      using ready assms by (auto simp: vfs_write_def spec_write_def Let_def split: option.split)
  qed (use ready assms in \<open>auto simp: vfs_write_def spec_write_def Let_def\<close>)
qed (use assms in \<open>auto simp: vfs_write_def spec_write_def\<close>)

text \<open>Seek, truncate and sync are \<^const>\<open>with_file\<close> once or twice.\<close>

definition on_file ::
    "('fil \<Rightarrow> 'fs \<Rightarrow> u32 \<times> 'fil \<times> 'fs) \<Rightarrow> int \<Rightarrow> ('fs, 'fil, 'dir, 'l) vfs \<Rightarrow> int \<times> ('fs, 'fil, 'dir, 'l) vfs" where
  "on_file f h st =
     (if \<not> g_vfs_ready st \<or> \<not> is_open h VFS_HANDLE_FILE st then (-1, st)
      else let (res, fil, fs) = f (h_fil (handle h st)) (g_fatfs st) in (if res = FR_OK then 0 else -1, set_file h fil fs st))"

lemma on_file_calls:
  "vfs_seek fat h offset = on_file (\<lambda>fil. f_lseek fat fil offset) h"
  "vfs_sync fat h = on_file (f_sync fat) h"
  by (simp_all add: fun_eq_iff vfs_seek_def vfs_sync_def on_file_def)

lemma on_file_sim:
  assumes "vfs_ok st"
  shows "with_file f h (files_of st) = map_prod id files_of (on_file f h st)" "vfs_ok (snd (on_file f h st))"
  using assms by (auto simp: with_file_simp on_file_def Let_def ok_set_file split: prod.split)

lemma truncate_on_file:
  assumes "vfs_ok st"
  shows "vfs_truncate fat h len st =
    (let (r, st) = on_file (\<lambda>fil. f_lseek fat fil len) h st in if r = 0 then on_file (f_truncate fat) h st else (-1, st))"
  using assms by (auto simp: vfs_truncate_def on_file_def Let_def open_set_file split: prod.split)

lemma file_sim:
  assumes "vfs_ok st"
  shows "agrees (vfs_do fat api poll (Seek h offset) st) (spec_do fat api poll (Seek h offset) (files_of st))"
    "agrees (vfs_do fat api poll (Sync h) st) (spec_do fat api poll (Sync h) (files_of st))"
    "agrees (vfs_do fat api poll (Truncate h len) st) (spec_do fat api poll (Truncate h len) (files_of st))"
  using on_file_sim [OF assms] on_file_sim [OF on_file_sim(2) [OF assms]]
  by (simp_all add: on_file_calls truncate_on_file assms spec_truncate_def Let_def split_beta)

lemma readdir_sim:
  assumes "vfs_ok st"
  shows "agrees (vfs_do fat api poll (Readdir h out) st) (spec_do fat api poll (Readdir h out) (files_of st))"
  using assms
proof (cases rule: object_cases [where h = h])
  case dir_h
  then show ?thesis
    using assms by (simp add: vfs_readdir_def spec_readdir_def Let_def files_upd ok_upd object_of_def FR_OK_def split: prod.split)
qed (use assms in \<open>auto simp: vfs_readdir_def spec_readdir_def\<close>)

lemma query_sim:
  assumes "vfs_ok st"
  shows "agrees (vfs_do fat api poll (Socket_Of h) st) (spec_do fat api poll (Socket_Of h) (files_of st))"
    "agrees (vfs_do fat api poll (Tell h) st) (spec_do fat api poll (Tell h) (files_of st))"
    "agrees (vfs_do fat api poll (File_Size h) st) (spec_do fat api poll (File_Size h) (files_of st))"
    "agrees (vfs_do fat api poll (Fstat h out) st) (spec_do fat api poll (Fstat h out) (files_of st))"
    "agrees (vfs_do fat api poll (Handle_Type h) st) (spec_do fat api poll (Handle_Type h) (files_of st))"
  using assms
  by (cases rule: object_cases [where h = h];
      auto simp: vfs_get_socket_id_def vfs_tell_def vfs_size_def vfs_fstat_def vfs_get_handle_type_def
        VFS_HANDLE_FILE_def VFS_HANDLE_DIR_def VFS_HANDLE_SOCKET_def)+

lemma close_sim:
  assumes "vfs_ok st"
  shows "agrees (vfs_do fat api poll (Close h) st) (spec_do fat api poll (Close h) (files_of st))"
  using assms
proof (cases rule: object_cases [where h = h])
  case socket_h
  then show ?thesis
    using assms
    by (cases "net_socket_close api (h_socket_id (handle h st)) (vfs_net st)")
      (simp_all add: vfs_close_def spec_close_def Let_def files_upd ok_upd object_of_def)
qed (use assms in \<open>auto simp: vfs_close_def spec_close_def Let_def files_upd ok_upd_fs object_of_def\<close>)

lemma vfs_do_sim:
  assumes "vfs_ok st"
  shows "agrees (vfs_do fat api poll c st) (spec_do fat api poll c (files_of st))"
proof (cases c)
  case (Open path mode)
  then show ?thesis
    using vfs_open_sim [OF assms, of fat path mode] by (auto split: prod.split)
next
  case (Socket_Handle s)
  show ?thesis
    unfolding Socket_Handle by (rule socket_handle_sim [OF assms])
qed (simp_all only: read_sim write_sim file_sim readdir_sim query_sim close_sim assms)

section \<open>Histories\<close>

fun history :: "('c \<Rightarrow> 's \<Rightarrow> ('r \<times> 's) option) \<Rightarrow> 'c list \<Rightarrow> 's \<Rightarrow> ('r list \<times> 's) option" where
  "history step [] st = Some ([], st)"
| "history step (c # cs) st =
     (case step c st of None \<Rightarrow> None | Some (r, st) \<Rightarrow> map_option (\<lambda>(rs, st). (r # rs, st)) (history step cs st))"

lemma history_sim:
  assumes "vfs_ok st"
  shows "map_option (map_prod id files_of) (history (vfs_do fat api poll) cs st) = history (spec_do fat api poll) cs (files_of st)"
  using assms
proof (induction cs arbitrary: st)
  case (Cons c cs)
  show ?case
  proof (cases "vfs_do fat api poll c st")
    case None
    then show ?thesis
      using vfs_do_sim [OF Cons.prems, of fat api poll c] by simp
  next
    case (Some rs)
    obtain r st' where "rs = (r, st')"
      by fastforce
    then show ?thesis
      using vfs_do_sim [OF Cons.prems, of fat api poll c] Some Cons.IH [of st', symmetric]
      by (cases "history (vfs_do fat api poll) cs st'") (auto simp del: vfs_do.simps spec_do.simps)
  qed
qed simp

lemma vfs_init_handles:
  "g_handles (vfs_init fat hw sector_buf st) = map (\<lambda>h. h\<lparr>h_in_use := False\<rparr>) (g_handles st)"
  by (simp add: vfs_init_def Let_def split_beta option.case_eq_if del: upt_rec_numeral find_fat.simps)

lemma vfs_init_closed:
  assumes "length (g_handles st) = VFS_MAX_HANDLES"
  shows "vfs_ok (vfs_init fat hw sector_buf st)" "objects (files_of (vfs_init fat hw sector_buf st)) h = None"
  using assms
  by (auto simp: vfs_ok_def vfs_init_handles objects_of object_of_def handle_def handle_range_def nat_less_iff)

text \<open>The handle a call acts on.\<close>

fun acts_on :: "vfs_call \<Rightarrow> int option" where
  "acts_on (Open path mode) = None" | "acts_on (Socket_Handle s) = None"
| "acts_on (Socket_Of h) = Some h" | "acts_on (Read h buffer n) = Some h" | "acts_on (Write h buffer n) = Some h"
| "acts_on (Seek h offset) = Some h" | "acts_on (Tell h) = Some h" | "acts_on (File_Size h) = Some h"
| "acts_on (Truncate h len) = Some h" | "acts_on (Sync h) = Some h" | "acts_on (Readdir h out) = Some h"
| "acts_on (Fstat h out) = Some h" | "acts_on (Handle_Type h) = Some h" | "acts_on (Close h) = Some h"

lemma free_handle_None: "free_handle a = Some h \<Longrightarrow> objects a h = None"
  by (auto simp: free_handle_def find_Some_iff)

lemma with_file_other: "h' \<noteq> h \<Longrightarrow> objects (snd (with_file f h a)) h' = objects a h'"
  by (auto simp: with_file_def Let_def split: option.split object.split prod.split)

lemma spec_other:
  assumes "spec_do fat api poll c a = Some (r, a')" "objects a h \<noteq> None" "acts_on c \<noteq> Some h"
  shows "objects a' h = objects a h"
proof (cases c)
  case (Open path mode)
  then show ?thesis
    using assms free_handle_None [of a]
    by (fastforce simp: spec_open_def Let_def split: prod.splits option.splits if_splits)
next
  case (Socket_Handle s)
  then show ?thesis
    using assms free_handle_None [of a] by (auto split: option.splits)
next
  case (Truncate g len)
  then show ?thesis
    using assms
    by (auto simp: with_file_other spec_truncate_def Let_def split_beta split: if_splits)
next
  case (Close g)
  then show ?thesis
    using assms by (auto simp: spec_close_def split: option.splits object.splits)
qed (use assms in
  \<open>auto simp: with_file_other spec_read_def spec_write_def spec_readdir_def Let_def split_beta split: option.splits object.splits if_splits prod.splits\<close>)

section \<open>The volume that is mounted\<close>

lemma boot_sector_cong: "(\<And>i. i < 512 \<Longrightarrow> f i = g i) \<Longrightarrow> is_fat_boot_sector f = is_fat_boot_sector g"
  by (simp add: is_fat_boot_sector_def)

lemma nth_mem_range: "i < n \<Longrightarrow> mem_range mem p n ! i = mem (p + of_nat i)"
  by (simp add: mem_range_def)

lemma find_fat_first:
  assumes "obeys hw port page buf I disk" "driver_apart page buf sector_buf 512" "disk_ready port page buf I st"
  shows "\<exists>st'. find_fat hw sector_buf lbas st =
      (map_option of_nat (List.find (\<lambda>l. is_fat_boot_sector ((!) (disk (ah_dev (st_ahci st)) (of_nat l)))) lbas), st') \<and>
    disk_ready port page buf I st' \<and> disk (ah_dev (st_ahci st')) = disk (ah_dev (st_ahci st))"
  using assms(3)
proof (induction lbas arbitrary: st)
  case (Cons l lbas)
  have "driver_apart page buf sector_buf (512 * unat (1 :: u8))"
    using assms(2) by simp
  from storage_read [OF assms(1) Cons.prems this, of "of_nat l"]
  obtain st1 where st1: "storage_read_sectors hw (of_nat l) 1 sector_buf st = (True, st1)"
    "disk_has_read port page buf I disk (of_nat l) (unat (1 :: u8)) sector_buf st st1"
    by blast
  let ?sector = "disk (ah_dev (st_ahci st)) (of_nat l)"
  have sector: "mem_range (ah_mem (st_ahci st1)) sector_buf 512 = ?sector"
    and kept: "disk_ready port page buf I st1" "disk (ah_dev (st_ahci st1)) = disk (ah_dev (st_ahci st))"
    using st1(2) Cons.prems by (simp_all add: disk_has_read_def has_read_def sectors_from_def disk_ready_def)
  have "is_fat_boot_sector (\<lambda>i. ah_mem (st_ahci st1) (sector_buf + of_nat i)) = is_fat_boot_sector ((!) ?sector)"
    unfolding sector [symmetric] by (rule boot_sector_cong) (simp add: nth_mem_range)
  then show ?case
    using Cons.IH [OF kept(1)] kept st1(1) by auto
qed simp

section \<open>Properties\<close>


text \<open>
  C39: Handles do not interfere: a call on one handle, and an open or the making of a socket handle, leaves the
  object every other used handle is bound to as it was, its file position and contents handle included.
\<close>

theorem vfs_handles_apart:
  assumes "vfs_ok st" "vfs_do fat api poll c st = Some (r, st')" "acts_on c \<noteq> Some h" "objects (files_of st) h \<noteq> None"
  shows "objects (files_of st') h = objects (files_of st) h"
  using vfs_do_sim [OF assms(1), of fat api poll c] assms(2-4) spec_other by fastforce


section \<open>An example volume\<close>

text \<open>Files by name; an open file is its name and a position.\<close>

definition demo_open :: "u8 list \<Rightarrow> u8 \<Rightarrow> (u8 list \<Rightarrow> u8 list option) \<Rightarrow> u32 \<times> (u8 list \<times> nat) \<times> (u8 list \<Rightarrow> u8 list option)" where
  "demo_open path mode fs =
     (if mode AND FA_CREATE_ALWAYS \<noteq> 0 then (0, (path, 0), fs(path \<mapsto> []))
      else if fs path = None then (4, (path, 0), fs) else (0, (path, 0), fs))"

definition demo_fatfs :: "(u8 list \<Rightarrow> u8 list option, u8 list \<times> nat, unit) fatfs" where
  "demo_fatfs =
     \<lparr>f_mount = (\<lambda>fs. (0, fs)), f_open = demo_open,
      f_opendir = (\<lambda>path fs. (if path = [47] then 0 else 5, (), fs)),
      f_read = (\<lambda>(p, k) n fs. let data = take (unat n) (drop k (the (fs p))) in (0, data, (p, k + length data), fs)),
      f_write = (\<lambda>(p, k) data fs. (0, of_nat (length data), (p, k + length data), fs(p \<mapsto> take k (the (fs p)) @ data))),
      f_lseek = (\<lambda>(p, _) k fs. (0, (p, unat k), fs)), f_truncate = (\<lambda>(p, k) fs. (0, (p, k), fs(p \<mapsto> take k (the (fs p))))),
      f_sync = (\<lambda>f fs. (0, f, fs)), f_close = (\<lambda>_ fs. fs), f_tell = (\<lambda>(_, k). of_nat k), f_size = (\<lambda>_. 0),
      f_readdir = (\<lambda>_ fs. (0, \<lparr>fname = [], fattrib = 0, fsize = 0\<rparr>, (), fs)), f_closedir = (\<lambda>_ fs. fs),
      f_stat = (\<lambda>_ fs. (4, \<lparr>fname = [], fattrib = 0, fsize = 0\<rparr>, fs)), f_mkdir = (\<lambda>_ fs. (8, fs)),
      f_unlink = (\<lambda>p fs. (0, fs(p := None))), f_rename = (\<lambda>p q fs. (0, fs(q := fs p, p := None)))\<rparr>"

definition demo_vfs :: "(u8 list \<Rightarrow> u8 list option, u8 list \<times> nat, unit, unit) vfs" where
  "demo_vfs =
     \<lparr>g_vfs_ready = True, g_fatfs = Map.empty,
      g_handles = replicate 32 \<lparr>h_in_use = False, h_type = 0, h_fil = ([], 0), h_dir = (), h_socket_id = -1\<rparr>,
      vfs_net = demo_net 3\<rparr>"

lemma demo_vfs_ok: "vfs_ok demo_vfs"
  by (simp add: vfs_ok_def demo_vfs_def VFS_MAX_HANDLES_def)

lemma demo_objects: "objects (files_of demo_vfs) = (\<lambda>_. None)"
  by (auto simp: files_of_def demo_vfs_def object_of_def handle_def handle_range_def VFS_MAX_HANDLES_def nat_less_iff)

lemma demo_files:
  "files_of demo_vfs = \<lparr>objects = \<lambda>_. None, fs_state = Map.empty, net_state = demo_net 3, mounted = True\<rparr>"
  using demo_objects by (simp add: files_of_def demo_vfs_def)

definition demo_calls :: "vfs_call list" where
  "demo_calls =
     [Open [47, 65] 0x0F, Write 0 0x9000 3, Tell 0, Open [47] 1, Handle_Type 1, Close 0, Open [47, 66] 1, Handle_Type 0,
      Open [47, 65] 1, Read 0 0xA000 10]"

lemma demo_fatfs_simps:
  "f_open demo_fatfs = demo_open" "f_opendir demo_fatfs path fs = (if path = [47] then 0 else 5, (), fs)"
  "f_read demo_fatfs (p, k) n fs = (let data = take (unat n) (drop k (the (fs p))) in (0, data, (p, k + length data), fs))"
  "f_write demo_fatfs (p, k) data fs = (0, of_nat (length data), (p, k + length data), fs(p \<mapsto> take k (the (fs p)) @ data))"
  "f_tell demo_fatfs (p, k) = of_nat k" "f_close demo_fatfs f fs = fs"
  by (simp_all add: demo_fatfs_def)

lemma first_slots: "[0..<32] = 0 # Suc 0 # [2..<32]"
  by (simp add: upt_conv_Cons numeral_2_eq_2)

lemma demo_history:
  "map_option fst (history (spec_do demo_fatfs demo_api demo_poll) demo_calls (files_of demo_vfs)) =
    Some (map (\<lambda>r. (r, None)) [0, 3, 3, 1, 1, 0, -1, -1, 0, 3])"
  by (simp add: demo_files demo_calls_def free_handle_def spec_open_def spec_write_def spec_read_def spec_close_def
      demo_fatfs_simps demo_open_def lit_def bind_def FA_CREATE_ALWAYS_def fat_mode_def VFS_MODE_READ_def VFS_MODE_WRITE_def
      VFS_MODE_CREATE_def VFS_MODE_TRUNC_def FA_READ_def FA_WRITE_def FA_OPEN_ALWAYS_def FA_OPEN_EXISTING_def Let_def
      first_slots mem_range_def)


definition demo_open_vfs :: "(u8 list \<Rightarrow> u8 list option, u8 list \<times> nat, unit, unit) vfs" where
  "demo_open_vfs = demo_vfs\<lparr>g_handles := (g_handles demo_vfs)[1 := \<lparr>h_in_use = True, h_type = VFS_HANDLE_FILE, h_fil = ([47, 65], 2), h_dir = (), h_socket_id = -1\<rparr>]\<rparr>"

lemma demo_open_vfs:
  "vfs_ok demo_open_vfs" "objects (files_of demo_open_vfs) 1 = Some (OFile ([47, 65], 2))"
  "vfs_do demo_fatfs demo_api demo_poll (Open [47] 1) demo_open_vfs =
     Some ((0, None), upd_handle 0 (\<lambda>k. k\<lparr>h_in_use := True, h_type := VFS_HANDLE_DIR\<rparr>) demo_open_vfs)"
proof -
  show "vfs_ok demo_open_vfs" "objects (files_of demo_open_vfs) 1 = Some (OFile ([47, 65], 2))"
    by (auto simp: vfs_ok_def demo_open_vfs_def demo_vfs_def VFS_MAX_HANDLES_def objects_of object_of_def handle_def handle_range_def
        dest!: set_update_subset_insert [THEN subsetD])
  show "vfs_do demo_fatfs demo_api demo_poll (Open [47] 1) demo_open_vfs =
     Some ((0, None), upd_handle 0 (\<lambda>k. k\<lparr>h_in_use := True, h_type := VFS_HANDLE_DIR\<rparr>) demo_open_vfs)"
    by (simp add: vfs_open_def open_dir_def allocate_handle_def demo_open_vfs_def demo_vfs_def VFS_MAX_HANDLES_def first_slots
        Let_def demo_fatfs_simps FR_OK_def upd_handle_def handle_def)
qed

theorem vfs_handles_apart_witness:
  "\<exists>st'. vfs_do demo_fatfs demo_api demo_poll (Open [47] 1) demo_open_vfs = Some ((0, None), st') \<and>
     objects (files_of st') 1 = Some (OFile ([47, 65], 2))"
  using vfs_handles_apart [OF demo_open_vfs(1,3), of 1] demo_open_vfs(2,3) by simp

definition demo_boot_sector :: "u8 list" where
  "demo_boot_sector = [0xEB, 0, 0x90] @ replicate 79 0 @ [70, 65, 84] @ replicate 425 0 @ [0x55, 0xAA]"

lemma demo_boot_sector: "is_fat_boot_sector ((!) demo_boot_sector)" "length demo_boot_sector = 512"
  "\<not> is_fat_boot_sector ((!) (replicate 512 0))"
  by (simp_all add: is_fat_boot_sector_def demo_boot_sector_def nth_append)


end
