(* ===== verification/Spec2Isabelle.thy ===== *)
theory Spec2Isabelle
  imports Sched_Spec Draw_Spec Socket_Spec Http_Spec Vfs_Spec
begin

text \<open>
  A model of the core of WoOS, a 64-bit hobby operating system in C, and the theorems that make its
  parts correct.  The definitions are translated from the C sources, one definition per function (loops
  and long branches have definitions of their own), with the names of the source wherever the logic
  allows them.

  \<^bold>\<open>The program.\<close>  The loader passes a memory map to \<^verbatim>\<open>kernel.c\<close>, which starts the frame allocator
  (\<^verbatim>\<open>pmm.c\<close>), the page tables (\<^verbatim>\<open>vmm.c\<close>) and the kernel heap (\<^verbatim>\<open>kheap.c\<close>), then the drivers, the
  network and the threads.  Frames from the first back the tables of the second and the stacks of
  threads; the heap serves windows, sockets and the input queue.  Hardware interrupts (\<^verbatim>\<open>idt.c\<close>) feed the
  keyboard, mouse and timer, publish events in the input queue (\<^verbatim>\<open>input.c\<close>), wake blocked threads and
  may switch threads (\<^verbatim>\<open>sched.c\<close>).  Threads talk through a message queue (\<^verbatim>\<open>sched.c\<close>), own windows
  (\<^verbatim>\<open>fb.c\<close>), draw into the frame buffer (\<^verbatim>\<open>fb.c\<close>) and use sockets (\<^verbatim>\<open>net_socket.c\<close>) over lwIP, on which
  \<^verbatim>\<open>net.c\<close> builds an HTTP client.

  \<^bold>\<open>Theories and sources.\<close>
    \<^item> \<^verbatim>\<open>WoOS_Prelude\<close>: the integer types of C as words, lemma collections, facts about alignment and
      masks.  \<^verbatim>\<open>Fifo\<close>: the window of a ring buffer as a list, the locale \<open>bounded_fifo\<close>.
    \<^item> \<^verbatim>\<open>Pmm\<close> (\<^verbatim>\<open>pmm.c\<close>): bitmap, counters and search index are a record; the abstraction is the set of
      free frames.  The locale \<open>page_allocator\<close> states what the page tables and the scheduler rely on.
    \<^item> \<^verbatim>\<open>Vmm\<close> (\<^verbatim>\<open>vmm.c\<close>): tables are a store of 64-bit entries; the abstraction is the translation
      from virtual pages to entries.
    \<^item> \<^verbatim>\<open>Kheap\<close> (\<^verbatim>\<open>kheap.c\<close>): block headers are a typed store, the payload a byte memory.  The invariant
      says that blocks tile the arena and that no two unused blocks are neighbours; the abstraction is
      the set of live blocks.  The locale \<open>heap_allocator\<close> is what clients of the heap rely on.
    \<^item> \<^verbatim>\<open>Lib_Mem\<close>, \<^verbatim>\<open>Lib_Format\<close> (\<^verbatim>\<open>lib.c\<close>): memory, strings, number parsing and \<^verbatim>\<open>vsnprintf\<close>.
    \<^item> \<^verbatim>\<open>Serial\<close> (\<^verbatim>\<open>serial.c\<close>), \<^verbatim>\<open>Timer\<close> (\<^verbatim>\<open>timer.c\<close>), \<^verbatim>\<open>Mouse\<close> (\<^verbatim>\<open>mouse.c\<close>), \<^verbatim>\<open>Idt\<close> (\<^verbatim>\<open>idt.c\<close>), \<^verbatim>\<open>Tss\<close>
      (\<^verbatim>\<open>tss.c\<close>): the drivers.  What a port returns is an argument, what is written is a result.
    \<^item> \<^verbatim>\<open>Input\<close> (\<^verbatim>\<open>input.c\<close>): the event queue, an instance of \<open>bounded_fifo\<close>.
    \<^item> \<^verbatim>\<open>Sched_Base\<close>, \<^verbatim>\<open>Sched\<close>, \<^verbatim>\<open>Ipc\<close> (\<^verbatim>\<open>sched.c\<close>): the thread table, the scheduler and the message
      queue; \<^verbatim>\<open>Scheduling\<close> and \<^verbatim>\<open>Sched_Spec\<close> hold its lemmas, its step relation and its properties.
    \<^item> \<^verbatim>\<open>Windows\<close>, \<^verbatim>\<open>Font\<close>, \<^verbatim>\<open>Draw\<close>, \<^verbatim>\<open>Draw_Spec\<close> (\<^verbatim>\<open>fb.c\<close>, \<^verbatim>\<open>font_cp866.h\<close>): the window table and drawing.
    \<^item> \<^verbatim>\<open>Sockets\<close>, \<^verbatim>\<open>Socket_Table\<close>, \<^verbatim>\<open>Socket_Spec\<close> (\<^verbatim>\<open>net_socket.c\<close>): the socket table, with the receive
      ring as an instance of \<open>bounded_fifo\<close>.
    \<^item> \<^verbatim>\<open>Http\<close>, \<^verbatim>\<open>Http_Spec\<close> (\<^verbatim>\<open>net.c\<close>): parsing of HTTP responses and URLs, the chunked transfer encoding.
    \<^item> \<^verbatim>\<open>Pci\<close> (\<^verbatim>\<open>pci.c\<close>), \<^verbatim>\<open>Ahci\<close> (\<^verbatim>\<open>drivers/ahci.c\<close>), \<^verbatim>\<open>Storage\<close> (\<^verbatim>\<open>storage.c\<close>, \<^verbatim>\<open>external/fatfs/diskio.c\<close>): the
      devices behind I/O ports and memory-mapped registers are a parameter; \<^verbatim>\<open>Disk\<close> states what a disk
      must do and what the driver then does, \<^verbatim>\<open>Disk_Spec\<close> what the file system may rely on.  The locale
      \<open>chunked_transfer\<close> is the loop over transfers, with an instance for reading and one for writing.
    \<^item> \<^verbatim>\<open>Vfs\<close>, \<^verbatim>\<open>Vfs_Spec\<close> (\<^verbatim>\<open>vfs.c\<close>): the handles for files, directories and sockets.  FatFs is a record of
      functions; the abstraction is the map from handles to open objects.

  \<^bold>\<open>What the lemmas show.\<close>
    \<^item> Memory: a frame is handed out once until it is freed, the search for a frame or a run of frames
      misses none, mapping changes the translation of one page and no other, a new address space
      shares the kernel and nothing else, live heap blocks are disjoint and are kept by every call.
    \<^item> Threads: exactly one thread runs, a switch restores what was saved, the timer gives every
      ready thread its turn within one round, device interrupts can starve a ready thread, at most one
      instance of an application lives.
    \<^item> Events: queues deliver in order and count what they drop; the mouse handler keeps its packet
      buffer and the pointer in range for every byte stream; interrupts are acknowledged and dispatched.
    \<^item> Text: \<^verbatim>\<open>vsnprintf\<close> stays in its buffer and prints what it should, numbers read back, UTF-8 text is
      drawn by code points.
    \<^item> Screen: drawing changes the frame buffer only, a clipped rectangle equals the pixels one by one,
      every window owns a heap block of its size.
    \<^item> Network: every socket in use owns a receive buffer, closing returns and gives back the buffers of
      the sockets it closes, received bytes come out in order.
    \<^item> HTTP: a chunked body is decoded in place to what was encoded, a response with a content length is
      complete exactly when its body has arrived, a URL is taken apart into what it was built from.
    \<^item> Storage: the search for a controller misses none, reads deliver the sectors asked for, writes are
      read back, memory beside the buffers is untouched.
    \<^item> Files: every history of calls answers as the abstract table of open objects does, handles do not
      interfere, the volume mounted is the first one on the disk.

  \<^bold>\<open>Loops and bounds.\<close>  Loops over a range are folds or structural recursion.  A loop that follows
  pointers or waits for a terminator is a \<^theory_text>\<open>partial_function (option)\<close> or a \<^theory_text>\<open>function\<close> with a measure;
  for the former the theorems say that the result is \<^term>\<open>Some\<close>.  Closing a socket recurses over the
  connections that wait in it: the fuel is 64, and six times the number of sockets in use plus one, at
  most 49, is proved to be enough.  Machine integers are words of the width of the C type; a frame
  number, a position in a table or an offset into a buffer that the code keeps in a wide unsigned
  variable is a natural where it cannot wrap, and the places where it can are in the findings.

  \<^bold>\<open>Not modelled.\<close>  Code outside the source tree of the kernel proper is a parameter: lwIP answers the
  calls of the sockets, FatFs those of the file layer, device ports return bytes, the linker gives addresses.  Waiting for hardware,
  TLB and cache effects, serial logging and the floating-point helpers of \<^verbatim>\<open>lib.c\<close> have no counterpart.
  An interrupt handler and an operation that runs with interrupts off are one atomic step.  The vendored
  libraries, the applications and the WebAssembly host interface (\<^verbatim>\<open>wasi.c\<close>, which hands the
  calls of a guest to the operations modelled here) are left out, as are the assembly files, the
  virtio-gpu and virtio-net drivers and the TLS part of the HTTP client.
\<close>

end
